(* ===== verification/Go_Float.thy ===== *)
theory Go_Float
  imports Complex_Main "HOL-Library.Log_Nat" Go_Prelude
begin

text \<open>
  Go's \<^verbatim>\<open>float64\<close> and \<^verbatim>\<open>float32\<close>: a finite value is the rational number it denotes,
  beside the two infinities and NaN. Every arithmetic operation computes the exact rational
  result and rounds it to the nearest representable number, ties to even, as IEEE 754 and the
  Go specification require; results beyond the largest finite number become infinite.
  The two zeros are one value: no operation modelled here divides by a zero or
  inspects a sign bit.

  The order facts below (rounding is monotone and keeps small integers) are what the score
  arithmetic of the components relies on.
\<close>

datatype fl = NaN | NInf | Fin rat | PInf

section \<open>Rounding\<close>

text \<open>Round to the nearest integer, ties to even.\<close>

definition round_even :: "rat \<Rightarrow> int" where
  "round_even x =
     (let f = \<lfloor>x\<rfloor>; r = x - of_int f
      in if r < 1 / 2 then f else if 1 / 2 < r then f + 1
         else if even f then f else f + 1)"

lemma round_even_of_int [simp]: "round_even (of_int n) = n"
  by (simp add: round_even_def)

lemma round_even_bounds: "\<lfloor>x\<rfloor> \<le> round_even x \<and> round_even x \<le> \<lfloor>x\<rfloor> + 1"
  by (simp add: round_even_def Let_def)

lemma round_even_mono:
  assumes "x \<le> y"
  shows "round_even x \<le> round_even y"
proof (cases "\<lfloor>x\<rfloor> = \<lfloor>y\<rfloor>")
  case True
  with assms show ?thesis by (auto simp: round_even_def Let_def)
next
  case False
  with assms have "\<lfloor>x\<rfloor> + 1 \<le> \<lfloor>y\<rfloor>"
    using floor_mono[OF assms] by linarith
  with round_even_bounds[of x] round_even_bounds[of y] show ?thesis by linarith
qed

lemma round_even_le_int: "x \<le> of_int n \<Longrightarrow> round_even x \<le> n"
  using round_even_mono[of x "of_int n"] by simp

lemma round_even_ge_int: "of_int n \<le> x \<Longrightarrow> n \<le> round_even x"
  using round_even_mono[of "of_int n" x] by simp

text \<open>The binary exponent of a positive rational: \<open>2\<^sup>e \<le> q < 2\<^sup>e\<^sup>+\<^sup>1\<close>.\<close>

definition fexp :: "rat \<Rightarrow> int" where
  "fexp q = (let (n, d) = quotient_of q; k = bitlen n - bitlen d
             in if 2 powi k \<le> q then k else k - 1)"

text \<open>Distance of neighbouring floats with \<open>p\<close> significant bits and least exponent \<open>emin\<close>.\<close>

definition fulp :: "nat \<Rightarrow> int \<Rightarrow> rat \<Rightarrow> rat" where
  "fulp p emin q = 2 powi (max (fexp q) emin - (int p - 1))"

text \<open>Rounding of a positive rational, before the overflow test.\<close>

definition rnd_pos :: "nat \<Rightarrow> int \<Rightarrow> rat \<Rightarrow> rat" where
  "rnd_pos p emin q = of_int (round_even (q / fulp p emin q)) * fulp p emin q"

definition rnd :: "nat \<Rightarrow> int \<Rightarrow> int \<Rightarrow> rat \<Rightarrow> fl" where
  "rnd p emin emax q =
     (if q = 0 then Fin 0
      else if 0 < q then
        (let r = rnd_pos p emin q in if 2 powi (emax + 1) \<le> r then PInf else Fin r)
      else
        (let r = rnd_pos p emin (- q) in if 2 powi (emax + 1) \<le> r then NInf else Fin (- r)))"

abbreviation rnd64 :: "rat \<Rightarrow> fl" where
  "rnd64 \<equiv> rnd 53 (- 1022) 1023"

abbreviation rnd32 :: "rat \<Rightarrow> fl" where
  "rnd32 \<equiv> rnd 24 (- 126) 127"

section \<open>Comparison and arithmetic of \<^verbatim>\<open>float64\<close>\<close>

fun fless :: "fl \<Rightarrow> fl \<Rightarrow> bool" where
  "fless NaN _ = False"
| "fless _ NaN = False"
| "fless PInf _ = False"
| "fless _ NInf = False"
| "fless NInf _ = True"
| "fless _ PInf = True"
| "fless (Fin a) (Fin b) = (a < b)"

fun feq :: "fl \<Rightarrow> fl \<Rightarrow> bool" where
  "feq NaN _ = False"
| "feq a b = (a = b)"

definition fle :: "fl \<Rightarrow> fl \<Rightarrow> bool" where
  "fle a b \<longleftrightarrow> fless a b \<or> feq a b"

fun fneg :: "fl \<Rightarrow> fl" where
  "fneg NaN = NaN"
| "fneg PInf = NInf"
| "fneg NInf = PInf"
| "fneg (Fin a) = Fin (- a)"

fun fadd :: "fl \<Rightarrow> fl \<Rightarrow> fl" where
  "fadd NaN _ = NaN"
| "fadd _ NaN = NaN"
| "fadd PInf NInf = NaN"
| "fadd NInf PInf = NaN"
| "fadd PInf _ = PInf"
| "fadd _ PInf = PInf"
| "fadd NInf _ = NInf"
| "fadd _ NInf = NInf"
| "fadd (Fin a) (Fin b) = rnd64 (a + b)"

definition fsign_inf :: "bool \<Rightarrow> fl" where
  "fsign_inf pos = (if pos then PInf else NInf)"

fun fmul :: "fl \<Rightarrow> fl \<Rightarrow> fl" where
  "fmul NaN _ = NaN"
| "fmul _ NaN = NaN"
| "fmul (Fin a) (Fin b) = rnd64 (a * b)"
| "fmul (Fin a) PInf = (if a = 0 then NaN else fsign_inf (0 < a))"
| "fmul (Fin a) NInf = (if a = 0 then NaN else fsign_inf (a < 0))"
| "fmul PInf (Fin b) = (if b = 0 then NaN else fsign_inf (0 < b))"
| "fmul NInf (Fin b) = (if b = 0 then NaN else fsign_inf (b < 0))"
| "fmul PInf PInf = PInf"
| "fmul PInf NInf = NInf"
| "fmul NInf PInf = NInf"
| "fmul NInf NInf = PInf"

text \<open>Division; the divisor zero is the positive zero.\<close>

fun fdiv :: "fl \<Rightarrow> fl \<Rightarrow> fl" where
  "fdiv NaN _ = NaN"
| "fdiv _ NaN = NaN"
| "fdiv (Fin a) (Fin b) =
     (if b = 0 then (if a = 0 then NaN else fsign_inf (0 < a)) else rnd64 (a / b))"
| "fdiv (Fin a) _ = Fin 0"
| "fdiv PInf (Fin b) = fsign_inf (0 \<le> b)"
| "fdiv NInf (Fin b) = fsign_inf (b < 0)"
| "fdiv _ _ = NaN"

definition of_int64 :: "int \<Rightarrow> fl" where
  "of_int64 n = rnd64 (of_int n)"

section \<open>Exponent and rounding of positive rationals\<close>

lemma powi2_mono: "a \<le> b \<Longrightarrow> (2::rat) powi a \<le> 2 powi b"
  by (rule power_int_increasing) simp_all

lemma powi2_strict_mono: "a < b \<Longrightarrow> (2::rat) powi a < 2 powi b"
  by (rule power_int_strict_increasing) simp_all

lemma powi2_less_imp: "(2::rat) powi a < 2 powi b \<Longrightarrow> a < b"
  by (rule ccontr) (use powi2_mono[of b a] in simp)

lemma powi2_diff: "(2::rat) powi (a - b) = 2 powi a / 2 powi b"
  by (simp add: power_int_diff)

lemma powi2_add: "(2::rat) powi (a + b) = 2 powi a * 2 powi b"
  by (simp add: power_int_add)

lemma powi2_nat: "0 \<le> k \<Longrightarrow> (2::rat) powi k = of_int (2 ^ nat k)"
  by (simp add: power_int_def)

lemma bitlen_powi_bounds:
  assumes "0 < n"
  shows "(2::rat) powi (bitlen n - 1) \<le> of_int n" and "of_int n < (2::rat) powi bitlen n"
proof -
  have "0 < bitlen n" using assms bitlen_nonneg[of n] bitlen_eq_zero_iff[of n] by linarith
  then have eqs: "(2::rat) powi (bitlen n - 1) = of_int (2 ^ nat (bitlen n - 1))"
    "(2::rat) powi bitlen n = of_int (2 ^ nat (bitlen n))"
    by (simp_all only: powi2_nat)
  from bitlen_bounds[OF assms] show "(2::rat) powi (bitlen n - 1) \<le> of_int n"
    and "of_int n < (2::rat) powi bitlen n"
    unfolding eqs of_int_le_iff of_int_less_iff by simp_all
qed

lemma fexp_bounds:
  assumes "0 < q"
  shows "2 powi fexp q \<le> q" and "q < 2 powi (fexp q + 1)"
proof -
  obtain n d where nd: "quotient_of q = (n, d)" by (cases "quotient_of q")
  have d: "0 < d" using quotient_of_denom_pos[OF nd] .
  have q: "q = of_int n / of_int d" using quotient_of_div[OF nd] .
  have n: "0 < n" using assms d unfolding q by (simp add: zero_less_divide_iff)
  let ?k = "bitlen n - bitlen d"
  have "q < 2 powi bitlen n / 2 powi (bitlen d - 1)"
    unfolding q using bitlen_powi_bounds[OF n] bitlen_powi_bounds[OF d] n d
    by (intro frac_less) simp_all
  then have hi: "q < 2 powi (?k + 1)" by (simp add: powi2_diff[symmetric] algebra_simps)
  have "2 powi (bitlen n - 1) / 2 powi bitlen d < q"
    unfolding q using bitlen_powi_bounds[OF n] bitlen_powi_bounds[OF d] n d
    by (intro frac_less2) simp_all
  then have lo: "2 powi (?k - 1) \<le> q" by (simp add: powi2_diff[symmetric] algebra_simps)
  have e: "fexp q = (if 2 powi ?k \<le> q then ?k else ?k - 1)"
    by (simp add: fexp_def nd)
  show "2 powi fexp q \<le> q" using lo by (simp add: e)
  show "q < 2 powi (fexp q + 1)" using hi by (simp add: e)
qed

lemma fexp_unique:
  assumes "2 powi e \<le> q" and "q < 2 powi (e + 1)"
  shows "fexp q = e"
proof -
  have q: "0 < q" using assms(1) by (rule less_le_trans[rotated]) simp
  have "e < fexp q + 1" using assms(1) fexp_bounds(2)[OF q] powi2_less_imp by (meson le_less_trans)
  moreover have "fexp q < e + 1"
    using assms(2) fexp_bounds(1)[OF q] powi2_less_imp by (meson le_less_trans)
  ultimately show ?thesis by simp
qed

lemma fexp_mono:
  assumes "0 < x" and "x \<le> y"
  shows "fexp x \<le> fexp y"
proof -
  have "2 powi fexp x < (2::rat) powi (fexp y + 1)"
    using fexp_bounds(1)[OF assms(1)] fexp_bounds(2)[of y] assms by simp
  then show ?thesis using powi2_less_imp by fastforce
qed

lemma fulp_pos [simp]: "0 < fulp p emin q"
  by (simp add: fulp_def)

lemma rnd_pos_le_grid:
  assumes "q \<le> of_int m * fulp p emin q"
  shows "rnd_pos p emin q \<le> of_int m * fulp p emin q"
proof -
  have "q / fulp p emin q \<le> of_int m"
    using assms by (simp add: pos_divide_le_eq)
  then show ?thesis by (simp add: rnd_pos_def round_even_le_int)
qed

lemma rnd_pos_ge_grid:
  assumes "of_int m * fulp p emin q \<le> q"
  shows "of_int m * fulp p emin q \<le> rnd_pos p emin q"
proof -
  have "of_int m \<le> q / fulp p emin q"
    using assms by (simp add: pos_le_divide_eq)
  then show ?thesis by (simp add: rnd_pos_def round_even_ge_int)
qed

lemma rnd_pos_exact:
  "q = of_int m * fulp p emin q \<Longrightarrow> rnd_pos p emin q = q"
  using rnd_pos_le_grid[of q m p emin] rnd_pos_ge_grid[of m p emin q] by simp

lemma rnd_pos_nonneg: "0 \<le> q \<Longrightarrow> 0 \<le> rnd_pos p emin q"
  using rnd_pos_ge_grid[of 0 p emin q] by simp

lemma powi2_on_grid:
  assumes "max (fexp q) emin \<le> b + int p - 1"
  shows "\<exists>m. (2::rat) powi b = of_int m * fulp p emin q"
proof -
  let ?j = "b - (max (fexp q) emin - (int p - 1))"
  have "(2::rat) powi b = 2 powi ?j * fulp p emin q"
    unfolding fulp_def by (simp add: powi2_add[symmetric])
  also have "(2::rat) powi ?j = of_int (2 ^ nat ?j)"
    using assms by (intro powi2_nat) linarith
  finally show ?thesis by blast
qed

lemma rnd_pos_mono:
  assumes "0 < p" and "0 < x" and "x \<le> y"
  shows "rnd_pos p emin x \<le> rnd_pos p emin y"
proof (cases "max (fexp x) emin = max (fexp y) emin")
  case True
  then have u: "fulp p emin x = fulp p emin y" by (simp add: fulp_def)
  have "round_even (x / fulp p emin y) \<le> round_even (y / fulp p emin y)"
    using assms by (intro round_even_mono divide_right_mono) (simp_all add: less_imp_le)
  then show ?thesis by (simp add: rnd_pos_def u)
next
  case False
  let ?b = "fexp y"
  have lt: "max (fexp x) emin < ?b" using False fexp_mono[OF assms(2,3)] by linarith
  have "x < 2 powi (fexp x + 1)" using fexp_bounds(2)[OF assms(2)] .
  also have "\<dots> \<le> 2 powi ?b" using lt by (intro powi2_mono) linarith
  finally have x: "x \<le> 2 powi ?b" by simp
  have y: "2 powi ?b \<le> y" using fexp_bounds(1)[of y] assms by simp
  obtain m where m: "(2::rat) powi ?b = of_int m * fulp p emin x"
    using powi2_on_grid[of x emin ?b p] lt assms(1) by auto
  obtain m' where m': "(2::rat) powi ?b = of_int m' * fulp p emin y"
    using powi2_on_grid[of y emin ?b p] lt assms(1) by auto
  have "rnd_pos p emin x \<le> 2 powi ?b" using rnd_pos_le_grid[of x m] x m by simp
  also have "\<dots> \<le> rnd_pos p emin y" using rnd_pos_ge_grid[of m' p emin y] y m' by simp
  finally show ?thesis .
qed

section \<open>Rounding is monotone\<close>

text \<open>The floats without NaN are linearly ordered; \<open>fless\<close> and \<open>fle\<close> follow that order.\<close>

lemma fle_simps [simp]:
  "fle (Fin q) (Fin r) \<longleftrightarrow> q \<le> r"
  "fle NInf b \<longleftrightarrow> b \<noteq> NaN"
  "fle a PInf \<longleftrightarrow> a \<noteq> NaN"
  "\<not> fle NaN b" "\<not> fle a NaN"
  "\<not> fle PInf (Fin q)" "\<not> fle (Fin q) NInf" "\<not> fle PInf NInf"
  by (cases a; cases b; auto simp: fle_def)+

lemma fless_iff: "a \<noteq> NaN \<Longrightarrow> b \<noteq> NaN \<Longrightarrow> fless a b \<longleftrightarrow> \<not> fle b a"
  by (cases a; cases b) (auto simp: fle_def)

lemma not_fless_fle: "a \<noteq> NaN \<Longrightarrow> b \<noteq> NaN \<Longrightarrow> \<not> fless a b \<Longrightarrow> fle b a"
  by (simp add: fless_iff)

lemma fle_trans: "fle a b \<Longrightarrow> fle b c \<Longrightarrow> fle a c"
  by (cases a; cases b; cases c) (auto simp: fle_def)

lemma fle_total: "a \<noteq> NaN \<Longrightarrow> b \<noteq> NaN \<Longrightarrow> fle a b \<or> fle b a"
  by (cases a; cases b) (auto simp: fle_def)

lemma fle_refl: "a \<noteq> NaN \<Longrightarrow> fle a a"
  by (cases a) (auto simp: fle_def)

lemma fle_antisym: "fle a b \<Longrightarrow> fle b a \<Longrightarrow> a = b"
  by (cases a; cases b) (auto simp: fle_def)

lemma rnd_neg: "rnd p emin emax (- q) = fneg (rnd p emin emax q)"
  by (simp add: rnd_def Let_def)

lemma rnd_not_NaN [simp]: "rnd p emin emax q \<noteq> NaN"
  by (simp add: rnd_def Let_def)

lemma rnd_nonneg: "0 \<le> q \<Longrightarrow> fle (Fin 0) (rnd p emin emax q)"
  by (simp add: rnd_def Let_def rnd_pos_nonneg)

lemma fneg_le_iff: "fle (fneg a) (fneg b) \<longleftrightarrow> fle b a"
  by (cases a; cases b) (auto simp: fle_def)

lemma rnd_mono_pos:
  assumes "0 < p" and "0 < x" and "x \<le> y"
  shows "fle (rnd p emin emax x) (rnd p emin emax y)"
  using rnd_pos_mono[OF assms, of emin] assms by (auto simp: rnd_def Let_def)

lemma rnd_mono:
  assumes "0 < p" and "x \<le> y"
  shows "fle (rnd p emin emax x) (rnd p emin emax y)"
proof -
  consider "0 < x" | "x \<le> 0" "0 \<le> y" | "y < 0" by linarith
  then show ?thesis
  proof cases
    case 1
    then show ?thesis using rnd_mono_pos assms by blast
  next
    case 2
    have "fle (fneg (rnd p emin emax (- x))) (Fin 0)"
      using rnd_nonneg[of "- x" p emin emax] 2 fneg_le_iff[of _ "Fin 0"] by simp
    then have "fle (rnd p emin emax x) (Fin 0)" by (simp add: rnd_neg[symmetric])
    then show ?thesis using rnd_nonneg[of y p emin emax] 2 fle_trans by blast
  next
    case 3
    have "fle (rnd p emin emax (- y)) (rnd p emin emax (- x))"
      using 3 assms by (intro rnd_mono_pos) simp_all
    then show ?thesis by (simp add: rnd_neg fneg_le_iff)
  qed
qed

lemma rnd64_0 [simp]: "rnd64 0 = Fin 0"
  by (simp add: rnd_def)

text \<open>Concrete roundings are computed from the exponent, which is given.\<close>

lemma rnd64_eval:
  assumes "2 powi e \<le> q" and "q < 2 powi (e + 1)" and "- 1022 \<le> e" and "e < 1000"
    and "round_even (q * 2 powi (52 - e)) = m"
  shows "rnd64 q = Fin (of_int m * 2 powi (e - 52))"
proof -
  have q: "0 < q" using assms(1) by (rule less_le_trans[rotated]) simp
  have u: "fulp 53 (- 1022) q = 2 powi (e - 52)"
    using fexp_unique[OF assms(1,2)] assms(3) by (simp add: fulp_def max_def)
  have "q / fulp 53 (- 1022) q = q * 2 powi (52 - e)"
    unfolding u by (simp add: powi2_diff)
  then have r: "rnd_pos 53 (- 1022) q = of_int m * 2 powi (e - 52)"
    using assms(5) u by (simp add: rnd_pos_def)
  have "q \<le> of_int (2 ^ 53) * fulp 53 (- 1022) q"
  proof -
    have "(2::rat) powi (e + 1) = 2 powi 53 * 2 powi (e - 52)"
      by (simp only: powi2_add[symmetric]) (simp add: add.commute)
    then show ?thesis using assms(2) u by simp
  qed
  then have "rnd_pos 53 (- 1022) q \<le> of_int (2 ^ 53) * fulp 53 (- 1022) q"
    by (rule rnd_pos_le_grid)
  also have "\<dots> = (2::rat) powi (53 + (e - 52))"
    by (simp only: u powi2_add) simp
  also have "\<dots> < 2 powi (1023 + 1)" using assms(4) by (intro powi2_strict_mono) simp
  finally show ?thesis using r q by (simp add: rnd_def Let_def)
qed

lemma floor_rat_numeral [simp]:
  "\<lfloor>numeral a / numeral b :: rat\<rfloor> = numeral a div numeral b"
  using floor_divide_of_int_eq[where 'a = rat, of "numeral a" "numeral b"] by simp

lemmas rnd_eval_simps = round_even_def power_int_def Let_def power_divide

lemma rnd64_1 [simp]: "rnd64 1 = Fin 1"
  using rnd64_eval[of 0 1 "2 ^ 52"] by (simp add: round_even_def)

end
