(* ===== verification/Go_Heap.thy ===== *)
theory Go_Heap
  imports Go_Float
begin

text \<open>
  \<^verbatim>\<open>common/heap\<close>: the generic heap \<^verbatim>\<open>_heap\<close>, the \<^verbatim>\<open>PriorityQueue\<close> of the vector indices and
  the \<^verbatim>\<open>TopKFilter\<close> every recommender collects its best items with, over the sift operations of
  Go's \<^verbatim>\<open>container/heap\<close>.

  A slice of elements is a list; the comparison \<^verbatim>\<open><\<close> of the weight type is the parameter \<open>lt\<close>,
  instantiated by \<open>fless\<close> for floats. The locale \<open>min_queue\<close> states what a priority queue
  promises through the multiset of its elements, and its lemmas prove the top-k loop and the
  drain loop once; \<open>sift_order\<close> shows that the sift operations on any strict weak order provide
  it.
\<close>

section \<open>The sift operations of \<^verbatim>\<open>container/heap\<close>\<close>

definition par :: "nat \<Rightarrow> nat" where
  "par j = (j - 1) div 2"

function heap_up :: "('a \<Rightarrow> 'a \<Rightarrow> bool) \<Rightarrow> 'a list \<Rightarrow> nat \<Rightarrow> 'a list" where
  "heap_up ls xs j =
     (let i = par j in
      if i = j \<or> \<not> ls (xs ! j) (xs ! i) then xs else heap_up ls (swap i j xs) i)"
  by pat_completeness auto
termination
  by (relation "measure (\<lambda>(ls, xs, j). j)") (auto simp: par_def)

function heap_down :: "('a \<Rightarrow> 'a \<Rightarrow> bool) \<Rightarrow> 'a list \<Rightarrow> nat \<Rightarrow> nat \<Rightarrow> 'a list" where
  "heap_down ls xs i n =
     (let j1 = 2 * i + 1 in
      if n \<le> j1 then xs
      else let j = (if j1 + 1 < n \<and> ls (xs ! (j1 + 1)) (xs ! j1) then j1 + 1 else j1) in
        if \<not> ls (xs ! j) (xs ! i) then xs else heap_down ls (swap i j xs) j n)"
  by pat_completeness auto
termination
  by (relation "measure (\<lambda>(ls, xs, i, n). n - i)") (auto split: if_splits)

declare heap_up.simps [simp del] heap_down.simps [simp del]

definition heap_push :: "('a \<Rightarrow> 'a \<Rightarrow> bool) \<Rightarrow> 'a \<Rightarrow> 'a list \<Rightarrow> 'a list" where
  "heap_push ls x xs = heap_up ls (xs @ [x]) (length xs)"

text \<open>Popping an empty heap panics: \<^verbatim>\<open>Swap(0, -1)\<close> indexes out of range.\<close>

definition heap_pop :: "('a \<Rightarrow> 'a \<Rightarrow> bool) \<Rightarrow> 'a list \<Rightarrow> go_fail + 'a \<times> 'a list" where
  "heap_pop ls xs =
     (if xs = [] then Inl (Panic ''index out of range'')
      else let n = length xs - 1; ys = heap_down ls (swap 0 n xs) 0 n
           in Inr (ys ! n, take n ys))"

text \<open>Popping \<open>n\<close> elements, the first popped one last: the loop of \<^verbatim>\<open>PopAll\<close>, which fills its
  result from the last index down.\<close>

fun drain :: "('q \<Rightarrow> go_fail + 'a \<times> 'q) \<Rightarrow> nat \<Rightarrow> 'q \<Rightarrow> 'a list \<Rightarrow> go_fail + 'a list \<times> 'q" where
  "drain pop 0 q acc = Inr (acc, q)"
| "drain pop (Suc n) q acc = rbind (pop q) (\<lambda>(x, q'). drain pop n q' (x # acc))"

section \<open>The queue contract and its clients\<close>

text \<open>\<open>A\<close> holds \<open>k\<close> of the greatest elements of \<open>M\<close> (all of them if \<open>M\<close> is smaller).\<close>

definition top_of :: "('a \<Rightarrow> 'a \<Rightarrow> bool) \<Rightarrow> nat \<Rightarrow> 'a multiset \<Rightarrow> 'a multiset \<Rightarrow> bool" where
  "top_of ls k M A \<longleftrightarrow>
     A \<subseteq># M \<and> size A = min k (size M) \<and> (\<forall>a \<in># A. \<forall>b \<in># M - A. \<not> ls a b)"

lemma top_of_empty: "top_of ls k {#} {#}"
  by (simp add: top_of_def)

text \<open>A queue over elements compared by \<open>ls\<close>, seen through the multiset of its elements.\<close>

locale min_queue =
  fixes ls :: "'a \<Rightarrow> 'a \<Rightarrow> bool" and ok :: "'a \<Rightarrow> bool"
    and push :: "'a \<Rightarrow> 'q \<Rightarrow> 'q" and pop :: "'q \<Rightarrow> go_fail + 'a \<times> 'q"
    and contents :: "'q \<Rightarrow> 'a multiset" and invar :: "'q \<Rightarrow> bool"
  assumes le_refl: "ok x \<Longrightarrow> \<not> ls x x"
    and le_trans: "ok x \<Longrightarrow> ok y \<Longrightarrow> ok z \<Longrightarrow> \<not> ls y x \<Longrightarrow> \<not> ls z y \<Longrightarrow> \<not> ls z x"
    and invar_ok: "invar q \<Longrightarrow> x \<in># contents q \<Longrightarrow> ok x"
    and push_contents: "invar q \<Longrightarrow> ok x \<Longrightarrow> contents (push x q) = contents q + {#x#}"
    and push_invar: "invar q \<Longrightarrow> ok x \<Longrightarrow> invar (push x q)"
    and pop_empty: "contents q = {#} \<Longrightarrow> pop q = Inl (Panic ''index out of range'')"
    and pop_some: "invar q \<Longrightarrow> contents q \<noteq> {#} \<Longrightarrow>
      \<exists>x q'. pop q = Inr (x, q') \<and> invar q' \<and> contents q = add_mset x (contents q') \<and>
        (\<forall>y \<in># contents q. \<not> ls y x)"
begin

lemma drain_sorted:
  assumes "invar q" and "size (contents q) = n"
    and "\<forall>x \<in># contents q. \<forall>y \<in> set acc. \<not> ls x y"
    and "sorted_wrt (\<lambda>x y. \<not> ls x y) acc"
  shows "\<exists>ys q'. drain pop n q acc = Inr (ys, q') \<and> mset ys = contents q + mset acc \<and>
    sorted_wrt (\<lambda>x y. \<not> ls x y) ys \<and> invar q' \<and> contents q' = {#}"
  using assms
proof (induction n arbitrary: q acc)
  case 0
  then show ?case by simp
next
  case (Suc n)
  then have "contents q \<noteq> {#}" by auto
  from pop_some[OF Suc.prems(1) this] obtain x q' where
    x: "pop q = Inr (x, q')" "invar q'" "contents q = add_mset x (contents q')"
    "\<forall>y \<in># contents q. \<not> ls y x" by blast
  have "\<exists>ys p. drain pop n q' (x # acc) = Inr (ys, p) \<and>
      mset ys = contents q' + mset (x # acc) \<and>
      sorted_wrt (\<lambda>x y. \<not> ls x y) ys \<and> invar p \<and> contents p = {#}"
    using Suc.prems x by (intro Suc.IH) auto
  with x show ?case by auto
qed

lemma topk_push_small:
  assumes "invar q" and "ok x" and "top_of ls k M (contents q)" and "size (contents q) < k"
  shows "top_of ls k (add_mset x M) (contents (push x q))"
proof -
  have "contents q = M"
    using assms(3,4) by (auto simp: top_of_def min_def split: if_splits)
      (metis less_irrefl mset_subset_size subset_mset.le_neq_trans)
  then show ?thesis
    using assms by (auto simp: top_of_def push_contents)
qed

lemma topk_push_full:
  assumes inv: "invar q" and x: "ok x" and top: "top_of ls k M (contents q)"
    and okM: "\<forall>y \<in># M. ok y" and full: "k \<le> size (contents q)"
  shows "\<exists>y q'. pop (push x q) = Inr (y, q') \<and> invar q' \<and>
    top_of ls k (add_mset x M) (contents q')"
proof -
  let ?A = "contents q"
  have P: "contents (push x q) = add_mset x ?A" "invar (push x q)"
    using inv x by (simp_all add: push_contents push_invar)
  have "contents (push x q) \<noteq> {#}" using P(1) by simp
  from pop_some[OF P(2) this, unfolded P(1)] obtain y q' where
    y: "pop (push x q) = Inr (y, q')" "invar q'" "add_mset x ?A = add_mset y (contents q')"
    "\<forall>z \<in># add_mset x ?A. \<not> ls z y" by blast
  let ?B = "contents q'"
  have top': "?A \<subseteq># M" "size ?A = min k (size M)" "\<forall>a \<in># ?A. \<forall>b \<in># M - ?A. \<not> ls a b"
    using top by (auto simp: top_of_def)
  have sub: "add_mset y ?B \<subseteq># add_mset x M"
    using top'(1) y(3) by (metis mset_subset_eq_add_mset_cancel)
  have rest: "add_mset x M - ?B = add_mset y (M - ?A)"
  proof -
    have "add_mset x M = add_mset x ?A + (M - ?A)" using top'(1) by simp
    also have "\<dots> = ?B + add_mset y (M - ?A)" using y(3) by simp
    finally show ?thesis by simp
  qed
  have low: "\<not> ls a b" if a: "a \<in># ?B" and b: "b \<in># add_mset y (M - ?A)" for a b
  proof -
    have aA: "a \<in># add_mset x ?A" using a y(3) by simp
    have ayn: "\<not> ls a y" using aA y(4) by blast
    show ?thesis
    proof (cases "b = y")
      case False
      then have bD: "b \<in># M - ?A" using b by simp
      have oky: "ok y" and oka: "ok a" and okb: "ok b"
        using y(3) x okM top'(1) aA bD
        by (metis insert_iff mset_subset_eqD set_mset_add_mset_insert in_diffD)+
      show ?thesis
      proof (cases "a \<in># ?A")
        case False
        then have "a = x" using aA by simp
        moreover have "y \<noteq> x"
          using False y(3) a by (metis add_mset_add_mset_same_iff \<open>a = x\<close>)
        ultimately have "y \<in># ?A" using y(3) by (metis insert_iff set_mset_add_mset_insert)
        then have "\<not> ls y b" using top'(3) bD by blast
        then show ?thesis using ayn le_trans[of b y a] oky oka okb by blast
      qed (use top'(3) bD in blast)
    qed (use ayn in simp)
  qed
  have "size ?B = min k (size (add_mset x M))"
    using y(3) top'(2) full size_mset_mono[OF top'(1)]
    by (metis One_nat_def Suc_eq_plus1 add_diff_cancel_right' min.absorb1 min.absorb_iff1
        min_def not_less_eq_eq size_add_mset le_SucI)
  then have "top_of ls k (add_mset x M) ?B"
    using sub rest low unfolding top_of_def
    by (metis mset_subset_eq_insertD subset_mset.less_imp_le)
  with y(1,2) show ?thesis by blast
qed

end

section \<open>The sift operations implement the contract\<close>

lemma par_less: "0 < j \<Longrightarrow> par j < j"
  by (simp add: par_def)

lemma par_0 [simp]: "par 0 = 0"
  by (simp add: par_def)

lemma par_children: "0 < k \<Longrightarrow> par k = i \<longleftrightarrow> k = 2 * i + 1 \<or> k = 2 * i + 2"
  by (auto simp: par_def)

definition heap_upto :: "('a \<Rightarrow> 'a \<Rightarrow> bool) \<Rightarrow> 'a list \<Rightarrow> nat \<Rightarrow> bool" where
  "heap_upto ls xs n \<longleftrightarrow> (\<forall>k. 0 < k \<and> k < n \<longrightarrow> \<not> ls (xs ! k) (xs ! par k))"

text \<open>The heap order except at the edge above \<open>j\<close>, and except at the edges below \<open>i\<close>.\<close>

definition hole_up :: "('a \<Rightarrow> 'a \<Rightarrow> bool) \<Rightarrow> 'a list \<Rightarrow> nat \<Rightarrow> bool" where
  "hole_up ls xs j \<longleftrightarrow>
     (\<forall>k. 0 < k \<and> k < length xs \<and> k \<noteq> j \<longrightarrow> \<not> ls (xs ! k) (xs ! par k)) \<and>
     (\<forall>k. 0 < k \<and> k < length xs \<and> par k = j \<and> 0 < j \<longrightarrow> \<not> ls (xs ! k) (xs ! par j))"

definition hole_down :: "('a \<Rightarrow> 'a \<Rightarrow> bool) \<Rightarrow> 'a list \<Rightarrow> nat \<Rightarrow> nat \<Rightarrow> bool" where
  "hole_down ls xs n i \<longleftrightarrow>
     (\<forall>k. 0 < k \<and> k < n \<and> par k \<noteq> i \<longrightarrow> \<not> ls (xs ! k) (xs ! par k)) \<and>
     (\<forall>k. 0 < k \<and> k < n \<and> par k = i \<and> 0 < i \<longrightarrow> \<not> ls (xs ! k) (xs ! par i))"

lemma mset_heap_up [simp]: "j < length xs \<Longrightarrow> mset (heap_up ls xs j) = mset xs"
proof (induction ls xs j rule: heap_up.induct)
  case (1 ls xs j)
  have "par j \<le> j" by (cases j) (simp_all add: par_def)
  with 1 show ?case by (auto simp: heap_up.simps[of ls xs j] Let_def)
qed

lemma mset_heap_down [simp]:
  "i < length xs \<Longrightarrow> n \<le> length xs \<Longrightarrow> mset (heap_down ls xs i n) = mset xs"
proof (induction ls xs i n rule: heap_down.induct)
  case (1 ls xs i n)
  then show ?case by (simp add: heap_down.simps[of ls xs i n] Let_def)
qed

lemma length_heap_down [simp]: "length (heap_down ls xs i n) = length xs"
  by (induction ls xs i n rule: heap_down.induct)
    (subst heap_down.simps, simp add: Let_def)

lemma heap_down_above:
  "i < n \<Longrightarrow> n \<le> k \<Longrightarrow> heap_down ls xs i n ! k = xs ! k"
proof (induction ls xs i n rule: heap_down.induct)
  case (1 ls xs i n)
  then show ?case by (simp add: heap_down.simps[of ls xs i n] Let_def swap_outside)
qed

locale sift_order =
  fixes ls :: "'a \<Rightarrow> 'a \<Rightarrow> bool" and ok :: "'a \<Rightarrow> bool"
  assumes asym: "ok x \<Longrightarrow> ok y \<Longrightarrow> ls x y \<Longrightarrow> \<not> ls y x"
    and ntrans: "ok x \<Longrightarrow> ok y \<Longrightarrow> ok z \<Longrightarrow> \<not> ls y x \<Longrightarrow> \<not> ls z y \<Longrightarrow> \<not> ls z x"
begin

lemma hole_up_swap:
  assumes "hole_up ls xs j" and "j < length xs" and "0 < j" and "ls (xs ! j) (xs ! par j)"
    and "\<forall>x \<in> set xs. ok x"
  shows "hole_up ls (swap (par j) j xs) (par j)"
proof -
  let ?i = "par j" let ?ys = "swap ?i j xs"
  have ij: "?i < j" using par_less[OF assms(3)] .
  have okn: "ok (xs ! k)" if "k < length xs" for k using assms(5) that by simp
  have nth: "?ys ! k = (if k = ?i then xs ! j else if k = j then xs ! ?i else xs ! k)"
    if "k < length xs" for k using ij assms(2) that by (simp add: nth_swap)
  have edge: "\<not> ls (xs ! k) (xs ! par k)" if "0 < k" "k < length xs" "k \<noteq> j" for k
    using assms(1) that by (simp add: hole_up_def)
  have skip: "\<not> ls (xs ! k) (xs ! ?i)" if "0 < k" "k < length xs" "par k = j" for k
    using assms(1,3) that by (simp add: hole_up_def)
  have down: "\<not> ls (xs ! ?i) (xs ! j)"
    using asym[of "xs ! j" "xs ! ?i"] okn ij assms(2,4) by simp
  have A: "\<not> ls (?ys ! k) (?ys ! par k)" if k: "0 < k" "k < length xs" "k \<noteq> ?i" for k
  proof -
    have pk: "par k < k" "par k < length xs" using par_less[OF k(1)] k(2) by simp_all
    consider "k = j" | "k \<noteq> j" "par k = j" | "k \<noteq> j" "par k = ?i" | "k \<noteq> j" "par k \<noteq> j" "par k \<noteq> ?i"
      by blast
    then show ?thesis
    proof cases
      case 1
      then show ?thesis using nth ij assms(2) down by simp
    next
      case 2
      then show ?thesis using nth k pk ij skip by simp
    next
      case 3
      have "\<not> ls (xs ! k) (xs ! j)"
        using ntrans[of "xs ! j" "xs ! ?i" "xs ! k"] okn k pk 3 assms(2) down edge[of k] by simp
      then show ?thesis using 3 nth k pk ij assms(2) by simp
    next
      case 4
      then show ?thesis using nth k pk edge by simp
    qed
  qed
  have B: "\<not> ls (?ys ! k) (?ys ! par ?i)"
    if k: "0 < k" "k < length xs" "par k = ?i" "0 < ?i" for k
  proof -
    have pi: "par ?i < ?i" using par_less[OF k(4)] .
    have up: "\<not> ls (xs ! ?i) (xs ! par ?i)" using edge[of ?i] k ij assms(2) by simp
    show ?thesis
    proof (cases "k = j")
      case True
      then show ?thesis using nth pi ij assms(2) up by simp
    next
      case False
      have "\<not> ls (xs ! k) (xs ! par ?i)"
        using ntrans[of "xs ! par ?i" "xs ! ?i" "xs ! k"] okn k pi ij assms(2) up edge[of k] False
        by simp
      then show ?thesis using nth pi ij k False par_less[OF k(1)] assms(2) by simp
    qed
  qed
  show ?thesis using A B unfolding hole_up_def by simp
qed

lemma heap_up_heap:
  assumes "hole_up ls xs j" and "j < length xs" and "\<forall>x \<in> set xs. ok x"
  shows "heap_upto ls (heap_up ls xs j) (length xs)"
  using assms
proof (induction j arbitrary: xs rule: less_induct)
  case (less j)
  show ?case
  proof (cases "par j = j \<or> \<not> ls (xs ! j) (xs ! par j)")
    case True
    then have "heap_up ls xs j = xs" by (simp add: heap_up.simps Let_def)
    moreover have "\<not> ls (xs ! j) (xs ! par j) \<or> j = 0"
      using True par_less[of j] by (metis less_irrefl neq0_conv)
    ultimately show ?thesis
      using less.prems(1) by (auto simp: heap_upto_def hole_up_def)
  next
    case False
    then have j: "0 < j" by (cases j) simp_all
    have "heap_upto ls (heap_up ls (swap (par j) j xs) (par j)) (length (swap (par j) j xs))"
    proof (rule less.IH)
      show "par j < j" using par_less[OF j] .
      show "hole_up ls (swap (par j) j xs) (par j)"
        using hole_up_swap less.prems False j by blast
      show "par j < length (swap (par j) j xs)"
        using par_less[OF j] less.prems(2) by simp
      show "\<forall>x \<in> set (swap (par j) j xs). ok x"
        using less.prems par_less[OF j] by simp
    qed
    then show ?thesis using False by (simp add: heap_up.simps[of ls xs j] Let_def)
  qed
qed

lemma hole_down_swap:
  assumes "hole_down ls xs n i" and "n \<le> length xs" and j: "0 < j" "j < n" "par j = i"
    and less: "ls (xs ! j) (xs ! i)"
    and sib: "\<And>k. 0 < k \<Longrightarrow> k < n \<Longrightarrow> par k = i \<Longrightarrow> \<not> ls (xs ! k) (xs ! j)"
    and oks: "\<forall>x \<in> set xs. ok x"
  shows "hole_down ls (swap i j xs) n j"
proof -
  let ?ys = "swap i j xs"
  have ij: "i < j" using par_less[OF j(1)] j(3) by simp
  have nth: "?ys ! k = (if k = i then xs ! j else if k = j then xs ! i else xs ! k)"
    if "k < n" for k using ij j(2) assms(2) that by (simp add: nth_swap)
  have edge: "\<not> ls (xs ! k) (xs ! par k)" if "0 < k" "k < n" "par k \<noteq> i" for k
    using assms(1) that by (simp add: hole_down_def)
  have A: "\<not> ls (?ys ! k) (?ys ! par k)" if k: "0 < k" "k < n" "par k \<noteq> j" for k
  proof -
    have pk: "par k < k" "par k < n" using par_less[OF k(1)] k(2) by simp_all
    consider "k = j" | "k \<noteq> j" "par k = i" | "k = i" | "k \<noteq> j" "par k \<noteq> i" "k \<noteq> i" by blast
    then show ?thesis
    proof cases
      case 1
      have "\<not> ls (xs ! i) (xs ! j)"
        using asym[of "xs ! j" "xs ! i"] less oks ij j(2) assms(2) by simp
      then show ?thesis using 1 nth ij j by simp
    next
      case 2
      then show ?thesis using nth k pk sib by simp
    next
      case 3
      then have "\<not> ls (xs ! j) (xs ! par i)"
        using assms(1) j k unfolding hole_down_def by blast
      then show ?thesis using 3 nth pk k ij by simp
    next
      case 4
      then show ?thesis using nth k pk edge by simp
    qed
  qed
  have B: "\<not> ls (?ys ! k) (?ys ! par j)" if k: "0 < k" "k < n" "par k = j" for k
    using nth[of k] nth[of i] edge[of k] k par_less[OF k(1)] ij j by simp
  show ?thesis using A B unfolding hole_down_def by blast
qed

lemma heap_down_heap:
  assumes "hole_down ls xs n i" and "i < n" and "n \<le> length xs" and "\<forall>x \<in> set xs. ok x"
  shows "heap_upto ls (heap_down ls xs i n) n"
  using assms
proof (induction "n - i" arbitrary: xs i rule: less_induct)
  case less
  let ?j1 = "2 * i + 1"
  let ?j = "if ?j1 + 1 < n \<and> ls (xs ! (?j1 + 1)) (xs ! ?j1) then ?j1 + 1 else ?j1"
  have unfold: "heap_down ls xs i n =
      (if n \<le> ?j1 then xs
       else if \<not> ls (xs ! ?j) (xs ! i) then xs else heap_down ls (swap i ?j xs) ?j n)"
    by (simp only: heap_down.simps[of ls xs i n] Let_def)
  have oks: "ok (xs ! k)" if "k < n" for k using less.prems(3,4) that by simp
  have sib: "\<not> ls (xs ! k) (xs ! ?j)" if k: "0 < k" "k < n" "par k = i" for k
    using k oks[of ?j1] oks[of "?j1 + 1"] asym[of "xs ! (?j1 + 1)" "xs ! ?j1"]
      asym[of "xs ! k" "xs ! k"] oks[of k] unfolding par_children[OF k(1)] by auto
  have done_heap: "heap_upto ls xs n"
    if "\<And>k. 0 < k \<Longrightarrow> k < n \<Longrightarrow> par k = i \<Longrightarrow> \<not> ls (xs ! k) (xs ! i)"
    using less.prems(1) that unfolding hole_down_def heap_upto_def by metis
  show ?case
  proof (cases "n \<le> ?j1")
    case True
    then have "heap_down ls xs i n = xs" by (simp add: heap_down.simps)
    then show ?thesis using done_heap True by (auto simp: par_children)
  next
    case False
    then have j: "0 < ?j" "?j < n" "par ?j = i" by (auto simp: par_def)
    show ?thesis
    proof (cases "ls (xs ! ?j) (xs ! i)")
      case True
      have "heap_upto ls (heap_down ls (swap i ?j xs) ?j n) n"
      proof (rule less.hyps)
        show "n - ?j < n - i" and "?j < n" using j(2) by auto
        show "hole_down ls (swap i ?j xs) n ?j"
          using hole_down_swap[OF less.prems(1,3) j True sib less.prems(4)] .
        show "n \<le> length (swap i ?j xs)" using less.prems(3) by simp
        have "i < length xs" "?j < length xs" using less.prems(2,3) j(2) by linarith+
        then show "\<forall>x \<in> set (swap i ?j xs). ok x"
          using less.prems(4) by (simp only: set_swap_eq)
      qed
      then show ?thesis using True False by (simp only: unfold if_False not_True_eq_False)
    next
      case stop: False
      have "\<not> ls (xs ! k) (xs ! i)" if k: "0 < k" "k < n" "par k = i" for k
        using ntrans[of "xs ! i" "xs ! ?j" "xs ! k"] sib[OF k] stop oks j(2) k(2) less.prems(2)
        by blast
      then show ?thesis
        using done_heap stop False by (simp only: unfold if_False if_True not_False_eq_True)
    qed
  qed
qed

lemma heap_root_least:
  assumes "heap_upto ls xs (length xs)" and "k < length xs" and "\<forall>x \<in> set xs. ok x"
  shows "\<not> ls (xs ! k) (xs ! 0)"
  using assms(2)
proof (induction k rule: less_induct)
  case (less k)
  show ?case
  proof (cases "k = 0")
    case True
    then show ?thesis using asym[of "xs ! 0" "xs ! 0"] assms(3) less.prems by auto
  next
    case False
    then have "\<not> ls (xs ! par k) (xs ! 0)" "\<not> ls (xs ! k) (xs ! par k)" "par k < length xs"
      using less par_less[of k] assms(1) unfolding heap_upto_def by auto
    moreover have "xs ! 0 \<in> set xs" using less.prems by (intro nth_mem) linarith
    ultimately show ?thesis
      using ntrans[of "xs ! 0" "xs ! par k" "xs ! k"] assms(3) less.prems by auto
  qed
qed

lemma heap_push_heap:
  assumes "heap_upto ls xs (length xs)" and "\<forall>y \<in> set (x # xs). ok y"
  shows "heap_upto ls (heap_push ls x xs) (length (heap_push ls x xs))"
proof -
  have "\<not> ls ((xs @ [x]) ! k) ((xs @ [x]) ! par k)" if k: "0 < k" "k < length xs" for k
    using k par_less[OF k(1)] assms(1) by (simp add: nth_append heap_upto_def)
  moreover have "par k \<noteq> length xs" if "0 < k" "k < length (xs @ [x])" for k
    using that par_less[OF that(1)] by simp
  ultimately have "hole_up ls (xs @ [x]) (length xs)"
    unfolding hole_up_def by (metis length_append_singleton less_antisym)
  then have "heap_upto ls (heap_up ls (xs @ [x]) (length xs)) (length (xs @ [x]))"
    using assms(2) by (intro heap_up_heap) auto
  moreover have "length (heap_up ls (xs @ [x]) (length xs)) = length (xs @ [x])"
    by (rule mset_eq_length) simp
  ultimately show ?thesis by (simp add: heap_push_def)
qed

lemma heap_pop_some:
  assumes "heap_upto ls xs (length xs)" and "xs \<noteq> []" and oks: "\<forall>x \<in> set xs. ok x"
  shows "\<exists>ys. heap_pop ls xs = Inr (xs ! 0, ys) \<and> mset xs = add_mset (xs ! 0) (mset ys) \<and>
    heap_upto ls ys (length ys)"
proof -
  define n where "n = length xs - 1"
  have n: "n < length xs" "length xs = Suc n" using assms(2) by (simp_all add: n_def)
  let ?s = "swap 0 n xs" let ?ys = "heap_down ls ?s 0 n"
  have mset_ys: "mset ?ys = mset xs" using n by simp
  have last: "?ys ! n = xs ! 0"
  proof (cases "n = 0")
    case True
    then show ?thesis by (simp add: heap_down.simps swap_def)
  next
    case False
    then show ?thesis using n by (simp add: heap_down_above nth_swap)
  qed
  have split: "?ys = take n ?ys @ [xs ! 0]"
    using n last take_Suc_conv_app_nth[of n ?ys] by simp
  have heap: "heap_upto ls (take n ?ys) n"
  proof (cases "n = 0")
    case False
    have same: "?s ! k = xs ! k" if "0 < k" "k < n" for k
      using n that by (simp add: nth_swap)
    have "\<not> ls (?s ! k) (?s ! par k)" if k: "0 < k" "k < n" "par k \<noteq> 0" for k
      using same[of k] same[of "par k"] k par_less[OF k(1)] assms(1) n
      by (simp add: heap_upto_def)
    then have "hole_down ls ?s n 0" by (simp add: hole_down_def)
    then have "heap_upto ls ?ys n"
      using False n oks assms(2) by (intro heap_down_heap) simp_all
    moreover have "par k < n" if "0 < k" "k < n" for k using par_less[OF that(1)] that(2) by simp
    ultimately show ?thesis by (simp add: heap_upto_def)
  qed (simp add: heap_upto_def)
  have "mset xs = mset (take n ?ys @ [xs ! 0])" using mset_ys split by metis
  then show ?thesis
    using assms(2) heap last n by (simp add: heap_pop_def Let_def n_def[symmetric])
qed

end

sublocale sift_order \<subseteq> heap: min_queue ls ok "heap_push ls" "heap_pop ls" mset
  "\<lambda>xs. heap_upto ls xs (length xs) \<and> (\<forall>x \<in> set xs. ok x)"
proof (unfold_locales, goal_cases)
  case (1 x)
  then show ?case using asym by blast
next
  case (2 x y z)
  then show ?case using ntrans by blast
next
  case (3 q x)
  then show ?case by simp
next
  case (4 q x)
  then show ?case by (simp add: heap_push_def)
next
  case (5 q x)
  have "set (heap_push ls x q) = insert x (set q)"
    using mset_heap_up[of "length q" "q @ [x]" ls] unfolding heap_push_def
    by (metis length_append_singleton lessI list.simps(15) mset.simps(2) mset_append
        set_mset_mset union_mset_add_mset_right add_mset_add_single mset_single_iff_right)
  with 5 show ?case using heap_push_heap[of q x] by simp
next
  case (6 q)
  then show ?case by (simp add: heap_pop_def)
next
  case (7 q)
  then obtain ys where ys: "heap_pop ls q = Inr (q ! 0, ys)"
    "mset q = add_mset (q ! 0) (mset ys)" "heap_upto ls ys (length ys)"
    using heap_pop_some[of q] by auto
  have "\<forall>x \<in> set ys. ok x" using 7 ys(2) by (metis set_mset_mset union_iff add_mset_add_single)
  moreover have "\<forall>y \<in># mset q. \<not> ls y (q ! 0)"
    using heap_root_least[of q] 7 by (auto simp: in_set_conv_nth)
  ultimately show ?case using ys by blast
qed

section \<open>\<^verbatim>\<open>_heap\<close> and \<^verbatim>\<open>TopKFilter\<close>\<close>

record ('t, 'w) Elem =
  Value :: 't
  Weight :: 'w

record ('t, 'w) heap =
  elems :: "('t, 'w) Elem list"
  desc :: bool

text \<open>\<^verbatim>\<open>Less\<close>: \<^verbatim>\<open>>\<close> on the weights of a descending heap, \<^verbatim>\<open><\<close> otherwise.\<close>

definition elem_less :: "('w \<Rightarrow> 'w \<Rightarrow> bool) \<Rightarrow> bool \<Rightarrow> ('t, 'w) Elem \<Rightarrow> ('t, 'w) Elem \<Rightarrow> bool" where
  "elem_less lt d a b = (if d then lt (Weight b) (Weight a) else lt (Weight a) (Weight b))"

definition heap_Len :: "('t, 'w, 'm) heap_scheme \<Rightarrow> int" where
  "heap_Len h = int (length (elems h))"

text \<open>\<^verbatim>\<open>heap.Push\<close> and \<^verbatim>\<open>heap.Pop\<close> on the interface \<^verbatim>\<open>_heap\<close> implements: \<^verbatim>\<open>Push\<close> appends to the
  slice and \<^verbatim>\<open>Pop\<close> cuts its last element.\<close>

definition heap_Push ::
  "('w \<Rightarrow> 'w \<Rightarrow> bool) \<Rightarrow> ('t, 'w) Elem \<Rightarrow> ('t, 'w, 'm) heap_scheme \<Rightarrow> ('t, 'w, 'm) heap_scheme" where
  "heap_Push lt x h = h\<lparr>elems := heap_push (elem_less lt (desc h)) x (elems h)\<rparr>"

definition heap_Pop ::
  "('w \<Rightarrow> 'w \<Rightarrow> bool) \<Rightarrow> ('t, 'w, 'm) heap_scheme \<Rightarrow>
   go_fail + ('t, 'w) Elem \<times> ('t, 'w, 'm) heap_scheme" where
  "heap_Pop lt h =
     rbind (heap_pop (elem_less lt (desc h)) (elems h)) (\<lambda>(x, xs). Inr (x, h\<lparr>elems := xs\<rparr>))"

record ('t, 'w) TopKFilter = "('t, 'w) heap" +
  topk_k :: int

definition NewTopKFilter :: "int \<Rightarrow> ('t, 'w) TopKFilter" where
  "NewTopKFilter k = \<lparr>elems = [], desc = False, topk_k = k\<rparr>"

definition topk_Push ::
  "('w \<Rightarrow> 'w \<Rightarrow> bool) \<Rightarrow> 't \<Rightarrow> 'w \<Rightarrow> ('t, 'w) TopKFilter \<Rightarrow> go_fail + ('t, 'w) TopKFilter" where
  "topk_Push lt item weight f =
     (let f' = heap_Push lt \<lparr>Value = item, Weight = weight\<rparr> f
      in if topk_k f' < heap_Len f'
         then rbind (heap_Pop lt f') (\<lambda>(_, f''). Inr f'')
         else Inr f')"

definition topk_PopAll ::
  "('w \<Rightarrow> 'w \<Rightarrow> bool) \<Rightarrow> ('t, 'w) TopKFilter \<Rightarrow>
   go_fail + ('t, 'w) Elem list \<times> ('t, 'w) TopKFilter" where
  "topk_PopAll lt f = drain (heap_Pop lt) (length (elems f)) f []"

definition topk_PopAllValues ::
  "('w \<Rightarrow> 'w \<Rightarrow> bool) \<Rightarrow> ('t, 'w) TopKFilter \<Rightarrow> go_fail + 't list \<times> ('t, 'w) TopKFilter" where
  "topk_PopAllValues lt f =
     rbind (drain (heap_Pop lt) (length (elems f)) f [])
       (\<lambda>(es, f'). Inr (map Value es, f'))"

section \<open>\<^verbatim>\<open>PriorityQueue\<close>\<close>

text \<open>Values are \<^verbatim>\<open>int32\<close>, weights \<^verbatim>\<open>float32\<close>; \<open>lookup\<close> is the set of values ever pushed.\<close>

record PriorityQueue = "(int, fl) heap" +
  lookup :: "int set"

definition NewPriorityQueue :: "bool \<Rightarrow> PriorityQueue" where
  "NewPriorityQueue d = \<lparr>elems = [], desc = d, lookup = {}\<rparr>"

definition pq_Push :: "int \<Rightarrow> fl \<Rightarrow> PriorityQueue \<Rightarrow> go_fail + PriorityQueue" where
  "pq_Push v weight p =
     (if weight = NaN then Inl (Panic ''NaN weight is forbidden'')
      else if v \<notin> lookup p then
        Inr ((heap_Push fless \<lparr>Value = v, Weight = weight\<rparr> p)\<lparr>lookup := insert v (lookup p)\<rparr>)
      else Inr p)"

definition pq_Pop :: "PriorityQueue \<Rightarrow> go_fail + (int \<times> fl) \<times> PriorityQueue" where
  "pq_Pop p = rbind (heap_Pop fless p) (\<lambda>(e, p'). Inr ((Value e, Weight e), p'))"

definition pq_Peek :: "PriorityQueue \<Rightarrow> go_fail + int \<times> fl" where
  "pq_Peek p = rbind (slice_get (elems p) 0) (\<lambda>e. Inr (Value e, Weight e))"

definition pq_Values :: "PriorityQueue \<Rightarrow> int list" where
  "pq_Values p = map Value (elems p)"

definition pq_Elems :: "PriorityQueue \<Rightarrow> (int, fl) Elem list" where
  "pq_Elems p = elems p"

text \<open>\<^verbatim>\<open>Clone\<close> copies the elements into a new queue, whose \<open>lookup\<close> stays empty.\<close>

definition pq_Clone :: "PriorityQueue \<Rightarrow> PriorityQueue" where
  "pq_Clone p = (NewPriorityQueue (desc p))\<lparr>elems := elems p\<rparr>"

definition pq_Reverse :: "PriorityQueue \<Rightarrow> go_fail + PriorityQueue" where
  "pq_Reverse p =
     fold_res (\<lambda>e. pq_Push (Value e) (Weight e)) (elems p) (NewPriorityQueue (\<not> desc p))"

section \<open>Heaps over ordered weights\<close>

text \<open>What \<^verbatim>\<open>constraints.Ordered\<close> gives on the weights that are not NaN.\<close>

locale weight_order =
  fixes lt :: "'w \<Rightarrow> 'w \<Rightarrow> bool" and okw :: "'w \<Rightarrow> bool"
  assumes lt_asym: "okw a \<Longrightarrow> okw b \<Longrightarrow> lt a b \<Longrightarrow> \<not> lt b a"
    and lt_ntrans: "okw a \<Longrightarrow> okw b \<Longrightarrow> okw c \<Longrightarrow> \<not> lt b a \<Longrightarrow> \<not> lt c b \<Longrightarrow> \<not> lt c a"

sublocale weight_order \<subseteq> sift: sift_order "elem_less lt d" "\<lambda>e :: ('t, 'w) Elem. okw (Weight e)"
  for d
  by unfold_locales (auto simp: elem_less_def intro: lt_asym lt_ntrans split: if_splits
      dest: lt_asym lt_ntrans)

definition heap_inv ::
  "('w \<Rightarrow> 'w \<Rightarrow> bool) \<Rightarrow> ('w \<Rightarrow> bool) \<Rightarrow> ('t, 'w, 'm) heap_scheme \<Rightarrow> bool" where
  "heap_inv lt okw h \<longleftrightarrow>
     heap_upto (elem_less lt (desc h)) (elems h) (length (elems h)) \<and>
     (\<forall>e \<in> set (elems h). okw (Weight e))"

lemma heap_inv_Nil: "elems h = [] \<Longrightarrow> heap_inv lt okw h"
  by (simp add: heap_inv_def heap_upto_def)

lemma heap_Push_frame [simp]:
  "desc (heap_Push lt x h) = desc h" "heap.more (heap_Push lt x h) = heap.more h"
  by (simp_all add: heap_Push_def)

lemma drain_heap_Pop:
  "drain (heap_Pop lt) n h acc =
     rbind (drain (heap_pop (elem_less lt (desc h))) n (elems h) acc)
       (\<lambda>(es, xs). Inr (es, h\<lparr>elems := xs\<rparr>))"
proof (induction n arbitrary: h acc)
  case 0
  then show ?case by simp
next
  case (Suc n)
  then show ?case
    by (cases "heap_pop (elem_less lt (desc h)) (elems h)") (auto simp: heap_Pop_def)
qed

context weight_order
begin

lemma heap_Push_inv:
  assumes "heap_inv lt okw h" and "okw (Weight x)"
  shows "heap_inv lt okw (heap_Push lt x h)"
    and "mset (elems (heap_Push lt x h)) = add_mset x (mset (elems h))"
  using assms sift.heap.push_invar[of "desc h" "elems h" x]
    sift.heap.push_contents[of "desc h" "elems h" x]
  by (simp_all add: heap_inv_def heap_Push_def)

lemma heap_Pop_inv:
  assumes "heap_inv lt okw h" and "elems h \<noteq> []"
  shows "\<exists>x h'. heap_Pop lt h = Inr (x, h') \<and> heap_inv lt okw h' \<and> desc h' = desc h \<and>
    heap.more h' = heap.more h \<and> mset (elems h) = add_mset x (mset (elems h')) \<and>
    (\<forall>y \<in> set (elems h). \<not> elem_less lt (desc h) y x)"
  using assms sift.heap.pop_some[of "desc h" "elems h"]
  by (auto simp: heap_inv_def heap_Pop_def)

lemma heap_Push_length:
  "heap_inv lt okw h \<Longrightarrow> okw (Weight e) \<Longrightarrow>
   length (elems (heap_Push lt e h)) = Suc (length (elems h))"
  by (metis heap_Push_inv(2) size_add_mset size_mset)

text \<open>One round of a top-k loop on any heap: push, and pop if there are too many.\<close>

lemma heap_Push_top:
  assumes "heap_inv lt okw h" and "okw (Weight e)" and "\<forall>x \<in># M. okw (Weight x)"
    and "top_of (elem_less lt (desc h)) n M (mset (elems h))" and "length (elems h) < n"
  shows "top_of (elem_less lt (desc h)) n (add_mset e M) (mset (elems (heap_Push lt e h)))"
  using assms sift.heap.topk_push_small[of "desc h" "elems h" e n M]
  by (simp add: heap_Push_def heap_inv_def)

lemma heap_Push_Pop_top:
  assumes "heap_inv lt okw h" and "okw (Weight e)" and "\<forall>x \<in># M. okw (Weight x)"
    and "top_of (elem_less lt (desc h)) n M (mset (elems h))" and "n \<le> length (elems h)"
  shows "\<exists>x h'. heap_Pop lt (heap_Push lt e h) = Inr (x, h') \<and> heap_inv lt okw h' \<and>
    desc h' = desc h \<and> heap.more h' = heap.more h \<and>
    top_of (elem_less lt (desc h)) n (add_mset e M) (mset (elems h'))"
  using assms sift.heap.topk_push_full[of "desc h" "elems h" e n M]
  by (auto simp: heap_Push_def heap_inv_def heap_Pop_def)

lemma topk_Push_top:
  assumes inv: "heap_inv lt okw f" and d: "\<not> desc f" and w: "okw w"
    and top: "top_of (elem_less lt False) (nat (topk_k f)) M (mset (elems f))"
    and M: "\<forall>e \<in># M. okw (Weight e)"
  shows "\<exists>f'. topk_Push lt v w f = Inr f' \<and> heap_inv lt okw f' \<and> \<not> desc f' \<and>
    topk_k f' = topk_k f \<and>
    top_of (elem_less lt False) (nat (topk_k f))
      (add_mset \<lparr>Value = v, Weight = w\<rparr> M) (mset (elems f'))"
proof -
  let ?e = "\<lparr>Value = v, Weight = w\<rparr>"
  have k: "topk_k g = topk_k f" if "heap.more g = heap.more f" for g :: "('a, 'w) TopKFilter"
    using that by (cases f; cases g) simp
  have top': "top_of (elem_less lt (desc f)) (nat (topk_k f)) M (mset (elems f))"
    using top d by simp
  have len: "length (elems (heap_Push lt ?e f)) = Suc (length (elems f))"
    using heap_Push_length[OF inv] w by simp
  show ?thesis
  proof (cases "length (elems f) < nat (topk_k f)")
    case True
    then have "\<not> topk_k f < 1 + int (length (elems f))" by linarith
    then show ?thesis
      using heap_Push_top[OF inv _ M top' True, of ?e] heap_Push_inv(1)[OF inv, of ?e] d w len
        k[of "heap_Push lt ?e f"]
      by (simp add: topk_Push_def heap_Len_def Let_def)
  next
    case False
    then obtain x f' where f': "heap_Pop lt (heap_Push lt ?e f) = Inr (x, f')"
      "heap_inv lt okw f'" "desc f' = desc f" "heap.more f' = heap.more f"
      "top_of (elem_less lt (desc f)) (nat (topk_k f)) (add_mset ?e M) (mset (elems f'))"
      using heap_Push_Pop_top[OF inv _ M top', of ?e] w by auto
    have "topk_k f < 1 + int (length (elems f))" using False by linarith
    then show ?thesis
      using f' d len k[of "heap_Push lt ?e f"] k[OF f'(4)]
      by (simp add: topk_Push_def heap_Len_def Let_def)
  qed
qed

lemma topk_pushes_top:
  assumes "heap_inv lt okw f" and "\<not> desc f"
    and "top_of (elem_less lt False) (nat (topk_k f)) M (mset (elems f))"
    and "\<forall>e \<in># M. okw (Weight e)" and "\<forall>e \<in> set xs. okw (Weight e)"
  shows "\<exists>f'. fold_res (\<lambda>e. topk_Push lt (Value e) (Weight e)) xs f = Inr f' \<and>
    heap_inv lt okw f' \<and> \<not> desc f' \<and> topk_k f' = topk_k f \<and>
    top_of (elem_less lt False) (nat (topk_k f)) (M + mset xs) (mset (elems f'))"
  using assms
proof (induction xs arbitrary: f M)
  case Nil
  then show ?case by simp
next
  case (Cons x xs)
  have x: "\<lparr>Value = Value x, Weight = Weight x\<rparr> = x" by simp
  from Cons.prems(5) have "okw (Weight x)" by simp
  from topk_Push_top[OF Cons.prems(1,2) this Cons.prems(3,4), of "Value x"]
  obtain f' where f': "topk_Push lt (Value x) (Weight x) f = Inr f'" "heap_inv lt okw f'"
    "\<not> desc f'" "topk_k f' = topk_k f"
    "top_of (elem_less lt False) (nat (topk_k f)) (add_mset x M) (mset (elems f'))"
    unfolding x by blast
  with Cons.IH[of f' "add_mset x M"] Cons.prems show ?case by auto
qed

lemma topk_PopAll_sorted:
  assumes "heap_inv lt okw f" and "\<not> desc f"
  shows "\<exists>ys. topk_PopAll lt f = Inr (ys, f\<lparr>elems := []\<rparr>) \<and> mset ys = mset (elems f) \<and>
    sorted_wrt (\<lambda>a b. \<not> lt (Weight a) (Weight b)) ys"
proof -
  have ls: "(\<lambda>a b. \<not> elem_less lt False a b) = (\<lambda>a b. \<not> lt (Weight a) (Weight b))"
    by (simp add: elem_less_def)
  show ?thesis
    using sift.heap.drain_sorted[of False "elems f" "length (elems f)" "[]"] assms
    by (auto simp: topk_PopAll_def drain_heap_Pop heap_inv_def ls)
qed

end

interpretation fl_weight: weight_order fless "\<lambda>w. w \<noteq> NaN"
proof (unfold_locales, goal_cases)
  case (1 a b)
  then show ?case by (cases a; cases b) auto
next
  case (2 a b c)
  then show ?case by (cases a; cases b; cases c) auto
qed

text \<open>Pushing a list of candidates and taking them out again, as every recommender does.\<close>

definition topk_run :: "int \<Rightarrow> ('t, fl) Elem list \<Rightarrow> go_fail + ('t, fl) Elem list" where
  "topk_run k xs =
     rbind (fold_res (\<lambda>e. topk_Push fless (Value e) (Weight e)) xs (NewTopKFilter k))
       (\<lambda>f. rbind (topk_PopAll fless f) (\<lambda>(ys, _). Inr ys))"

lemma topk_run_top:
  assumes "\<forall>e \<in> set xs. Weight e \<noteq> NaN"
  shows "\<exists>ys. topk_run k xs = Inr ys \<and> top_of (elem_less fless False) (nat k) (mset xs) (mset ys) \<and>
    sorted_wrt (\<lambda>a b. fle (Weight b) (Weight a)) ys"
proof -
  let ?f = "NewTopKFilter k :: ('a, fl) TopKFilter"
  have "\<exists>f'. fold_res (\<lambda>e. topk_Push fless (Value e) (Weight e)) xs ?f = Inr f' \<and>
    heap_inv fless (\<lambda>w. w \<noteq> NaN) f' \<and> \<not> desc f' \<and> topk_k f' = topk_k ?f \<and>
    top_of (elem_less fless False) (nat (topk_k ?f)) ({#} + mset xs) (mset (elems f'))"
    using assms by (intro fl_weight.topk_pushes_top)
      (simp_all add: NewTopKFilter_def heap_inv_Nil top_of_empty)
  then obtain f' where f': "fold_res (\<lambda>e. topk_Push fless (Value e) (Weight e)) xs ?f = Inr f'"
    "heap_inv fless (\<lambda>w. w \<noteq> NaN) f'" "\<not> desc f'"
    "top_of (elem_less fless False) (nat k) (mset xs) (mset (elems f'))"
    by (auto simp: NewTopKFilter_def)
  from fl_weight.topk_PopAll_sorted[OF f'(2,3)] obtain ys where
    ys: "topk_PopAll fless f' = Inr (ys, f'\<lparr>elems := []\<rparr>)" "mset ys = mset (elems f')"
    "sorted_wrt (\<lambda>a b. \<not> fless (Weight a) (Weight b)) ys" by blast
  have "set ys = set (elems f')" using ys(2) by (rule mset_eq_setD)
  then have nan: "Weight a \<noteq> NaN" if "a \<in> set ys" for a
    using that f'(2) by (simp add: heap_inv_def)
  have "sorted_wrt (\<lambda>a b. fle (Weight b) (Weight a)) ys"
    by (rule sorted_wrt_mono_rel[OF _ ys(3)]) (use nan not_fless_fle in blast)
  moreover have "topk_run k xs = Inr ys" using f'(1) ys(1) by (simp add: topk_run_def)
  ultimately show ?thesis using f'(4) ys(2) by auto
qed

text \<open>Without an order on the weights (some may be NaN) the filter still returns, and only what was pushed.\<close>

lemma heap_pop_mset:
  assumes "xs \<noteq> []"
  shows "\<exists>x ys. heap_pop ls xs = Inr (x, ys) \<and> mset xs = add_mset x (mset ys)"
proof -
  define n where "n = length xs - 1"
  let ?ys = "heap_down ls (swap 0 n xs) 0 n"
  have n: "n < length xs" using assms by (simp add: n_def)
  then have "mset ?ys = mset xs" and l: "n < length ?ys" "length ?ys = Suc n" using assms by (simp_all add: n_def)
  moreover have "?ys = take n ?ys @ [?ys ! n]" using take_Suc_conv_app_nth[OF l(1)] l(2) by simp
  ultimately have "mset xs = add_mset (?ys ! n) (mset (take n ?ys))" by (metis add_mset_add_single mset.simps mset_append)
  moreover have "heap_pop ls xs = Inr (?ys ! n, take n ?ys)" using assms by (simp add: heap_pop_def n_def Let_def)
  ultimately show ?thesis by blast
qed

lemma topk_Push_subset:
  "\<exists>f'. topk_Push lt x w f = Inr f' \<and> mset (elems f') \<subseteq># add_mset \<lparr>Value = x, Weight = w\<rparr> (mset (elems f)) \<and>
     topk_k f' = topk_k f"
proof -
  let ?f = "heap_Push lt \<lparr>Value = x, Weight = w\<rparr> f"
  have m: "mset (elems ?f) = add_mset \<lparr>Value = x, Weight = w\<rparr> (mset (elems f))"
    by (simp add: heap_Push_def heap_push_def)
  then have "elems ?f \<noteq> []" by (metis empty_not_add_mset mset.simps(1))
  then obtain y ys where "heap_pop (elem_less lt (desc ?f)) (elems ?f) = Inr (y, ys)"
    "mset (elems ?f) = add_mset y (mset ys)" using heap_pop_mset by blast
  moreover from this(2) have "mset ys \<subseteq># add_mset \<lparr>Value = x, Weight = w\<rparr> (mset (elems f))"
    unfolding m by (metis mset_subset_eq_add_right add_mset_add_single union_commute)
  ultimately show ?thesis using m by (auto simp: topk_Push_def Let_def heap_Pop_def heap_Push_def)
qed

lemma topk_pushes_subset:
  "\<exists>f'. fold_res (\<lambda>e. topk_Push lt (Value e) (Weight e)) xs f = Inr f' \<and> mset (elems f') \<subseteq># mset (elems f) + mset xs"
proof (induction xs arbitrary: f)
  case (Cons e xs)
  obtain f1 where f1: "topk_Push lt (Value e) (Weight e) f = Inr f1"
    "mset (elems f1) \<subseteq># add_mset \<lparr>Value = Value e, Weight = Weight e\<rparr> (mset (elems f))"
    using topk_Push_subset[of lt "Value e" "Weight e" f] by blast
  obtain f2 where f2: "fold_res (\<lambda>e. topk_Push lt (Value e) (Weight e)) xs f1 = Inr f2"
    "mset (elems f2) \<subseteq># mset (elems f1) + mset xs" using Cons.IH by blast
  have "mset (elems f2) \<subseteq># mset (elems f) + mset (e # xs)"
    using subset_mset.order_trans[OF f2(2) subset_mset.add_right_mono[OF f1(2)]] by (cases e) simp
  then show ?case using f1(1) f2(1) by simp
qed simp

lemma drain_all_mset:
  "length (elems f) = n \<Longrightarrow> \<exists>ys f'. drain (heap_Pop lt) n f acc = Inr (ys, f') \<and> mset ys = mset (elems f) + mset acc"
proof (induction n arbitrary: f acc)
  case (Suc n)
  then have "elems f \<noteq> []" by auto
  then obtain x xs where x: "heap_pop (elem_less lt (desc f)) (elems f) = Inr (x, xs)" "mset (elems f) = add_mset x (mset xs)"
    using heap_pop_mset by blast
  then have "length xs = n" using Suc.prems by (metis add_diff_cancel_left' plus_1_eq_Suc size_add_mset size_mset)
  then obtain ys f' where "drain (heap_Pop lt) n (f\<lparr>elems := xs\<rparr>) (x # acc) = Inr (ys, f')" "mset ys = mset xs + mset (x # acc)"
    using Suc.IH[of "f\<lparr>elems := xs\<rparr>" "x # acc"] by auto
  moreover have "heap_Pop lt f = Inr (x, f\<lparr>elems := xs\<rparr>)" using x by (simp add: heap_Pop_def)
  ultimately show ?case using x by simp
qed simp

lemma topk_run_subset: "\<exists>ys. topk_run k xs = Inr ys \<and> mset ys \<subseteq># mset xs"
proof -
  obtain f where f: "fold_res (\<lambda>e. topk_Push fless (Value e) (Weight e)) xs (NewTopKFilter k) = Inr f"
    "mset (elems f) \<subseteq># mset xs" using topk_pushes_subset[of fless xs "NewTopKFilter k"] by (auto simp: NewTopKFilter_def)
  obtain ys f' where "drain (heap_Pop fless) (length (elems f)) f [] = Inr (ys, f')" "mset ys = mset (elems f)"
    using drain_all_mset[of f "length (elems f)" fless "[]"] by auto
  then show ?thesis using f by (simp add: topk_run_def topk_PopAll_def)
qed

lemma topk_run_best:
  assumes "\<forall>e \<in> set xs. Weight e \<noteq> NaN"
  shows "\<exists>ys. topk_run k xs = Inr ys \<and> mset ys \<subseteq># mset xs \<and>
    length ys = min (nat k) (length xs) \<and>
    sorted_wrt (\<lambda>a b. fle (Weight b) (Weight a)) ys \<and>
    (\<forall>a \<in> set ys. \<forall>b \<in># mset xs - mset ys. fle (Weight b) (Weight a))"
proof -
  from topk_run_top[OF assms, of k] obtain ys where ys: "topk_run k xs = Inr ys"
    "top_of (elem_less fless False) (nat k) (mset xs) (mset ys)"
    "sorted_wrt (\<lambda>a b. fle (Weight b) (Weight a)) ys" by blast
  have "fle (Weight b) (Weight a)" if "a \<in> set ys" "b \<in># mset xs - mset ys" for a b
  proof (rule not_fless_fle)
    show "\<not> fless (Weight a) (Weight b)"
      using ys(2) that by (auto simp: top_of_def elem_less_def)
    show "Weight a \<noteq> NaN" "Weight b \<noteq> NaN"
      using assms that ys(2) by (auto simp: top_of_def dest: mset_subset_eqD in_diffD)
  qed
  with ys show ?thesis by (auto simp: top_of_def)
qed

text \<open>C32. The top-k filter keeps the best items: after pushing candidates whose scores are not
  NaN into a filter of size \<open>k\<close>, \<^verbatim>\<open>PopAll\<close> returns, without panicking and in descending order of
  score, \<open>min k n\<close> of the pushed candidates such that no discarded one scores higher than a
  returned one.\<close>

theorem topk_best_k:
  assumes "\<forall>e \<in> set xs. Weight e \<noteq> NaN"
  shows "\<exists>ys. topk_run k xs = Inr ys \<and> mset ys \<subseteq># mset xs \<and>
    length ys = min (nat k) (length xs) \<and>
    sorted_wrt (\<lambda>a b. fle (Weight b) (Weight a)) ys \<and>
    (\<forall>a \<in> set ys. \<forall>b \<in># mset xs - mset ys. fle (Weight b) (Weight a))"
  using assms by (rule topk_run_best)

theorem topk_best_k_witness:
  "\<exists>ys. topk_run 2 [\<lparr>Value = ''a'', Weight = Fin 1\<rparr>, \<lparr>Value = ''b'', Weight = Fin 3\<rparr>,
       \<lparr>Value = ''c'', Weight = Fin 2\<rparr>] = Inr ys \<and> length ys = 2"
  using topk_best_k[of "[\<lparr>Value = ''a'', Weight = Fin 1\<rparr>, \<lparr>Value = ''b'', Weight = Fin 3\<rparr>,
       \<lparr>Value = ''c'', Weight = Fin 2\<rparr>]" 2] by auto

section \<open>The priority queue\<close>

definition pq_inv :: "PriorityQueue \<Rightarrow> bool" where
  "pq_inv p \<longleftrightarrow> heap_inv fless (\<lambda>w. w \<noteq> NaN) p \<and> distinct (pq_Values p) \<and>
     set (pq_Values p) \<subseteq> lookup p"

lemma pq_inv_New: "pq_inv (NewPriorityQueue d)"
  by (simp add: pq_inv_def NewPriorityQueue_def heap_inv_Nil pq_Values_def)

lemma pq_Push_inv:
  assumes "pq_inv p" and "w \<noteq> NaN"
  shows "\<exists>p'. pq_Push v w p = Inr p' \<and> pq_inv p' \<and> desc p' = desc p \<and>
    lookup p' = insert v (lookup p) \<and>
    mset (elems p') = (if v \<in> lookup p then mset (elems p)
                       else add_mset \<lparr>Value = v, Weight = w\<rparr> (mset (elems p)))"
proof (cases "v \<in> lookup p")
  case True
  with assms show ?thesis by (auto simp: pq_Push_def insert_absorb)
next
  case False
  let ?e = "\<lparr>Value = v, Weight = w\<rparr>"
  define p' where "p' = (heap_Push fless ?e p)\<lparr>lookup := insert v (lookup p)\<rparr>"
  have h: "heap_inv fless (\<lambda>w. w \<noteq> NaN) p" using assms(1) by (simp add: pq_inv_def)
  have m: "mset (elems p') = add_mset ?e (mset (elems p))"
    using fl_weight.heap_Push_inv(2)[OF h, of ?e] assms(2) by (simp add: p'_def)
  have hp: "heap_inv fless (\<lambda>w. w \<noteq> NaN) p'"
    using fl_weight.heap_Push_inv(1)[OF h, of ?e] assms(2) by (simp add: p'_def heap_inv_def)
  have vals: "mset (pq_Values p') = mset (v # pq_Values p)"
    using m by (simp add: pq_Values_def)
  have "v \<notin> set (pq_Values p)" using False assms(1) by (auto simp: pq_inv_def)
  then have "distinct (pq_Values p')"
    using mset_eq_imp_distinct_iff[OF vals] assms(1) by (simp add: pq_inv_def)
  moreover have "set (pq_Values p') \<subseteq> lookup p'"
    using mset_eq_setD[OF vals] assms(1) by (auto simp: pq_inv_def p'_def)
  moreover have "desc p' = desc p" "lookup p' = insert v (lookup p)" by (simp_all add: p'_def)
  moreover have "pq_Push v w p = Inr p'" using False assms(2) by (simp add: pq_Push_def p'_def)
  ultimately show ?thesis using hp m False by (auto simp: pq_inv_def)
qed

lemma pq_Pop_inv:
  assumes "pq_inv p" and "elems p \<noteq> []"
  shows "\<exists>v w p'. pq_Pop p = Inr ((v, w), p') \<and> pq_inv p' \<and> desc p' = desc p \<and>
    lookup p' = lookup p \<and> mset (elems p) = add_mset \<lparr>Value = v, Weight = w\<rparr> (mset (elems p')) \<and>
    (\<forall>e \<in> set (elems p). if desc p then fle (Weight e) w else fle w (Weight e))"
proof -
  have h: "heap_inv fless (\<lambda>w. w \<noteq> NaN) p" using assms(1) by (simp add: pq_inv_def)
  obtain x p' where x: "heap_Pop fless p = Inr (x, p')" "heap_inv fless (\<lambda>w. w \<noteq> NaN) p'"
    "desc p' = desc p" "heap.more p' = heap.more p"
    "mset (elems p) = add_mset x (mset (elems p'))"
    "\<forall>y \<in> set (elems p). \<not> elem_less fless (desc p) y x"
    using fl_weight.heap_Pop_inv[OF h assms(2)] by blast
  have lk: "lookup p' = lookup p" using x(4) by (cases p; cases p') simp
  have vals: "mset (pq_Values p) = mset (Value x # pq_Values p')"
    using x(5) by (simp add: pq_Values_def)
  have "pq_inv p'"
    using assms(1) x(2) lk mset_eq_imp_distinct_iff[OF vals] mset_eq_setD[OF vals]
    by (auto simp: pq_inv_def)
  moreover have "if desc p then fle (Weight e) (Weight x) else fle (Weight x) (Weight e)"
    if "e \<in> set (elems p)" for e
  proof -
    have "x \<in> set (elems p)" using x(5) by (metis set_mset_mset union_single_eq_member)
    then show ?thesis
      using x(6) that h by (auto simp: elem_less_def heap_inv_def intro: not_fless_fle)
  qed
  ultimately show ?thesis
    using x lk by (auto simp: pq_Pop_def intro!: exI[of _ "Value x"] exI[of _ "Weight x"])
qed

lemma pq_pushes_inv:
  assumes "pq_inv p" and "\<forall>e \<in> set es. Weight e \<noteq> NaN"
    and "distinct (map Value es)" and "set (map Value es) \<inter> lookup p = {}"
  shows "\<exists>p'. fold_res (\<lambda>e. pq_Push (Value e) (Weight e)) es p = Inr p' \<and> pq_inv p' \<and>
    desc p' = desc p \<and> lookup p' = set (map Value es) \<union> lookup p \<and>
    mset (elems p') = mset es + mset (elems p)"
  using assms
proof (induction es arbitrary: p)
  case Nil
  then show ?case by simp
next
  case (Cons e es)
  obtain q where q: "pq_Push (Value e) (Weight e) p = Inr q" "pq_inv q" "desc q = desc p"
    "lookup q = insert (Value e) (lookup p)" "mset (elems q) = add_mset e (mset (elems p))"
    using pq_Push_inv[OF Cons.prems(1), of "Weight e" "Value e"] Cons.prems by auto
  with Cons.IH[of q] Cons.prems show ?case by auto
qed

lemma pq_Reverse_inv:
  assumes "pq_inv p"
  shows "\<exists>p'. pq_Reverse p = Inr p' \<and> pq_inv p' \<and> desc p' = (\<not> desc p) \<and>
    mset (elems p') = mset (elems p)"
  using pq_pushes_inv[OF pq_inv_New, of "elems p" "\<not> desc p"] assms
  by (auto simp: pq_Reverse_def NewPriorityQueue_def pq_inv_def heap_inv_def pq_Values_def)

text \<open>The priority queue keeps its invariant (heap order, no NaN, distinct values, every value
  recorded in \<^verbatim>\<open>lookup\<close>): \<^verbatim>\<open>Push\<close> adds a value once, \<^verbatim>\<open>Pop\<close> of a non-empty queue returns an
  element of extreme weight, and \<^verbatim>\<open>Reverse\<close> returns a queue with the same elements and the
  opposite order; none of them panics.\<close>

theorem priority_queue_operations:
  assumes "pq_inv p"
  shows "(w \<noteq> NaN \<longrightarrow> (\<exists>p'. pq_Push v w p = Inr p' \<and> pq_inv p' \<and>
      mset (elems p') = (if v \<in> lookup p then mset (elems p)
                         else add_mset \<lparr>Value = v, Weight = w\<rparr> (mset (elems p))))) \<and>
    (elems p \<noteq> [] \<longrightarrow> (\<exists>x y p'. pq_Pop p = Inr ((x, y), p') \<and> pq_inv p' \<and>
      mset (elems p) = add_mset \<lparr>Value = x, Weight = y\<rparr> (mset (elems p')) \<and>
      (\<forall>e \<in> set (elems p). if desc p then fle (Weight e) y else fle y (Weight e)))) \<and>
    (\<exists>p'. pq_Reverse p = Inr p' \<and> pq_inv p' \<and> desc p' = (\<not> desc p) \<and>
      mset (elems p') = mset (elems p))"
  using pq_Push_inv[OF assms, of w v] pq_Pop_inv[OF assms] pq_Reverse_inv[OF assms] by blast

definition pq_example :: PriorityQueue where
  "pq_example = \<lparr>elems = [\<lparr>Value = 7, Weight = Fin 1\<rparr>], desc = True, lookup = {7}\<rparr>"

lemma pq_example_inv: "pq_inv pq_example"
  by (simp add: pq_inv_def pq_example_def heap_inv_def heap_upto_def pq_Values_def)

theorem priority_queue_operations_witness:
  "\<exists>p'. pq_Push 8 (Fin 2) pq_example = Inr p' \<and> pq_inv p'"
  using priority_queue_operations[OF pq_example_inv, of "Fin 2" 8] by auto

text \<open>\<^verbatim>\<open>Clone\<close> copies the elements but not the set of pushed values: pushing a value that
  is already in the queue onto a clone stores it a second time, which \<^verbatim>\<open>Push\<close> on the original
  refuses.\<close>

theorem clone_forgets_lookup:
  assumes "pq_inv p" and "w \<noteq> NaN" and "v \<in> set (pq_Values p)"
  shows "pq_Push v w p = Inr p \<and>
    (\<exists>q. pq_Push v w (pq_Clone p) = Inr q \<and> \<not> distinct (pq_Values q))"
proof -
  let ?c = "pq_Clone p" let ?e = "\<lparr>Value = v, Weight = w\<rparr>"
  have h: "heap_inv fless (\<lambda>w. w \<noteq> NaN) ?c"
    using assms(1) by (simp add: pq_inv_def pq_Clone_def NewPriorityQueue_def heap_inv_def)
  define q where "q = (heap_Push fless ?e ?c)\<lparr>lookup := insert v (lookup ?c)\<rparr>"
  have "mset (pq_Values q) = mset (v # pq_Values p)"
    using fl_weight.heap_Push_inv(2)[OF h, of ?e] assms(2)
    by (simp add: q_def pq_Values_def pq_Clone_def NewPriorityQueue_def)
  then have "\<not> distinct (pq_Values q)"
    using mset_eq_imp_distinct_iff assms(3) by fastforce
  moreover have "pq_Push v w ?c = Inr q"
    using assms(2) by (simp add: pq_Push_def q_def pq_Clone_def NewPriorityQueue_def)
  moreover have "pq_Push v w p = Inr p"
    using assms by (auto simp: pq_Push_def pq_inv_def)
  ultimately show ?thesis by blast
qed

theorem clone_forgets_lookup_witness:
  "\<exists>q. pq_Push 7 (Fin 2) (pq_Clone pq_example) = Inr q \<and> \<not> distinct (pq_Values q)"
  using clone_forgets_lookup[OF pq_example_inv, of "Fin 2" 7]
  by (auto simp: pq_Values_def pq_example_def)

end
