(* ===== verification/Bruteforce.thy ===== *)
theory Bruteforce
  imports Go_Heap
begin

text \<open>
  \<^verbatim>\<open>common/ann/bruteforce.go\<close>: exact nearest-neighbour search over a slice of vectors with a
  bounded max-heap of distances. The distance function is a parameter of the index, as in the
  code; the theorems need it to return no NaN.
\<close>

record 'v Bruteforce =
  distanceFunc :: "'v \<Rightarrow> 'v \<Rightarrow> fl"
  vectors :: "'v list"

definition NewBruteforce :: "('v \<Rightarrow> 'v \<Rightarrow> fl) \<Rightarrow> 'v Bruteforce" where
  "NewBruteforce d = \<lparr>distanceFunc = d, vectors = []\<rparr>"

text \<open>\<^verbatim>\<open>Add\<close> returns the number of vectors after the insertion.\<close>

definition bf_Add :: "'v \<Rightarrow> 'v Bruteforce \<Rightarrow> int \<times> 'v Bruteforce" where
  "bf_Add v b = (let b' = b\<lparr>vectors := vectors b @ [v]\<rparr> in (int (length (vectors b')), b'))"

text \<open>One iteration of the scan: push the index with its distance, pop the farthest if there are
  more than \<open>k\<close>.\<close>

definition bf_step ::
  "('v \<Rightarrow> 'v \<Rightarrow> fl) \<Rightarrow> 'v \<Rightarrow> int \<Rightarrow> nat \<times> 'v \<Rightarrow> PriorityQueue \<Rightarrow> go_fail + PriorityQueue" where
  "bf_step df q k iv pq =
     rbind (pq_Push (int32 (int (fst iv))) (df q (snd iv)) pq) (\<lambda>pq'.
       if k < heap_Len pq' then rbind (pq_Pop pq') (\<lambda>(_, pq''). Inr pq'') else Inr pq')"

text \<open>The loop that empties the reversed queue into the result.\<close>

fun bf_collect :: "nat \<Rightarrow> bool \<Rightarrow> PriorityQueue \<Rightarrow> go_fail + (int \<times> fl) list" where
  "bf_collect 0 prune0 pq = Inr []"
| "bf_collect (Suc n) prune0 pq =
     rbind (pq_Pop pq) (\<lambda>((v, s), pq').
       rbind (bf_collect n prune0 pq') (\<lambda>scores.
         Inr (if \<not> prune0 \<or> fless (Fin 0) s then (v, s) # scores else scores)))"

definition bf_finish :: "bool \<Rightarrow> PriorityQueue \<Rightarrow> go_fail + (int \<times> fl) list" where
  "bf_finish prune0 pq =
     rbind (pq_Reverse pq) (\<lambda>pq'. bf_collect (length (elems pq')) prune0 pq')"

definition bf_SearchVector :: "'v Bruteforce \<Rightarrow> 'v \<Rightarrow> int \<Rightarrow> bool \<Rightarrow> go_fail + (int \<times> fl) list" where
  "bf_SearchVector b q k prune0 =
     rbind (fold_res (bf_step (distanceFunc b) q k) (enumerate 0 (vectors b)) (NewPriorityQueue True))
       (bf_finish prune0)"

definition bf_SearchIndex :: "'v Bruteforce \<Rightarrow> int \<Rightarrow> int \<Rightarrow> bool \<Rightarrow> go_fail + (int \<times> fl) list" where
  "bf_SearchIndex b q k prune0 =
     (if q < 0 \<or> int (length (vectors b)) \<le> q then Inl (Error ''index out of range'')
      else rbind (fold_res (bf_step (distanceFunc b) (vectors b ! nat q) k)
               (filter (\<lambda>(i, _). int i \<noteq> q) (enumerate 0 (vectors b))) (NewPriorityQueue True))
             (bf_finish prune0))"

section \<open>The scan keeps the nearest vectors\<close>

definition bf_elem :: "('v \<Rightarrow> 'v \<Rightarrow> fl) \<Rightarrow> 'v \<Rightarrow> nat \<times> 'v \<Rightarrow> (int, fl) Elem" where
  "bf_elem df q iv = \<lparr>Value = int (fst iv), Weight = df q (snd iv)\<rparr>"

definition bf_pq_inv :: "nat \<Rightarrow> (int, fl) Elem multiset \<Rightarrow> PriorityQueue \<Rightarrow> bool" where
  "bf_pq_inv k M pq \<longleftrightarrow> pq_inv pq \<and> desc pq \<and> lookup pq = Value ` set_mset M \<and>
     top_of (elem_less fless True) k M (mset (elems pq))"

lemma bf_step_inv:
  assumes inv: "bf_pq_inv (nat k) M pq" and i: "int (fst iv) < 2 ^ 31"
    and new: "int (fst iv) \<notin> Value ` set_mset M" and d: "df q (snd iv) \<noteq> NaN"
    and M: "\<forall>e \<in># M. Weight e \<noteq> NaN"
  shows "\<exists>pq'. bf_step df q k iv pq = Inr pq' \<and>
    bf_pq_inv (nat k) (add_mset (bf_elem df q iv) M) pq'"
proof -
  let ?e = "bf_elem df q iv"
  let ?h = "heap_Push fless ?e pq"
  obtain i v where iv: "iv = (i, v)" by (cases iv)
  have h: "heap_inv fless (\<lambda>w. w \<noteq> NaN) pq" and ds: "desc pq"
    and lk: "lookup pq = Value ` set_mset M"
    and top: "top_of (elem_less fless (desc pq)) (nat k) M (mset (elems pq))"
    using inv by (auto simp: bf_pq_inv_def pq_inv_def)
  have e: "Weight ?e \<noteq> NaN" "Value ?e = int i" using d iv by (simp_all add: bf_elem_def)
  have pi: "pq_inv pq" using inv by (simp add: bf_pq_inv_def)
  obtain p where p: "pq_Push (int32 (int i)) (df q v) pq = Inr p"
    "pq_inv p" "p = ?h\<lparr>lookup := insert (int i) (lookup pq)\<rparr>"
    using pq_Push_inv[OF pi, of "df q v" "int i"] d i new iv lk
    by (auto simp: pq_Push_def bf_elem_def)
  have len: "length (elems p) = Suc (length (elems pq))"
    using fl_weight.heap_Push_length[OF h e(1)] p(3) by simp
  show ?thesis
  proof (cases "length (elems pq) < nat k")
    case True
    then have "\<not> k < heap_Len p" using len by (simp add: heap_Len_def)
    moreover have "top_of (elem_less fless True) (nat k) (add_mset ?e M) (mset (elems p))"
      using fl_weight.heap_Push_top[OF h e(1) M top True] ds p(3) by simp
    ultimately show ?thesis
      using p lk ds iv e by (auto simp: bf_step_def bf_pq_inv_def)
  next
    case False
    then have full: "k < heap_Len p" using len by (simp add: heap_Len_def)
    have "elems p \<noteq> []" using len by auto
    from pq_Pop_inv[OF p(2) this] obtain x y p' where p': "pq_Pop p = Inr ((x, y), p')"
      "pq_inv p'" "desc p' = desc p" "lookup p' = lookup p" by blast
    obtain z h' where h': "heap_Pop fless ?h = Inr (z, h')"
      "top_of (elem_less fless (desc pq)) (nat k) (add_mset ?e M) (mset (elems h'))"
      using fl_weight.heap_Push_Pop_top[OF h e(1) M top] False by auto
    have "elems p' = elems h'"
      using p'(1) h'(1) p(3) by (auto simp: pq_Pop_def heap_Pop_def res_simps)
    then show ?thesis
      using p p' h' full lk ds iv e by (auto simp: bf_step_def bf_pq_inv_def)
  qed
qed

lemma bf_scan_inv:
  assumes "bf_pq_inv (nat k) M pq" and "\<forall>e \<in># M. Weight e \<noteq> NaN"
    and "\<forall>iv \<in> set ivs. int (fst iv) < 2 ^ 31 \<and> df q (snd iv) \<noteq> NaN"
    and "distinct (map fst ivs)" and "\<forall>iv \<in> set ivs. int (fst iv) \<notin> Value ` set_mset M"
  shows "\<exists>pq'. fold_res (bf_step df q k) ivs pq = Inr pq' \<and>
    bf_pq_inv (nat k) (M + mset (map (bf_elem df q) ivs)) pq'"
  using assms
proof (induction ivs arbitrary: pq M)
  case Nil
  then show ?case by simp
next
  case (Cons iv ivs)
  obtain pq' where pq': "bf_step df q k iv pq = Inr pq'"
    "bf_pq_inv (nat k) (add_mset (bf_elem df q iv) M) pq'"
    using bf_step_inv[OF Cons.prems(1), of iv df q] Cons.prems by auto
  have "\<exists>p. fold_res (bf_step df q k) ivs pq' = Inr p \<and>
      bf_pq_inv (nat k) (add_mset (bf_elem df q iv) M + mset (map (bf_elem df q) ivs)) p"
  proof (rule Cons.IH[OF pq'(2)])
    show "\<forall>e \<in># add_mset (bf_elem df q iv) M. Weight e \<noteq> NaN"
      using Cons.prems(2,3) by (simp add: bf_elem_def)
    have "fst jv \<noteq> fst iv" if "jv \<in> set ivs" for jv
      using that Cons.prems(4) by (metis distinct.simps(2) image_eqI list.set_map list.simps(9))
    then show "\<forall>jv \<in> set ivs. int (fst jv) \<notin> Value ` set_mset (add_mset (bf_elem df q iv) M)"
      using Cons.prems(5) by (simp add: bf_elem_def)
  qed (use Cons.prems in simp_all)
  with pq' show ?case by auto
qed

lemma bf_collect_sorted:
  assumes "pq_inv p" and "\<not> desc p" and "length (elems p) = n"
  shows "\<exists>ys. bf_collect n prune0 p = Inr (filter (\<lambda>(v, s). \<not> prune0 \<or> fless (Fin 0) s) ys) \<and>
    mset ys = image_mset (\<lambda>e. (Value e, Weight e)) (mset (elems p)) \<and>
    sorted_wrt (\<lambda>a b. fle (snd a) (snd b)) ys"
  using assms
proof (induction n arbitrary: p)
  case 0
  then show ?case by simp
next
  case (Suc n)
  then have "elems p \<noteq> []" by auto
  from pq_Pop_inv[OF Suc.prems(1) this] obtain v w p' where
    p': "pq_Pop p = Inr ((v, w), p')" "pq_inv p'" "desc p' = desc p"
    "mset (elems p) = add_mset \<lparr>Value = v, Weight = w\<rparr> (mset (elems p'))"
    "\<forall>e \<in> set (elems p). if desc p then fle (Weight e) w else fle w (Weight e)" by blast
  have "length (elems p') = n" using p'(4) Suc.prems(3) by (metis Suc_inject size_add_mset size_mset)
  from Suc.IH[OF p'(2) _ this] obtain ys where
    ys: "bf_collect n prune0 p' = Inr (filter (\<lambda>(v, s). \<not> prune0 \<or> fless (Fin 0) s) ys)"
    "mset ys = image_mset (\<lambda>e. (Value e, Weight e)) (mset (elems p'))"
    "sorted_wrt (\<lambda>a b. fle (snd a) (snd b)) ys"
    using p'(3) Suc.prems(2) by auto
  have "fle w (snd b)" if "b \<in> set ys" for b
  proof -
    have "b \<in># image_mset (\<lambda>e. (Value e, Weight e)) (mset (elems p'))"
      using that ys(2) by (metis set_mset_mset)
    then obtain e where "e \<in> set (elems p')" "b = (Value e, Weight e)" by auto
    moreover have "set (elems p') \<subseteq> set (elems p)" using p'(4)
      by (metis set_mset_mset set_mset_add_mset_insert subset_insertI)
    ultimately show ?thesis using p'(5) Suc.prems(2) by auto
  qed
  with ys have "sorted_wrt (\<lambda>a b. fle (snd a) (snd b)) ((v, w) # ys)" by simp
  moreover have "mset ((v, w) # ys) = image_mset (\<lambda>e. (Value e, Weight e)) (mset (elems p))"
    using p'(4) ys(2) by simp
  ultimately show ?case
    using p'(1) ys(1) by (intro exI[of _ "(v, w) # ys"]) auto
qed

lemma bf_collect_filter:
  "bf_collect n False p = Inr ys \<Longrightarrow>
   bf_collect n prune0 p = Inr (filter (\<lambda>(v, s). \<not> prune0 \<or> fless (Fin 0) s) ys)"
proof (induction n arbitrary: p ys)
  case 0
  then show ?case by simp
next
  case (Suc n)
  then obtain v s p' zs where "pq_Pop p = Inr ((v, s), p')" "bf_collect n False p' = Inr zs"
    "ys = (v, s) # zs" by (auto simp: res_simps)
  with Suc.IH[of p' zs] show ?case by simp
qed

lemma bf_finish_sorted:
  assumes "bf_pq_inv k M pq"
  shows "\<exists>ys. (\<forall>prune0. bf_finish prune0 pq =
      Inr (filter (\<lambda>(v, s). \<not> prune0 \<or> fless (Fin 0) s) ys)) \<and>
    mset ys = image_mset (\<lambda>e. (Value e, Weight e)) (mset (elems pq)) \<and>
    sorted_wrt (\<lambda>a b. fle (snd a) (snd b)) ys"
proof -
  have "pq_inv pq" "desc pq" using assms by (auto simp: bf_pq_inv_def)
  with pq_Reverse_inv[of pq] obtain p where p: "pq_Reverse pq = Inr p" "pq_inv p" "\<not> desc p"
    "mset (elems p) = mset (elems pq)" by auto
  show ?thesis
  proof -
    obtain ys where ys: "bf_collect (length (elems p)) False p = Inr ys"
      "mset ys = image_mset (\<lambda>e. (Value e, Weight e)) (mset (elems p))"
      "sorted_wrt (\<lambda>a b. fle (snd a) (snd b)) ys"
      using bf_collect_sorted[OF p(2,3) refl, of False] by auto
    have "bf_collect (length (elems p)) prune0 p =
        Inr (filter (\<lambda>(v, s). \<not> prune0 \<or> fless (Fin 0) s) ys)" for prune0
      using ys(1) by (rule bf_collect_filter)
    with p ys show ?thesis by (auto simp: bf_finish_def)
  qed
qed

lemma bf_pq_inv_New: "bf_pq_inv k {#} (NewPriorityQueue True)"
  by (simp add: bf_pq_inv_def pq_inv_New top_of_empty) (simp add: NewPriorityQueue_def top_of_empty)

text \<open>The search over any list of indexed vectors with distinct indices: the result holds the
  \<open>k\<close> nearest of them, nearest first; with \<^verbatim>\<open>prune0\<close> the non-positive distances are dropped.\<close>

lemma bf_search_nearest:
  assumes "\<forall>iv \<in> set ivs. int (fst iv) < 2 ^ 31 \<and> df q (snd iv) \<noteq> NaN"
    and "distinct (map fst ivs)"
  shows "\<exists>ys. (\<forall>prune0. rbind (fold_res (bf_step df q k) ivs (NewPriorityQueue True))
      (bf_finish prune0) = Inr (filter (\<lambda>(i, s). \<not> prune0 \<or> fless (Fin 0) s) ys)) \<and>
    length ys = min (nat k) (length ivs) \<and> sorted_wrt (\<lambda>a b. fle (snd a) (snd b)) ys \<and>
    mset ys \<subseteq># mset (map (\<lambda>iv. (int (fst iv), df q (snd iv))) ivs) \<and>
    (\<forall>a \<in> set ys. \<forall>b \<in># mset (map (\<lambda>iv. (int (fst iv), df q (snd iv))) ivs) - mset ys.
       fle (snd a) (snd b))"
proof -
  let ?M = "mset (map (bf_elem df q) ivs)"
  let ?pair = "\<lambda>e :: (int, fl) Elem. (Value e, Weight e)"
  obtain pq where pq: "fold_res (bf_step df q k) ivs (NewPriorityQueue True) = Inr pq"
    "bf_pq_inv (nat k) ?M pq"
    using bf_scan_inv[OF bf_pq_inv_New, of ivs df q k] assms by auto
  obtain ys where ys: "\<And>prune0. bf_finish prune0 pq =
      Inr (filter (\<lambda>(v, s). \<not> prune0 \<or> fless (Fin 0) s) ys)"
    "mset ys = image_mset ?pair (mset (elems pq))" "sorted_wrt (\<lambda>a b. fle (snd a) (snd b)) ys"
    using bf_finish_sorted[OF pq(2)] by auto
  have top: "top_of (elem_less fless True) (nat k) ?M (mset (elems pq))"
    using pq(2) by (simp add: bf_pq_inv_def)
  then have sub: "mset (elems pq) \<subseteq># ?M" and sz: "length (elems pq) = min (nat k) (length ivs)"
    by (auto simp: top_of_def)
  have img: "image_mset ?pair ?M = mset (map (\<lambda>iv. (int (fst iv), df q (snd iv))) ivs)"
    by (simp add: bf_elem_def comp_def image_mset.compositionality)
  have nan: "Weight e \<noteq> NaN" if "e \<in># ?M" for e using that assms(1) by (auto simp: bf_elem_def)
  have far: "fle (snd a) (snd b)"
    if a: "a \<in> set ys" and b: "b \<in># image_mset ?pair ?M - mset ys" for a b
  proof -
    have "image_mset ?pair ?M - mset ys = image_mset ?pair (?M - mset (elems pq))"
      using sub ys(2) by (simp add: image_mset_Diff)
    with b obtain eb where eb: "eb \<in># ?M - mset (elems pq)" "b = ?pair eb" by auto
    have "a \<in># image_mset ?pair (mset (elems pq))" using a ys(2) by (metis set_mset_mset)
    then obtain ea where ea: "ea \<in># mset (elems pq)" "a = ?pair ea" by auto
    have "\<not> fless (Weight eb) (Weight ea)" using top ea(1) eb(1) by (auto simp: top_of_def elem_less_def)
    then have "fle (Weight ea) (Weight eb)"
      using nan[of ea] nan[of eb] mset_subset_eqD[OF sub ea(1)] in_diffD[OF eb(1)]
      by (intro not_fless_fle) auto
    then show ?thesis using ea eb by simp
  qed
  have "length ys = min (nat k) (length ivs)" using ys(2) sz by (metis size_image_mset size_mset)
  moreover have "mset ys \<subseteq># image_mset ?pair ?M"
    using ys(2) image_mset_subseteq_mono[OF sub] by simp
  ultimately show ?thesis
    using pq(1) ys far unfolding img by (intro exI[of _ ys]) auto
qed

text \<open>Exact nearest-neighbour search: over fewer than \<open>2\<^sup>3\<^sup>1\<close> vectors whose distances to the query
  are not NaN, \<^verbatim>\<open>SearchVector\<close> without pruning returns the \<open>min k n\<close> nearest vectors with their
  indices and distances, nearest first, and no vector left out is nearer than a returned one.\<close>

theorem bruteforce_search_vector:
  assumes "int (length (vectors b)) \<le> 2 ^ 31"
    and "\<forall>v \<in> set (vectors b). distanceFunc b q v \<noteq> NaN"
  shows "\<exists>ys. bf_SearchVector b q k False = Inr ys \<and>
    length ys = min (nat k) (length (vectors b)) \<and>
    sorted_wrt (\<lambda>x y. fle (snd x) (snd y)) ys \<and>
    mset ys \<subseteq># mset (map (\<lambda>(i, v). (int i, distanceFunc b q v)) (enumerate 0 (vectors b))) \<and>
    (\<forall>x \<in> set ys.
       \<forall>y \<in># mset (map (\<lambda>(i, v). (int i, distanceFunc b q v)) (enumerate 0 (vectors b))) - mset ys.
         fle (snd x) (snd y))"
proof -
  let ?ivs = "enumerate 0 (vectors b)"
  have "\<forall>iv \<in> set ?ivs. int (fst iv) < 2 ^ 31 \<and> distanceFunc b q (snd iv) \<noteq> NaN"
    using assms by (auto simp: in_set_enumerate_eq)
  from bf_search_nearest[of ?ivs "distanceFunc b" q k, OF this] show ?thesis
    by (auto simp: bf_SearchVector_def distinct_enumerate case_prod_unfold dest: spec[of _ False])
qed

definition bf_example :: "int Bruteforce" where
  "bf_example = \<lparr>distanceFunc = (\<lambda>a b. Fin (of_int \<bar>a - b\<bar>)), vectors = [4, 9, 5]\<rparr>"

theorem bruteforce_search_vector_witness:
  "\<exists>ys. bf_SearchVector bf_example 6 2 False = Inr ys \<and> length ys = 2"
  using bruteforce_search_vector[of bf_example 6 2] by (auto simp: bf_example_def)

end
