(* ===== verification/Go_Encoding.thy ===== *)
theory Go_Encoding
  imports Go_Prelude
begin

text \<open>
  Decimal conversion (\<^verbatim>\<open>strconv.Atoi\<close>, \<^verbatim>\<open>strconv.Itoa\<close> and the generic wrappers of
  \<^verbatim>\<open>common/util/strconv.go\<close>) and the byte streams of \<^verbatim>\<open>common/encoding\<close>.

  A Go string is its bytes: \<open>string\<close>, one \<open>char\<close> per byte. A writer is the bytes written so
  far with an optional capacity, beyond which a write fails. A reader is the remaining bytes, the
  largest number of bytes each of the next \<^verbatim>\<open>Read\<close> calls returns (short reads), and whether it
  reports end of file even for an empty destination (as \<^verbatim>\<open>bytes.Reader\<close> does and
  \<^verbatim>\<open>bytes.Buffer\<close> and files do not).
\<close>

section \<open>Decimal integers\<close>

definition digit_val :: "char \<Rightarrow> int option" where
  "digit_val c = (let n = of_char c :: nat in if 48 \<le> n \<and> n \<le> 57 then Some (int n - 48) else None)"

fun digits_val :: "int \<Rightarrow> string \<Rightarrow> int option" where
  "digits_val acc [] = Some acc"
| "digits_val acc (c # cs) =
     (case digit_val c of None \<Rightarrow> None | Some d \<Rightarrow> digits_val (acc * 10 + d) cs)"

text \<open>\<^verbatim>\<open>strconv.ParseInt(s, 10, bits)\<close>: an optional sign, at least one digit, in range.\<close>

definition parse_int :: "nat \<Rightarrow> string \<Rightarrow> int option" where
  "parse_int bits s =
     (let neg = (s \<noteq> [] \<and> hd s = CHR ''-'');
          t = (if s \<noteq> [] \<and> (hd s = CHR ''-'' \<or> hd s = CHR ''+'') then tl s else s)
      in if t = [] then None
         else case digits_val 0 t of None \<Rightarrow> None
              | Some v \<Rightarrow>
                  (let w = (if neg then - v else v)
                   in if - (2 ^ (bits - 1)) \<le> w \<and> w < 2 ^ (bits - 1) then Some w else None))"

definition atoi :: "string \<Rightarrow> int option" where
  "atoi s = parse_int 64 s"

text \<open>\<^verbatim>\<open>util.ParseInt[int32]\<close>.\<close>

definition ParseInt32 :: "string \<Rightarrow> int option" where
  "ParseInt32 s = parse_int 32 s"

fun nat_digits :: "nat \<Rightarrow> string" where
  "nat_digits n =
     (if n < 10 then [char_of (48 + n)] else nat_digits (n div 10) @ [char_of (48 + n mod 10)])"

declare nat_digits.simps [simp del]

text \<open>\<^verbatim>\<open>util.FormatInt\<close> and \<^verbatim>\<open>strconv.Itoa\<close>.\<close>

definition FormatInt :: "int \<Rightarrow> string" where
  "FormatInt n = (if n < 0 then CHR ''-'' # nat_digits (nat (- n)) else nat_digits (nat n))"

lemma digits_val_append:
  "digits_val acc (xs @ ys) = Option.bind (digits_val acc xs) (\<lambda>a. digits_val a ys)"
  by (induction xs arbitrary: acc) (auto split: option.splits)

lemma digit_val_char_of [simp]: "d < 10 \<Longrightarrow> digit_val (char_of (48 + d :: nat)) = Some (int d)"
  by (simp add: digit_val_def Let_def of_char_of)

lemma digits_val_nat_digits:
  "digits_val acc (nat_digits n) = Some (acc * 10 ^ length (nat_digits n) + int n)"
proof (induction n arbitrary: acc rule: nat_digits.induct)
  case (1 n)
  show ?case
  proof (cases "n < 10")
    case True
    then show ?thesis by (simp add: nat_digits.simps[of n])
  next
    case False
    have "int n = int (n div 10) * 10 + int (n mod 10)"
      by (metis div_mult_mod_eq of_nat_add of_nat_mult of_nat_numeral)
    with 1[OF False, of acc] False show ?thesis
      by (simp add: nat_digits.simps[of n] digits_val_append algebra_simps)
  qed
qed

lemma nat_digits_nonempty [simp]: "nat_digits n \<noteq> []"
  by (subst nat_digits.simps) simp

lemma char_of_digit_not_sign: "d < 10 \<Longrightarrow> char_of (48 + d :: nat) \<notin> {CHR ''-'', CHR ''+''}"
  by (auto simp: char_of_eq_iff take_bit_eq_mod)

lemma hd_nat_digits: "hd (nat_digits n) \<notin> {CHR ''-'', CHR ''+''}"
proof (induction n rule: nat_digits.induct)
  case (1 n)
  then show ?case
    using char_of_digit_not_sign[of n] by (cases "n < 10") (simp_all add: nat_digits.simps[of n])
qed

lemma parse_int_FormatInt:
  "- (2 ^ (bits - 1)) \<le> n \<Longrightarrow> n < 2 ^ (bits - 1) \<Longrightarrow> parse_int bits (FormatInt n) = Some n"
  using hd_nat_digits[of "nat n"] digits_val_nat_digits[of 0]
  by (auto simp: parse_int_def FormatInt_def Let_def)

section \<open>Byte streams\<close>

record writer =
  w_data :: string
  w_room :: "nat option"
  w_silent :: bool

text \<open>\<^verbatim>\<open>Write\<close>: the number of bytes taken and the writer afterwards. A full writer reports an error,
  or takes fewer bytes silently (\<open>w_silent\<close>), against which \<^verbatim>\<open>WriteBytes\<close> guards.\<close>

definition w_Write :: "string \<Rightarrow> writer \<Rightarrow> go_fail + nat \<times> writer" where
  "w_Write p w =
     (case w_room w of
        None \<Rightarrow> Inr (length p, w\<lparr>w_data := w_data w @ p\<rparr>)
      | Some n \<Rightarrow>
          if length p \<le> n \<or> w_silent w
          then Inr (min (length p) n,
                    w\<lparr>w_data := w_data w @ take n p, w_room := Some (n - length p)\<rparr>)
          else Inl (Error ''short write''))"

definition binary_Write :: "string \<Rightarrow> writer \<Rightarrow> go_fail + writer" where
  "binary_Write p w = rbind (w_Write p w) (\<lambda>(n, w'). Inr w')"

record reader =
  r_data :: string
  r_chunks :: "nat list"
  r_eager_eof :: bool

text \<open>One call of \<^verbatim>\<open>Read\<close> with a destination of \<open>n\<close> bytes.\<close>

definition r_Read :: "nat \<Rightarrow> reader \<Rightarrow> go_fail + string \<times> reader" where
  "r_Read n r =
     (if r_data r = [] \<and> (0 < n \<or> r_eager_eof r) then Inl (Error ''EOF'')
      else let m = (case r_chunks r of [] \<Rightarrow> n | c # _ \<Rightarrow> min c n)
           in Inr (take m (r_data r),
                   r\<lparr>r_data := drop m (r_data r), r_chunks := tl (r_chunks r)\<rparr>))"

text \<open>\<^verbatim>\<open>io.ReadFull\<close>, on which \<^verbatim>\<open>binary.Read\<close> of a fixed-size value rests: reads again until the
  destination is full, an empty read included.\<close>

function read_full :: "nat \<Rightarrow> string \<Rightarrow> reader \<Rightarrow> go_fail + string \<times> reader" where
  "read_full need acc r =
     (if need = 0 then Inr (acc, r)
      else case r_Read need r of
        Inl e \<Rightarrow> Inl (if acc = [] then e else Error ''unexpected EOF'')
      | Inr (bs, r') \<Rightarrow> read_full (need - length bs) (acc @ bs) r')"
  by pat_completeness auto
termination
  by (relation "measures [\<lambda>(need, acc, r). need, \<lambda>(need, acc, r). length (r_chunks r)]")
    (auto simp: r_Read_def Let_def split: if_splits list.splits)

declare read_full.simps [simp del]

text \<open>\<^verbatim>\<open>binary.Write\<close> and \<^verbatim>\<open>binary.Read\<close> of a little-endian \<^verbatim>\<open>int32\<close> and of a \<^verbatim>\<open>uint8\<close>.\<close>

definition int32_bytes :: "int \<Rightarrow> string" where
  "int32_bytes n = map (\<lambda>i. char_of (nat ((n mod 2 ^ 32) div 256 ^ i mod 256))) [0, 1, 2, 3]"

definition bytes_int32 :: "string \<Rightarrow> int" where
  "bytes_int32 bs = int32 (\<Sum>i\<leftarrow>[0, 1, 2, 3]. of_char (bs ! i) * 256 ^ i)"

definition write_int32 :: "int \<Rightarrow> writer \<Rightarrow> go_fail + writer" where
  "write_int32 n = binary_Write (int32_bytes n)"

definition read_int32 :: "reader \<Rightarrow> go_fail + int \<times> reader" where
  "read_int32 r = rbind (read_full 4 [] r) (\<lambda>(bs, r'). Inr (bytes_int32 bs, r'))"

definition write_uint8 :: "nat \<Rightarrow> writer \<Rightarrow> go_fail + writer" where
  "write_uint8 n = binary_Write [char_of n]"

definition read_uint8 :: "reader \<Rightarrow> go_fail + nat \<times> reader" where
  "read_uint8 r = rbind (read_full 1 [] r) (\<lambda>(bs, r'). Inr (of_char (hd bs), r'))"

section \<open>\<^verbatim>\<open>common/encoding\<close>\<close>

definition WriteBytes :: "string \<Rightarrow> writer \<Rightarrow> go_fail + writer" where
  "WriteBytes s w =
     rbind (write_int32 (int32 (int (length s))) w) (\<lambda>w1.
     rbind (w_Write s w1) (\<lambda>(n, w2).
       if n \<noteq> length s then Inl (Error ''fail to write string'') else Inr w2))"

text \<open>The read loop of \<^verbatim>\<open>ReadBytes\<close>; \<open>need\<close> is what is left of the destination.\<close>

function ReadBytes_loop :: "nat \<Rightarrow> string \<Rightarrow> reader \<Rightarrow> go_fail + string \<times> reader" where
  "ReadBytes_loop need acc r =
     (case r_Read need r of
        Inl e \<Rightarrow> Inl e
      | Inr (bs, r') \<Rightarrow>
          if length bs = need then Inr (acc @ bs, r')
          else if bs = [] then Inl (Error ''fail to read string'')
          else ReadBytes_loop (need - length bs) (acc @ bs) r')"
  by pat_completeness auto
termination
  by (relation "measure (\<lambda>(need, acc, r). need)")
    (auto simp: r_Read_def Let_def split: if_splits list.splits)

declare ReadBytes_loop.simps [simp del]

text \<open>A negative length makes \<^verbatim>\<open>make([]byte, length)\<close> panic.\<close>

definition ReadBytes :: "reader \<Rightarrow> go_fail + string \<times> reader" where
  "ReadBytes r =
     rbind (read_int32 r) (\<lambda>(length, r').
       if length < 0 then Inl (Panic ''makeslice: len out of range'')
       else ReadBytes_loop (nat length) [] r')"

definition WriteString :: "string \<Rightarrow> writer \<Rightarrow> go_fail + writer" where
  "WriteString s w = WriteBytes s w"

definition ReadString :: "reader \<Rightarrow> go_fail + string \<times> reader" where
  "ReadString r = ReadBytes r"

section \<open>Round trips\<close>

lemma base256:
  assumes "0 \<le> m" and "m < 2 ^ 32"
  shows "m mod 256 + (m div 256 mod 256) * 256 + (m div 65536 mod 256) * 65536 +
    (m div 16777216 mod 256) * 16777216 = (m :: int)"
proof -
  have d: "m div 65536 = m div 256 div 256" "m div 16777216 = m div 256 div 256 div 256"
    by (simp_all add: zdiv_zmult2_eq[symmetric])
  have "m div 256 div 256 div 256 mod 256 = m div 256 div 256 div 256"
    using assms by (simp add: zdiv_zmult2_eq[symmetric])
  moreover have "m = m div 256 * 256 + m mod 256"
    "m div 256 = m div 256 div 256 * 256 + m div 256 mod 256"
    "m div 256 div 256 = m div 256 div 256 div 256 * 256 + m div 256 div 256 mod 256"
    by simp_all
  ultimately show ?thesis unfolding d by linarith
qed

lemma pow256: "256 ^ 0 = (1 :: int)" "256 ^ 1 = (256 :: int)" "256 ^ 2 = (65536 :: int)"
  "256 ^ 3 = (16777216 :: int)"
  by simp_all

lemma of_char_int: "0 \<le> k \<Longrightarrow> k < 256 \<Longrightarrow> (of_char (char_of (nat k)) :: int) = k"
proof -
  assume k: "0 \<le> k" "k < 256"
  have "(of_char (char_of (nat k)) :: int) = int (of_char (char_of (nat k)))"
    by (rule of_nat_of_char[symmetric])
  also have "\<dots> = int (nat k mod 256)" by (simp only: of_char_of)
  also have "\<dots> = k" using k by simp
  finally show ?thesis .
qed

lemma bytes_int32_inverse:
  assumes "- (2 ^ 31) \<le> n" and "n < 2 ^ 31"
  shows "bytes_int32 (int32_bytes n) = n"
proof -
  define m where "m = n mod 2 ^ 32"
  have m: "0 \<le> m" "m < 2 ^ 32" by (simp_all add: m_def)
  have bytes: "int32_bytes n = map (\<lambda>k. char_of (nat k))
      [m mod 256, m div 256 mod 256, m div 65536 mod 256, m div 16777216 mod 256]"
    unfolding int32_bytes_def m_def[symmetric] list.map by (simp only: pow256 div_by_1)
  have byte: "(of_char (char_of (nat (k mod 256))) :: int) = k mod 256" for k
    by (rule of_char_int) simp_all
  have val: "bytes_int32 [a, b, c, d] =
      int32 (of_char a + of_char b * 256 + of_char c * 65536 + of_char d * 16777216)" for a b c d
    by (simp add: bytes_int32_def add.assoc)
  have "bytes_int32 (int32_bytes n) =
      int32 (m mod 256 + (m div 256 mod 256) * 256 + (m div 65536 mod 256) * 65536 +
        (m div 16777216 mod 256) * 16777216)"
    unfolding bytes list.map val byte ..
  also have "\<dots> = int32 m" by (simp only: base256[OF m])
  also have "\<dots> = int32 n" by (simp add: m_def int32_def mod_add_left_eq)
  finally show ?thesis using assms by simp
qed

lemma length_int32_bytes [simp]: "length (int32_bytes n) = 4"
  by (simp add: int32_bytes_def)

text \<open>\<open>r\<close> turned into \<open>r'\<close> by reading \<open>n\<close> bytes.\<close>

definition advanced :: "nat \<Rightarrow> reader \<Rightarrow> reader \<Rightarrow> bool" where
  "advanced n r r' \<longleftrightarrow> r_data r' = drop n (r_data r) \<and> r_eager_eof r' = r_eager_eof r \<and>
     set (r_chunks r') \<subseteq> set (r_chunks r)"

lemma advanced_trans: "advanced m r s \<Longrightarrow> advanced n s t \<Longrightarrow> advanced (m + n) r t"
  by (auto simp: advanced_def add.commute)

lemma advanced_take:
  assumes "advanced (length bs) r r' \<and> bs = take (length bs) (r_data r) \<and> length bs \<le> n"
  shows "bs @ take (n - length bs) (r_data r') = take n (r_data r)"
proof -
  define k where "k = length bs"
  have "take k (r_data r) @ take (n - k) (drop k (r_data r)) = take (k + (n - k)) (r_data r)"
    by (rule take_add[symmetric])
  then show ?thesis using assms unfolding advanced_def k_def[symmetric] by simp
qed

lemma r_Read_returns:
  "r_data r \<noteq> [] \<or> n = 0 \<and> \<not> r_eager_eof r \<Longrightarrow> \<exists>bs r'. r_Read n r = Inr (bs, r')"
  by (auto simp: r_Read_def Let_def)

lemma r_Read_advanced:
  assumes "r_Read n r = Inr (bs, r')"
  shows "advanced (length bs) r r' \<and> bs = take (length bs) (r_data r) \<and> length bs \<le> n"
  using assms by (auto simp: r_Read_def advanced_def Let_def min_def split: if_splits list.splits)

lemma read_full_enough:
  "need \<le> length (r_data r) \<Longrightarrow>
   \<exists>r'. read_full need acc r = Inr (acc @ take need (r_data r), r') \<and> advanced need r r'"
proof (induction need acc r rule: read_full.induct)
  case (1 need acc r)
  show ?case
  proof (cases "need = 0")
    case True
    then show ?thesis by (simp add: read_full.simps advanced_def)
  next
    case False
    with 1(2) have "r_data r \<noteq> []" by auto
    then obtain bs r' where b: "r_Read need r = Inr (bs, r')"
      using r_Read_returns[of r need] by blast
    note a = r_Read_advanced[OF b]
    then have "need - length bs \<le> length (r_data r')" using 1(2) by (auto simp: advanced_def)
    from 1(1)[OF False b refl this] obtain s where
      s: "read_full (need - length bs) (acc @ bs) r' =
            Inr ((acc @ bs) @ take (need - length bs) (r_data r'), s)"
      "advanced (need - length bs) r' s" by blast
    have "bs @ take (need - length bs) (r_data r') = take need (r_data r)"
      using advanced_take a by blast
    moreover have "advanced need r s"
      using advanced_trans[of "length bs" r r' "need - length bs" s] a s(2) by simp
    ultimately show ?thesis
      using s(1) b False by (simp add: read_full.simps[of need acc r])
  qed
qed

lemma ReadBytes_loop_enough:
  "need \<le> length (r_data r) \<Longrightarrow> 0 \<notin> set (r_chunks r) \<Longrightarrow>
   0 < need \<or> r_data r \<noteq> [] \<or> \<not> r_eager_eof r \<Longrightarrow>
   \<exists>r'. ReadBytes_loop need acc r = Inr (acc @ take need (r_data r), r') \<and> advanced need r r'"
proof (induction need acc r rule: ReadBytes_loop.induct)
  case (1 need acc r)
  have "r_data r \<noteq> [] \<or> need = 0 \<and> \<not> r_eager_eof r" using 1(2,4) by auto
  then obtain bs r' where b: "r_Read need r = Inr (bs, r')"
    using r_Read_returns[of r need] by blast
  note a = r_Read_advanced[OF b]
  show ?case
  proof (cases "length bs = need")
    case True
    with a b show ?thesis by (auto simp: ReadBytes_loop.simps[of need acc r])
  next
    case False
    have ne: "bs \<noteq> []" using b False 1(2,3)
      by (auto simp: r_Read_def Let_def min_def split: if_splits list.splits)
    have "\<exists>s. ReadBytes_loop (need - length bs) (acc @ bs) r' =
        Inr ((acc @ bs) @ take (need - length bs) (r_data r'), s) \<and>
        advanced (need - length bs) r' s"
    proof (rule 1(1)[OF b refl False ne])
      show "need - length bs \<le> length (r_data r')" using a 1(2) by (auto simp: advanced_def)
      show "0 \<notin> set (r_chunks r')" using a 1(3) by (auto simp: advanced_def)
      show "0 < need - length bs \<or> r_data r' \<noteq> [] \<or> \<not> r_eager_eof r'" using a False by simp
    qed
    then obtain s where
      s: "ReadBytes_loop (need - length bs) (acc @ bs) r' =
            Inr ((acc @ bs) @ take (need - length bs) (r_data r'), s)"
      "advanced (need - length bs) r' s" by blast
    have "bs @ take (need - length bs) (r_data r') = take need (r_data r)"
      using advanced_take a by blast
    moreover have "advanced need r s"
      using advanced_trans[of "length bs" r r' "need - length bs" s] a s(2) by simp
    ultimately show ?thesis
      using s(1) b False ne by (simp add: ReadBytes_loop.simps[of need acc r])
  qed
qed

text \<open>A reader on which every call makes progress and an empty destination is not an end of file.\<close>

definition steady :: "reader \<Rightarrow> bool" where
  "steady r \<longleftrightarrow> 0 \<notin> set (r_chunks r) \<and> \<not> r_eager_eof r"

definition emits :: "(writer \<Rightarrow> go_fail + writer) \<Rightarrow> string \<Rightarrow> bool" where
  "emits f bs \<longleftrightarrow>
     (\<forall>w. w_room w = None \<longrightarrow> f w = Inr (w\<lparr>w_data := w_data w @ bs\<rparr>))"

definition absorbs :: "(reader \<Rightarrow> go_fail + 'a \<times> reader) \<Rightarrow> string \<Rightarrow> 'a \<Rightarrow> bool" where
  "absorbs f bs v \<longleftrightarrow>
     (\<forall>r rest. r_data r = bs @ rest \<longrightarrow> steady r \<longrightarrow>
        (\<exists>r'. f r = Inr (v, r') \<and> r_data r' = rest \<and> steady r'))"

lemma absorbsI:
  "(\<And>r rest. r_data r = bs @ rest \<Longrightarrow> steady r \<Longrightarrow>
      \<exists>r'. f r = Inr (v, r') \<and> r_data r' = rest \<and> steady r') \<Longrightarrow> absorbs f bs v"
  by (simp add: absorbs_def)

lemma absorbsD:
  "absorbs f bs v \<Longrightarrow> r_data r = bs @ rest \<Longrightarrow> steady r \<Longrightarrow>
   \<exists>r'. f r = Inr (v, r') \<and> r_data r' = rest \<and> steady r'"
  by (simp add: absorbs_def)

lemma emits_Write: "emits (binary_Write bs) bs"
  by (simp add: emits_def binary_Write_def w_Write_def)

lemma emits_seq: "emits f bs \<Longrightarrow> emits g cs \<Longrightarrow> emits (\<lambda>w. rbind (f w) g) (bs @ cs)"
  by (simp add: emits_def)

lemma absorbs_return: "absorbs (\<lambda>r. Inr (v, r)) [] v"
  by (simp add: absorbs_def)

lemma absorbs_seq:
  assumes "absorbs f bs v" and "absorbs (g v) cs u"
  shows "absorbs (\<lambda>r. rbind (f r) (\<lambda>(x, r'). g x r')) (bs @ cs) u"
proof (rule absorbsI)
  fix r rest
  assume "r_data r = (bs @ cs) @ rest" "steady r"
  then obtain r' where "f r = Inr (v, r')" "r_data r' = cs @ rest" "steady r'"
    using absorbsD[OF assms(1), of r "cs @ rest"] by auto
  then show "\<exists>s. rbind (f r) (\<lambda>(x, r'). g x r') = Inr (u, s) \<and> r_data s = rest \<and> steady s"
    using absorbsD[OF assms(2)] by simp
qed

lemma absorbs_read_full: "absorbs (read_full (length bs) []) bs bs"
proof (rule absorbsI)
  fix r rest
  assume r: "r_data r = bs @ rest" "steady r"
  then obtain r' where "read_full (length bs) [] r = Inr (bs, r')" "advanced (length bs) r r'"
    using read_full_enough[of "length bs" r "[]"] by auto
  with r show "\<exists>r'. read_full (length bs) [] r = Inr (bs, r') \<and> r_data r' = rest \<and> steady r'"
    by (auto simp: advanced_def steady_def)
qed

lemma absorbs_read_int32:
  assumes "- (2 ^ 31) \<le> n" and "n < 2 ^ 31"
  shows "absorbs read_int32 (int32_bytes n) n"
proof -
  have "absorbs (\<lambda>r. rbind (read_full 4 [] r) (\<lambda>(bs, r'). Inr (bytes_int32 bs, r')))
      (int32_bytes n @ []) n"
    using absorbs_seq[OF absorbs_read_full[of "int32_bytes n"],
        of "\<lambda>bs r'. Inr (bytes_int32 bs, r')" "[]" n] absorbs_return[of n] bytes_int32_inverse[OF assms]
    by simp
  then show ?thesis by (simp add: read_int32_def [abs_def])
qed

lemma absorbs_read_uint8: "n < 256 \<Longrightarrow> absorbs read_uint8 [char_of n] n"
  using absorbs_seq[OF absorbs_read_full[of "[char_of n]"],
      of "\<lambda>bs r'. Inr (of_char (hd bs), r')" "[]" n] absorbs_return[of n]
  by (simp add: read_uint8_def [abs_def] of_char_of)

text \<open>What an encoder and a decoder promise each other: what one writes, the other reads back and
  leaves the rest of the stream alone.\<close>

locale codec =
  fixes enc :: "'a \<Rightarrow> writer \<Rightarrow> go_fail + writer"
    and dec :: "reader \<Rightarrow> go_fail + 'a \<times> reader"
    and valid :: "'a \<Rightarrow> bool"
    and code :: "'a \<Rightarrow> string"
  assumes enc_emits: "valid v \<Longrightarrow> emits (enc v) (code v)"
    and dec_absorbs: "valid v \<Longrightarrow> absorbs dec (code v) v"
begin

lemma round_trip:
  assumes "valid v" and "w_room w = None" and "enc v w = Inr w'" and "steady r"
    and "w_data w' = w_data w @ bs" and "r_data r = bs @ rest"
  shows "\<exists>r'. dec r = Inr (v, r') \<and> r_data r' = rest \<and> steady r'"
proof -
  have "bs = code v" using enc_emits[OF assms(1)] assms(2,3,5) by (auto simp: emits_def)
  then show ?thesis using absorbsD[OF dec_absorbs[OF assms(1)]] assms(4,6) by blast
qed

text \<open>A sequence of values, each written after the other.\<close>

lemma enc_list_emits: "(\<And>v. v \<in> set vs \<Longrightarrow> valid v) \<Longrightarrow> emits (fold_res enc vs) (concat (map code vs))"
proof (induction vs)
  case Nil
  show ?case by (simp add: emits_def)
next
  case (Cons v vs)
  then have "emits (\<lambda>w. rbind (enc v w) (fold_res enc vs)) (code v @ concat (map code vs))"
    by (intro emits_seq enc_emits) simp_all
  then show ?case by (simp add: emits_def)
qed

end

definition sized_code :: "string \<Rightarrow> string" where
  "sized_code s = int32_bytes (int (length s)) @ s"

lemma WriteString_emits: "length s < 2 ^ 31 \<Longrightarrow> emits (WriteString s) (sized_code s)"
  by (simp add: emits_def WriteString_def WriteBytes_def write_int32_def binary_Write_def
      w_Write_def sized_code_def)

lemma ReadString_absorbs:
  assumes "length s < 2 ^ 31"
  shows "absorbs ReadString (sized_code s) s"
proof -
  let ?rest = "\<lambda>n r. if n < 0 then Inl (Panic ''makeslice: len out of range'')
    else ReadBytes_loop (nat n) [] r"
  have loop: "absorbs (?rest (int (length s))) s s"
  proof (rule absorbsI)
    fix r rest
    assume r: "r_data r = s @ rest" "steady r"
    then obtain r' where "ReadBytes_loop (length s) [] r = Inr (s, r')" "advanced (length s) r r'"
      using ReadBytes_loop_enough[of "length s" r "[]"] by (auto simp: steady_def)
    with r show "\<exists>r'. ?rest (int (length s)) r = Inr (s, r') \<and> r_data r' = rest \<and> steady r'"
      by (auto simp: advanced_def steady_def)
  qed
  have "absorbs read_int32 (int32_bytes (int (length s))) (int (length s))"
    using assms by (intro absorbs_read_int32) simp_all
  from absorbs_seq[of _ _ _ ?rest, OF this loop] show ?thesis
    by (simp add: ReadString_def [abs_def] ReadBytes_def [abs_def] sized_code_def)
qed

interpretation str: codec WriteString ReadString "\<lambda>s. length s < 2 ^ 31" sized_code
  by unfold_locales (auto intro: WriteString_emits ReadString_absorbs)

end
