(* ===== verification/Dict_Index.thy ===== *)
theory Dict_Index
  imports Go_Encoding
begin

text \<open>
  The two dictionaries from sparse names to dense numbers: \<^verbatim>\<open>Index\<close> (\<^verbatim>\<open>dataset/index.go\<close>) and
  \<^verbatim>\<open>FreqDict\<close> (\<^verbatim>\<open>dataset/dict.go\<close>). The locale \<open>string_index\<close> is what the data set and the
  unified index rely on: a name keeps the number of its first appearance, and numbers and names
  are inverse to each other. Both dictionaries are instances of it.
\<close>

section \<open>Positions and first appearances\<close>

definition pos :: "'a \<Rightarrow> 'a list \<Rightarrow> nat" where
  "pos x xs = length (takeWhile (\<lambda>y. y \<noteq> x) xs)"

definition insert_new :: "'a \<Rightarrow> 'a list \<Rightarrow> 'a list" where
  "insert_new x xs = (if x \<in> set xs then xs else xs @ [x])"

lemma pos_less: "x \<in> set xs \<Longrightarrow> pos x xs < length xs"
  by (induction xs) (auto simp: pos_def)

lemma nth_pos: "x \<in> set xs \<Longrightarrow> xs ! pos x xs = x"
  by (induction xs) (auto simp: pos_def)

lemma pos_nth: "distinct xs \<Longrightarrow> i < length xs \<Longrightarrow> pos (xs ! i) xs = i"
  using pos_less[of "xs ! i" xs] nth_pos[of "xs ! i" xs] by (simp add: nth_eq_iff_index_eq)

lemma pos_append: "x \<in> set xs \<Longrightarrow> pos x (xs @ ys) = pos x xs"
  by (induction xs) (auto simp: pos_def)

lemma pos_append_new: "x \<notin> set xs \<Longrightarrow> pos x (xs @ [x]) = length xs"
  by (induction xs) (auto simp: pos_def)

lemma insert_new_distinct: "distinct xs \<Longrightarrow> distinct (insert_new x xs)"
  by (simp add: insert_new_def)

lemma set_insert_new [simp]: "set (insert_new x xs) = insert x (set xs)"
  by (auto simp: insert_new_def)

lemma length_insert_new: "length xs \<le> length (insert_new x xs) \<and> length (insert_new x xs) \<le> Suc (length xs)"
  by (simp add: insert_new_def)

lemma pos_insert_new: "y \<in> set xs \<Longrightarrow> pos y (insert_new x xs) = pos y xs"
  by (simp add: insert_new_def pos_append)

lemma set_fold_insert_new [simp]: "set (fold insert_new xs ys) = set xs \<union> set ys"
  by (induction xs arbitrary: ys) auto

lemma fold_insert_new_distinct: "distinct ys \<Longrightarrow> distinct (fold insert_new xs ys)"
  by (induction xs arbitrary: ys) (auto simp: insert_new_distinct)

lemma length_fold_insert_new: "length (fold insert_new xs ys) \<le> length xs + length ys"
proof (induction xs arbitrary: ys)
  case (Cons x xs)
  show ?case using Cons[of "insert_new x ys"] length_insert_new[where x = x and xs = ys] by simp
qed simp

lemma pos_fold_insert_new: "y \<in> set ys \<Longrightarrow> pos y (fold insert_new xs ys) = pos y ys"
  by (induction xs arbitrary: ys) (auto simp: pos_insert_new)

lemma fold_insert_new_fixed: "distinct (ys @ xs) \<Longrightarrow> fold insert_new xs ys = ys @ xs"
  by (induction xs arbitrary: ys) (auto simp: insert_new_def)

section \<open>The interface\<close>

locale string_index =
  fixes names :: "'s \<Rightarrow> string list"
    and add :: "string \<Rightarrow> 's \<Rightarrow> 's"
    and number :: "'s \<Rightarrow> string \<Rightarrow> int"
    and inv :: "'s \<Rightarrow> bool"
  assumes names_distinct: "inv s \<Longrightarrow> distinct (names s)"
    and add_inv: "inv s \<Longrightarrow> length (names s) + 1 < 2 ^ 31 \<Longrightarrow> inv (add x s)"
    and names_add: "inv s \<Longrightarrow> length (names s) + 1 < 2 ^ 31 \<Longrightarrow> names (add x s) = insert_new x (names s)"
    and number_eq: "inv s \<Longrightarrow> number s x = (if x \<in> set (names s) then int (pos x (names s)) else - 1)"
begin

lemma adds:
  "inv s \<Longrightarrow> length (names s) + length xs < 2 ^ 31 \<Longrightarrow>
   inv (fold add xs s) \<and> names (fold add xs s) = fold insert_new xs (names s)"
proof (induction xs arbitrary: s)
  case (Cons x xs)
  have "length (names s) + 1 < 2 ^ 31" using Cons.prems(2) by simp
  note s = add_inv[OF Cons.prems(1) this, of x] names_add[OF Cons.prems(1) this, of x]
  have "length (insert_new x (names s)) \<le> Suc (length (names s))" by (simp add: length_insert_new)
  then show ?case using Cons.IH[OF s(1)] s(2) Cons.prems(2) by simp
qed simp

lemma number_range:
  "inv s \<Longrightarrow> x \<in> set (names s) \<Longrightarrow> 0 \<le> number s x \<and> number s x < int (length (names s))"
  by (simp add: number_eq pos_less)

lemma number_known: "inv s \<Longrightarrow> number s x \<noteq> - 1 \<longleftrightarrow> x \<in> set (names s)"
  by (simp add: number_eq)

lemma names_number: "inv s \<Longrightarrow> x \<in> set (names s) \<Longrightarrow> names s ! nat (number s x) = x"
  by (simp add: number_eq nth_pos)

lemma number_names: "inv s \<Longrightarrow> i < length (names s) \<Longrightarrow> number s (names s ! i) = int i"
  by (simp add: number_eq pos_nth names_distinct)

lemma number_inj:
  "inv s \<Longrightarrow> x \<in> set (names s) \<Longrightarrow> number s x = number s y \<Longrightarrow> x = y"
  by (metis names_number number_known)

text \<open>Adding names never renumbers one that is already there.\<close>

lemma number_stable:
  assumes "inv s" and "length (names s) + length xs < 2 ^ 31" and "x \<in> set (names s)"
  shows "number (fold add xs s) x = number s x"
  using adds[OF assms(1,2)] assms(1,3) by (simp add: number_eq pos_fold_insert_new)

end

section \<open>\<^verbatim>\<open>dataset/index.go\<close>\<close>

record Index =
  Numbers :: "string \<rightharpoonup> int"
  Names :: "string list"

definition NotId :: int where
  "NotId = - 1"

definition NewMapIndex :: Index where
  "NewMapIndex = \<lparr>Numbers = Map.empty, Names = []\<rparr>"

text \<open>The receiver of \<^verbatim>\<open>Len\<close> may be nil.\<close>

definition idx_Len :: "Index option \<Rightarrow> int" where
  "idx_Len p = (case p of None \<Rightarrow> 0 | Some idx \<Rightarrow> int32 (int (length (Names idx))))"

definition idx_Add :: "string \<Rightarrow> Index \<Rightarrow> Index" where
  "idx_Add name idx =
     (if Numbers idx name = None
      then \<lparr>Numbers = (Numbers idx)(name \<mapsto> int32 (int (length (Names idx)))),
            Names = Names idx @ [name]\<rparr>
      else idx)"

definition ToNumber :: "Index \<Rightarrow> string \<Rightarrow> int" where
  "ToNumber idx name = (case Numbers idx name of Some denseId \<Rightarrow> denseId | None \<Rightarrow> NotId)"

definition ToName :: "Index \<Rightarrow> int \<Rightarrow> go_fail + string" where
  "ToName idx index = slice_get (Names idx) index"

definition GetNames :: "Index \<Rightarrow> string list" where
  "GetNames idx = Names idx"

definition idx_Marshal :: "Index \<Rightarrow> writer \<Rightarrow> go_fail + writer" where
  "idx_Marshal idx w =
     rbind (write_int32 (int32 (int (length (Names idx)))) w) (fold_res WriteString (Names idx))"

text \<open>\<open>i\<close> counts the names still to be read.\<close>

fun idx_read_names :: "nat \<Rightarrow> Index \<Rightarrow> reader \<Rightarrow> go_fail + Index \<times> reader" where
  "idx_read_names 0 idx r = Inr (idx, r)"
| "idx_read_names (Suc i) idx r =
     rbind (ReadString r) (\<lambda>(name, r'). idx_read_names i (idx_Add name idx) r')"

text \<open>A negative length makes \<^verbatim>\<open>make([]string, 0, n)\<close> panic.\<close>

definition idx_Unmarshal :: "reader \<Rightarrow> go_fail + Index \<times> reader" where
  "idx_Unmarshal r =
     rbind (read_int32 r) (\<lambda>(n, r').
       if n < 0 then Inl (Panic ''makeslice: cap out of range'')
       else idx_read_names (nat n) \<lparr>Numbers = Map.empty, Names = []\<rparr> r')"

definition MarshalIndex :: "Index \<Rightarrow> writer \<Rightarrow> go_fail + writer" where
  "MarshalIndex index w = idx_Marshal index w"

definition UnmarshalIndex :: "reader \<Rightarrow> go_fail + Index \<times> reader" where
  "UnmarshalIndex r = idx_Unmarshal r"

definition idx_inv :: "Index \<Rightarrow> bool" where
  "idx_inv idx \<longleftrightarrow>
     distinct (Names idx) \<and> length (Names idx) < 2 ^ 31 \<and>
     (\<forall>x. Numbers idx x = (if x \<in> set (Names idx) then Some (int (pos x (Names idx))) else None))"

lemma idx_inv_NewMapIndex [simp]: "idx_inv NewMapIndex"
  by (simp add: idx_inv_def NewMapIndex_def)

lemma Names_NewMapIndex [simp]: "Names NewMapIndex = []"
  by (simp add: NewMapIndex_def)

interpretation idx: string_index Names idx_Add ToNumber idx_inv
proof
  fix s :: Index and x
  assume s: "idx_inv s"
  then show "distinct (Names s)" by (simp add: idx_inv_def)
  show "ToNumber s x = (if x \<in> set (Names s) then int (pos x (Names s)) else - 1)"
    using s by (simp add: ToNumber_def idx_inv_def NotId_def)
  assume l: "length (Names s) + 1 < 2 ^ 31"
  then show n: "Names (idx_Add x s) = insert_new x (Names s)"
    using s by (auto simp: idx_Add_def idx_inv_def insert_new_def)
  show "idx_inv (idx_Add x s)"
  proof (cases "x \<in> set (Names s)")
    case True
    then show ?thesis using s by (simp add: idx_Add_def idx_inv_def)
  next
    case False
    then have "Numbers (idx_Add x s) = (Numbers s)(x \<mapsto> int (length (Names s)))"
      using s l by (simp add: idx_Add_def idx_inv_def)
    then show ?thesis using s l False unfolding idx_inv_def n
      by (auto simp: insert_new_def fun_eq_iff pos_append pos_append_new)
  qed
qed

lemma idx_inv_eq: "idx_inv i \<Longrightarrow> idx_inv j \<Longrightarrow> Names i = Names j \<Longrightarrow> i = j"
  by (rule Index.equality) (auto simp: idx_inv_def)

definition idx_code :: "Index \<Rightarrow> string" where
  "idx_code idx = int32_bytes (int (length (Names idx))) @ concat (map sized_code (Names idx))"

definition idx_storable :: "Index \<Rightarrow> bool" where
  "idx_storable idx \<longleftrightarrow> idx_inv idx \<and> (\<forall>s\<in>set (Names idx). length s < 2 ^ 31)"

lemma idx_Marshal_emits:
  assumes "idx_storable idx"
  shows "emits (MarshalIndex idx) (idx_code idx)"
proof -
  have "emits (fold_res WriteString (Names idx)) (concat (map sized_code (Names idx)))"
    using assms by (intro str.enc_list_emits) (auto simp: idx_storable_def)
  from emits_seq[OF emits_Write this] assms show ?thesis
    by (simp add: emits_def MarshalIndex_def idx_Marshal_def write_int32_def idx_code_def
        idx_storable_def idx_inv_def)
qed

lemma idx_read_names_absorbs:
  "(\<And>s. s \<in> set xs \<Longrightarrow> length s < 2 ^ 31) \<Longrightarrow>
   absorbs (idx_read_names (length xs) idx) (concat (map sized_code xs)) (fold idx_Add xs idx)"
proof (induction xs arbitrary: idx)
  case Nil
  show ?case by (simp add: absorbs_def)
next
  case (Cons x xs)
  have "absorbs (\<lambda>r. rbind (ReadString r) (\<lambda>(name, r'). idx_read_names (length xs) (idx_Add name idx) r'))
      (sized_code x @ concat (map sized_code xs)) (fold idx_Add xs (idx_Add x idx))"
    using Cons by (intro absorbs_seq[where v = x] ReadString_absorbs) auto
  then show ?case by (simp add: absorbs_def)
qed

lemma idx_Unmarshal_absorbs:
  assumes "idx_storable idx"
  shows "absorbs UnmarshalIndex (idx_code idx) idx"
proof -
  have inv: "idx_inv idx" and len: "length (Names idx) < 2 ^ 31"
    using assms by (simp_all add: idx_storable_def idx_inv_def)
  let ?rest = "\<lambda>n r'. if n < 0 then Inl (Panic ''makeslice: cap out of range'')
    else idx_read_names (nat n) NewMapIndex r'"
  have "fold idx_Add (Names idx) NewMapIndex = idx"
    using idx.adds[of NewMapIndex "Names idx"] len fold_insert_new_fixed[of "[]" "Names idx"]
      idx.names_distinct[OF inv] by (intro idx_inv_eq inv) simp_all
  then have "absorbs (?rest (int (length (Names idx)))) (concat (map sized_code (Names idx))) idx"
    using idx_read_names_absorbs[of "Names idx" NewMapIndex] assms
    by (simp add: idx_storable_def absorbs_def)
  from absorbs_seq[of _ _ _ ?rest, OF absorbs_read_int32 this] len show ?thesis
    unfolding UnmarshalIndex_def [abs_def] idx_Unmarshal_def [abs_def] idx_code_def
      NewMapIndex_def by simp
qed

interpretation idx: codec MarshalIndex UnmarshalIndex idx_storable idx_code
  by unfold_locales (simp_all add: idx_Marshal_emits idx_Unmarshal_absorbs)

section \<open>\<^verbatim>\<open>dataset/dict.go\<close>\<close>

record FreqDict =
  si :: "string \<rightharpoonup> int"
  "is" :: "string list"
  cnt :: "int list"

definition NewFreqDict :: FreqDict where
  "NewFreqDict = \<lparr>si = Map.empty, is = [], cnt = []\<rparr>"

definition fd_Count :: "FreqDict \<Rightarrow> int" where
  "fd_Count d = int32 (int (length (is d)))"

definition fd_append :: "int \<Rightarrow> string \<Rightarrow> FreqDict \<Rightarrow> int \<times> FreqDict" where
  "fd_append c s d =
     (let y = int32 (int (length (is d)))
      in (y, \<lparr>si = (si d)(s \<mapsto> y), is = is d @ [s], cnt = cnt d @ [c]\<rparr>))"

definition fd_Add :: "string \<Rightarrow> FreqDict \<Rightarrow> go_fail + int \<times> FreqDict" where
  "fd_Add s d =
     (case si d s of
        Some y \<Rightarrow> rbind (slice_get (cnt d) y) (\<lambda>c.
                  rbind (slice_set (cnt d) y (int32 (c + 1))) (\<lambda>cs. Inr (y, d\<lparr>cnt := cs\<rparr>)))
      | None \<Rightarrow> Inr (fd_append 1 s d))"

definition fd_AddNoCount :: "string \<Rightarrow> FreqDict \<Rightarrow> int \<times> FreqDict" where
  "fd_AddNoCount s d = (case si d s of Some y \<Rightarrow> (y, d) | None \<Rightarrow> fd_append 0 s d)"

definition fd_Id :: "FreqDict \<Rightarrow> string \<Rightarrow> int" where
  "fd_Id d s = (case si d s of Some y \<Rightarrow> y | None \<Rightarrow> - 1)"

text \<open>A negative identifier passes the guard of \<^verbatim>\<open>String\<close> and of \<^verbatim>\<open>Freq\<close> and panics.\<close>

definition fd_String :: "FreqDict \<Rightarrow> int \<Rightarrow> go_fail + string \<times> bool" where
  "fd_String d sid =
     (if int32 (int (length (is d))) \<le> sid then Inr ([], False)
      else rbind (slice_get (is d) sid) (\<lambda>s. Inr (s, True)))"

definition fd_Freq :: "FreqDict \<Rightarrow> int \<Rightarrow> go_fail + int" where
  "fd_Freq d sid =
     (if int32 (int (length (cnt d))) \<le> sid then Inr 0 else slice_get (cnt d) sid)"

definition fd_ToIndex :: "FreqDict \<Rightarrow> Index" where
  "fd_ToIndex d = \<lparr>Numbers = si d, Names = is d\<rparr>"

definition fd_inv :: "FreqDict \<Rightarrow> bool" where
  "fd_inv d \<longleftrightarrow> idx_inv (fd_ToIndex d) \<and> length (cnt d) = length (is d)"

lemma fd_inv_New [simp]: "fd_inv NewFreqDict"
  by (simp add: fd_inv_def NewFreqDict_def fd_ToIndex_def idx_inv_def)

lemma fd_append_index:
  "si d s = None \<Longrightarrow> fd_ToIndex (snd (fd_append c s d)) = idx_Add s (fd_ToIndex d)"
  by (simp add: fd_append_def fd_ToIndex_def idx_Add_def Let_def)

lemma fd_AddNoCount_index: "fd_ToIndex (snd (fd_AddNoCount s d)) = idx_Add s (fd_ToIndex d)"
  using fd_append_index[of d s 0]
  by (auto simp: fd_AddNoCount_def split: option.splits) (simp add: fd_ToIndex_def idx_Add_def)

lemma fd_Id_index: "fd_Id d s = ToNumber (fd_ToIndex d) s"
  by (simp add: fd_Id_def ToNumber_def fd_ToIndex_def NotId_def split: option.splits)

lemma fd_known_range:
  "fd_inv d \<Longrightarrow> si d s = Some y \<Longrightarrow> 0 \<le> y \<and> y < int (length (cnt d)) \<and> y = int (pos s (is d)) \<and> s \<in> set (is d)"
  by (auto simp: fd_inv_def idx_inv_def fd_ToIndex_def pos_less split: if_splits)

lemma fd_inv_AddNoCount:
  assumes "fd_inv d" and "length (is d) + 1 < 2 ^ 31"
  shows "fd_inv (snd (fd_AddNoCount s d))"
proof -
  have "length (cnt (snd (fd_AddNoCount s d))) = length (is (snd (fd_AddNoCount s d)))"
    using assms by (simp add: fd_inv_def fd_AddNoCount_def fd_append_def Let_def split: option.splits)
  moreover have "idx_inv (idx_Add s (fd_ToIndex d))"
    using assms by (intro idx.add_inv) (simp_all add: fd_inv_def fd_ToIndex_def)
  ultimately show ?thesis by (simp add: fd_inv_def fd_AddNoCount_index)
qed

interpretation fd: string_index "is" "\<lambda>s d. snd (fd_AddNoCount s d)" fd_Id fd_inv
proof
  fix d :: FreqDict and x
  have names: "is e = Names (fd_ToIndex e)" for e by (simp add: fd_ToIndex_def)
  assume d: "fd_inv d"
  then have i: "idx_inv (fd_ToIndex d)" by (simp add: fd_inv_def)
  show "distinct (is d)" using idx.names_distinct[OF i] by (simp add: names)
  show "fd_Id d x = (if x \<in> set (is d) then int (pos x (is d)) else - 1)"
    using idx.number_eq[OF i] by (simp add: fd_Id_index names)
  assume l: "length (is d) + 1 < 2 ^ 31"
  show "fd_inv (snd (fd_AddNoCount x d))" by (rule fd_inv_AddNoCount[OF d l])
  show "is (snd (fd_AddNoCount x d)) = insert_new x (is d)"
    using idx.names_add[OF i] l by (simp add: names fd_AddNoCount_index)
qed

text \<open>\<^verbatim>\<open>Add\<close> is \<^verbatim>\<open>AddNoCount\<close> followed by one more count of the name.\<close>

lemma fd_Add_eq:
  assumes "fd_inv d" and "length (is d) + 1 < 2 ^ 31"
  shows "\<exists>d'. fd_Add s d = Inr (fd_Id d' s, d') \<and> fd_inv d' \<and> is d' = insert_new s (is d) \<and>
    cnt d' = (let cs = cnt (snd (fd_AddNoCount s d)); i = pos s (is d') in cs[i := int32 (cs ! i + 1)])"
proof (cases "si d s")
  case None
  then have new: "s \<notin> set (is d)" using assms(1)
    by (auto simp: fd_inv_def idx_inv_def fd_ToIndex_def)
  have lc: "length (is d) = length (cnt d)" using assms(1) by (simp add: fd_inv_def)
  let ?d' = "snd (fd_append 1 s d)"
  have i: "fd_ToIndex ?d' = fd_ToIndex (snd (fd_AddNoCount s d))"
    using None by (simp add: fd_append_index fd_AddNoCount_index)
  have inv: "fd_inv ?d'" using fd_inv_AddNoCount[OF assms, of s] i assms(1)
    by (simp add: fd_inv_def fd_append_def Let_def)
  have "is ?d' = insert_new s (is d)" using new by (simp add: fd_append_def Let_def insert_new_def)
  moreover have "fd_Add s d = Inr (fd_Id ?d' s, ?d')"
    using None by (simp add: fd_Add_def fd_append_def Let_def fd_Id_def)
  moreover have "cnt ?d' = (let cs = cnt (snd (fd_AddNoCount s d)); i = pos s (is ?d')
      in cs[i := int32 (cs ! i + 1)])"
    using None new lc
    by (simp add: fd_append_def Let_def fd_AddNoCount_def pos_append_new nth_append)
  ultimately show ?thesis using inv by blast
next
  case (Some y)
  note y = fd_known_range[OF assms(1) Some]
  let ?d' = "d\<lparr>cnt := (cnt d)[nat y := int32 (cnt d ! nat y + 1)]\<rparr>"
  have "fd_Add s d = Inr (fd_Id ?d' s, ?d')"
    using Some y by (simp add: fd_Add_def slice_get_def slice_set_def fd_Id_def)
  moreover have "fd_inv ?d'" using assms(1) by (simp add: fd_inv_def fd_ToIndex_def)
  moreover have "is ?d' = insert_new s (is d)" using y by (simp add: insert_new_def)
  moreover have "cnt ?d' = (let cs = cnt (snd (fd_AddNoCount s d)); i = pos s (is ?d')
      in cs[i := int32 (cs ! i + 1)])"
    using Some y by (simp add: Let_def fd_AddNoCount_def)
  ultimately show ?thesis by blast
qed

text \<open>A sequence of calls of \<^verbatim>\<open>Add\<close> (flag set) and \<^verbatim>\<open>AddNoCount\<close>.\<close>

definition fd_run :: "(string \<times> bool) list \<Rightarrow> FreqDict \<Rightarrow> go_fail + FreqDict" where
  "fd_run = fold_res (\<lambda>(s, counted) d.
     if counted then rbind (fd_Add s d) (\<lambda>(y, d'). Inr d') else Inr (snd (fd_AddNoCount s d)))"

definition fd_counts :: "(string \<times> bool) list \<Rightarrow> FreqDict \<Rightarrow> bool" where
  "fd_counts ops d \<longleftrightarrow> fd_inv d \<and> is d = fold insert_new (map fst ops) [] \<and>
     (\<forall>i<length (is d). cnt d ! i = int (count_list ops (is d ! i, True)))"

lemma count_list_le_length: "count_list xs x \<le> length xs"
  by (induction xs) auto

lemma fd_AddNoCount_cnt:
  assumes "fd_inv d"
  shows "cnt (snd (fd_AddNoCount s d)) = (if s \<in> set (is d) then cnt d else cnt d @ [0])"
  using assms by (auto simp: fd_AddNoCount_def fd_append_def Let_def fd_inv_def idx_inv_def
      fd_ToIndex_def split: option.splits)

lemma fd_counts_AddNoCount:
  assumes "fd_counts ops d" and "length ops + 1 < 2 ^ 31"
  shows "fd_counts (ops @ [(s, False)]) (snd (fd_AddNoCount s d))"
proof -
  have inv: "fd_inv d" and n: "is d = fold insert_new (map fst ops) []"
    using assms(1) by (simp_all add: fd_counts_def)
  have l: "length (is d) + 1 < 2 ^ 31"
    using length_fold_insert_new[of "map fst ops" "[]"] n assms(2) by simp
  have "count_list ops (s, True) = 0" if "s \<notin> set (is d)"
    using that n by (force simp: count_list_0_iff)
  then show ?thesis
    using assms(1) fd.add_inv[OF inv l, of s] fd.names_add[OF inv l, of s] fd_AddNoCount_cnt[OF inv, of s]
    by (auto simp: fd_counts_def insert_new_def nth_append fd_inv_def less_Suc_eq)
qed

lemma fd_counts_Add:
  assumes "fd_counts ops d" and "length ops + 1 < 2 ^ 31"
  shows "\<exists>d'. fd_Add s d = Inr (fd_Id d' s, d') \<and> fd_counts (ops @ [(s, True)]) d'"
proof -
  let ?e = "snd (fd_AddNoCount s d)"
  note e = fd_counts_AddNoCount[OF assms, of s]
  have inv: "fd_inv d" and n: "is d = fold insert_new (map fst ops) []"
    using assms(1) by (simp_all add: fd_counts_def)
  have l: "length (is d) + 1 < 2 ^ 31"
    using length_fold_insert_new[of "map fst ops" "[]"] n assms(2) by simp
  from fd_Add_eq[OF inv l, of s] obtain d' where
    d': "fd_Add s d = Inr (fd_Id d' s, d')" "fd_inv d'" "is d' = insert_new s (is d)"
    "cnt d' = (cnt ?e)[pos s (is d') := int32 (cnt ?e ! pos s (is d') + 1)]"
    by (auto simp: Let_def)
  have names: "is d' = is ?e" using fd.names_add[OF inv l, of s] d'(3) by simp
  have p: "pos s (is d') < length (is d')" "is d' ! pos s (is d') = s"
    using d'(3) by (simp_all add: pos_less nth_pos)
  have small: "count_list ops x \<le> length ops" for x by (rule count_list_le_length)
  have "cnt d' ! i = int (count_list (ops @ [(s, True)]) (is d' ! i, True))" if "i < length (is d')" for i
  proof (cases "i = pos s (is d')")
    case True
    have "int (count_list ops (s, True)) + 1 < 2 ^ 31" using small[of "(s, True)"] assms(2) by simp
    then show ?thesis using True p e that unfolding d'(4)
      by (simp add: fd_counts_def names fd_inv_def)
  next
    case False
    then have "is d' ! i \<noteq> s" using p that d'(2) fd.names_distinct nth_eq_iff_index_eq by metis
    then show ?thesis using False e that unfolding d'(4) by (simp add: fd_counts_def names)
  qed
  moreover have "is d' = fold insert_new (map fst (ops @ [(s, True)])) []" using n d'(3) by simp
  ultimately show ?thesis using d'(1,2) by (auto simp: fd_counts_def)
qed

lemma fd_run_counts:
  "length ops < 2 ^ 31 \<Longrightarrow> \<exists>d. fd_run ops NewFreqDict = Inr d \<and> fd_counts ops d"
proof (induction ops rule: rev_induct)
  case Nil
  show ?case by (simp add: fd_run_def fd_counts_def NewFreqDict_def fd_inv_def fd_ToIndex_def idx_inv_def)
next
  case (snoc op ops)
  obtain s b where op: "op = (s, b)" by (cases op)
  from snoc obtain d where d: "fd_run ops NewFreqDict = Inr d" "fd_counts ops d" by auto
  have l: "length ops + 1 < 2 ^ 31" using snoc.prems by simp
  show ?case
  proof (cases b)
    case True
    then show ?thesis using fd_counts_Add[OF d(2) l, of s] d(1) op
      by (auto simp: fd_run_def fold_res_append)
  next
    case False
    then show ?thesis using fd_counts_AddNoCount[OF d(2) l, of s] d(1) op
      by (simp add: fd_run_def fold_res_append)
  qed
qed

section \<open>Properties\<close>

text \<open>An index filled by any sequence of \<^verbatim>\<open>Add\<close> calls numbers the names 0, 1, 2, ... in the order
  of their first appearance: \<^verbatim>\<open>ToNumber\<close> and \<^verbatim>\<open>ToName\<close> are inverse to each other, a name that was
  never added has number \<^verbatim>\<open>NotId\<close>, and names added later do not change the number of a name.\<close>

theorem index_numbers_names:
  assumes "length xs + length ys < 2 ^ 31"
  shows "let idx = fold idx_Add xs NewMapIndex; idx' = fold idx_Add ys idx
    in distinct (GetNames idx) \<and> set (GetNames idx) = set xs \<and>
       idx_Len (Some idx) = int (card (set xs)) \<and>
       (\<forall>x. ToNumber idx x = (if x \<in> set xs then int (pos x (GetNames idx)) else NotId)) \<and>
       (\<forall>i. ToName idx i = (if 0 \<le> i \<and> i < int (card (set xs)) then Inr (GetNames idx ! nat i)
                           else Inl (Panic ''index out of range''))) \<and>
       (\<forall>x\<in>set xs. ToName idx (ToNumber idx x) = Inr x \<and> ToNumber idx' x = ToNumber idx x)"
proof -
  let ?idx = "fold idx_Add xs NewMapIndex"
  have i: "idx_inv ?idx" "Names ?idx = fold insert_new xs []"
    using idx.adds[of NewMapIndex xs] assms by simp_all
  have d: "distinct (Names ?idx)" and n: "set (Names ?idx) = set xs"
    using i by (simp_all add: fold_insert_new_distinct)
  have c: "card (set xs) = length (Names ?idx)" using distinct_card[OF d] n by simp
  have l: "length (Names ?idx) + length ys < 2 ^ 31"
    using i(2) length_fold_insert_new[of xs "[]"] assms by simp
  have "idx_Len (Some ?idx) = int (card (set xs))" using l c by (simp add: idx_Len_def)
  moreover have "\<forall>x\<in>set xs. ToName ?idx (ToNumber ?idx x) = Inr x"
    using idx.names_number[OF i(1)] idx.number_range[OF i(1)] n
    by (simp add: ToName_def slice_get_def)
  moreover have "\<forall>x\<in>set xs. ToNumber (fold idx_Add ys ?idx) x = ToNumber ?idx x"
    using idx.number_stable[OF i(1) l] n by blast
  moreover have "\<forall>i. ToName ?idx i = (if 0 \<le> i \<and> i < int (card (set xs)) then Inr (Names ?idx ! nat i)
      else Inl (Panic ''index out of range''))"
    by (simp add: c ToName_def slice_get_def)
  moreover have "\<forall>x. ToNumber ?idx x = (if x \<in> set xs then int (pos x (Names ?idx)) else - 1)"
    by (simp add: idx.number_eq[OF i(1)] n)
  ultimately show ?thesis using d n unfolding Let_def GetNames_def NotId_def by simp
qed

theorem index_numbers_names_witness:
  "ToNumber (fold idx_Add [''b'', ''a'', ''b''] NewMapIndex) ''a'' = 1 \<and>
   ToName (fold idx_Add [''b'', ''a'', ''b''] NewMapIndex) 1 = Inr ''a''"
proof -
  let ?idx = "fold idx_Add [''b'', ''a'', ''b''] NewMapIndex"
  have "ToName ?idx (ToNumber ?idx ''a'') = Inr ''a''"
    using index_numbers_names[of "[''b'', ''a'', ''b'']" "[]", unfolded Let_def, THEN conjunct2,
        THEN conjunct2, THEN conjunct2, THEN conjunct2, THEN conjunct2, THEN bspec, of "''a''"] by simp
  moreover have "ToNumber ?idx ''a'' = 1"
    by (simp add: NewMapIndex_def idx_Add_def ToNumber_def)
  ultimately show ?thesis by simp
qed

text \<open>A frequency dictionary filled by any sequence of \<^verbatim>\<open>Add\<close> and \<^verbatim>\<open>AddNoCount\<close> calls never panics,
  numbers names by first appearance, and \<^verbatim>\<open>Freq\<close> of a known name is the number of its \<^verbatim>\<open>Add\<close> calls;
  an unknown name has number -1, on which \<^verbatim>\<open>String\<close> and \<^verbatim>\<open>Freq\<close> panic.\<close>

theorem freq_dict_counts:
  assumes "length ops < 2 ^ 31"
  shows "\<exists>d. fd_run ops NewFreqDict = Inr d \<and> fd_Count d = int (card (fst ` set ops)) \<and>
    (\<forall>s. if s \<in> fst ` set ops
         then fd_String d (fd_Id d s) = Inr (s, True) \<and>
              fd_Freq d (fd_Id d s) = Inr (int (count_list ops (s, True)))
         else fd_Id d s = - 1 \<and> (\<exists>m. fd_String d (- 1) = Inl (Panic m)) \<and>
              (\<exists>m. fd_Freq d (- 1) = Inl (Panic m)))"
proof -
  obtain d where d: "fd_run ops NewFreqDict = Inr d" "fd_counts ops d"
    using fd_run_counts[OF assms] by blast
  have inv: "fd_inv d" and n: "is d = fold insert_new (map fst ops) []"
    using d(2) by (simp_all add: fd_counts_def)
  have set_n: "set (is d) = fst ` set ops" by (simp add: n)
  have l: "length (is d) < 2 ^ 31"
    using length_fold_insert_new[of "map fst ops" "[]"] n assms by simp
  have lc: "length (cnt d) = length (is d)" using inv by (simp add: fd_inv_def)
  have "fd_Count d = int (card (fst ` set ops))"
    using distinct_card[OF fd.names_distinct[OF inv]] set_n l by (simp add: fd_Count_def)
  moreover have "fd_String d (fd_Id d s) = Inr (s, True) \<and>
      fd_Freq d (fd_Id d s) = Inr (int (count_list ops (s, True)))" if "s \<in> fst ` set ops" for s
    using that set_n l lc d(2) pos_less[of s "is d"] nth_pos[of s "is d"]
    by (simp add: fd.number_eq[OF inv] fd_String_def fd_Freq_def slice_get_def fd_counts_def)
  moreover have "fd_String d (- 1) = Inl (Panic ''index out of range'')"
    "fd_Freq d (- 1) = Inl (Panic ''index out of range'')"
    using l lc by (simp_all add: fd_String_def fd_Freq_def slice_get_def)
  ultimately show ?thesis using d(1) fd.number_eq[OF inv] set_n by auto
qed

theorem freq_dict_counts_witness:
  "\<exists>d. fd_run [(''a'', True), (''b'', False), (''a'', True)] NewFreqDict = Inr d \<and>
     fd_Freq d (fd_Id d ''a'') = Inr 2 \<and> fd_Freq d (fd_Id d ''b'') = Inr 0 \<and> fd_Id d ''c'' = - 1"
proof -
  let ?ops = "[(''a'', True), (''b'', False), (''a'', True)]"
  obtain d where d: "fd_run ?ops NewFreqDict = Inr d" and
    f: "\<And>s. if s \<in> fst ` set ?ops
         then fd_String d (fd_Id d s) = Inr (s, True) \<and>
              fd_Freq d (fd_Id d s) = Inr (int (count_list ?ops (s, True)))
         else fd_Id d s = - 1 \<and> (\<exists>m. fd_String d (- 1) = Inl (Panic m)) \<and>
              (\<exists>m. fd_Freq d (- 1) = Inl (Panic m))"
    using freq_dict_counts[of ?ops] by auto
  show ?thesis using d f[of "''a''"] f[of "''b''"] f[of "''c''"] by (intro exI[of _ d]) simp
qed

text \<open>Whatever \<^verbatim>\<open>MarshalIndex\<close> writes for a well-formed index, \<^verbatim>\<open>UnmarshalIndex\<close> reads back as the
  same index from a stream that delivers it in chunks of any positive size, leaving the bytes that
  follow unread.\<close>

theorem index_round_trip:
  assumes "idx_storable idx" and "steady r" and "r_data r = bs @ rest"
    and "MarshalIndex idx \<lparr>w_data = [], w_room = None, w_silent = b\<rparr> =
      Inr \<lparr>w_data = bs, w_room = None, w_silent = b\<rparr>"
  shows "\<exists>r'. UnmarshalIndex r = Inr (idx, r') \<and> r_data r' = rest \<and> steady r'"
  using idx.round_trip[OF assms(1) _ assms(4) assms(2) _ assms(3)] by simp

theorem index_round_trip_witness:
  "\<exists>r'. UnmarshalIndex \<lparr>r_data = [CHR 0x01, CHR 0x00, CHR 0x00, CHR 0x00, CHR 0x02, CHR 0x00, CHR 0x00,
       CHR 0x00, CHR ''a'', CHR ''b'', CHR ''z''], r_chunks = [3, 1, 2], r_eager_eof = False\<rparr> =
     Inr (\<lparr>Numbers = [''ab'' \<mapsto> 0], Names = [''ab'']\<rparr>, r') \<and> r_data r' = ''z''"
proof -
  let ?idx = "\<lparr>Numbers = [''ab'' \<mapsto> 0], Names = [''ab'']\<rparr>"
  let ?bs = "[CHR 0x01, CHR 0x00, CHR 0x00, CHR 0x00, CHR 0x02, CHR 0x00, CHR 0x00, CHR 0x00,
    CHR ''a'', CHR ''b'']"
  let ?r = "\<lparr>r_data = ?bs @ ''z'', r_chunks = [3, 1, 2], r_eager_eof = False\<rparr>"
  have v: "idx_storable ?idx" by (simp add: idx_storable_def idx_inv_def pos_def)
  have b: "int32_bytes 1 = [CHR 0x01, CHR 0x00, CHR 0x00, CHR 0x00]"
    "int32_bytes 2 = [CHR 0x02, CHR 0x00, CHR 0x00, CHR 0x00]" by code_simp+
  have w: "MarshalIndex ?idx \<lparr>w_data = [], w_room = None, w_silent = False\<rparr> =
      Inr \<lparr>w_data = ?bs, w_room = None, w_silent = False\<rparr>"
    using idx_Marshal_emits[OF v] b by (simp add: emits_def idx_code_def sized_code_def)
  have "steady ?r" by (simp add: steady_def)
  from index_round_trip[OF v this _ w, of "''z''"] show ?thesis by auto
qed

end
