(* ===== verification/Unified_Index.thy ===== *)
theory Unified_Index
  imports Dict_Index
begin

text \<open>
  The encoding space of the factorization machines (\<^verbatim>\<open>dataset/unified_index.go\<close>): users, items,
  user labels, item labels and context labels share the numbers from 0 to \<^verbatim>\<open>Len() - 1\<close>. The
  interface \<^verbatim>\<open>UnifiedIndex\<close> is a datatype with its two implementations, a nil interface is \<open>None\<close>.
\<close>

section \<open>\<^verbatim>\<open>UnifiedMapIndex\<close> and its builder\<close>

record UnifiedMapIndexBuilder =
  b_UserIndex :: Index
  b_ItemIndex :: Index
  b_UserLabelIndex :: Index
  b_ItemLabelIndex :: Index
  b_CtxLabelIndex :: Index

record UnifiedMapIndex =
  UserIndex :: Index
  ItemIndex :: Index
  UserLabelIndex :: Index
  ItemLabelIndex :: Index
  CtxLabelIndex :: Index

record UnifiedDirectIndex =
  direct_N :: int

datatype UnifiedIndex = MapIndex UnifiedMapIndex | DirectIndex UnifiedDirectIndex

definition NewUnifiedMapIndexBuilder :: UnifiedMapIndexBuilder where
  "NewUnifiedMapIndexBuilder =
     \<lparr>b_UserIndex = NewMapIndex, b_ItemIndex = NewMapIndex, b_UserLabelIndex = NewMapIndex,
      b_ItemLabelIndex = NewMapIndex, b_CtxLabelIndex = NewMapIndex\<rparr>"

definition b_AddUser :: "string \<Rightarrow> UnifiedMapIndexBuilder \<Rightarrow> UnifiedMapIndexBuilder" where
  "b_AddUser userId b = b\<lparr>b_UserIndex := idx_Add userId (b_UserIndex b)\<rparr>"

definition b_AddItem :: "string \<Rightarrow> UnifiedMapIndexBuilder \<Rightarrow> UnifiedMapIndexBuilder" where
  "b_AddItem itemId b = b\<lparr>b_ItemIndex := idx_Add itemId (b_ItemIndex b)\<rparr>"

definition b_AddUserLabel :: "string \<Rightarrow> UnifiedMapIndexBuilder \<Rightarrow> UnifiedMapIndexBuilder" where
  "b_AddUserLabel userLabel b = b\<lparr>b_UserLabelIndex := idx_Add userLabel (b_UserLabelIndex b)\<rparr>"

definition b_AddItemLabel :: "string \<Rightarrow> UnifiedMapIndexBuilder \<Rightarrow> UnifiedMapIndexBuilder" where
  "b_AddItemLabel itemLabel b = b\<lparr>b_ItemLabelIndex := idx_Add itemLabel (b_ItemLabelIndex b)\<rparr>"

definition b_AddCtxLabel :: "string \<Rightarrow> UnifiedMapIndexBuilder \<Rightarrow> UnifiedMapIndexBuilder" where
  "b_AddCtxLabel ctxLabel b = b\<lparr>b_CtxLabelIndex := idx_Add ctxLabel (b_CtxLabelIndex b)\<rparr>"

definition b_Build :: "UnifiedMapIndexBuilder \<Rightarrow> UnifiedMapIndex" where
  "b_Build b =
     \<lparr>UserIndex = b_UserIndex b, ItemIndex = b_ItemIndex b, UserLabelIndex = b_UserLabelIndex b,
      ItemLabelIndex = b_ItemLabelIndex b, CtxLabelIndex = b_CtxLabelIndex b\<rparr>"

definition m_GetUsers :: "UnifiedMapIndex \<Rightarrow> string list" where
  "m_GetUsers u = GetNames (UserIndex u)"

definition m_GetItems :: "UnifiedMapIndex \<Rightarrow> string list" where
  "m_GetItems u = GetNames (ItemIndex u)"

definition m_GetUserLabels :: "UnifiedMapIndex \<Rightarrow> string list" where
  "m_GetUserLabels u = GetNames (UserLabelIndex u)"

definition m_GetItemLabels :: "UnifiedMapIndex \<Rightarrow> string list" where
  "m_GetItemLabels u = GetNames (ItemLabelIndex u)"

definition m_GetContextLabels :: "UnifiedMapIndex \<Rightarrow> string list" where
  "m_GetContextLabels u = GetNames (CtxLabelIndex u)"

definition m_CountUsers :: "UnifiedMapIndex \<Rightarrow> int" where
  "m_CountUsers u = idx_Len (Some (UserIndex u))"

definition m_CountItems :: "UnifiedMapIndex \<Rightarrow> int" where
  "m_CountItems u = idx_Len (Some (ItemIndex u))"

definition m_CountUserLabels :: "UnifiedMapIndex \<Rightarrow> int" where
  "m_CountUserLabels u = idx_Len (Some (UserLabelIndex u))"

definition m_CountItemLabels :: "UnifiedMapIndex \<Rightarrow> int" where
  "m_CountItemLabels u = idx_Len (Some (ItemLabelIndex u))"

definition m_CountContextLabels :: "UnifiedMapIndex \<Rightarrow> int" where
  "m_CountContextLabels u = idx_Len (Some (CtxLabelIndex u))"

text \<open>Go adds \<^verbatim>\<open>int32\<close> values with wrap-around.\<close>

definition m_Len :: "UnifiedMapIndex \<Rightarrow> int" where
  "m_Len u = int32 (idx_Len (Some (UserIndex u)) + idx_Len (Some (ItemIndex u)) +
     idx_Len (Some (UserLabelIndex u)) + idx_Len (Some (ItemLabelIndex u)) +
     idx_Len (Some (CtxLabelIndex u)))"

definition m_EncodeUser :: "UnifiedMapIndex \<Rightarrow> string \<Rightarrow> int" where
  "m_EncodeUser u userId = ToNumber (UserIndex u) userId"

definition m_EncodeItem :: "UnifiedMapIndex \<Rightarrow> string \<Rightarrow> int" where
  "m_EncodeItem u itemId =
     (let itemIndex = ToNumber (ItemIndex u) itemId
      in if itemIndex \<noteq> NotId then int32 (itemIndex + idx_Len (Some (UserIndex u))) else itemIndex)"

definition m_EncodeUserLabel :: "UnifiedMapIndex \<Rightarrow> string \<Rightarrow> int" where
  "m_EncodeUserLabel u userLabel =
     (let userLabelIndex = ToNumber (UserLabelIndex u) userLabel
      in if userLabelIndex \<noteq> NotId
         then int32 (userLabelIndex + int32 (idx_Len (Some (UserIndex u)) + idx_Len (Some (ItemIndex u))))
         else userLabelIndex)"

definition m_EncodeItemLabel :: "UnifiedMapIndex \<Rightarrow> string \<Rightarrow> int" where
  "m_EncodeItemLabel u itemLabel =
     (let itemLabelIndex = ToNumber (ItemLabelIndex u) itemLabel
      in if itemLabelIndex \<noteq> NotId
         then int32 (itemLabelIndex + int32 (idx_Len (Some (UserIndex u)) +
                idx_Len (Some (ItemIndex u)) + idx_Len (Some (UserLabelIndex u))))
         else itemLabelIndex)"

definition m_EncodeContextLabel :: "UnifiedMapIndex \<Rightarrow> string \<Rightarrow> int" where
  "m_EncodeContextLabel u label =
     (let ctxLabelIndex = ToNumber (CtxLabelIndex u) label
      in if ctxLabelIndex \<noteq> NotId
         then int32 (ctxLabelIndex + int32 (idx_Len (Some (UserIndex u)) +
                idx_Len (Some (ItemIndex u)) + idx_Len (Some (UserLabelIndex u)) +
                idx_Len (Some (ItemLabelIndex u))))
         else ctxLabelIndex)"

definition m_Marshal :: "UnifiedMapIndex \<Rightarrow> writer \<Rightarrow> go_fail + writer" where
  "m_Marshal u = fold_res MarshalIndex
     [UserIndex u, ItemIndex u, UserLabelIndex u, ItemLabelIndex u, CtxLabelIndex u]"

definition m_Unmarshal :: "reader \<Rightarrow> go_fail + UnifiedMapIndex \<times> reader" where
  "m_Unmarshal r =
     rbind (UnmarshalIndex r) (\<lambda>(users, r).
     rbind (UnmarshalIndex r) (\<lambda>(items, r).
     rbind (UnmarshalIndex r) (\<lambda>(userLabels, r).
     rbind (UnmarshalIndex r) (\<lambda>(itemLabels, r).
     rbind (UnmarshalIndex r) (\<lambda>(ctxLabels, r).
       Inr (\<lparr>UserIndex = users, ItemIndex = items, UserLabelIndex = userLabels,
             ItemLabelIndex = itemLabels, CtxLabelIndex = ctxLabels\<rparr>, r))))))"

section \<open>\<^verbatim>\<open>UnifiedDirectIndex\<close>\<close>

definition NewUnifiedDirectIndex :: "int \<Rightarrow> UnifiedDirectIndex" where
  "NewUnifiedDirectIndex n = \<lparr>direct_N = n\<rparr>"

definition direct_encode :: "string \<Rightarrow> go_fail + int" where
  "direct_encode s = (case atoi s of None \<Rightarrow> Inl (Panic ''strconv.Atoi'') | Some val \<Rightarrow> Inr (int32 val))"

definition d_EncodeUser :: "UnifiedDirectIndex \<Rightarrow> string \<Rightarrow> go_fail + int" where
  "d_EncodeUser u userId = direct_encode userId"

definition d_EncodeItem :: "UnifiedDirectIndex \<Rightarrow> string \<Rightarrow> go_fail + int" where
  "d_EncodeItem u itemId = direct_encode itemId"

definition d_EncodeUserLabel :: "UnifiedDirectIndex \<Rightarrow> string \<Rightarrow> go_fail + int" where
  "d_EncodeUserLabel u userLabel = direct_encode userLabel"

definition d_EncodeItemLabel :: "UnifiedDirectIndex \<Rightarrow> string \<Rightarrow> go_fail + int" where
  "d_EncodeItemLabel u itemLabel = direct_encode itemLabel"

definition d_EncodeContextLabel :: "UnifiedDirectIndex \<Rightarrow> string \<Rightarrow> go_fail + int" where
  "d_EncodeContextLabel u label = direct_encode label"

text \<open>\<^verbatim>\<open>for i := begin; i < end; i++ { names = append(names, strconv.Itoa(int(i))) }\<close>\<close>

function names_between :: "int \<Rightarrow> int \<Rightarrow> string list" where
  "names_between i e = (if i < e then FormatInt i # names_between (i + 1) e else [])"
  by pat_completeness auto
termination by (relation "measure (\<lambda>(i, e). nat (e - i))") auto

declare names_between.simps [simp del]

text \<open>Go's integer division truncates towards zero.\<close>

definition d_GetItems :: "UnifiedDirectIndex \<Rightarrow> string list" where
  "d_GetItems u = names_between 0 (direct_N u sdiv 5)"

definition d_GetUsers :: "UnifiedDirectIndex \<Rightarrow> string list" where
  "d_GetUsers u = names_between (direct_N u sdiv 5) (direct_N u sdiv 5 * 2)"

definition d_GetItemLabels :: "UnifiedDirectIndex \<Rightarrow> string list" where
  "d_GetItemLabels u = names_between (direct_N u sdiv 5 * 2) (direct_N u sdiv 5 * 3)"

definition d_GetUserLabels :: "UnifiedDirectIndex \<Rightarrow> string list" where
  "d_GetUserLabels u = names_between (direct_N u sdiv 5 * 3) (direct_N u sdiv 5 * 4)"

definition d_GetContextLabels :: "UnifiedDirectIndex \<Rightarrow> string list" where
  "d_GetContextLabels u = names_between (direct_N u sdiv 5 * 4) (direct_N u)"

definition d_CountUsers :: "UnifiedDirectIndex \<Rightarrow> int" where
  "d_CountUsers u = direct_N u sdiv 5"

definition d_CountItems :: "UnifiedDirectIndex \<Rightarrow> int" where
  "d_CountItems u = direct_N u sdiv 5"

definition d_CountUserLabels :: "UnifiedDirectIndex \<Rightarrow> int" where
  "d_CountUserLabels u = direct_N u sdiv 5"

definition d_CountItemLabels :: "UnifiedDirectIndex \<Rightarrow> int" where
  "d_CountItemLabels u = direct_N u sdiv 5"

definition d_CountContextLabels :: "UnifiedDirectIndex \<Rightarrow> int" where
  "d_CountContextLabels u = direct_N u - direct_N u sdiv 5 * 4"

definition d_Len :: "UnifiedDirectIndex \<Rightarrow> int" where
  "d_Len u = direct_N u"

definition d_Marshal :: "UnifiedDirectIndex \<Rightarrow> writer \<Rightarrow> go_fail + writer" where
  "d_Marshal u = write_int32 (direct_N u)"

definition d_Unmarshal :: "reader \<Rightarrow> go_fail + UnifiedDirectIndex \<times> reader" where
  "d_Unmarshal r = rbind (read_int32 r) (\<lambda>(n, r'). Inr (\<lparr>direct_N = n\<rparr>, r'))"

section \<open>Marshalling the interface\<close>

definition mapIndex :: nat where "mapIndex = 0"
definition directIndex :: nat where "directIndex = 1"
definition nilIndex :: nat where "nilIndex = 2"

definition MarshalUnifiedIndex :: "UnifiedIndex option \<Rightarrow> writer \<Rightarrow> go_fail + writer" where
  "MarshalUnifiedIndex index w =
     (case index of
        None \<Rightarrow> write_uint8 nilIndex w
      | Some (MapIndex u) \<Rightarrow> rbind (write_uint8 mapIndex w) (m_Marshal u)
      | Some (DirectIndex u) \<Rightarrow> rbind (write_uint8 directIndex w) (d_Marshal u))"

definition UnmarshalUnifiedIndex :: "reader \<Rightarrow> go_fail + UnifiedIndex option \<times> reader" where
  "UnmarshalUnifiedIndex r =
     rbind (read_uint8 r) (\<lambda>(indexType, r1).
       if indexType = mapIndex then rbind (m_Unmarshal r1) (\<lambda>(u, r2). Inr (Some (MapIndex u), r2))
       else if indexType = directIndex then
         rbind (d_Unmarshal r1) (\<lambda>(u, r2). Inr (Some (DirectIndex u), r2))
       else if indexType = nilIndex then Inr (None, r1)
       else Inl (Error (''unknown index type ('' @ FormatInt (int indexType) @ '')'')))"

section \<open>The encoding space\<close>

definition blocks :: "UnifiedMapIndex \<Rightarrow> Index list" where
  "blocks u = [UserIndex u, ItemIndex u, UserLabelIndex u, ItemLabelIndex u, CtxLabelIndex u]"

definition m_inv :: "UnifiedMapIndex \<Rightarrow> bool" where
  "m_inv u \<longleftrightarrow> (\<forall>i\<in>set (blocks u). idx_inv i) \<and>
     (\<Sum>i\<leftarrow>blocks u. length (Names i)) < 2 ^ 31"

definition ints_upto :: "nat \<Rightarrow> nat \<Rightarrow> int list" where
  "ints_upto i j = map int [i..<j]"

lemma ints_upto_append: "i \<le> j \<Longrightarrow> j \<le> k \<Longrightarrow> ints_upto i j @ ints_upto j k = ints_upto i k"
  using upt_add_eq_append[of i j "k - j"] by (simp add: ints_upto_def flip: map_append)

lemma numbers_of_names:
  assumes "idx_inv i"
  shows "map (\<lambda>x. int k + ToNumber i x) (Names i) = ints_upto k (k + length (Names i))"
  by (rule nth_equalityI) (simp_all add: ints_upto_def idx.number_names[OF assms])

lemma idx_Len_eq: "idx_inv i \<Longrightarrow> idx_Len (Some i) = int (length (Names i))"
  by (simp add: idx_Len_def idx_inv_def)

text \<open>An offset added to the number of a known name does not wrap when the block fits.\<close>

lemma offset_number:
  assumes "idx_inv i" and "k + length (Names i) < 2 ^ 31" and "x \<in> set (Names i)"
  shows "int32 (ToNumber i x + int k) = int k + ToNumber i x"
  using idx.number_range[OF assms(1,3)] assms(2) by simp

lemma encode_block:
  assumes "idx_inv i" and "k + length (Names i) < 2 ^ 31"
    and "\<And>x. f x = (let n = ToNumber i x in if n \<noteq> NotId then int32 (n + int k) else n)"
  shows "map f (Names i) = ints_upto k (k + length (Names i))"
    and "x \<notin> set (Names i) \<Longrightarrow> f x = NotId"
proof -
  have "map f (Names i) = map (\<lambda>x. int k + ToNumber i x) (Names i)"
    using idx.number_known[OF assms(1)] offset_number[OF assms(1,2)]
    by (intro map_cong) (simp_all add: assms(3) Let_def NotId_def)
  then show "map f (Names i) = ints_upto k (k + length (Names i))"
    by (simp add: numbers_of_names[OF assms(1)])
  show "x \<notin> set (Names i) \<Longrightarrow> f x = NotId"
    using idx.number_known[OF assms(1), of x] by (simp add: assms(3) Let_def NotId_def)
qed

lemma block_order:
  assumes "m_inv u"
  defines "a \<equiv> length (Names (UserIndex u))"
    and "b \<equiv> length (Names (UserIndex u)) + length (Names (ItemIndex u))"
    and "c \<equiv> length (Names (UserIndex u)) + length (Names (ItemIndex u)) + length (Names (UserLabelIndex u))"
    and "d \<equiv> length (Names (UserIndex u)) + length (Names (ItemIndex u)) + length (Names (UserLabelIndex u))
      + length (Names (ItemLabelIndex u))"
  shows "map (m_EncodeUser u) (m_GetUsers u) = ints_upto 0 a"
    and "map (m_EncodeItem u) (m_GetItems u) = ints_upto a b"
    and "map (m_EncodeUserLabel u) (m_GetUserLabels u) = ints_upto b c"
    and "map (m_EncodeItemLabel u) (m_GetItemLabels u) = ints_upto c d"
    and "map (m_EncodeContextLabel u) (m_GetContextLabels u) = ints_upto d (nat (m_Len u))"
    and "m_Len u = int (d + length (Names (CtxLabelIndex u)))"
proof -
  have i: "idx_inv (UserIndex u)" "idx_inv (ItemIndex u)" "idx_inv (UserLabelIndex u)"
    "idx_inv (ItemLabelIndex u)" "idx_inv (CtxLabelIndex u)"
    and t: "d + length (Names (CtxLabelIndex u)) < 2 ^ 31"
    using assms(1) by (simp_all add: m_inv_def blocks_def d_def)
  note len = i[THEN idx_Len_eq]
  show "map (m_EncodeUser u) (m_GetUsers u) = ints_upto 0 a"
    using numbers_of_names[OF i(1), of 0] by (simp add: m_EncodeUser_def [abs_def] m_GetUsers_def GetNames_def a_def)
  show "map (m_EncodeItem u) (m_GetItems u) = ints_upto a b"
    unfolding m_GetItems_def GetNames_def b_def a_def
    by (rule encode_block(1)[OF i(2)]) (use t in \<open>simp_all add: d_def m_EncodeItem_def len Let_def\<close>)
  show "map (m_EncodeUserLabel u) (m_GetUserLabels u) = ints_upto b c"
    unfolding m_GetUserLabels_def GetNames_def b_def c_def
    by (rule encode_block(1)[OF i(3)]) (use t in \<open>simp_all add: d_def m_EncodeUserLabel_def len Let_def\<close>)
  show "map (m_EncodeItemLabel u) (m_GetItemLabels u) = ints_upto c d"
    unfolding m_GetItemLabels_def GetNames_def c_def d_def
    by (rule encode_block(1)[OF i(4)]) (use t in \<open>simp_all add: d_def m_EncodeItemLabel_def len Let_def\<close>)
  show l: "m_Len u = int (d + length (Names (CtxLabelIndex u)))"
    using t by (simp add: m_Len_def len d_def)
  then have "nat (m_Len u) = d + length (Names (CtxLabelIndex u))" by simp
  then show "map (m_EncodeContextLabel u) (m_GetContextLabels u) = ints_upto d (nat (m_Len u))"
    unfolding m_GetContextLabels_def GetNames_def d_def
    by (simp only:) (rule encode_block(1)[OF i(5)], use t in \<open>simp_all add: d_def m_EncodeContextLabel_def len Let_def\<close>)
qed

lemma names_between_eq:
  assumes "i \<le> j"
  shows "names_between (int i) (int j) = map FormatInt (ints_upto i j)"
  using assms
proof (induction "j - i" arbitrary: i)
  case 0
  then show ?case by (simp add: names_between.simps ints_upto_def)
next
  case (Suc n)
  then have "names_between (int (Suc i)) (int j) = map FormatInt (ints_upto (Suc i) j)"
    by (intro Suc(1)) simp_all
  moreover have "i < j" using Suc by simp
  ultimately show ?case
    by (subst names_between.simps) (simp add: ints_upto_def upt_conv_Cons add.commute)
qed

lemma direct_encode_FormatInt:
  assumes "0 \<le> n" and "n < 2 ^ 31"
  shows "direct_encode (FormatInt n) = Inr n"
  using parse_int_FormatInt[of 64 n] assms by (simp add: direct_encode_def atoi_def)

lemma direct_encode_names:
  "i \<le> j \<Longrightarrow> j < 2 ^ 31 \<Longrightarrow>
   map direct_encode (names_between (int i) (int j)) = map Inr (ints_upto i j)"
  by (auto simp: names_between_eq ints_upto_def direct_encode_FormatInt)

section \<open>Marshalling\<close>

definition m_storable :: "UnifiedMapIndex \<Rightarrow> bool" where
  "m_storable u \<longleftrightarrow> (\<forall>i\<in>set (blocks u). idx_storable i)"

definition m_code :: "UnifiedMapIndex \<Rightarrow> string" where
  "m_code u = concat (map idx_code (blocks u))"

lemma m_Marshal_emits: "m_storable u \<Longrightarrow> emits (m_Marshal u) (m_code u)"
  unfolding m_code_def m_Marshal_def blocks_def [symmetric]
  by (rule idx.enc_list_emits) (simp add: m_storable_def)

lemma m_Unmarshal_absorbs:
  assumes "m_storable u"
  shows "absorbs m_Unmarshal (m_code u) u"
proof -
  note d = idx_Unmarshal_absorbs
  have v: "idx_storable (UserIndex u)" "idx_storable (ItemIndex u)" "idx_storable (UserLabelIndex u)"
    "idx_storable (ItemLabelIndex u)" "idx_storable (CtxLabelIndex u)"
    using assms by (simp_all add: m_storable_def blocks_def)
  have "m_code u = idx_code (UserIndex u) @ idx_code (ItemIndex u) @ idx_code (UserLabelIndex u) @
      idx_code (ItemLabelIndex u) @ idx_code (CtxLabelIndex u) @ []"
    by (simp add: m_code_def blocks_def)
  then show ?thesis unfolding m_Unmarshal_def [abs_def]
    by (simp only:) (rule v[THEN d] absorbs_seq | simp add: absorbs_def)+
qed

lemma d_Unmarshal_absorbs:
  assumes "- (2 ^ 31) \<le> direct_N u" and "direct_N u < 2 ^ 31"
  shows "absorbs d_Unmarshal (int32_bytes (direct_N u)) u"
  using absorbs_seq[OF absorbs_read_int32[OF assms], of "\<lambda>n r'. Inr (\<lparr>direct_N = n\<rparr>, r')" "[]" u]
    absorbs_return[of u] by (cases u) (simp add: d_Unmarshal_def [abs_def])

fun u_storable :: "UnifiedIndex option \<Rightarrow> bool" where
  "u_storable None = True"
| "u_storable (Some (MapIndex u)) = m_storable u"
| "u_storable (Some (DirectIndex u)) = (- (2 ^ 31) \<le> direct_N u \<and> direct_N u < 2 ^ 31)"

fun u_code :: "UnifiedIndex option \<Rightarrow> string" where
  "u_code None = [char_of nilIndex]"
| "u_code (Some (MapIndex u)) = [char_of mapIndex] @ m_code u"
| "u_code (Some (DirectIndex u)) = [char_of directIndex] @ int32_bytes (direct_N u)"

lemma u_Marshal_emits: "u_storable x \<Longrightarrow> emits (MarshalUnifiedIndex x) (u_code x)"
  using m_Marshal_emits emits_Write
  by (cases x rule: u_storable.cases)
    (simp_all add: emits_def MarshalUnifiedIndex_def d_Marshal_def write_int32_def write_uint8_def)

lemma u_Unmarshal_absorbs:
  assumes "u_storable x"
  shows "absorbs UnmarshalUnifiedIndex (u_code x) x"
proof -
  let ?rest = "\<lambda>indexType r1.
      if indexType = mapIndex then rbind (m_Unmarshal r1) (\<lambda>(u, r2). Inr (Some (MapIndex u), r2))
       else if indexType = directIndex then
         rbind (d_Unmarshal r1) (\<lambda>(u, r2). Inr (Some (DirectIndex u), r2))
       else if indexType = nilIndex then Inr (None, r1)
       else Inl (Error (''unknown index type ('' @ FormatInt (int indexType) @ '')''))"
  note tags = mapIndex_def directIndex_def nilIndex_def
  have step: "absorbs UnmarshalUnifiedIndex ([char_of n] @ bs) x" if "n < 256" "absorbs (?rest n) bs x" for n bs
    using absorbs_seq[OF absorbs_read_uint8, of n ?rest bs x] that
    by (simp add: UnmarshalUnifiedIndex_def [abs_def])
  show ?thesis
  proof (cases x rule: u_storable.cases)
    case 1
    then show ?thesis using step[of nilIndex "[]"] by (simp add: tags absorbs_def)
  next
    case (2 u)
    then have "absorbs (\<lambda>r1. rbind (m_Unmarshal r1) (\<lambda>(u, r2). Inr (Some (MapIndex u), r2))) (m_code u @ []) x"
      using assms by (intro absorbs_seq[OF m_Unmarshal_absorbs]) (simp_all add: absorbs_def)
    then show ?thesis using step[of mapIndex "m_code u"] 2 by (simp add: tags)
  next
    case (3 u)
    then have "absorbs (\<lambda>r1. rbind (d_Unmarshal r1) (\<lambda>(u, r2). Inr (Some (DirectIndex u), r2)))
        (int32_bytes (direct_N u) @ []) x"
      using assms by (intro absorbs_seq[OF d_Unmarshal_absorbs]) (simp_all add: absorbs_def)
    then show ?thesis using step[of directIndex "int32_bytes (direct_N u)"] 3 by (simp add: tags)
  qed
qed

interpretation unified: codec MarshalUnifiedIndex UnmarshalUnifiedIndex u_storable u_code
  by unfold_locales (simp_all add: u_Marshal_emits u_Unmarshal_absorbs)

section \<open>Properties\<close>

text \<open>In a unified map index whose blocks fit into 32 bits together, the encodings of all users,
  then all items, user labels, item labels and context labels are exactly 0, 1, 2, ..., \<^verbatim>\<open>Len() - 1\<close>
  in this order, so every feature has its own number and no number is unused, and an unknown name
  of any kind is encoded as \<^verbatim>\<open>NotId\<close>.\<close>

theorem unified_index_encoding:
  assumes "m_inv u"
  shows "map (m_EncodeUser u) (m_GetUsers u) @ map (m_EncodeItem u) (m_GetItems u) @
      map (m_EncodeUserLabel u) (m_GetUserLabels u) @ map (m_EncodeItemLabel u) (m_GetItemLabels u) @
      map (m_EncodeContextLabel u) (m_GetContextLabels u) = map int [0..<nat (m_Len u)] \<and>
    (x \<notin> set (m_GetUsers u) \<longrightarrow> m_EncodeUser u x = NotId) \<and>
    (x \<notin> set (m_GetItems u) \<longrightarrow> m_EncodeItem u x = NotId) \<and>
    (x \<notin> set (m_GetUserLabels u) \<longrightarrow> m_EncodeUserLabel u x = NotId) \<and>
    (x \<notin> set (m_GetItemLabels u) \<longrightarrow> m_EncodeItemLabel u x = NotId) \<and>
    (x \<notin> set (m_GetContextLabels u) \<longrightarrow> m_EncodeContextLabel u x = NotId)"
proof -
  have i: "idx_inv (UserIndex u)" "idx_inv (ItemIndex u)" "idx_inv (UserLabelIndex u)"
    "idx_inv (ItemLabelIndex u)" "idx_inv (CtxLabelIndex u)"
    using assms by (simp_all add: m_inv_def blocks_def)
  have unknown: "y \<notin> set (Names j) \<Longrightarrow> ToNumber j y = NotId" if "idx_inv j" for j y
    using idx.number_known[OF that, of y] by (simp add: NotId_def)
  show ?thesis
    using i[THEN unknown] unfolding block_order(1-5)[OF assms] block_order(6)[OF assms]
    by (simp add: ints_upto_append m_EncodeUser_def m_EncodeItem_def m_EncodeUserLabel_def
        m_EncodeItemLabel_def m_EncodeContextLabel_def m_GetUsers_def m_GetItems_def
        m_GetUserLabels_def m_GetItemLabels_def m_GetContextLabels_def GetNames_def
        ints_upto_def[of 0, symmetric])
qed

definition sample_unified :: UnifiedMapIndex where
  "sample_unified = b_Build (b_AddCtxLabel ''c'' (b_AddItemLabel ''red'' (b_AddItem ''y''
     (b_AddItem ''x'' (b_AddUser ''u'' NewUnifiedMapIndexBuilder)))))"

theorem unified_index_encoding_witness:
  "m_EncodeUser sample_unified ''u'' = 0 \<and> map (m_EncodeItem sample_unified) [''x'', ''y''] = [1, 2] \<and>
   m_EncodeItemLabel sample_unified ''red'' = 3 \<and> m_EncodeContextLabel sample_unified ''c'' = 4 \<and>
   m_EncodeUserLabel sample_unified ''none'' = NotId"
proof -
  have inv: "idx_inv (idx_Add x NewMapIndex)" "idx_inv (idx_Add x (idx_Add y NewMapIndex))" for x y
    using idx.adds[of NewMapIndex "[x]"] idx.adds[of NewMapIndex "[y, x]"] by simp_all
  note d = sample_unified_def b_Build_def b_AddCtxLabel_def b_AddItemLabel_def b_AddItem_def b_AddUser_def
    NewUnifiedMapIndexBuilder_def
  have v: "m_inv sample_unified"
    using inv by (simp add: m_inv_def blocks_def d) (simp add: idx_Add_def NewMapIndex_def)
  have names: "m_GetUsers sample_unified = [''u'']" "m_GetItems sample_unified = [''x'', ''y'']"
    "m_GetUserLabels sample_unified = []" "m_GetItemLabels sample_unified = [''red'']"
    "m_GetContextLabels sample_unified = [''c'']"
    by (simp_all add: d m_GetUsers_def m_GetItems_def m_GetUserLabels_def m_GetItemLabels_def
        m_GetContextLabels_def GetNames_def idx_Add_def NewMapIndex_def)
  have len: "m_Len sample_unified = 5"
    by (simp add: m_Len_def idx_Len_def d idx_Add_def NewMapIndex_def)
  have "[0..<5] = [0, 1, 2, 3, 4 :: nat]" by code_simp
  with unified_index_encoding[OF v, of "''none''"] show ?thesis unfolding names len by simp
qed

text \<open>A direct index over \<^verbatim>\<open>N\<close> numbers encodes the names it lists for items, users, item labels, user
  labels and context labels as exactly 0, 1, ..., \<^verbatim>\<open>N - 1\<close>, its counts are the lengths of the lists,
  and a name that is not a number panics.\<close>

theorem direct_index_encoding:
  assumes "0 \<le> direct_N u" and "direct_N u < 2 ^ 31"
  shows "map (d_EncodeItem u) (d_GetItems u) @ map (d_EncodeUser u) (d_GetUsers u) @
      map (d_EncodeItemLabel u) (d_GetItemLabels u) @ map (d_EncodeUserLabel u) (d_GetUserLabels u) @
      map (d_EncodeContextLabel u) (d_GetContextLabels u) = map (\<lambda>i. Inr (int i)) [0..<nat (d_Len u)] \<and>
    d_CountItems u = int (length (d_GetItems u)) \<and> d_CountUsers u = int (length (d_GetUsers u)) \<and>
    d_CountItemLabels u = int (length (d_GetItemLabels u)) \<and>
    d_CountUserLabels u = int (length (d_GetUserLabels u)) \<and>
    d_CountContextLabels u = int (length (d_GetContextLabels u)) \<and>
    (atoi x = None \<longrightarrow> (\<exists>m. d_EncodeUser u x = Inl (Panic m)))"
proof -
  define n q where "n = nat (direct_N u)" and "q = nat (direct_N u sdiv 5)"
  have n: "direct_N u = int n" "n < 2 ^ 31" using assms by (simp_all add: n_def)
  have "int n sdiv 5 = int (n div 5)" by (simp add: signed_divide_int_def sgn_if zdiv_int)
  then have q: "int n sdiv 5 = int q" "q * 4 \<le> n" by (simp_all add: q_def n(1))
  have b: "0 = int 0" "int q * 2 = int (q * 2)" "int q * 3 = int (q * 3)" "int q * 4 = int (q * 4)"
    by simp_all
  note g = d_GetItems_def d_GetUsers_def d_GetItemLabels_def d_GetUserLabels_def d_GetContextLabels_def
    n(1) q(1) b
  have le: "0 \<le> q" "q \<le> q * 2" "q * 2 \<le> q * 3" "q * 3 \<le> q * 4" "q * 4 \<le> n"
    and lt: "q < 2 ^ 31" "q * 2 < 2 ^ 31" "q * 3 < 2 ^ 31" "q * 4 < 2 ^ 31"
    using q(2) n(2) by simp_all
  note enc = direct_encode_names[OF le(1) lt(1)] direct_encode_names[OF le(2) lt(2)]
    direct_encode_names[OF le(3) lt(3)] direct_encode_names[OF le(4) lt(4)]
    direct_encode_names[OF le(5) n(2)]
  have "map (d_EncodeItem u) (d_GetItems u) @ map (d_EncodeUser u) (d_GetUsers u) @
      map (d_EncodeItemLabel u) (d_GetItemLabels u) @ map (d_EncodeUserLabel u) (d_GetUserLabels u) @
      map (d_EncodeContextLabel u) (d_GetContextLabels u) =
      map Inr (ints_upto 0 q @ ints_upto q (q * 2) @ ints_upto (q * 2) (q * 3) @
        ints_upto (q * 3) (q * 4) @ ints_upto (q * 4) n)"
    unfolding g d_EncodeItem_def [abs_def] d_EncodeUser_def [abs_def]
      d_EncodeItemLabel_def [abs_def] d_EncodeUserLabel_def [abs_def] d_EncodeContextLabel_def [abs_def]
    by (simp only: map_append enc)
  moreover have "\<dots> = map (\<lambda>i. Inr (int i)) [0..<nat (d_Len u)]"
    using q(2) by (simp add: ints_upto_append d_Len_def n(1) del: map_append) (simp add: ints_upto_def)
  moreover have "d_CountItems u = int (length (d_GetItems u)) \<and> d_CountUsers u = int (length (d_GetUsers u)) \<and>
    d_CountItemLabels u = int (length (d_GetItemLabels u)) \<and>
    d_CountUserLabels u = int (length (d_GetUserLabels u)) \<and>
    d_CountContextLabels u = int (length (d_GetContextLabels u))"
    using q(2) unfolding g d_CountItems_def d_CountUsers_def d_CountItemLabels_def d_CountUserLabels_def
      d_CountContextLabels_def by (simp only: names_between_eq) (simp add: ints_upto_def names_between_eq)
  ultimately show ?thesis by (simp add: d_EncodeUser_def direct_encode_def)
qed

theorem direct_index_encoding_witness:
  "d_CountContextLabels \<lparr>direct_N = 7\<rparr> = 3 \<and> length (d_GetContextLabels \<lparr>direct_N = 7\<rparr>) = 3 \<and>
   (\<exists>m. d_EncodeUser \<lparr>direct_N = 7\<rparr> ''u'' = Inl (Panic m))"
proof -
  have "d_CountContextLabels \<lparr>direct_N = 7\<rparr> = 3" by code_simp
  moreover have "atoi ''u'' = None" by code_simp
  ultimately show ?thesis using direct_index_encoding[of "\<lparr>direct_N = 7\<rparr>" "''u''"] by simp
qed



end
