(* ===== verification/Go_Json.thy ===== *)
theory Go_Json
  imports Go_Float "HOL-Library.Char_ord" "HOL-Library.List_Lexorder"
begin

text \<open>
  What the fashion front end uses of \<^verbatim>\<open>encoding/json\<close> and \<^verbatim>\<open>net/http\<close>. A JSON document is its syntax
  tree: objects are entry lists in textual order, numbers are exact rationals, a \<^verbatim>\<open>time.Time\<close> is a
  leaf of its own (nanoseconds). \<^verbatim>\<open>json.Unmarshal\<close> into a struct goes through the entries in order,
  matches a key with a field name up to letter case, lets a later entry overwrite an earlier one,
  ignores unknown keys, and fails on a value of the wrong type; null leaves a scalar alone and empties
  a slice, a map or a pointer. A Go map is an association list with distinct keys whose order is the
  order of a \<^verbatim>\<open>range\<close> loop over it.
\<close>

definition utf8 :: "nat list \<Rightarrow> string" where
  "utf8 bs = map char_of bs"

datatype json =
  JNull | JBool bool | JNum rat | JTime int | JStr string | JArr "json list"
  | JObj "(string \<times> json) list"

definition JInt :: "int \<Rightarrow> json" where
  "JInt n = JNum (of_int n)"

section \<open>Go maps\<close>

type_synonym 'v go_map = "(string \<times> 'v) list"

fun gput :: "string \<Rightarrow> 'v \<Rightarrow> 'v go_map \<Rightarrow> 'v go_map" where
  "gput k v [] = [(k, v)]"
| "gput k v ((k', v') # m) = (if k = k' then (k, v) # m else (k', v') # gput k v m)"

abbreviation gkeys :: "'v go_map \<Rightarrow> string list" where
  "gkeys m \<equiv> map fst m"

lemma map_of_gput [simp]: "map_of (gput k v m) = (map_of m)(k \<mapsto> v)"
  by (induction m) auto

lemma gkeys_gput: "gkeys (gput k v m) = (if k \<in> fst ` set m then gkeys m else gkeys m @ [k])"
proof (induction m)
  case (Cons x m)
  then show ?case by (cases x) simp
qed simp

lemma distinct_gput: "distinct (gkeys m) \<Longrightarrow> distinct (gkeys (gput k v m))"
  by (simp add: gkeys_gput)

section \<open>Decoding\<close>

text \<open>Key matching folds ASCII letters.\<close>

definition lower :: "char \<Rightarrow> char" where
  "lower c = (let n = of_char c :: nat in if 65 \<le> n \<and> n \<le> 90 then char_of (n + 32) else c)"

definition same_key :: "string \<Rightarrow> string \<Rightarrow> bool" where
  "same_key a b \<longleftrightarrow> map lower a = map lower b"

type_synonym 'a field_decoder = "json \<Rightarrow> 'a \<Rightarrow> go_fail + 'a"

definition type_error :: "go_fail + 'a" where
  "type_error = Inl (Error ''json: cannot unmarshal'')"

fun dec_string :: "string field_decoder" where
  "dec_string (JStr s) old = Inr s"
| "dec_string JNull old = Inr old"
| "dec_string j old = type_error"

fun dec_bool :: "bool field_decoder" where
  "dec_bool (JBool b) old = Inr b"
| "dec_bool JNull old = Inr old"
| "dec_bool j old = type_error"

fun dec_time :: "int field_decoder" where
  "dec_time (JTime t) old = Inr t"
| "dec_time JNull old = Inr old"
| "dec_time j old = type_error"

text \<open>A number too large for a \<^verbatim>\<open>float64\<close> is an error.\<close>

fun dec_float :: "fl field_decoder" where
  "dec_float (JNum q) old = (case rnd64 q of Fin x \<Rightarrow> Inr (Fin x) | f \<Rightarrow> type_error)"
| "dec_float JNull old = Inr old"
| "dec_float j old = type_error"

fun dec_float_ptr :: "fl option field_decoder" where
  "dec_float_ptr JNull old = Inr None"
| "dec_float_ptr j old = rbind (dec_float j (Fin 0)) (\<lambda>x. Inr (Some x))"

definition dec_each :: "(json \<Rightarrow> go_fail + 'a) \<Rightarrow> json list \<Rightarrow> go_fail + 'a list" where
  "dec_each f js = fold_res (\<lambda>j acc. rbind (f j) (\<lambda>x. Inr (acc @ [x]))) js []"

fun dec_strings :: "string list field_decoder" where
  "dec_strings (JArr js) old = dec_each (\<lambda>j. dec_string j []) js"
| "dec_strings JNull old = Inr []"
| "dec_strings j old = type_error"

fun dec_float_map :: "fl go_map field_decoder" where
  "dec_float_map (JObj kvs) old =
     fold_res (\<lambda>(k, v) m. rbind (dec_float v (Fin 0)) (\<lambda>x. Inr (gput k x m))) kvs old"
| "dec_float_map JNull old = Inr []"
| "dec_float_map j old = type_error"

definition field :: "('r \<Rightarrow> 'a) \<Rightarrow> (('a \<Rightarrow> 'a) \<Rightarrow> 'r \<Rightarrow> 'r) \<Rightarrow> 'a field_decoder \<Rightarrow> 'r field_decoder" where
  "field get upd dec j r = rbind (dec j (get r)) (\<lambda>x. Inr (upd (\<lambda>_. x) r))"

fun find_field :: "(string \<times> 'd) list \<Rightarrow> string \<Rightarrow> 'd option" where
  "find_field [] k = None"
| "find_field ((n, d) # fs) k = (if same_key n k then Some d else find_field fs k)"

lemma find_field_map_of:
  "(\<forall>n\<in>fst ` set fs. same_key n k \<longleftrightarrow> n = k) \<Longrightarrow> find_field fs k = map_of fs k"
  by (induction fs) auto

text \<open>Field names that differ by more than letter case.\<close>

definition plain_names :: "string list \<Rightarrow> bool" where
  "plain_names ns \<longleftrightarrow> distinct (map (map lower) ns)"

lemma plain_names_same_key: "plain_names ns \<Longrightarrow> a \<in> set ns \<Longrightarrow> b \<in> set ns \<Longrightarrow> same_key a b \<longleftrightarrow> a = b"
  unfolding plain_names_def same_key_def by (auto simp: distinct_map dest: inj_onD)

lemma find_field_plain:
  "plain_names (map fst fs) \<Longrightarrow> k \<in> fst ` set fs \<Longrightarrow> find_field fs k = map_of fs k"
  by (rule find_field_map_of) (auto simp: plain_names_same_key)

fun dec_struct :: "(string \<times> 'r field_decoder) list \<Rightarrow> 'r field_decoder" where
  "dec_struct fs (JObj kvs) r =
     fold_res (\<lambda>(k, v) r. case find_field fs k of None \<Rightarrow> Inr r | Some d \<Rightarrow> d v r) kvs r"
| "dec_struct fs JNull r = Inr r"
| "dec_struct fs j r = type_error"

section \<open>Encoding\<close>

text \<open>\<^verbatim>\<open>json.Marshal\<close> of an infinite or undefined number is an error; map keys are written sorted.\<close>

fun enc_float :: "fl \<Rightarrow> go_fail + json" where
  "enc_float (Fin q) = Inr (JNum q)"
| "enc_float f = Inl (Error ''json: unsupported value'')"

definition enc_float_map :: "fl go_map \<Rightarrow> go_fail + json" where
  "enc_float_map m =
     rbind (fold_res (\<lambda>(k, v) acc. rbind (enc_float v) (\<lambda>j. Inr (acc @ [(k, j)]))) (sort_key fst m) [])
       (\<lambda>kvs. Inr (JObj kvs))"

definition enc_strings :: "string list \<Rightarrow> json" where
  "enc_strings xs = JArr (map JStr xs)"

lemma dec_strings_enc [simp]: "dec_strings (enc_strings xs) old = Inr xs"
proof -
  have "fold_res (\<lambda>j acc. rbind (dec_string j []) (\<lambda>x. Inr (acc @ [x]))) (map JStr xs) acc = Inr (acc @ xs)" for acc
    by (induction xs arbitrary: acc) auto
  then show ?thesis by (simp add: enc_strings_def dec_each_def)
qed

section \<open>Responses\<close>

record response =
  status :: nat
  body :: json

abbreviation StatusOK :: nat where "StatusOK \<equiv> 200"
abbreviation StatusBadRequest :: nat where "StatusBadRequest \<equiv> 400"
abbreviation StatusUnauthorized :: nat where "StatusUnauthorized \<equiv> 401"
abbreviation StatusNotFound :: nat where "StatusNotFound \<equiv> 404"
abbreviation StatusInternalServerError :: nat where "StatusInternalServerError \<equiv> 500"

definition error_response :: "nat \<Rightarrow> string \<Rightarrow> response" where
  "error_response code msg = \<lparr>status = code, body = JObj [(''error'', JStr msg)]\<rparr>"

definition ok_response :: "(string \<times> json) list \<Rightarrow> response" where
  "ok_response entries = \<lparr>status = StatusOK, body = JObj entries\<rparr>"

definition hex_digit :: "nat \<Rightarrow> char" where
  "hex_digit n = (if n < 10 then char_of (48 + n) else char_of (87 + n))"

text \<open>\<^verbatim>\<open>hex.EncodeToString\<close>\<close>

definition hex_encode :: "string \<Rightarrow> string" where
  "hex_encode bs = concat (map (\<lambda>c. let n = of_char c :: nat in [hex_digit (n div 16), hex_digit (n mod 16)]) bs)"

end
