(* ===== verification/Fashion_Auth.thy ===== *)
theory Fashion_Auth
  imports Go_Json
begin

text \<open>
  The authentication service of the fashion front end (\<^verbatim>\<open>fashion-recommend/auth/auth.go\<close>) and its
  HTTP handlers (\<^verbatim>\<open>fashion-recommend/api/auth_handlers.go\<close>).

  The bcrypt package is a parameter: \<open>bcrypt\<close> holds its two functions, the salt being an argument.
  The bytes read from \<^verbatim>\<open>crypto/rand\<close>, the clock and the outcome of \<^verbatim>\<open>ShouldBindJSON\<close> are arguments
  too. Times are nanoseconds. Every operation is given twice: as a function on the service, for a
  caller that runs alone, and as the sequence of its critical sections, for callers that interleave.
\<close>

section \<open>State\<close>

record User =
  Username :: string
  PasswordHash :: string
  Email :: string
  CreatedAt :: int

record Session =
  Token :: string
  SessionUsername :: string
  ExpiresAt :: int

record AuthService =
  users :: "string \<rightharpoonup> User"
  sessions :: "string \<rightharpoonup> Session"

definition NewAuthService :: AuthService where
  "NewAuthService = \<lparr>users = Map.empty, sessions = Map.empty\<rparr>"

record bcrypt =
  GenerateFromPassword :: "string \<Rightarrow> string \<Rightarrow> string + string"
  CompareHashAndPassword :: "string \<Rightarrow> string \<Rightarrow> bool"

text \<open>What is documented of bcrypt: comparing a generated hash with its password succeeds.\<close>

definition bcrypt_accepts :: "bcrypt \<Rightarrow> bool" where
  "bcrypt_accepts B \<longleftrightarrow>
     (\<forall>salt pw h. GenerateFromPassword B salt pw = Inr h \<longrightarrow> CompareHashAndPassword B h pw)"

datatype auth_error =
  UsernameExists | HashError string | BadCredentials | InvalidToken | TokenExpired | UserNotFound

fun auth_error_text :: "auth_error \<Rightarrow> string" where
  "auth_error_text UsernameExists = utf8 [0xE7, 0x94, 0xA8, 0xE6, 0x88, 0xB7, 0xE5, 0x90, 0x8D, 0xE5, 0xB7, 0xB2, 0xE5, 0xAD, 0x98, 0xE5, 0x9C, 0xA8]"
| "auth_error_text (HashError e) = e"
| "auth_error_text BadCredentials = utf8 [0xE7, 0x94, 0xA8, 0xE6, 0x88, 0xB7, 0xE5, 0x90, 0x8D, 0xE6, 0x88, 0x96, 0xE5, 0xAF, 0x86, 0xE7, 0xA0, 0x81, 0xE9, 0x94, 0x99, 0xE8, 0xAF, 0xAF]"
| "auth_error_text InvalidToken = utf8 [0xE6, 0x97, 0xA0, 0xE6, 0x95, 0x88, 0xE7, 0x9A, 0x84, 0x20, 0x74, 0x6F, 0x6B, 0x65, 0x6E]"
| "auth_error_text TokenExpired = utf8 [0x74, 0x6F, 0x6B, 0x65, 0x6E, 0x20, 0xE5, 0xB7, 0xB2, 0xE8, 0xBF, 0x87, 0xE6, 0x9C, 0x9F]"
| "auth_error_text UserNotFound = utf8 [0xE7, 0x94, 0xA8, 0xE6, 0x88, 0xB7, 0xE4, 0xB8, 0x8D, 0xE5, 0xAD, 0x98, 0xE5, 0x9C, 0xA8]"

section \<open>Operations\<close>

definition generateToken :: "string \<Rightarrow> string" where
  "generateToken rand = hex_encode (take 32 rand)"

definition Register ::
  "bcrypt \<Rightarrow> string \<Rightarrow> int \<Rightarrow> string \<Rightarrow> string \<Rightarrow> string \<Rightarrow> AuthService \<Rightarrow> (auth_error + unit) \<times> AuthService" where
  "Register B salt now username password email s =
     (if users s username \<noteq> None then (Inl UsernameExists, s)
      else case GenerateFromPassword B salt password of
        Inl e \<Rightarrow> (Inl (HashError e), s)
      | Inr hash \<Rightarrow>
          (Inr (), s\<lparr>users := (users s)(username \<mapsto>
             \<lparr>Username = username, PasswordHash = hash, Email = email, CreatedAt = now\<rparr>)\<rparr>))"

definition day :: int where "day = 24 * 3600 * 10 ^ 9"

definition new_session :: "string \<Rightarrow> string \<Rightarrow> int \<Rightarrow> Session" where
  "new_session token username now = \<lparr>Token = token, SessionUsername = username, ExpiresAt = now + day\<rparr>"

definition Login ::
  "bcrypt \<Rightarrow> string \<Rightarrow> int \<Rightarrow> string \<Rightarrow> string \<Rightarrow> AuthService \<Rightarrow> (auth_error + string) \<times> AuthService" where
  "Login B rand now username password s =
     (case users s username of
        None \<Rightarrow> (Inl BadCredentials, s)
      | Some user \<Rightarrow>
          if \<not> CompareHashAndPassword B (PasswordHash user) password then (Inl BadCredentials, s)
          else let token = generateToken rand
               in (Inr token, s\<lparr>sessions := (sessions s)(token \<mapsto> new_session token username now)\<rparr>))"

text \<open>The user returned with a nil error may itself be nil.\<close>

definition ValidateToken :: "int \<Rightarrow> string \<Rightarrow> AuthService \<Rightarrow> (auth_error + User option) \<times> AuthService" where
  "ValidateToken now token s =
     (case sessions s token of
        None \<Rightarrow> (Inl InvalidToken, s)
      | Some session \<Rightarrow>
          if ExpiresAt session < now
          then (Inl TokenExpired, s\<lparr>sessions := (sessions s)(token := None)\<rparr>)
          else (Inr (users s (SessionUsername session)), s))"

definition Logout :: "string \<Rightarrow> AuthService \<Rightarrow> AuthService" where
  "Logout token s = s\<lparr>sessions := (sessions s)(token := None)\<rparr>"

definition GetUser :: "string \<Rightarrow> AuthService \<Rightarrow> auth_error + User" where
  "GetUser username s = (case users s username of None \<Rightarrow> Inl UserNotFound | Some user \<Rightarrow> Inr user)"

section \<open>Handlers\<close>

record RegisterRequest =
  reg_Username :: string
  reg_Password :: string
  reg_Email :: string

record LoginRequest =
  log_Username :: string
  log_Password :: string

definition bad_parameters :: string where
  "bad_parameters = utf8 [0xE8, 0xAF, 0xB7, 0xE6, 0xB1, 0x82, 0xE5, 0x8F, 0x82, 0xE6, 0x95, 0xB0, 0xE9, 0x94, 0x99, 0xE8, 0xAF, 0xAF]"

definition register ::
  "bcrypt \<Rightarrow> string \<Rightarrow> int \<Rightarrow> RegisterRequest option \<Rightarrow> AuthService \<Rightarrow> response \<times> AuthService" where
  "register B salt now bound s =
     (case bound of
        None \<Rightarrow> (error_response StatusBadRequest bad_parameters, s)
      | Some req \<Rightarrow>
          (case Register B salt now (reg_Username req) (reg_Password req) (reg_Email req) s of
             (Inl err, s') \<Rightarrow> (error_response StatusBadRequest (auth_error_text err), s')
           | (Inr _, s') \<Rightarrow>
               (\<lparr>status = StatusOK, body = JObj [(''message'', JStr (utf8 [0xE6, 0xB3, 0xA8, 0xE5, 0x86, 0x8C, 0xE6, 0x88, 0x90, 0xE5, 0x8A, 0x9F]))]\<rparr>, s')))"

definition login ::
  "bcrypt \<Rightarrow> string \<Rightarrow> int \<Rightarrow> LoginRequest option \<Rightarrow> AuthService \<Rightarrow> response \<times> AuthService" where
  "login B rand now bound s =
     (case bound of
        None \<Rightarrow> (error_response StatusBadRequest bad_parameters, s)
      | Some req \<Rightarrow>
          (case Login B rand now (log_Username req) (log_Password req) s of
             (Inl err, s') \<Rightarrow> (error_response StatusUnauthorized (auth_error_text err), s')
           | (Inr token, s') \<Rightarrow>
               (\<lparr>status = StatusOK, body = JObj [(''token'', JStr token),
                   (''message'', JStr (utf8 [0xE7, 0x99, 0xBB, 0xE5, 0xBD, 0x95, 0xE6, 0x88, 0x90, 0xE5, 0x8A, 0x9F]))]\<rparr>, s')))"

definition no_token :: string where
  "no_token = utf8 [0xE6, 0x9C, 0xAA, 0xE6, 0x8F, 0x90, 0xE4, 0xBE, 0x9B, 0x20, 0x74, 0x6F, 0x6B, 0x65, 0x6E]"

definition logout :: "string \<Rightarrow> AuthService \<Rightarrow> response \<times> AuthService" where
  "logout token s =
     (if token = [] then (error_response StatusBadRequest no_token, s)
      else (\<lparr>status = StatusOK, body = JObj [(''message'', JStr (utf8 [0xE7, 0x99, 0xBB, 0xE5, 0x87, 0xBA, 0xE6, 0x88, 0x90, 0xE5, 0x8A, 0x9F]))]\<rparr>,
            Logout token s))"

text \<open>The password hash carries the tag \<^verbatim>\<open>json:"-"\<close>; a nil user is rendered as null.\<close>

definition user_json :: "User option \<Rightarrow> json" where
  "user_json u =
     (case u of None \<Rightarrow> JNull
      | Some x \<Rightarrow> JObj [(''username'', JStr (Username x)), (''email'', JStr (Email x)),
                        (''created_at'', JTime (CreatedAt x))])"

definition getCurrentUser :: "int \<Rightarrow> string \<Rightarrow> AuthService \<Rightarrow> response \<times> AuthService" where
  "getCurrentUser now token s =
     (if token = [] then (error_response StatusUnauthorized no_token, s)
      else case ValidateToken now token s of
        (Inl err, s') \<Rightarrow> (error_response StatusUnauthorized (auth_error_text err), s')
      | (Inr user, s') \<Rightarrow> (\<lparr>status = StatusOK, body = user_json user\<rparr>, s'))"

section \<open>Interleaved callers\<close>

text \<open>Each caller is at one of these points between two critical sections.\<close>

datatype reply =
  RRegister "auth_error + unit" | RLogin "auth_error + string"
  | RValidate "auth_error + User option" | RLogout

datatype pc =
  Idle | LoginLooked string string "User option" | LoginStore string string
  | ValLooked string "Session option" | ValDelete string | ValUser string | Returned reply

fun ready :: "pc \<Rightarrow> bool" where
  "ready Idle = True"
| "ready (Returned r) = True"
| "ready pc = False"

inductive auth_step :: "bcrypt \<Rightarrow> AuthService \<times> (nat \<Rightarrow> pc) \<Rightarrow> AuthService \<times> (nat \<Rightarrow> pc) \<Rightarrow> bool"
  for B where
  register: "ready (pcs t) \<Longrightarrow> Register B salt now u p e s = (r, s') \<Longrightarrow>
    auth_step B (s, pcs) (s', pcs(t := Returned (RRegister r)))"
| login_look: "ready (pcs t) \<Longrightarrow>
    auth_step B (s, pcs) (s, pcs(t := LoginLooked u p (users s u)))"
| login_unknown: "pcs t = LoginLooked u p None \<Longrightarrow>
    auth_step B (s, pcs) (s, pcs(t := Returned (RLogin (Inl BadCredentials))))"
| login_wrong: "pcs t = LoginLooked u p (Some x) \<Longrightarrow> \<not> CompareHashAndPassword B (PasswordHash x) p \<Longrightarrow>
    auth_step B (s, pcs) (s, pcs(t := Returned (RLogin (Inl BadCredentials))))"
| login_right: "pcs t = LoginLooked u p (Some x) \<Longrightarrow> CompareHashAndPassword B (PasswordHash x) p \<Longrightarrow>
    auth_step B (s, pcs) (s, pcs(t := LoginStore u (generateToken rand)))"
| login_store: "pcs t = LoginStore u token \<Longrightarrow>
    auth_step B (s, pcs) (s\<lparr>sessions := (sessions s)(token \<mapsto> new_session token u now)\<rparr>,
      pcs(t := Returned (RLogin (Inr token))))"
| validate_look: "ready (pcs t) \<Longrightarrow>
    auth_step B (s, pcs) (s, pcs(t := ValLooked token (sessions s token)))"
| validate_unknown: "pcs t = ValLooked token None \<Longrightarrow>
    auth_step B (s, pcs) (s, pcs(t := Returned (RValidate (Inl InvalidToken))))"
| validate_expired: "pcs t = ValLooked token (Some x) \<Longrightarrow> ExpiresAt x < now \<Longrightarrow>
    auth_step B (s, pcs) (s, pcs(t := ValDelete token))"
| validate_delete: "pcs t = ValDelete token \<Longrightarrow>
    auth_step B (s, pcs) (s\<lparr>sessions := (sessions s)(token := None)\<rparr>,
      pcs(t := Returned (RValidate (Inl TokenExpired))))"
| validate_live: "pcs t = ValLooked token (Some x) \<Longrightarrow> \<not> ExpiresAt x < now \<Longrightarrow>
    auth_step B (s, pcs) (s, pcs(t := ValUser (SessionUsername x)))"
| validate_user: "pcs t = ValUser u \<Longrightarrow>
    auth_step B (s, pcs) (s, pcs(t := Returned (RValidate (Inr (users s u)))))"
| logout: "ready (pcs t) \<Longrightarrow>
    auth_step B (s, pcs) (Logout token s, pcs(t := Returned RLogout))"

definition auth_reachable :: "bcrypt \<Rightarrow> AuthService \<Rightarrow> (nat \<Rightarrow> pc) \<Rightarrow> bool" where
  "auth_reachable B s pcs \<longleftrightarrow> (auth_step B)\<^sup>*\<^sup>* (NewAuthService, \<lambda>_. Idle) (s, pcs)"

text \<open>A registered user for whom some password passed bcrypt's comparison.\<close>

definition authenticated :: "bcrypt \<Rightarrow> AuthService \<Rightarrow> string \<Rightarrow> bool" where
  "authenticated B s name \<longleftrightarrow>
     (\<exists>x pw. users s name = Some x \<and> CompareHashAndPassword B (PasswordHash x) pw)"

definition sessions_inv :: "bcrypt \<Rightarrow> AuthService \<Rightarrow> bool" where
  "sessions_inv B s \<longleftrightarrow>
     (\<forall>u x. users s u = Some x \<longrightarrow> Username x = u) \<and>
     (\<forall>t x. sessions s t = Some x \<longrightarrow> Token x = t \<and> authenticated B s (SessionUsername x))"

fun pc_inv :: "bcrypt \<Rightarrow> AuthService \<Rightarrow> pc \<Rightarrow> bool" where
  "pc_inv B s (LoginLooked u p (Some x)) = (users s u = Some x)"
| "pc_inv B s (LoginStore u token) = authenticated B s u"
| "pc_inv B s (ValLooked token (Some x)) = (Token x = token \<and> authenticated B s (SessionUsername x))"
| "pc_inv B s (ValUser u) = authenticated B s u"
| "pc_inv B s (Returned (RValidate (Inr r))) = (\<exists>x. r = Some x \<and> authenticated B s (Username x) \<and> users s (Username x) = Some x)"
| "pc_inv B s _ = True"

lemma pc_inv_mono:
  assumes "pc_inv B s q" and "\<And>u x. users s u = Some x \<Longrightarrow> users s' u = Some x"
  shows "pc_inv B s' q"
  using assms by (induction B s q rule: pc_inv.induct) (auto simp: authenticated_def)

lemma sessions_inv_shrink:
  assumes "sessions_inv B s"
  shows "sessions_inv B (s\<lparr>sessions := (sessions s)(t := None)\<rparr>)"
  using assms by (auto simp: sessions_inv_def authenticated_def)

lemma sessions_inv_new_session:
  assumes "sessions_inv B s" and "authenticated B s u"
  shows "sessions_inv B (s\<lparr>sessions := (sessions s)(t \<mapsto> new_session t u now)\<rparr>)"
  using assms by (auto simp: sessions_inv_def authenticated_def new_session_def)

lemma Register_keeps_users:
  "Register B salt now u p e s = (r, s') \<Longrightarrow> users s v = Some x \<Longrightarrow> users s' v = Some x"
  by (auto simp: Register_def split: if_splits sum.splits)

lemma sessions_inv_Register:
  "sessions_inv B s \<Longrightarrow> Register B salt now u p e s = (r, s') \<Longrightarrow> sessions_inv B s'"
  by (fastforce simp: Register_def sessions_inv_def authenticated_def split: if_splits sum.splits)

lemma auth_step_inv:
  assumes "auth_step B (s, pcs) (s', pcs')" and "sessions_inv B s" and "\<forall>t. pc_inv B s (pcs t)"
  shows "sessions_inv B s' \<and> (\<forall>t. pc_inv B s' (pcs' t))"
  using assms
proof (cases rule: auth_step.cases)
  case (register t salt now u p e r)
  then show ?thesis
    using assms Register_keeps_users[OF register(3)] sessions_inv_Register
    by (auto intro: pc_inv_mono[of B s])
next
  case (login_look t u p)
  then show ?thesis using assms by (cases "users s u") auto
next
  case (login_right t u p x rand)
  then have "pc_inv B s (LoginLooked u p (Some x))" using assms(3) by metis
  then show ?thesis using login_right assms by (auto simp: authenticated_def)
next
  case (login_store t u token now)
  then have "authenticated B s u" using assms(3) by (metis pc_inv.simps(2))
  then show ?thesis using login_store assms
    by (auto intro: pc_inv_mono[of B s] sessions_inv_new_session)
next
  case (validate_look t token)
  then show ?thesis using assms by (cases "sessions s token") (auto simp: sessions_inv_def)
next
  case (validate_live t token x now)
  then have "pc_inv B s (ValLooked token (Some x))" using assms(3) by metis
  then show ?thesis using validate_live assms by auto
next
  case (validate_user t u)
  then have "authenticated B s u" using assms(3) by (metis pc_inv.simps(4))
  then show ?thesis using validate_user assms by (auto simp: sessions_inv_def authenticated_def)
qed (auto intro: pc_inv_mono[of B s] sessions_inv_shrink simp: Logout_def)

lemma auth_reachable_inv:
  "auth_reachable B s pcs \<Longrightarrow> sessions_inv B s \<and> (\<forall>t. pc_inv B s (pcs t))"
  unfolding auth_reachable_def
proof (induction "(s, pcs)" arbitrary: s pcs rule: rtranclp_induct)
  case base
  show ?case by (simp add: sessions_inv_def NewAuthService_def)
next
  case (step y)
  then show ?case using auth_step_inv by (metis surj_pair)
qed

text \<open>A caller that is not interrupted between its critical sections runs the operation as a whole.\<close>

lemma Login_steps:
  assumes "ready (pcs t)" and "Login B rand now u p s = (r, s')"
  shows "(auth_step B)\<^sup>*\<^sup>* (s, pcs) (s', pcs(t := Returned (RLogin r)))"
proof -
  let ?p = "pcs(t := LoginLooked u p (users s u))"
  have 1: "auth_step B (s, pcs) (s, ?p)" using assms(1) by (rule login_look)
  show ?thesis
  proof (cases "users s u")
    case None
    then have "auth_step B (s, ?p) (s, ?p(t := Returned (RLogin (Inl BadCredentials))))"
      by (intro login_unknown) simp
    then show ?thesis using 1 assms(2) None by (auto simp: Login_def)
  next
    case (Some x)
    show ?thesis
    proof (cases "CompareHashAndPassword B (PasswordHash x) p")
      case False
      then have "auth_step B (s, ?p) (s, ?p(t := Returned (RLogin (Inl BadCredentials))))"
        using Some by (intro login_wrong) simp_all
      then show ?thesis using 1 assms(2) Some False by (auto simp: Login_def)
    next
      case True
      let ?q = "?p(t := LoginStore u (generateToken rand))"
      have 2: "auth_step B (s, ?p) (s, ?q)" using Some True by (intro login_right) simp_all
      have "auth_step B (s, ?q) (s\<lparr>sessions := (sessions s)(generateToken rand \<mapsto>
          new_session (generateToken rand) u now)\<rparr>, ?q(t := Returned (RLogin (Inr (generateToken rand)))))"
        by (rule login_store) simp
      then show ?thesis using 1 2 assms(2) Some True
        by (auto simp: Login_def Let_def intro: converse_rtranclp_into_rtranclp)
    qed
  qed
qed

lemma ValidateToken_steps:
  assumes "ready (pcs t)" and "ValidateToken now token s = (r, s')"
  shows "(auth_step B)\<^sup>*\<^sup>* (s, pcs) (s', pcs(t := Returned (RValidate r)))"
proof -
  let ?p = "pcs(t := ValLooked token (sessions s token))"
  have 1: "auth_step B (s, pcs) (s, ?p)" using assms(1) by (rule validate_look)
  show ?thesis
  proof (cases "sessions s token")
    case None
    then have "auth_step B (s, ?p) (s, ?p(t := Returned (RValidate (Inl InvalidToken))))"
      by (intro validate_unknown) simp
    then show ?thesis using 1 assms(2) None by (auto simp: ValidateToken_def)
  next
    case (Some x)
    show ?thesis
    proof (cases "ExpiresAt x < now")
      case True
      let ?q = "?p(t := ValDelete token)"
      have 2: "auth_step B (s, ?p) (s, ?q)" using Some True by (intro validate_expired) simp_all
      have "auth_step B (s, ?q) (s\<lparr>sessions := (sessions s)(token := None)\<rparr>,
          ?q(t := Returned (RValidate (Inl TokenExpired))))"
        by (rule validate_delete) simp
      then show ?thesis using 1 2 assms(2) Some True
        by (auto simp: ValidateToken_def intro: converse_rtranclp_into_rtranclp)
    next
      case False
      let ?q = "?p(t := ValUser (SessionUsername x))"
      have 2: "auth_step B (s, ?p) (s, ?q)" using Some False by (intro validate_live) simp_all
      have "auth_step B (s, ?q) (s, ?q(t := Returned (RValidate (Inr (users s (SessionUsername x))))))"
        by (rule validate_user) simp
      then show ?thesis using 1 2 assms(2) Some False
        by (auto simp: ValidateToken_def intro: converse_rtranclp_into_rtranclp)
    qed
  qed
qed

lemma Register_reachable:
  assumes "Register B salt now u p e NewAuthService = (r, s)"
  shows "auth_reachable B s ((\<lambda>_. Idle)(t := Returned (RRegister r)))"
  unfolding auth_reachable_def using register[of "\<lambda>_. Idle" t B salt now u p e NewAuthService r s] assms
  by auto

section \<open>Properties\<close>

text \<open>C27. However the critical sections of concurrent \<^verbatim>\<open>Register\<close>, \<^verbatim>\<open>Login\<close>, \<^verbatim>\<open>ValidateToken\<close> and
  \<^verbatim>\<open>Logout\<close> calls interleave, every stored session carries its own token and belongs to a registered
  user for whom some password passed bcrypt, and a \<^verbatim>\<open>ValidateToken\<close> call that returns no error returns
  a registered user, never nil.\<close>

theorem auth_interleaving_safe:
  assumes "auth_reachable B s pcs"
  shows "(\<forall>t x. sessions s t = Some x \<longrightarrow> Token x = t \<and> (\<exists>usr pw. users s (SessionUsername x) = Some usr \<and>
            Username usr = SessionUsername x \<and> CompareHashAndPassword B (PasswordHash usr) pw)) \<and>
    (\<forall>c r. pcs c = Returned (RValidate (Inr r)) \<longrightarrow>
       (\<exists>usr. r = Some usr \<and> users s (Username usr) = Some usr))"
proof -
  note inv = auth_reachable_inv[OF assms]
  have "\<exists>usr. r = Some usr \<and> users s (Username usr) = Some usr"
    if "pcs c = Returned (RValidate (Inr r))" for c r
    using inv that by (metis pc_inv.simps(5))
  moreover have "\<exists>usr pw. users s (SessionUsername x) = Some usr \<and> Username usr = SessionUsername x \<and>
      CompareHashAndPassword B (PasswordHash usr) pw" if "sessions s t = Some x" for t x
    using inv that unfolding sessions_inv_def authenticated_def by metis
  ultimately show ?thesis using inv unfolding sessions_inv_def by blast
qed

definition plain_bcrypt :: bcrypt where
  "plain_bcrypt = \<lparr>GenerateFromPassword = (\<lambda>salt pw. Inr (salt @ pw)), CompareHashAndPassword =
     (\<lambda>h pw. length pw \<le> length h \<and> drop (length h - length pw) h = pw)\<rparr>"

theorem auth_interleaving_safe_witness:
  "\<exists>s pcs. auth_reachable plain_bcrypt s pcs \<and> sessions s (generateToken ''r'') \<noteq> None \<and>
     (\<forall>x. sessions s (generateToken ''r'') = Some x \<longrightarrow> Token x = generateToken ''r'')"
proof -
  let ?s1 = "snd (Register plain_bcrypt ''s'' 0 ''ann'' ''pw'' ''e'' NewAuthService)"
  let ?p1 = "(\<lambda>_. Idle)(0 := Returned (RRegister (Inr ())))"
  let ?s2 = "snd (Login plain_bcrypt ''r'' 5 ''ann'' ''pw'' ?s1)"
  have "auth_reachable plain_bcrypt ?s1 ?p1"
    by (rule Register_reachable[of _ "''s''" 0 "''ann''" "''pw''" "''e''"]) (simp add: Register_def NewAuthService_def plain_bcrypt_def)
  moreover have l: "Login plain_bcrypt ''r'' 5 ''ann'' ''pw'' ?s1 = (Inr (generateToken ''r''), ?s2)"
    by (simp add: Login_def Register_def NewAuthService_def plain_bcrypt_def Let_def)
  ultimately have r: "auth_reachable plain_bcrypt ?s2 (?p1(0 := Returned (RLogin (Inr (generateToken ''r'')))))"
    using Login_steps[of ?p1 0, OF _ l] unfolding auth_reachable_def by auto
  moreover have "sessions ?s2 (generateToken ''r'') \<noteq> None"
    by (simp add: Login_def Register_def NewAuthService_def plain_bcrypt_def Let_def)
  ultimately show ?thesis using auth_interleaving_safe[OF r] by blast
qed

text \<open>C29. The life of a session. After a successful \<^verbatim>\<open>Register\<close>, \<^verbatim>\<open>Login\<close> with the same password returns
  a token; \<^verbatim>\<open>ValidateToken\<close> with it returns exactly the registered user and changes nothing up to 24
  hours later, afterwards it fails, forgets the session, and the token is invalid from then on; after
  \<^verbatim>\<open>Logout\<close> the token is invalid at once. A second \<^verbatim>\<open>Register\<close> of the name is refused.\<close>

theorem auth_session_life:
  assumes "bcrypt_accepts B" and "Register B salt t0 u pw mail s0 = (Inr (), s1)"
  shows "\<exists>token s2 usr. Login B rand t1 u pw s1 = (Inr token, s2) \<and> Username usr = u \<and> Email usr = mail \<and>
    (\<forall>now. ValidateToken now token s2 =
       (if now \<le> t1 + 24 * 3600 * 10 ^ 9 then (Inr (Some usr), s2)
        else (Inl TokenExpired, Logout token s2))) \<and>
    (\<forall>now. ValidateToken now token (Logout token s2) = (Inl InvalidToken, Logout token s2)) \<and>
    Register B salt' t2 u pw' mail' s1 = (Inl UsernameExists, s1)"
proof -
  from assms(2) obtain h where h: "GenerateFromPassword B salt pw = Inr h" and
    s1: "s1 = s0\<lparr>users := (users s0)(u \<mapsto> \<lparr>Username = u, PasswordHash = h, Email = mail, CreatedAt = t0\<rparr>)\<rparr>"
    by (auto simp: Register_def split: if_splits sum.splits)
  have "CompareHashAndPassword B h pw" using assms(1) h by (auto simp: bcrypt_accepts_def)
  then show ?thesis using s1
    by (intro exI[of _ "generateToken rand"] exI[of _ "snd (Login B rand t1 u pw s1)"]
        exI[of _ "\<lparr>Username = u, PasswordHash = h, Email = mail, CreatedAt = t0\<rparr>"])
      (auto simp: Login_def Let_def ValidateToken_def Logout_def new_session_def day_def Register_def)
qed

theorem auth_session_life_witness:
  "bcrypt_accepts plain_bcrypt \<and>
   (\<exists>token s2 usr. Login plain_bcrypt ''r'' 5 ''ann'' ''pw''
       (snd (Register plain_bcrypt ''s'' 0 ''ann'' ''pw'' ''e'' NewAuthService)) = (Inr token, s2) \<and>
     ValidateToken 6 token s2 = (Inr (Some usr), s2) \<and> Username usr = ''ann'')"
proof -
  let ?s1 = "snd (Register plain_bcrypt ''s'' 0 ''ann'' ''pw'' ''e'' NewAuthService)"
  have B: "bcrypt_accepts plain_bcrypt" by (simp add: bcrypt_accepts_def plain_bcrypt_def)
  have "Register plain_bcrypt ''s'' 0 ''ann'' ''pw'' ''e'' NewAuthService = (Inr (), ?s1)"
    by (simp add: Register_def NewAuthService_def plain_bcrypt_def)
  from auth_session_life[OF B this, of "''r''" 5] B show ?thesis by force
qed



end
