(* ===== verification/Fashion_DB.thy ===== *)
theory Fashion_DB
  imports Go_Json
begin

text \<open>
  The Postgres access layer of the fashion front end (\<^verbatim>\<open>fashion-recommend/database/models.go\<close>). The
  database is a record of tables, each a list of rows in insertion order, with the serial sequences
  and a list of statement outcomes: each SQL statement consumes one entry of \<open>faults\<close> and fails with a
  driver error when it is set. The unique and foreign key constraints of the migrations and the
  \<^verbatim>\<open>ON CONFLICT\<close> clauses are part of each statement; a rolled back transaction restores the tables and
  keeps the sequences, as Postgres does. Rows that \<^verbatim>\<open>ORDER BY\<close> does not separate keep table order.
\<close>

section \<open>Rows and tables\<close>

record AIConversation =
  conv_ID :: int
  conv_UserID :: string
  conv_SessionID :: string
  conv_CreatedAt :: int
  conv_UpdatedAt :: int
  conv_Title :: string
  conv_Status :: string
  conv_MessageCount :: int

record AIMessage =
  msg_ID :: int
  msg_SessionID :: string
  msg_UserID :: string
  msg_Role :: string
  msg_Content :: string
  msg_CreatedAt :: int
  msg_TokensUsed :: int

record UserTraits =
  ut_ID :: int
  ut_UserID :: string
  ut_Traits :: json
  ut_ConfidenceScore :: fl
  ut_LastAnalyzedAt :: "int option"
  ut_CreatedAt :: int
  ut_UpdatedAt :: int

record TraitExtractionLog =
  tl_ID :: int
  tl_UserID :: string
  tl_SessionID :: string
  tl_ExtractedTraits :: json
  tl_Source :: string
  tl_Confidence :: fl
  tl_CreatedAt :: int

record Comment =
  c_ID :: int
  c_ItemID :: string
  c_UserID :: string
  c_Username :: string
  c_Content :: string
  c_ParentID :: "int option"
  c_ReplyToUserID :: "string option"
  c_ReplyToUsername :: "string option"
  c_LikesCount :: int
  c_RepliesCount :: int
  c_CreatedAt :: int
  c_UpdatedAt :: int
  c_IsLiked :: bool

text \<open>A comment of the list carries its replies, which carry none.\<close>

record ThreadedComment = Comment +
  c_Replies :: "Comment list"

record ProductLike =
  pl_ID :: int
  pl_ItemID :: string
  pl_UserID :: string
  pl_CreatedAt :: int

record CommentLike =
  cl_ID :: int
  cl_CommentID :: int
  cl_UserID :: string
  cl_CreatedAt :: int

record ProductLikeStats =
  ps_ItemID :: string
  ps_LikeCount :: int
  ps_UpdatedAt :: int

record sequences =
  conv_seq :: int
  msg_seq :: int
  ut_seq :: int
  tl_seq :: int
  comment_seq :: int
  cl_seq :: int
  pl_seq :: int

record tables =
  ai_conversations :: "AIConversation list"
  ai_messages :: "AIMessage list"
  user_traits :: "UserTraits list"
  trait_extraction_logs :: "TraitExtractionLog list"
  comments :: "Comment list"
  comment_likes :: "CommentLike list"
  product_likes :: "ProductLike list"
  product_like_stats :: "ProductLikeStats list"

record DB =
  tabs :: tables
  seqs :: sequences
  faults :: "bool list"

definition empty_db :: "bool list \<Rightarrow> DB" where
  "empty_db fs =
     \<lparr>tabs = \<lparr>ai_conversations = [], ai_messages = [], user_traits = [], trait_extraction_logs = [],
        comments = [], comment_likes = [], product_likes = [], product_like_stats = []\<rparr>,
      seqs = \<lparr>conv_seq = 1, msg_seq = 1, ut_seq = 1, tl_seq = 1, comment_seq = 1, cl_seq = 1, pl_seq = 1\<rparr>,
      faults = fs\<rparr>"

section \<open>Statements and transactions\<close>

type_synonym 'a query = "DB \<Rightarrow> (go_fail + 'a) \<times> DB"

definition qbind :: "'a query \<Rightarrow> ('a \<Rightarrow> 'b query) \<Rightarrow> 'b query" where
  "qbind m f db = (case m db of (Inl e, db') \<Rightarrow> (Inl e, db') | (Inr x, db') \<Rightarrow> f x db')"

definition qreturn :: "'a \<Rightarrow> 'a query" where
  "qreturn x db = (Inr x, db)"

definition driver_error :: go_fail where
  "driver_error = Error ''driver: bad connection''"

definition stmt :: "'a query \<Rightarrow> 'a query" where
  "stmt f db =
     (case faults db of
        [] \<Rightarrow> f db
      | b # fs \<Rightarrow> if b then (Inl driver_error, db\<lparr>faults := fs\<rparr>) else f (db\<lparr>faults := fs\<rparr>))"

text \<open>\<^verbatim>\<open>Begin\<close>, the body, \<^verbatim>\<open>Commit\<close>; every early return runs the deferred \<^verbatim>\<open>Rollback\<close>.\<close>

definition transaction :: "unit query \<Rightarrow> unit query" where
  "transaction f db =
     (case qbind (stmt (qreturn ())) (\<lambda>_. qbind f (\<lambda>_. stmt (qreturn ()))) db of
        (Inl e, db') \<Rightarrow> (Inl e, db'\<lparr>tabs := tabs db\<rparr>)
      | (Inr _, db') \<Rightarrow> (Inr (), db'))"

definition limit_rows :: "int \<Rightarrow> 'a list \<Rightarrow> 'a list query" where
  "limit_rows n rows db =
     (if n < 0 then (Inl (Error ''LIMIT must not be negative''), db) else (Inr (take (nat n) rows), db))"

section \<open>Conversations\<close>

definition CreateConversation :: "int \<Rightarrow> string \<Rightarrow> string \<Rightarrow> string \<Rightarrow> unit query" where
  "CreateConversation now userID sessionID title = stmt (\<lambda>db.
     let db1 = db\<lparr>seqs := (seqs db)\<lparr>conv_seq := conv_seq (seqs db) + 1\<rparr>\<rparr>; t = tabs db
     in if \<exists>c\<in>set (ai_conversations t). conv_SessionID c = sessionID then (Inr (), db1)
        else (Inr (), db1\<lparr>tabs := t\<lparr>ai_conversations := ai_conversations t @
          [\<lparr>conv_ID = conv_seq (seqs db), conv_UserID = userID, conv_SessionID = sessionID,
            conv_CreatedAt = now, conv_UpdatedAt = now, conv_Title = title, conv_Status = ''active'',
            conv_MessageCount = 0\<rparr>]\<rparr>\<rparr>))"

definition insert_message :: "int \<Rightarrow> AIMessage \<Rightarrow> AIMessage query" where
  "insert_message now msg = stmt (\<lambda>db.
     let row = msg\<lparr>msg_ID := msg_seq (seqs db), msg_CreatedAt := now\<rparr>; t = tabs db
     in (Inr row, db\<lparr>tabs := t\<lparr>ai_messages := ai_messages t @ [row]\<rparr>,
                     seqs := (seqs db)\<lparr>msg_seq := msg_seq (seqs db) + 1\<rparr>\<rparr>))"

definition count_message :: "int \<Rightarrow> string \<Rightarrow> unit query" where
  "count_message now sessionID = stmt (\<lambda>db.
     let t = tabs db
     in (Inr (), db\<lparr>tabs := t\<lparr>ai_conversations := map (\<lambda>c. if conv_SessionID c = sessionID
           then c\<lparr>conv_MessageCount := conv_MessageCount c + 1, conv_UpdatedAt := now\<rparr> else c)
         (ai_conversations t)\<rparr>\<rparr>))"

definition SaveMessage :: "int \<Rightarrow> AIMessage \<Rightarrow> unit query" where
  "SaveMessage now msg = qbind (insert_message now msg) (\<lambda>row. count_message now (msg_SessionID row))"

definition GetConversationMessages :: "string \<Rightarrow> int \<Rightarrow> AIMessage list query" where
  "GetConversationMessages sessionID limit = stmt (\<lambda>db.
     limit_rows limit (sort_key msg_CreatedAt
       (filter (\<lambda>m. msg_SessionID m = sessionID) (ai_messages (tabs db)))) db)"

definition GetUserConversations :: "string \<Rightarrow> int \<Rightarrow> AIConversation list query" where
  "GetUserConversations userID limit = stmt (\<lambda>db.
     limit_rows limit (sort_key (\<lambda>c. - conv_UpdatedAt c)
       (filter (\<lambda>c. conv_UserID c = userID) (ai_conversations (tabs db)))) db)"

section \<open>Traits\<close>

definition SaveUserTraits :: "int \<Rightarrow> string \<Rightarrow> json \<Rightarrow> fl \<Rightarrow> unit query" where
  "SaveUserTraits now userID traits confidence = stmt (\<lambda>db.
     let t = tabs db; db1 = db\<lparr>seqs := (seqs db)\<lparr>ut_seq := ut_seq (seqs db) + 1\<rparr>\<rparr>
     in if \<exists>u\<in>set (user_traits t). ut_UserID u = userID
        then (Inr (), db1\<lparr>tabs := t\<lparr>user_traits := map (\<lambda>u. if ut_UserID u = userID
               then u\<lparr>ut_Traits := traits, ut_ConfidenceScore := confidence,
                      ut_LastAnalyzedAt := Some now, ut_UpdatedAt := now\<rparr> else u) (user_traits t)\<rparr>\<rparr>)
        else (Inr (), db1\<lparr>tabs := t\<lparr>user_traits := user_traits t @
               [\<lparr>ut_ID = ut_seq (seqs db), ut_UserID = userID, ut_Traits = traits,
                 ut_ConfidenceScore = confidence, ut_LastAnalyzedAt = Some now, ut_CreatedAt = now,
                 ut_UpdatedAt = now\<rparr>]\<rparr>\<rparr>))"

text \<open>\<^verbatim>\<open>sql.ErrNoRows\<close> becomes a nil pointer without an error.\<close>

definition GetUserTraits :: "string \<Rightarrow> UserTraits option query" where
  "GetUserTraits userID = stmt (\<lambda>db. (Inr (find (\<lambda>u. ut_UserID u = userID) (user_traits (tabs db))), db))"

definition LogTraitExtraction :: "int \<Rightarrow> string \<Rightarrow> string \<Rightarrow> json \<Rightarrow> string \<Rightarrow> fl \<Rightarrow> unit query" where
  "LogTraitExtraction now userID sessionID traits source confidence = stmt (\<lambda>db.
     let t = tabs db
     in (Inr (), db\<lparr>tabs := t\<lparr>trait_extraction_logs := trait_extraction_logs t @
           [\<lparr>tl_ID = tl_seq (seqs db), tl_UserID = userID, tl_SessionID = sessionID,
             tl_ExtractedTraits = traits, tl_Source = source, tl_Confidence = confidence,
             tl_CreatedAt = now\<rparr>]\<rparr>,
           seqs := (seqs db)\<lparr>tl_seq := tl_seq (seqs db) + 1\<rparr>\<rparr>))"

section \<open>Comments\<close>

definition insert_comment :: "int \<Rightarrow> Comment \<Rightarrow> Comment query" where
  "insert_comment now comment = stmt (\<lambda>db.
     let t = tabs db; db1 = db\<lparr>seqs := (seqs db)\<lparr>comment_seq := comment_seq (seqs db) + 1\<rparr>\<rparr>;
         row = comment\<lparr>c_ID := comment_seq (seqs db), c_LikesCount := 0, c_RepliesCount := 0,
                       c_CreatedAt := now, c_UpdatedAt := now, c_IsLiked := False\<rparr>
     in if (case c_ParentID comment of None \<Rightarrow> True | Some p \<Rightarrow> p \<in> c_ID ` set (comments t))
        then (Inr (comment\<lparr>c_ID := c_ID row, c_CreatedAt := now, c_UpdatedAt := now\<rparr>),
              db1\<lparr>tabs := t\<lparr>comments := comments t @ [row]\<rparr>\<rparr>)
        else (Inl (Error ''violates foreign key constraint''), db1))"

definition update_comment :: "int \<Rightarrow> (Comment \<Rightarrow> Comment) \<Rightarrow> unit query" where
  "update_comment cid f = stmt (\<lambda>db.
     let t = tabs db
     in (Inr (), db\<lparr>tabs := t\<lparr>comments := map (\<lambda>c. if c_ID c = cid then f c else c) (comments t)\<rparr>\<rparr>))"

text \<open>The caller's comment is filled in with its identifier and times, also when the second statement
  fails; the result is the comment and the outcome.\<close>

definition CreateComment :: "int \<Rightarrow> Comment \<Rightarrow> Comment query" where
  "CreateComment now comment =
     qbind (insert_comment now comment) (\<lambda>c.
       case c_ParentID comment of
         None \<Rightarrow> qreturn c
       | Some p \<Rightarrow> qbind (update_comment p (\<lambda>x. x\<lparr>c_RepliesCount := c_RepliesCount x + 1, c_UpdatedAt := now\<rparr>))
           (\<lambda>_. qreturn c))"

definition liked_by :: "tables \<Rightarrow> string \<Rightarrow> Comment \<Rightarrow> Comment" where
  "liked_by t userID c =
     c\<lparr>c_IsLiked := (\<exists>l\<in>set (comment_likes t). cl_CommentID l = c_ID c \<and> cl_UserID l = userID)\<rparr>"

definition GetReplies :: "int \<Rightarrow> string \<Rightarrow> int \<Rightarrow> Comment list query" where
  "GetReplies parentID userID limit = stmt (\<lambda>db.
     limit_rows limit (map (liked_by (tabs db) userID) (sort_key c_CreatedAt
       (filter (\<lambda>c. c_ParentID c = Some parentID) (comments (tabs db))))) db)"

definition with_replies :: "Comment \<Rightarrow> Comment list \<Rightarrow> ThreadedComment" where
  "with_replies c rs = Comment.extend c \<lparr>c_Replies = rs\<rparr>"

text \<open>A failing query for the replies leaves the comment without replies.\<close>

fun thread_rows :: "string \<Rightarrow> Comment list \<Rightarrow> ThreadedComment list query" where
  "thread_rows userID [] db = (Inr [], db)"
| "thread_rows userID (c # cs) db =
     (let (rs, db1) = (if 0 < c_RepliesCount c
                       then (case GetReplies (c_ID c) userID 10 db of
                               (Inl e, db') \<Rightarrow> ([], db') | (Inr rs, db') \<Rightarrow> (rs, db'))
                       else ([], db))
      in qbind (thread_rows userID cs) (\<lambda>rest. qreturn (with_replies c rs # rest)) db1)"

definition top_comments :: "tables \<Rightarrow> string \<Rightarrow> Comment list" where
  "top_comments t itemID = sort_key (\<lambda>c. - c_CreatedAt c)
     (filter (\<lambda>c. c_ItemID c = itemID \<and> c_ParentID c = None) (comments t))"

definition GetComments :: "string \<Rightarrow> string \<Rightarrow> int \<Rightarrow> int \<Rightarrow> ThreadedComment list query" where
  "GetComments itemID userID limit offset =
     qbind (stmt (\<lambda>db.
       if offset < 0 then (Inl (Error ''OFFSET must not be negative''), db)
       else limit_rows limit (drop (nat offset)
              (map (liked_by (tabs db) userID) (top_comments (tabs db) itemID))) db))
     (thread_rows userID)"

definition insert_comment_like :: "int \<Rightarrow> int \<Rightarrow> string \<Rightarrow> nat query" where
  "insert_comment_like now commentID userID = stmt (\<lambda>db.
     let t = tabs db; db1 = db\<lparr>seqs := (seqs db)\<lparr>cl_seq := cl_seq (seqs db) + 1\<rparr>\<rparr>
     in if \<exists>l\<in>set (comment_likes t). cl_CommentID l = commentID \<and> cl_UserID l = userID
        then (Inr 0, db1)
        else if commentID \<notin> c_ID ` set (comments t)
        then (Inl (Error ''violates foreign key constraint''), db1)
        else (Inr 1, db1\<lparr>tabs := t\<lparr>comment_likes := comment_likes t @
          [\<lparr>cl_ID = cl_seq (seqs db), cl_CommentID = commentID, cl_UserID = userID, cl_CreatedAt = now\<rparr>]\<rparr>\<rparr>))"

definition LikeComment :: "int \<Rightarrow> int \<Rightarrow> string \<Rightarrow> unit query" where
  "LikeComment now commentID userID = transaction (
     qbind (insert_comment_like now commentID userID) (\<lambda>rowsAffected.
       if 0 < rowsAffected
       then update_comment commentID (\<lambda>c. c\<lparr>c_LikesCount := c_LikesCount c + 1, c_UpdatedAt := now\<rparr>)
       else qreturn ()))"

definition delete_comment_like :: "int \<Rightarrow> string \<Rightarrow> nat query" where
  "delete_comment_like commentID userID = stmt (\<lambda>db.
     let t = tabs db; hit = (\<lambda>l. cl_CommentID l = commentID \<and> cl_UserID l = userID)
     in (Inr (length (filter hit (comment_likes t))),
         db\<lparr>tabs := t\<lparr>comment_likes := filter (\<lambda>l. \<not> hit l) (comment_likes t)\<rparr>\<rparr>))"

definition UnlikeComment :: "int \<Rightarrow> int \<Rightarrow> string \<Rightarrow> unit query" where
  "UnlikeComment now commentID userID = transaction (
     qbind (delete_comment_like commentID userID) (\<lambda>rowsAffected.
       if 0 < rowsAffected
       then update_comment commentID (\<lambda>c. c\<lparr>c_LikesCount := max (c_LikesCount c - 1) 0, c_UpdatedAt := now\<rparr>)
       else qreturn ()))"

definition GetCommentCount :: "string \<Rightarrow> int query" where
  "GetCommentCount itemID = stmt (\<lambda>db.
     (Inr (int (length (filter (\<lambda>c. c_ItemID c = itemID \<and> c_ParentID c = None) (comments (tabs db))))), db))"

section \<open>Product likes\<close>

definition bump_stats :: "int \<Rightarrow> string \<Rightarrow> ProductLikeStats list \<Rightarrow> ProductLikeStats list" where
  "bump_stats now itemID ss =
     (if \<exists>p\<in>set ss. ps_ItemID p = itemID
      then map (\<lambda>p. if ps_ItemID p = itemID then p\<lparr>ps_LikeCount := ps_LikeCount p + 1, ps_UpdatedAt := now\<rparr> else p) ss
      else ss @ [\<lparr>ps_ItemID = itemID, ps_LikeCount = 1, ps_UpdatedAt = now\<rparr>])"

definition insert_product_like :: "int \<Rightarrow> string \<Rightarrow> string \<Rightarrow> nat query" where
  "insert_product_like now itemID userID = stmt (\<lambda>db.
     let t = tabs db; db1 = db\<lparr>seqs := (seqs db)\<lparr>pl_seq := pl_seq (seqs db) + 1\<rparr>\<rparr>
     in if \<exists>l\<in>set (product_likes t). pl_ItemID l = itemID \<and> pl_UserID l = userID
        then (Inr 0, db1)
        else (Inr 1, db1\<lparr>tabs := t\<lparr>product_likes := product_likes t @
          [\<lparr>pl_ID = pl_seq (seqs db), pl_ItemID = itemID, pl_UserID = userID, pl_CreatedAt = now\<rparr>]\<rparr>\<rparr>))"

definition update_stats :: "(ProductLikeStats list \<Rightarrow> ProductLikeStats list) \<Rightarrow> unit query" where
  "update_stats f = stmt (\<lambda>db.
     let t = tabs db in (Inr (), db\<lparr>tabs := t\<lparr>product_like_stats := f (product_like_stats t)\<rparr>\<rparr>))"

definition LikeProduct :: "int \<Rightarrow> string \<Rightarrow> string \<Rightarrow> unit query" where
  "LikeProduct now itemID userID = transaction (
     qbind (insert_product_like now itemID userID) (\<lambda>rowsAffected.
       if 0 < rowsAffected then update_stats (bump_stats now itemID) else qreturn ()))"

definition delete_product_like :: "string \<Rightarrow> string \<Rightarrow> nat query" where
  "delete_product_like itemID userID = stmt (\<lambda>db.
     let t = tabs db; hit = (\<lambda>l. pl_ItemID l = itemID \<and> pl_UserID l = userID)
     in (Inr (length (filter hit (product_likes t))),
         db\<lparr>tabs := t\<lparr>product_likes := filter (\<lambda>l. \<not> hit l) (product_likes t)\<rparr>\<rparr>))"

definition drop_stats :: "int \<Rightarrow> string \<Rightarrow> ProductLikeStats list \<Rightarrow> ProductLikeStats list" where
  "drop_stats now itemID = map (\<lambda>p. if ps_ItemID p = itemID
     then p\<lparr>ps_LikeCount := max (ps_LikeCount p - 1) 0, ps_UpdatedAt := now\<rparr> else p)"

definition UnlikeProduct :: "int \<Rightarrow> string \<Rightarrow> string \<Rightarrow> unit query" where
  "UnlikeProduct now itemID userID = transaction (
     qbind (delete_product_like itemID userID) (\<lambda>rowsAffected.
       if 0 < rowsAffected then update_stats (drop_stats now itemID) else qreturn ()))"

definition GetProductLikeCount :: "string \<Rightarrow> int query" where
  "GetProductLikeCount itemID = stmt (\<lambda>db.
     (Inr (case find (\<lambda>p. ps_ItemID p = itemID) (product_like_stats (tabs db)) of
             None \<Rightarrow> 0 | Some p \<Rightarrow> ps_LikeCount p), db))"

definition IsProductLiked :: "string \<Rightarrow> string \<Rightarrow> bool query" where
  "IsProductLiked itemID userID = stmt (\<lambda>db.
     (Inr (\<exists>l\<in>set (product_likes (tabs db)). pl_ItemID l = itemID \<and> pl_UserID l = userID), db))"

text \<open>The statement selects \<^verbatim>\<open>s.like_count\<close>, but \<^verbatim>\<open>s\<close> is a subquery with the single column \<^verbatim>\<open>item_id\<close>;
  the count is a column of \<^verbatim>\<open>ps\<close>. Postgres rejects it when it resolves the columns. The rows of a
  query over known columns are given by the parameter list of columns of \<^verbatim>\<open>s\<close>.\<close>

definition columns_of_s :: "string list" where
  "columns_of_s = [''item_id'']"

definition GetProductsLikeInfo :: "string list \<Rightarrow> string \<Rightarrow> (int \<times> bool) go_map query" where
  "GetProductsLikeInfo itemIDs userID db =
     (if itemIDs = [] then (Inr [], db)
      else stmt (\<lambda>db.
        if ''like_count'' \<notin> set columns_of_s
        then (Inl (Error ''column s.like_count does not exist''), db)
        else (Inr (fold (\<lambda>itemID m. gput itemID
               (case find (\<lambda>p. ps_ItemID p = itemID) (product_like_stats (tabs db)) of
                  None \<Rightarrow> 0 | Some p \<Rightarrow> ps_LikeCount p,
                \<exists>l\<in>set (product_likes (tabs db)). pl_ItemID l = itemID \<and> pl_UserID l = userID) m)
             itemIDs []), db)) db)"

section \<open>Statements: what they keep\<close>

lemma stmt_cases:
  assumes "stmt f db = (r, db')"
  obtains (fault) fs where "r = Inl driver_error" and "db' = db\<lparr>faults := fs\<rparr>"
  | (run) fs where "f (db\<lparr>faults := fs\<rparr>) = (r, db')"
proof (cases "faults db")
  case Nil
  then have "db\<lparr>faults := []\<rparr> = db" by (metis DB.surjective DB.update_convs(3))
  moreover have "f db = (r, db')" using assms Nil by (simp add: stmt_def)
  ultimately show ?thesis using run[of "[]"] by (simp only:)
next
  case (Cons b fs)
  then show ?thesis using assms run[of fs] fault[of fs] by (cases b) (simp_all add: stmt_def)
qed

lemma stmt_no_faults: "faults db = [] \<Longrightarrow> stmt f db = f db"
  by (simp add: stmt_def)

lemma qbind_cases:
  assumes "qbind m f db = (r, db')"
  obtains (fail) e where "m db = (Inl e, db')" and "r = Inl e"
  | (ok) x db1 where "m db = (Inr x, db1)" and "f x db1 = (r, db')"
  using assms by (auto simp: qbind_def split: prod.splits sum.splits)

lemma transaction_cases:
  assumes "transaction f db = (r, db')"
  obtains (fail) e where "r = Inl e" and "tabs db' = tabs db"
  | (ok) db1 db2 where "r = Inr ()" and "tabs db1 = tabs db" and "f db1 = (Inr (), db2)"
      and "tabs db' = tabs db2"
proof (cases r)
  case (Inl e)
  then show ?thesis using assms fail by (auto simp: transaction_def split: prod.splits sum.splits)
next
  case (Inr u)
  then obtain db2 x where b: "stmt (qreturn ()) db = (Inr (), x)"
    and f: "f x = (Inr (), db2)" and c: "stmt (qreturn ()) db2 = (Inr (), db')"
    using assms by (auto simp: transaction_def qbind_def split: prod.splits sum.splits)
  have "tabs x = tabs db" using b by (elim stmt_cases) (auto simp: qreturn_def)
  moreover have "tabs db' = tabs db2" using c by (elim stmt_cases) (auto simp: qreturn_def)
  ultimately show ?thesis using ok Inr f by simp
qed

section \<open>Like counters\<close>

text \<open>What the product likes and the comment likes promise: the set of users who like a thing follows
  the successful calls, a failed call changes nothing, and the stored count is the size of the set.\<close>

datatype 'k like_op = OLike int 'k string | OUnlike int 'k string

fun likers_step :: "'k like_op \<Rightarrow> ('k \<Rightarrow> string set) \<Rightarrow> 'k \<Rightarrow> string set" where
  "likers_step (OLike now k u) L = L(k := insert u (L k))"
| "likers_step (OUnlike now k u) L = L(k := L k - {u})"

text \<open>Runs a sequence of calls, and lists those that reported success.\<close>

fun like_run :: "(int \<Rightarrow> 'k \<Rightarrow> string \<Rightarrow> unit query) \<Rightarrow> (int \<Rightarrow> 'k \<Rightarrow> string \<Rightarrow> unit query) \<Rightarrow>
    'k like_op list \<Rightarrow> DB \<Rightarrow> 'k like_op list \<times> DB" where
  "like_run lk ulk [] db = ([], db)"
| "like_run lk ulk (a # ops) db =
     (let (r, db1) = (case a of OLike now k u \<Rightarrow> lk now k u db | OUnlike now k u \<Rightarrow> ulk now k u db);
          (acc, db2) = like_run lk ulk ops db1
      in (if r = Inr () then a # acc else acc, db2))"

locale like_counter =
  fixes like :: "int \<Rightarrow> 'k \<Rightarrow> string \<Rightarrow> unit query"
    and unlike :: "int \<Rightarrow> 'k \<Rightarrow> string \<Rightarrow> unit query"
    and likers :: "tables \<Rightarrow> 'k \<Rightarrow> string set"
    and stored :: "tables \<Rightarrow> 'k \<Rightarrow> int option"
    and inv :: "tables \<Rightarrow> bool"
  assumes like_Inr: "inv (tabs db) \<Longrightarrow> like now k u db = (Inr (), db') \<Longrightarrow>
      inv (tabs db') \<and> likers (tabs db') = likers_step (OLike now k u) (likers (tabs db))"
    and like_Inl: "like now k u db = (Inl e, db') \<Longrightarrow> tabs db' = tabs db"
    and unlike_Inr: "inv (tabs db) \<Longrightarrow> unlike now k u db = (Inr (), db') \<Longrightarrow>
      inv (tabs db') \<and> likers (tabs db') = likers_step (OUnlike now k u) (likers (tabs db))"
    and unlike_Inl: "unlike now k u db = (Inl e, db') \<Longrightarrow> tabs db' = tabs db"
    and stored_card: "inv t \<Longrightarrow> stored t k = Some n \<Longrightarrow> n = int (card (likers t k))"
begin

lemma run:
  "like_run like unlike ops db = (done, db') \<Longrightarrow> inv (tabs db) \<Longrightarrow>
   inv (tabs db') \<and> likers (tabs db') = fold likers_step done (likers (tabs db))"
proof (induction ops arbitrary: db "done")
  case (Cons a ops)
  obtain r db1 where a: "(case a of OLike now k u \<Rightarrow> like now k u db | OUnlike now k u \<Rightarrow> unlike now k u db) = (r, db1)"
    by fastforce
  obtain acc where rest: "like_run like unlike ops db1 = (acc, db')"
    and "done": "done = (if r = Inr () then a # acc else acc)"
    using Cons.prems(1) a by (auto split: prod.splits)
  have "inv (tabs db1) \<and> likers (tabs db1) = (if r = Inr () then likers_step a (likers (tabs db)) else likers (tabs db))"
  proof (cases r)
    case (Inl e)
    then have "tabs db1 = tabs db" using a by (cases a) (auto dest: like_Inl unlike_Inl)
    then show ?thesis using Inl Cons.prems(2) by simp
  next
    case (Inr u)
    then show ?thesis using a like_Inr[OF Cons.prems(2)] unlike_Inr[OF Cons.prems(2)]
      by (cases a) simp_all
  qed
  then show ?case using Cons.IH[OF rest] "done" by simp
qed simp

lemma like_keeps: "inv (tabs db) \<Longrightarrow> inv (tabs (snd (like now k u db)))"
proof (cases "like now k u db")
  case (Pair r db')
  assume i: "inv (tabs db)"
  show ?thesis
  proof (cases r)
    case (Inl e)
    then show ?thesis using Pair like_Inl[of now k u db e db'] i by simp
  next
    case (Inr x)
    then show ?thesis using Pair like_Inr[OF i, of now k u db'] by simp
  qed
qed

lemma unlike_keeps: "inv (tabs db) \<Longrightarrow> inv (tabs (snd (unlike now k u db)))"
proof (cases "unlike now k u db")
  case (Pair r db')
  assume i: "inv (tabs db)"
  show ?thesis
  proof (cases r)
    case (Inl e)
    then show ?thesis using Pair unlike_Inl[of now k u db e db'] i by simp
  next
    case (Inr x)
    then show ?thesis using Pair unlike_Inr[OF i, of now k u db'] by simp
  qed
qed

lemma run_stored:
  assumes "like_run like unlike ops db = (done, db')" and "inv (tabs db)"
    and "stored (tabs db') k = Some n"
  shows "n = int (card (fold likers_step done (likers (tabs db)) k))"
  using run[OF assms(1,2)] stored_card assms(3) by metis

end

section \<open>Product likes are counted exactly\<close>

definition product_likers :: "tables \<Rightarrow> string \<Rightarrow> string set" where
  "product_likers t item = set (map pl_UserID (filter (\<lambda>l. pl_ItemID l = item) (product_likes t)))"

definition product_stored :: "tables \<Rightarrow> string \<Rightarrow> int option" where
  "product_stored t item =
     Some (case find (\<lambda>p. ps_ItemID p = item) (product_like_stats t) of None \<Rightarrow> 0 | Some p \<Rightarrow> ps_LikeCount p)"

definition product_inv :: "tables \<Rightarrow> bool" where
  "product_inv t \<longleftrightarrow> (\<forall>item. product_stored t item = Some (int (card (product_likers t item))))"

lemma finite_product_likers [simp]: "finite (product_likers t item)"
  by (simp add: product_likers_def)

lemma find_map_stats:
  assumes "\<And>p. ps_ItemID (f p) = ps_ItemID p"
  shows "find (\<lambda>p. ps_ItemID p = item) (map f ss) = map_option f (find (\<lambda>p. ps_ItemID p = item) ss)"
  using assms by (induction ss) auto

lemma find_ps_ItemID: "find (\<lambda>p. ps_ItemID p = item) ss = Some p \<Longrightarrow> ps_ItemID p = item"
  by (auto simp: find_Some_iff)

lemma find_bump_stats:
  "(case find (\<lambda>p. ps_ItemID p = item) (bump_stats now item' ss) of None \<Rightarrow> 0 | Some p \<Rightarrow> ps_LikeCount p) =
   (case find (\<lambda>p. ps_ItemID p = item) ss of None \<Rightarrow> 0 | Some p \<Rightarrow> ps_LikeCount p) + (if item = item' then 1 else 0)"
proof (cases "\<exists>p\<in>set ss. ps_ItemID p = item'")
  case True
  then have b: "bump_stats now item' ss = map (\<lambda>p. if ps_ItemID p = item'
      then p\<lparr>ps_LikeCount := ps_LikeCount p + 1, ps_UpdatedAt := now\<rparr> else p) ss"
    by (simp add: bump_stats_def)
  have "find (\<lambda>p. ps_ItemID p = item) ss \<noteq> None" if "item = item'"
    using True that by (auto simp: find_None_iff)
  then show ?thesis unfolding b
    by (subst find_map_stats) (auto split: option.splits dest: find_ps_ItemID)
next
  case False
  then have b: "bump_stats now item' ss = ss @ [\<lparr>ps_ItemID = item', ps_LikeCount = 1, ps_UpdatedAt = now\<rparr>]"
    by (simp add: bump_stats_def)
  have "find (\<lambda>p. ps_ItemID p = item') ss = None" using False by (auto simp: find_None_iff)
  moreover have "find P (ss @ [x]) = (case find P ss of None \<Rightarrow> if P x then Some x else None | Some y \<Rightarrow> Some y)" for P x
    by (induction ss) auto
  ultimately show ?thesis unfolding b by (auto split: option.splits)
qed

lemma card_insert_int: "finite A \<Longrightarrow> int (card (insert x A)) = int (card A) + (if x \<in> A then 0 else 1)"
  by (simp add: insert_absorb)

lemma card_remove_int: "finite A \<Longrightarrow> int (card (A - {x})) = int (card A) - (if x \<in> A then 1 else 0)"
  using card_gt_0_iff[of A] by (auto simp: card_Diff_singleton_if of_nat_diff)

lemma insert_product_like_Inr:
  assumes "insert_product_like now item user db = (Inr n, db')"
  shows "if user \<in> product_likers (tabs db) item then n = 0 \<and> tabs db' = tabs db
    else n = 1 \<and> (\<exists>i. tabs db' = (tabs db)\<lparr>product_likes := product_likes (tabs db) @
      [\<lparr>pl_ID = i, pl_ItemID = item, pl_UserID = user, pl_CreatedAt = now\<rparr>]\<rparr>)"
  using assms unfolding insert_product_like_def
  by (cases rule: stmt_cases)
    (auto simp: Let_def product_likers_def driver_error_def split: if_splits)

lemma delete_product_like_Inr:
  assumes "delete_product_like item user db = (Inr n, db')"
  shows "(0 < n \<longleftrightarrow> user \<in> product_likers (tabs db) item) \<and>
    tabs db' = (tabs db)\<lparr>product_likes := filter (\<lambda>l. \<not> (pl_ItemID l = item \<and> pl_UserID l = user)) (product_likes (tabs db))\<rparr>"
  using assms unfolding delete_product_like_def
  by (cases rule: stmt_cases)
    (auto simp: Let_def product_likers_def driver_error_def filter_empty_conv)

lemma update_stats_Inr:
  "update_stats f db = (Inr u, db') \<Longrightarrow> tabs db' = (tabs db)\<lparr>product_like_stats := f (product_like_stats (tabs db))\<rparr>"
  unfolding update_stats_def by (erule stmt_cases) (auto simp: Let_def)

lemma LikeProduct_Inr:
  assumes inv: "product_inv (tabs db)" and r: "LikeProduct now item user db = (Inr (), db')"
  shows "product_inv (tabs db') \<and>
    product_likers (tabs db') = likers_step (OLike now item user) (product_likers (tabs db))"
  using r unfolding LikeProduct_def
proof (cases rule: transaction_cases)
  case (ok db1 db2)
  from ok(3) obtain n db3 where i: "insert_product_like now item user db1 = (Inr n, db3)"
    and u: "(if 0 < n then update_stats (bump_stats now item) else qreturn ()) db3 = (Inr (), db2)"
    by (auto elim: qbind_cases)
  note n = insert_product_like_Inr[OF i, unfolded ok(2)]
  show ?thesis
  proof (cases "user \<in> product_likers (tabs db) item")
    case True
    then have "tabs db' = tabs db" using n u ok(4) by (simp add: qreturn_def)
    then show ?thesis using inv True by (auto simp: fun_eq_iff)
  next
    case False
    then obtain j where "tabs db3 = (tabs db)\<lparr>product_likes := product_likes (tabs db) @
        [\<lparr>pl_ID = j, pl_ItemID = item, pl_UserID = user, pl_CreatedAt = now\<rparr>]\<rparr>" and "n = 1"
      using n by auto
    then have t: "tabs db' = (tabs db)\<lparr>product_likes := product_likes (tabs db) @
        [\<lparr>pl_ID = j, pl_ItemID = item, pl_UserID = user, pl_CreatedAt = now\<rparr>],
        product_like_stats := bump_stats now item (product_like_stats (tabs db))\<rparr>"
      using u update_stats_Inr[of "bump_stats now item" db3 "()" db2] ok(4) by simp
    have L: "product_likers (tabs db') = (product_likers (tabs db))(item := insert user (product_likers (tabs db) item))"
      by (auto simp: t product_likers_def fun_eq_iff)
    have s: "product_stored (tabs db') x = map_option (\<lambda>c. c + (if x = item then 1 else 0)) (product_stored (tabs db) x)" for x
      by (simp add: product_stored_def t find_bump_stats)
    show ?thesis using inv False L by (auto simp: product_inv_def s card_insert_int)
  qed
qed simp

lemma find_drop_stats:
  "find (\<lambda>p. ps_ItemID p = x) (drop_stats now item ss) = map_option (\<lambda>p. if ps_ItemID p = item
     then p\<lparr>ps_LikeCount := max (ps_LikeCount p - 1) 0, ps_UpdatedAt := now\<rparr> else p)
     (find (\<lambda>p. ps_ItemID p = x) ss)"
  unfolding drop_stats_def by (rule find_map_stats) simp

lemma UnlikeProduct_Inr:
  assumes inv: "product_inv (tabs db)" and r: "UnlikeProduct now item user db = (Inr (), db')"
  shows "product_inv (tabs db') \<and>
    product_likers (tabs db') = likers_step (OUnlike now item user) (product_likers (tabs db))"
  using r unfolding UnlikeProduct_def
proof (cases rule: transaction_cases)
  case (ok db1 db2)
  from ok(3) obtain n db3 where i: "delete_product_like item user db1 = (Inr n, db3)"
    and u: "(if 0 < n then update_stats (drop_stats now item) else qreturn ()) db3 = (Inr (), db2)"
    by (auto elim: qbind_cases)
  note n = delete_product_like_Inr[OF i, unfolded ok(2)]
  let ?known = "user \<in> product_likers (tabs db) item"
  have st: "product_like_stats (tabs db') = (if ?known then drop_stats now item (product_like_stats (tabs db))
      else product_like_stats (tabs db))"
    and pl: "product_likes (tabs db') = filter (\<lambda>l. \<not> (pl_ItemID l = item \<and> pl_UserID l = user)) (product_likes (tabs db))"
    using u n update_stats_Inr[of "drop_stats now item" db3 "()" db2] ok(4)
    by (auto simp: qreturn_def split: if_splits)
  have L: "product_likers (tabs db') = (product_likers (tabs db))(item := product_likers (tabs db) item - {user})"
    by (auto simp: product_likers_def pl fun_eq_iff)
  have "product_stored (tabs db') x = Some (int (card (product_likers (tabs db') x)))" for x
  proof -
    have old: "product_stored (tabs db) x = Some (int (card (product_likers (tabs db) x)))"
      using inv by (simp add: product_inv_def)
    show ?thesis
    proof (cases "?known \<and> x = item")
      case True
      then have "0 < card (product_likers (tabs db) x)" by (auto simp: card_gt_0_iff)
      then show ?thesis using old True
        by (auto simp: product_stored_def st find_drop_stats L card_remove_int split: option.splits
            dest!: find_ps_ItemID)
    next
      case False
      then have "product_stored (tabs db') x = product_stored (tabs db) x"
        by (auto simp: product_stored_def st find_drop_stats split: option.splits dest: find_ps_ItemID)
      then show ?thesis using False old by (auto simp: L)
    qed
  qed
  then show ?thesis using L by (simp add: product_inv_def)
qed simp

lemma transaction_Inl: "transaction f db = (Inl e, db') \<Longrightarrow> tabs db' = tabs db"
  by (auto simp: transaction_def split: prod.splits sum.splits)

interpretation product: like_counter LikeProduct UnlikeProduct product_likers product_stored product_inv
proof
  fix db now k u db' t n
  show "product_inv (tabs db) \<Longrightarrow> LikeProduct now k u db = (Inr (), db') \<Longrightarrow> product_inv (tabs db') \<and>
      product_likers (tabs db') = likers_step (OLike now k u) (product_likers (tabs db))"
    by (rule LikeProduct_Inr)
  show "product_inv (tabs db) \<Longrightarrow> UnlikeProduct now k u db = (Inr (), db') \<Longrightarrow> product_inv (tabs db') \<and>
      product_likers (tabs db') = likers_step (OUnlike now k u) (product_likers (tabs db))"
    by (rule UnlikeProduct_Inr)
  show "product_inv t \<Longrightarrow> product_stored t k = Some n \<Longrightarrow> n = int (card (product_likers t k))"
    by (simp add: product_inv_def)
qed (simp_all add: LikeProduct_def UnlikeProduct_def transaction_Inl)

section \<open>Comment likes are counted exactly\<close>

definition comment_likers :: "tables \<Rightarrow> int \<Rightarrow> string set" where
  "comment_likers t cid = set (map cl_UserID (filter (\<lambda>l. cl_CommentID l = cid) (comment_likes t)))"

definition comment_stored :: "tables \<Rightarrow> int \<Rightarrow> int option" where
  "comment_stored t cid = map_option c_LikesCount (find (\<lambda>c. c_ID c = cid) (comments t))"

definition comment_inv :: "tables \<Rightarrow> bool" where
  "comment_inv t \<longleftrightarrow>
     (\<forall>c\<in>set (comments t). c_LikesCount c = int (card (comment_likers t (c_ID c)))) \<and>
     (\<forall>l\<in>set (comment_likes t). cl_CommentID l \<in> c_ID ` set (comments t))"

lemma finite_comment_likers [simp]: "finite (comment_likers t cid)"
  by (simp add: comment_likers_def)

lemma insert_comment_like_Inr:
  assumes "insert_comment_like now cid user db = (Inr n, db')"
  shows "if user \<in> comment_likers (tabs db) cid then n = 0 \<and> tabs db' = tabs db
    else n = 1 \<and> cid \<in> c_ID ` set (comments (tabs db)) \<and>
      (\<exists>i. tabs db' = (tabs db)\<lparr>comment_likes := comment_likes (tabs db) @
        [\<lparr>cl_ID = i, cl_CommentID = cid, cl_UserID = user, cl_CreatedAt = now\<rparr>]\<rparr>)"
  using assms unfolding insert_comment_like_def
  by (cases rule: stmt_cases)
    (auto simp: Let_def comment_likers_def driver_error_def split: if_splits)

lemma delete_comment_like_Inr:
  assumes "delete_comment_like cid user db = (Inr n, db')"
  shows "(0 < n \<longleftrightarrow> user \<in> comment_likers (tabs db) cid) \<and>
    tabs db' = (tabs db)\<lparr>comment_likes := filter (\<lambda>l. \<not> (cl_CommentID l = cid \<and> cl_UserID l = user)) (comment_likes (tabs db))\<rparr>"
  using assms unfolding delete_comment_like_def
  by (cases rule: stmt_cases)
    (auto simp: Let_def comment_likers_def driver_error_def filter_empty_conv)

lemma update_comment_Inr:
  "update_comment cid f db = (Inr u, db') \<Longrightarrow>
   tabs db' = (tabs db)\<lparr>comments := map (\<lambda>c. if c_ID c = cid then f c else c) (comments (tabs db))\<rparr>"
  unfolding update_comment_def by (erule stmt_cases) (auto simp: Let_def)

lemma map_ids_update:
  assumes "\<And>c. c_ID (f c) = c_ID c"
  shows "map c_ID (map (\<lambda>c. if c_ID c = k then f c else c) cs) = map c_ID cs"
  using assms by (induction cs) auto

lemma ids_update:
  assumes "\<And>c. c_ID (f c) = c_ID c"
  shows "c_ID ` set (map (\<lambda>c. if c_ID c = k then f c else c) cs) = c_ID ` set cs"
  using map_ids_update[of f k cs, OF assms] by (metis set_map)

lemma comment_inv_stored:
  "comment_inv t \<Longrightarrow> comment_stored t cid = Some n \<Longrightarrow> n = int (card (comment_likers t cid))"
  by (auto simp: comment_inv_def comment_stored_def find_Some_iff)

lemma LikeComment_Inr:
  assumes inv: "comment_inv (tabs db)" and r: "LikeComment now cid user db = (Inr (), db')"
  shows "comment_inv (tabs db') \<and>
    comment_likers (tabs db') = likers_step (OLike now cid user) (comment_likers (tabs db))"
  using r unfolding LikeComment_def
proof (cases rule: transaction_cases)
  case (ok db1 db2)
  let ?up = "\<lambda>c. c\<lparr>c_LikesCount := c_LikesCount c + 1, c_UpdatedAt := now\<rparr>"
  from ok(3) obtain n db3 where i: "insert_comment_like now cid user db1 = (Inr n, db3)"
    and u: "(if 0 < n then update_comment cid ?up else qreturn ()) db3 = (Inr (), db2)"
    by (auto elim: qbind_cases)
  note n = insert_comment_like_Inr[OF i, unfolded ok(2)]
  show ?thesis
  proof (cases "user \<in> comment_likers (tabs db) cid")
    case True
    then have "tabs db' = tabs db" using n u ok(4) by (simp add: qreturn_def)
    then show ?thesis using inv True by (auto simp: fun_eq_iff)
  next
    case False
    then obtain j where "tabs db3 = (tabs db)\<lparr>comment_likes := comment_likes (tabs db) @
        [\<lparr>cl_ID = j, cl_CommentID = cid, cl_UserID = user, cl_CreatedAt = now\<rparr>]\<rparr>"
      and "n = 1" and known: "cid \<in> c_ID ` set (comments (tabs db))"
      using n by auto
    then have t: "tabs db' = (tabs db)\<lparr>comment_likes := comment_likes (tabs db) @
        [\<lparr>cl_ID = j, cl_CommentID = cid, cl_UserID = user, cl_CreatedAt = now\<rparr>],
        comments := map (\<lambda>c. if c_ID c = cid then ?up c else c) (comments (tabs db))\<rparr>"
      using u update_comment_Inr[of cid ?up db3 "()" db2] ok(4) by simp
    have L: "comment_likers (tabs db') = (comment_likers (tabs db))(cid := insert user (comment_likers (tabs db) cid))"
      by (auto simp: t comment_likers_def fun_eq_iff)
    have "c_ID ` set (comments (tabs db')) = c_ID ` set (comments (tabs db))"
      using ids_update[of ?up cid] by (simp add: t del: set_map)
    then have "comment_inv (tabs db')" using inv False known unfolding comment_inv_def L
      by (auto simp: t card_insert_int)
    then show ?thesis using L by simp
  qed
qed simp

lemma UnlikeComment_Inr:
  assumes inv: "comment_inv (tabs db)" and r: "UnlikeComment now cid user db = (Inr (), db')"
  shows "comment_inv (tabs db') \<and>
    comment_likers (tabs db') = likers_step (OUnlike now cid user) (comment_likers (tabs db))"
  using r unfolding UnlikeComment_def
proof (cases rule: transaction_cases)
  case (ok db1 db2)
  let ?up = "\<lambda>c. c\<lparr>c_LikesCount := max (c_LikesCount c - 1) 0, c_UpdatedAt := now\<rparr>"
  from ok(3) obtain n db3 where i: "delete_comment_like cid user db1 = (Inr n, db3)"
    and u: "(if 0 < n then update_comment cid ?up else qreturn ()) db3 = (Inr (), db2)"
    by (auto elim: qbind_cases)
  note n = delete_comment_like_Inr[OF i, unfolded ok(2)]
  let ?known = "user \<in> comment_likers (tabs db) cid"
  have c: "comments (tabs db') = (if ?known then map (\<lambda>c. if c_ID c = cid then ?up c else c) (comments (tabs db))
      else comments (tabs db))"
    and l: "comment_likes (tabs db') = filter (\<lambda>l. \<not> (cl_CommentID l = cid \<and> cl_UserID l = user)) (comment_likes (tabs db))"
    using u n update_comment_Inr[of cid ?up db3 "()" db2] ok(4)
    by (auto simp: qreturn_def split: if_splits)
  have L: "comment_likers (tabs db') = (comment_likers (tabs db))(cid := comment_likers (tabs db) cid - {user})"
    by (auto simp: comment_likers_def l fun_eq_iff)
  have ids: "c_ID ` set (comments (tabs db')) = c_ID ` set (comments (tabs db))"
    using ids_update[of ?up cid "comments (tabs db)"] by (simp add: c del: set_map)
  have "0 < card (comment_likers (tabs db) cid)" if ?known
    using that by (auto simp: card_gt_0_iff)
  then have "comment_inv (tabs db')" using inv ids unfolding comment_inv_def L
    by (auto simp: c l card_remove_int)
  then show ?thesis using L by simp
qed simp

interpretation comment: like_counter LikeComment UnlikeComment comment_likers comment_stored comment_inv
proof
  fix db now k u db' t n
  show "comment_inv (tabs db) \<Longrightarrow> LikeComment now k u db = (Inr (), db') \<Longrightarrow> comment_inv (tabs db') \<and>
      comment_likers (tabs db') = likers_step (OLike now k u) (comment_likers (tabs db))"
    by (rule LikeComment_Inr)
  show "comment_inv (tabs db) \<Longrightarrow> UnlikeComment now k u db = (Inr (), db') \<Longrightarrow> comment_inv (tabs db') \<and>
      comment_likers (tabs db') = likers_step (OUnlike now k u) (comment_likers (tabs db))"
    by (rule UnlikeComment_Inr)
  show "comment_inv t \<Longrightarrow> comment_stored t k = Some n \<Longrightarrow> n = int (card (comment_likers t k))"
    by (rule comment_inv_stored)
qed (simp_all add: LikeComment_def UnlikeComment_def transaction_Inl)

section \<open>Reply and message counters\<close>

definition replies_of :: "tables \<Rightarrow> int \<Rightarrow> Comment list" where
  "replies_of t cid = filter (\<lambda>c. c_ParentID c = Some cid) (comments t)"

text \<open>What holds of the comments after any sequence of calls, failed statements included: identifiers
  are distinct and below the sequence, and a reply counter never exceeds the number of replies.\<close>

definition thread_inv :: "DB \<Rightarrow> bool" where
  "thread_inv db \<longleftrightarrow> distinct (map c_ID (comments (tabs db))) \<and>
     (\<forall>c\<in>set (comments (tabs db)). c_ID c < comment_seq (seqs db) \<and> 0 \<le> c_RepliesCount c \<and>
        c_RepliesCount c \<le> int (length (replies_of (tabs db) (c_ID c))) \<and>
        (\<forall>p. c_ParentID c = Some p \<longrightarrow> p < c_ID c))"

lemma insert_comment_Inr:
  assumes "insert_comment now c db = (Inr c', db')"
  shows "tabs db' = (tabs db)\<lparr>comments := comments (tabs db) @ [c\<lparr>c_ID := comment_seq (seqs db), c_LikesCount := 0,
      c_RepliesCount := 0, c_CreatedAt := now, c_UpdatedAt := now, c_IsLiked := False\<rparr>]\<rparr> \<and>
    comment_seq (seqs db') = comment_seq (seqs db) + 1 \<and> c_ID c' = comment_seq (seqs db) \<and>
    (\<forall>p. c_ParentID c = Some p \<longrightarrow> p \<in> c_ID ` set (comments (tabs db)))"
  using assms unfolding insert_comment_def
  by (cases rule: stmt_cases) (auto simp: Let_def split: if_splits option.splits)

lemma insert_comment_Inl:
  assumes "insert_comment now c db = (Inl e, db')"
  shows "tabs db' = tabs db \<and> comment_seq (seqs db) \<le> comment_seq (seqs db')"
  using assms unfolding insert_comment_def
  by (cases rule: stmt_cases) (auto simp: Let_def split: if_splits option.splits)

lemma update_comment_cases:
  assumes "update_comment cid f db = (r, db')"
  shows "seqs db' = seqs db \<and> (case r of Inl e \<Rightarrow> tabs db' = tabs db | Inr u \<Rightarrow>
    tabs db' = (tabs db)\<lparr>comments := map (\<lambda>c. if c_ID c = cid then f c else c) (comments (tabs db))\<rparr>)"
  using assms unfolding update_comment_def by (cases rule: stmt_cases) (auto simp: Let_def)

lemma thread_inv_append:
  assumes "thread_inv db" and "c_RepliesCount row = 0" and "c_ID row = comment_seq (seqs db)"
    and "tabs db' = (tabs db)\<lparr>comments := comments (tabs db) @ [row]\<rparr>"
    and "comment_seq (seqs db') = comment_seq (seqs db) + 1"
    and "\<And>p. c_ParentID row = Some p \<Longrightarrow> p \<in> c_ID ` set (comments (tabs db))"
  shows "thread_inv db'"
proof -
  have old: "c_ID c < comment_seq (seqs db)" if "c \<in> set (comments (tabs db))" for c
    using assms(1) that by (simp add: thread_inv_def)
  have "c_RepliesCount c \<le> int (length (replies_of (tabs db') (c_ID c)))" if "c \<in> set (comments (tabs db))" for c
    using assms(1) that unfolding thread_inv_def by (force simp: replies_of_def assms(4))
  moreover have "p < c_ID row" if "c_ParentID row = Some p" for p
    using assms(6)[OF that] old assms(3) by auto
  moreover have "c_ID row \<notin> c_ID ` set (comments (tabs db))" using old assms(3) by force
  ultimately show ?thesis using assms(1-5) old by (auto simp: thread_inv_def intro: less_imp_le)
qed

lemma thread_inv_count:
  assumes "thread_inv db" and "p \<in> c_ID ` set (comments (tabs db))"
    and "\<And>c. c \<in> set (comments (tabs db)) \<Longrightarrow> c_ID c = p \<Longrightarrow>
      c_RepliesCount c < int (length (replies_of (tabs db) p))"
    and "tabs db' = (tabs db)\<lparr>comments := map (\<lambda>c. if c_ID c = p
      then c\<lparr>c_RepliesCount := c_RepliesCount c + 1, c_UpdatedAt := now\<rparr> else c) (comments (tabs db))\<rparr>"
    and "seqs db' = seqs db"
  shows "thread_inv db'"
proof -
  let ?f = "\<lambda>c. if c_ID c = p then c\<lparr>c_RepliesCount := c_RepliesCount c + 1, c_UpdatedAt := now\<rparr> else c"
  have ids: "map c_ID (map ?f cs) = map c_ID cs" for cs by (rule map_ids_update) simp
  have par: "c_ParentID (?f c) = c_ParentID c" for c by simp
  have len: "length (replies_of (tabs db') x) = length (replies_of (tabs db) x)" for x
  proof -
    have "length (filter (\<lambda>c. c_ParentID c = Some x) (map ?f cs)) = length (filter (\<lambda>c. c_ParentID c = Some x) cs)" for cs
      by (induction cs) auto
    then show ?thesis by (simp add: replies_of_def assms(4))
  qed
  have "distinct (map c_ID (comments (tabs db')))"
    using assms(1) ids[of "comments (tabs db)"] by (simp add: assms(4) thread_inv_def del: map_map)
  moreover have "c_ID c < comment_seq (seqs db') \<and> 0 \<le> c_RepliesCount c \<and>
      c_RepliesCount c \<le> int (length (replies_of (tabs db') (c_ID c))) \<and> (\<forall>q. c_ParentID c = Some q \<longrightarrow> q < c_ID c)"
    if c: "c \<in> set (comments (tabs db'))" for c
  proof -
    from c obtain d where d: "d \<in> set (comments (tabs db))" "c = ?f d" by (auto simp: assms(4))
    then show ?thesis using assms(1) assms(3)[OF d(1)] unfolding thread_inv_def len assms(5) by fastforce
  qed
  ultimately show ?thesis by (simp add: thread_inv_def)
qed

lemma CreateComment_thread_inv:
  assumes inv: "thread_inv db" and r: "CreateComment now c db = (r, db')"
  shows "thread_inv db'"
  using r unfolding CreateComment_def
proof (cases rule: qbind_cases)
  case (fail e)
  then show ?thesis using inv insert_comment_Inl[OF fail(1)] by (force simp: thread_inv_def)
next
  case (ok c' db1)
  note i = insert_comment_Inr[OF ok(1)]
  have inv1: "thread_inv db1" by (rule thread_inv_append[OF inv, of _ db1]) (use i in auto)
  show ?thesis
  proof (cases "c_ParentID c")
    case None
    then show ?thesis using ok(2) inv1 by (simp add: qreturn_def)
  next
    case (Some p)
    let ?f = "\<lambda>x. x\<lparr>c_RepliesCount := c_RepliesCount x + 1, c_UpdatedAt := now\<rparr>"
    obtain r2 where u: "update_comment p ?f db1 = (r2, db')"
      using ok(2) Some by (auto elim!: qbind_cases simp: qreturn_def)
    note cs = update_comment_cases[OF u]
    show ?thesis
    proof (cases r2)
      case (Inl e)
      then show ?thesis using cs inv1 by (simp add: thread_inv_def)
    next
      case (Inr x)
      have p: "p \<in> c_ID ` set (comments (tabs db))" using i Some by simp
      have "d \<in> set (comments (tabs db1)) \<Longrightarrow> c_ID d = p \<Longrightarrow>
          c_RepliesCount d < int (length (replies_of (tabs db1) p))" for d
        using inv i Some unfolding thread_inv_def by (force simp: replies_of_def)
      then show ?thesis using cs Inr p i by (intro thread_inv_count[OF inv1, of p]) auto
    qed
  qed
qed

text \<open>A call of the comment operations, with the clock.\<close>

datatype comment_call = CCreate int Comment | CLike int int string | CUnlike int int string

fun comment_exec :: "comment_call \<Rightarrow> DB \<Rightarrow> DB" where
  "comment_exec (CCreate now c) db = snd (CreateComment now c db)"
| "comment_exec (CLike now cid u) db = snd (LikeComment now cid u db)"
| "comment_exec (CUnlike now cid u) db = snd (UnlikeComment now cid u db)"

lemma stmt_comment_seq:
  assumes "\<And>db'. comment_seq (seqs (snd (f db'))) = comment_seq (seqs db')"
  shows "comment_seq (seqs (snd (stmt f db))) = comment_seq (seqs db)"
  using assms by (simp add: stmt_def split: list.splits)

lemma qbind_comment_seq:
  assumes "\<And>db'. comment_seq (seqs (snd (m db'))) = comment_seq (seqs db')"
    and "\<And>x db'. comment_seq (seqs (snd (f x db'))) = comment_seq (seqs db')"
  shows "comment_seq (seqs (snd (qbind m f db))) = comment_seq (seqs db)"
  using assms(1)[of db] assms(2) unfolding qbind_def by (auto split: prod.splits sum.splits)

lemma transaction_comment_seq:
  assumes "\<And>db'. comment_seq (seqs (snd (f db'))) = comment_seq (seqs db')"
  shows "comment_seq (seqs (snd (transaction f db))) = comment_seq (seqs db)"
proof -
  have "comment_seq (seqs (snd (qbind (stmt (qreturn ())) (\<lambda>_. qbind f (\<lambda>_. stmt (qreturn ()))) db))) =
      comment_seq (seqs db)"
    by (intro qbind_comment_seq stmt_comment_seq assms) (simp_all add: qreturn_def)
  then show ?thesis by (auto simp: transaction_def split: prod.splits sum.splits)
qed

lemma like_comment_seq:
  "comment_seq (seqs (snd (LikeComment now cid u db))) = comment_seq (seqs db)"
  "comment_seq (seqs (snd (UnlikeComment now cid u db))) = comment_seq (seqs db)"
  unfolding LikeComment_def UnlikeComment_def insert_comment_like_def delete_comment_like_def update_comment_def
  by (intro transaction_comment_seq qbind_comment_seq stmt_comment_seq; simp add: Let_def qreturn_def stmt_comment_seq)+

definition threads :: "tables \<Rightarrow> (int \<times> int option \<times> int) list" where
  "threads t = map (\<lambda>c. (c_ID c, c_ParentID c, c_RepliesCount c)) (comments t)"

lemma thread_inv_threads:
  "thread_inv db \<longleftrightarrow> distinct (map fst (threads (tabs db))) \<and>
     (\<forall>(i, p, n)\<in>set (threads (tabs db)). i < comment_seq (seqs db) \<and> 0 \<le> n \<and>
        n \<le> int (length (filter (\<lambda>(_, q, _). q = Some i) (threads (tabs db)))) \<and>
        (\<forall>q. p = Some q \<longrightarrow> q < i))"
  unfolding thread_inv_def threads_def replies_of_def
  by (simp add: filter_map o_def comp_def split_def)

lemma threads_update:
  assumes "\<And>c. c_ID (f c) = c_ID c \<and> c_ParentID (f c) = c_ParentID c \<and> c_RepliesCount (f c) = c_RepliesCount c"
  shows "threads (t\<lparr>comments := map (\<lambda>c. if c_ID c = k then f c else c) (comments t)\<rparr>) = threads t"
  using assms by (auto simp: threads_def)

lemma threads_comment_likes [simp]: "threads (t\<lparr>comment_likes := ls\<rparr>) = threads t"
  by (simp add: threads_def)

lemma insert_comment_like_threads:
  "insert_comment_like now cid u db = (Inr n, db') \<Longrightarrow> threads (tabs db') = threads (tabs db)"
  using insert_comment_like_Inr[of now cid u db n db'] by (auto split: if_splits)

lemma LikeComment_threads: "threads (tabs (snd (LikeComment now cid u db))) = threads (tabs db)"
proof (cases "LikeComment now cid u db")
  case (Pair r db')
  show ?thesis using Pair[unfolded LikeComment_def]
  proof (cases rule: transaction_cases)
    case (ok db1 db2)
    let ?up = "\<lambda>c. c\<lparr>c_LikesCount := c_LikesCount c + 1, c_UpdatedAt := now\<rparr>"
    from ok(3) obtain n db3 where i: "insert_comment_like now cid u db1 = (Inr n, db3)"
      and w: "(if 0 < n then update_comment cid ?up else qreturn ()) db3 = (Inr (), db2)"
      by (auto elim: qbind_cases)
    have "threads (tabs db2) = threads (tabs db3)"
      using w update_comment_Inr[of cid ?up db3 "()" db2] threads_update[of ?up]
      by (auto simp: qreturn_def split: if_splits)
    then show ?thesis using Pair ok insert_comment_like_threads[OF i] by simp
  qed (simp add: Pair)
qed

lemma UnlikeComment_threads: "threads (tabs (snd (UnlikeComment now cid u db))) = threads (tabs db)"
proof (cases "UnlikeComment now cid u db")
  case (Pair r db')
  show ?thesis using Pair[unfolded UnlikeComment_def]
  proof (cases rule: transaction_cases)
    case (ok db1 db2)
    let ?up = "\<lambda>c. c\<lparr>c_LikesCount := max (c_LikesCount c - 1) 0, c_UpdatedAt := now\<rparr>"
    from ok(3) obtain n db3 where i: "delete_comment_like cid u db1 = (Inr n, db3)"
      and w: "(if 0 < n then update_comment cid ?up else qreturn ()) db3 = (Inr (), db2)"
      by (auto elim: qbind_cases)
    have "threads (tabs db2) = threads (tabs db3)"
      using w update_comment_Inr[of cid ?up db3 "()" db2] threads_update[of ?up]
      by (auto simp: qreturn_def split: if_splits)
    then show ?thesis using Pair ok delete_comment_like_Inr[OF i] by simp
  qed (simp add: Pair)
qed

lemma comment_inv_new_row:
  assumes "comment_inv t" and "c_LikesCount row = 0" and "c_ID row \<notin> c_ID ` set (comments t)"
  shows "comment_inv (t\<lparr>comments := comments t @ [row]\<rparr>)"
proof -
  have "cl_CommentID l \<noteq> c_ID row" if "l \<in> set (comment_likes t)" for l
    using assms(1,3) that by (metis comment_inv_def)
  then have "comment_likers t (c_ID row) = {}" by (simp add: comment_likers_def)
  moreover have "comment_likers (t\<lparr>comments := cs\<rparr>) = comment_likers t" for cs
    by (simp add: comment_likers_def fun_eq_iff)
  ultimately show ?thesis using assms(1,2) by (auto simp: comment_inv_def)
qed

lemma comment_inv_update:
  assumes "comment_inv t" and "\<And>c. c_ID (f c) = c_ID c \<and> c_LikesCount (f c) = c_LikesCount c"
  shows "comment_inv (t\<lparr>comments := map (\<lambda>c. if c_ID c = k then f c else c) (comments t)\<rparr>)"
proof -
  have "comment_likers (t\<lparr>comments := cs\<rparr>) = comment_likers t" for cs
    by (simp add: comment_likers_def fun_eq_iff)
  then show ?thesis using assms ids_update[of f k "comments t"] by (auto simp: comment_inv_def simp del: set_map)
      (auto simp: comment_inv_def)
qed

lemma CreateComment_comment_inv:
  assumes inv: "thread_inv db" "comment_inv (tabs db)" and r: "CreateComment now c db = (r, db')"
  shows "comment_inv (tabs db')"
  using r unfolding CreateComment_def
proof (cases rule: qbind_cases)
  case (fail e)
  then show ?thesis using inv insert_comment_Inl[OF fail(1)] by simp
next
  case (ok c' db1)
  note i = insert_comment_Inr[OF ok(1)]
  have "comment_seq (seqs db) \<notin> c_ID ` set (comments (tabs db))" using inv(1) by (force simp: thread_inv_def)
  then have inv1: "comment_inv (tabs db1)" using i inv(2) by (auto intro!: comment_inv_new_row)
  show ?thesis
  proof (cases "c_ParentID c")
    case None
    then show ?thesis using ok(2) inv1 by (simp add: qreturn_def)
  next
    case (Some p)
    let ?f = "\<lambda>x. x\<lparr>c_RepliesCount := c_RepliesCount x + 1, c_UpdatedAt := now\<rparr>"
    obtain r2 where u: "update_comment p ?f db1 = (r2, db')"
      using ok(2) Some by (auto elim!: qbind_cases simp: qreturn_def)
    show ?thesis using update_comment_cases[OF u] inv1 comment_inv_update[OF inv1, of ?f p]
      by (cases r2) simp_all
  qed
qed

lemma comment_exec_inv:
  assumes "thread_inv db" and "comment_inv (tabs db)"
  shows "thread_inv (comment_exec a db) \<and> comment_inv (tabs (comment_exec a db))"
proof (cases a)
  case (CCreate now c)
  then show ?thesis using assms CreateComment_thread_inv CreateComment_comment_inv
    by (cases "CreateComment now c db") auto
next
  case (CLike now cid u)
  then show ?thesis using assms comment.like_keeps[OF assms(2)]
    by (simp add: thread_inv_threads LikeComment_threads like_comment_seq)
next
  case (CUnlike now cid u)
  then show ?thesis using assms comment.unlike_keeps[OF assms(2)]
    by (simp add: thread_inv_threads UnlikeComment_threads like_comment_seq)
qed

lemma comment_execs_inv:
  "thread_inv db \<Longrightarrow> comment_inv (tabs db) \<Longrightarrow>
   thread_inv (fold comment_exec calls db) \<and> comment_inv (tabs (fold comment_exec calls db))"
  by (induction calls arbitrary: db) (simp_all add: comment_exec_inv)

lemma empty_db_inv:
  "product_inv (tabs (empty_db fs))" "comment_inv (tabs (empty_db fs))" "thread_inv (empty_db fs)"
  by (simp_all add: empty_db_def product_inv_def product_stored_def product_likers_def comment_inv_def
      thread_inv_def)

section \<open>Properties\<close>

text \<open>C1. After any sequence of \<^verbatim>\<open>LikeProduct\<close> and \<^verbatim>\<open>UnlikeProduct\<close> calls, with statements, commits and
  connections failing at any points, \<^verbatim>\<open>GetProductLikeCount\<close> returns the number of users left by the
  calls that reported success, and \<^verbatim>\<open>IsProductLiked\<close> tells whether the user is one of them: repeated
  likes count once, and a failed call leaves no trace.\<close>

theorem product_likes_exact:
  assumes "like_run LikeProduct UnlikeProduct calls (empty_db fs) = (succeeded, db)"
  shows "let likers = fold likers_step succeeded (\<lambda>_. {}); db' = db\<lparr>faults := []\<rparr>
    in GetProductLikeCount item db' = (Inr (int (card (likers item))), db') \<and>
       IsProductLiked item user db' = (Inr (user \<in> likers item), db')"
proof -
  let ?t = "tabs (empty_db fs)"
  have "product_likers ?t = (\<lambda>_. {})" by (simp add: empty_db_def product_likers_def fun_eq_iff)
  then have inv: "product_inv (tabs db)"
    and L: "product_likers (tabs db) = fold likers_step succeeded (\<lambda>_. {})"
    using product.run[OF assms] by (simp_all add: empty_db_inv)
  have "GetProductLikeCount item (db\<lparr>faults := []\<rparr>) =
      (Inr (the (product_stored (tabs db) item)), db\<lparr>faults := []\<rparr>)"
    by (simp add: GetProductLikeCount_def stmt_no_faults product_stored_def)
  moreover have "product_stored (tabs db) item = Some (int (card (product_likers (tabs db) item)))"
    using inv by (simp add: product_inv_def)
  moreover have "IsProductLiked item user (db\<lparr>faults := []\<rparr>) =
      (Inr (user \<in> product_likers (tabs db) item), db\<lparr>faults := []\<rparr>)"
    by (auto simp: IsProductLiked_def stmt_no_faults product_likers_def)
  ultimately show ?thesis unfolding Let_def L by simp
qed

text \<open>The witness: the second like of the same user does not count, the third call fails at its second
  statement and is rolled back.\<close>

theorem product_likes_exact_witness:
  "\<exists>db. like_run LikeProduct UnlikeProduct [OLike 1 ''shoe'' ''ann'', OLike 2 ''shoe'' ''ann'', OLike 3 ''shoe'' ''bob'']
       (empty_db [False, False, False, False, False, False, False, False, False, True]) =
     ([OLike 1 ''shoe'' ''ann'', OLike 2 ''shoe'' ''ann''], db) \<and>
     fst (GetProductLikeCount ''shoe'' (db\<lparr>faults := []\<rparr>)) = Inr 1"
proof -
  let ?calls = "[OLike 1 ''shoe'' ''ann'', OLike 2 ''shoe'' ''ann'', OLike 3 ''shoe'' ''bob'']"
  let ?db = "empty_db [False, False, False, False, False, False, False, False, False, True]"
  define run where "run = like_run LikeProduct UnlikeProduct ?calls ?db"
  have "fst run = [OLike 1 ''shoe'' ''ann'', OLike 2 ''shoe'' ''ann'']"
    unfolding run_def by code_simp
  then have r: "like_run LikeProduct UnlikeProduct ?calls ?db = ([OLike 1 ''shoe'' ''ann'', OLike 2 ''shoe'' ''ann''], snd run)"
    unfolding run_def[symmetric] by (metis prod.collapse)
  from product_likes_exact[OF r, of "''shoe''"]
  have "fst (GetProductLikeCount ''shoe'' ((snd run)\<lparr>faults := []\<rparr>)) = Inr 1"
    by (simp add: Let_def)
  with r show ?thesis by blast
qed

text \<open>C8. After any sequence of \<^verbatim>\<open>CreateComment\<close>, \<^verbatim>\<open>LikeComment\<close> and \<^verbatim>\<open>UnlikeComment\<close> calls, failing
  statements included, comment identifiers are distinct, the like counter of every comment is the number
  of users who like it, every like belongs to a comment, and the reply counter of a comment is at most the
  number of its replies.\<close>

theorem comment_counters:
  "let t = tabs (fold comment_exec calls (empty_db fs))
   in distinct (map c_ID (comments t)) \<and>
      (\<forall>c\<in>set (comments t).
         c_LikesCount c = int (card {u. \<exists>l\<in>set (comment_likes t). cl_CommentID l = c_ID c \<and> cl_UserID l = u}) \<and>
         c_RepliesCount c \<le> int (length (filter (\<lambda>d. c_ParentID d = Some (c_ID c)) (comments t)))) \<and>
      (\<forall>l\<in>set (comment_likes t). cl_CommentID l \<in> c_ID ` set (comments t))"
proof -
  let ?db = "fold comment_exec calls (empty_db fs)"
  have inv: "thread_inv ?db" "comment_inv (tabs ?db)"
    using comment_execs_inv empty_db_inv by blast+
  have "comment_likers t i = {u. \<exists>l\<in>set (comment_likes t). cl_CommentID l = i \<and> cl_UserID l = u}" for t i
    by (auto simp: comment_likers_def)
  then show ?thesis using inv by (auto simp: Let_def thread_inv_def comment_inv_def replies_of_def)
qed

theorem comment_counters_witness:
  "let t = tabs (fold comment_exec [CLike 1 7 ''ann''] (empty_db [])) in comment_likes t = [] \<and> distinct (map c_ID (comments t))"
proof -
  have "comment_likes (tabs (fold comment_exec [CLike 1 7 ''ann''] (empty_db []))) = []" by code_simp
  then show ?thesis using comment_counters[of "[CLike 1 7 ''ann'']" "[]"] unfolding Let_def by blast
qed

definition save_traits :: "int \<times> string \<times> json \<times> fl \<Rightarrow> DB \<Rightarrow> DB" where
  "save_traits a db = (case a of (now, user, traits, conf) \<Rightarrow> snd (SaveUserTraits now user traits conf db))"

lemma find_traits_save:
  assumes "faults db = []"
  shows "map_option (\<lambda>x. (ut_Traits x, ut_ConfidenceScore x)) (find (\<lambda>x. ut_UserID x = u) (user_traits (tabs (save_traits (now, user, j, c) db)))) =
     (if u = user then Some (j, c)
      else map_option (\<lambda>x. (ut_Traits x, ut_ConfidenceScore x)) (find (\<lambda>x. ut_UserID x = u) (user_traits (tabs db)))) \<and>
     faults (save_traits (now, user, j, c) db) = []"
proof -
  let ?new = "\<lambda>x. x\<lparr>ut_Traits := j, ut_ConfidenceScore := c, ut_LastAnalyzedAt := Some now, ut_UpdatedAt := now\<rparr>"
  have upd: "find (\<lambda>x. ut_UserID x = u) (map (\<lambda>x. if ut_UserID x = user then ?new x else x) ts) =
      map_option (\<lambda>x. if ut_UserID x = user then ?new x else x) (find (\<lambda>x. ut_UserID x = u) ts)" for ts
    by (induction ts) auto
  have app: "find P (ts @ [x]) = (case find P ts of None \<Rightarrow> if P x then Some x else None | Some y \<Rightarrow> Some y)"
    for P and ts :: "UserTraits list" and x by (induction ts) auto
  have hit: "ut_UserID y = u" if "find (\<lambda>x. ut_UserID x = u) ts = Some y" for ts y
    using that by (auto simp: find_Some_iff)
  show ?thesis
  proof (cases "\<exists>x\<in>set (user_traits (tabs db)). ut_UserID x = user")
    case True
    then have known: "find (\<lambda>x. ut_UserID x = user) (user_traits (tabs db)) \<noteq> None" by (auto simp: find_None_iff)
    have saved: "user_traits (tabs (save_traits (now, user, j, c) db)) =
        map (\<lambda>x. if ut_UserID x = user then ?new x else x) (user_traits (tabs db))"
      "faults (save_traits (now, user, j, c) db) = []"
      using True assms by (simp_all add: save_traits_def SaveUserTraits_def stmt_no_faults Let_def)
    show ?thesis
    proof (cases "find (\<lambda>x. ut_UserID x = u) (user_traits (tabs db))")
      case None
      then show ?thesis using known saved by (auto simp: upd)
    next
      case (Some y)
      then show ?thesis using saved hit[OF Some] by (simp add: upd)
    qed
  next
    case False
    then have "find (\<lambda>x. ut_UserID x = user) (user_traits (tabs db)) = None" by (auto simp: find_None_iff)
    then show ?thesis using False assms
      by (auto simp: save_traits_def SaveUserTraits_def stmt_no_faults Let_def app split: option.splits)
  qed
qed

lemma find_traits_saves:
  "faults db = [] \<Longrightarrow>
   map_option (\<lambda>x. (ut_Traits x, ut_ConfidenceScore x)) (find (\<lambda>x. ut_UserID x = u) (user_traits (tabs (fold save_traits saves db)))) =
     (case find (\<lambda>(_, v, _). v = u) (rev saves) of Some (_, _, j, c) \<Rightarrow> Some (j, c)
      | None \<Rightarrow> map_option (\<lambda>x. (ut_Traits x, ut_ConfidenceScore x)) (find (\<lambda>x. ut_UserID x = u) (user_traits (tabs db)))) \<and>
   faults (fold save_traits saves db) = []"
proof (induction saves rule: rev_induct)
  case (snoc a saves)
  obtain now v j c where a: "a = (now, v, j, c)" by (cases a)
  show ?case using snoc find_traits_save[of "fold save_traits saves db" u now v j c] a by auto
qed simp

text \<open>The traits stored for a user are those of the last successful \<^verbatim>\<open>SaveUserTraits\<close> for that user,
  whatever was saved for other users before and after; a user without traits gives nil and no error.\<close>

theorem user_traits_last_saved:
  "let db = fold save_traits saves (empty_db [])
   in \<exists>row. GetUserTraits u db = (Inr row, db) \<and>
      map_option (\<lambda>x. (ut_Traits x, ut_ConfidenceScore x)) row =
        map_option (\<lambda>(_, _, j, c). (j, c)) (find (\<lambda>(_, v, _). v = u) (rev saves))"
proof -
  have "faults (empty_db []) = []" "user_traits (tabs (empty_db [])) = []" by (simp_all add: empty_db_def)
  with find_traits_saves[of "empty_db []" u saves] show ?thesis
    by (auto simp: Let_def GetUserTraits_def stmt_no_faults split: option.splits prod.splits)
qed

lemma GetReplies_no_faults:
  "faults db = [] \<Longrightarrow> GetReplies cid u 10 db =
   (Inr (take 10 (map (liked_by (tabs db) u) (sort_key c_CreatedAt (replies_of (tabs db) cid)))), db)"
  by (simp add: GetReplies_def stmt_no_faults limit_rows_def replies_of_def)

definition threaded :: "tables \<Rightarrow> string \<Rightarrow> Comment \<Rightarrow> ThreadedComment" where
  "threaded t u c = with_replies c (if 0 < c_RepliesCount c
     then take 10 (map (liked_by t u) (sort_key c_CreatedAt (replies_of t (c_ID c)))) else [])"

lemma thread_rows_no_faults:
  "faults db = [] \<Longrightarrow> thread_rows u cs db = (Inr (map (threaded (tabs db) u) cs), db)"
  by (induction cs) (simp_all add: threaded_def GetReplies_no_faults qbind_def qreturn_def)

text \<open>The pages of the comment list: without failing statements \<^verbatim>\<open>GetComments\<close> with limit \<open>n\<close> and
  offset \<open>k\<close> returns the comments \<open>k\<close> to \<open>k + n - 1\<close> of the item's top-level comments, newest first, with
  up to ten replies each where the reply counter is positive, so that successive pages list every
  top-level comment exactly once; a negative limit or offset is an error.\<close>

theorem comment_pages:
  assumes "faults db = []"
  shows "GetComments item u (int n) (int k) db =
      (Inr (map (threaded (tabs db) u) (take n (drop k (map (liked_by (tabs db) u) (top_comments (tabs db) item))))), db) \<and>
    concat (map (\<lambda>page. case fst (GetComments item u (int n) (int (page * n)) db) of Inr cs \<Rightarrow> cs | Inl _ \<Rightarrow> [])
        [0..<m]) =
      map (threaded (tabs db) u) (take (m * n) (map (liked_by (tabs db) u) (top_comments (tabs db) item))) \<and>
    (lmt < 0 \<or> ofs < 0 \<longrightarrow> (\<exists>e. GetComments item u lmt ofs db = (Inl (Error e), db)))"
proof -
  let ?rows = "map (liked_by (tabs db) u) (top_comments (tabs db) item)"
  have page: "GetComments item u (int a) (int b) db = (Inr (map (threaded (tabs db) u) (take a (drop b ?rows))), db)" for a b
    using assms by (simp add: GetComments_def qbind_def stmt_no_faults limit_rows_def thread_rows_no_faults)
  have "concat (map (\<lambda>p. map (threaded (tabs db) u) (take n (drop (p * n) ?rows))) [0..<m]) =
      map (threaded (tabs db) u) (take (m * n) ?rows)"
  proof (induction m)
    case (Suc m)
    have "take (Suc m * n) ?rows = take (m * n) ?rows @ take n (drop (m * n) ?rows)"
      by (metis add.commute mult_Suc take_add)
    then show ?case using Suc by simp
  qed simp
  moreover have "\<exists>e. GetComments item u lmt ofs db = (Inl (Error e), db)" if "lmt < 0 \<or> ofs < 0"
    using that assms by (auto simp: GetComments_def qbind_def stmt_no_faults limit_rows_def)
  ultimately show ?thesis unfolding page by simp
qed

theorem comment_pages_witness:
  "faults (empty_db []) = [] \<and> (\<exists>e. GetComments ''shoe'' ''ann'' (- 1) 0 (empty_db []) = (Inl (Error e), empty_db []))"
  using comment_pages[of "empty_db []" "''shoe''" "''ann''" 0 0 0 "- 1" 0] by (simp add: empty_db_def)

text \<open>\<^verbatim>\<open>GetProductsLikeInfo\<close> fails on every non-empty list of items, in every state of the database: its
  statement refers to a column its subquery does not have.\<close>

theorem products_like_info_fails:
  assumes "itemIDs \<noteq> []"
  shows "\<exists>e db'. GetProductsLikeInfo itemIDs user db = (Inl (Error e), db') \<and> tabs db' = tabs db"
  using assms by (auto simp: GetProductsLikeInfo_def stmt_def columns_of_s_def driver_error_def split: list.splits)

theorem products_like_info_fails_witness:
  "\<exists>e db'. GetProductsLikeInfo [''shoe''] ''ann'' (empty_db []) = (Inl (Error e), db') \<and> tabs db' = tabs (empty_db [])"
  using products_like_info_fails[of "[''shoe'']" "''ann''" "empty_db []"] by simp

end
