(* ===== verification/Fashion_Client.thy ===== *)
theory Fashion_Client
  imports Go_Json Go_Encoding
begin

text \<open>
  The wire models of the fashion front end (\<^verbatim>\<open>fashion-recommend/models/models.go\<close>), its client of the
  Gorse REST service (\<^verbatim>\<open>fashion-recommend/client/gorse_client.go\<close>) and its language model service
  (\<^verbatim>\<open>fashion-recommend/ai/service.go\<close>).

  The network is a parameter: \<open>net\<close> says which strings are well-formed URLs and how the remote service
  answers a request, with the state of the service threaded through. The text of a JSON document is
  turned into its syntax tree by a parameter \<open>parse\<close>; the chat completion API is a parameter too.
\<close>

section \<open>\<^verbatim>\<open>models.go\<close>\<close>

record User =
  UserId :: string
  UserLabels :: "string list"
  UserComment :: string
  Subscribe :: "string list"

record ItemLabels =
  Features :: "string list"
  Brand :: string
  PriceRange :: string
  AvgRating :: string

record ItemCarrier =
  carrier_Name :: string
  carrier_Price :: "fl option"
  carrier_Desc :: string

record Item =
  ItemId :: string
  IsHidden :: bool
  Categories :: "string list"
  Labels :: ItemLabels
  ItemComment :: string
  ItemTimestamp :: int

record Feedback =
  FeedbackType :: string
  fb_UserId :: string
  fb_ItemId :: string
  fb_Value :: fl
  fb_Timestamp :: int
  fb_Comment :: string

record RecommendItem =
  rec_ItemId :: string
  rec_Score :: fl
  rec_Categories :: "string list"

definition zero_ItemLabels :: ItemLabels where
  "zero_ItemLabels = \<lparr>Features = [], Brand = [], PriceRange = [], AvgRating = []\<rparr>"

definition ItemLabels_fields :: "(string \<times> ItemLabels field_decoder) list" where
  "ItemLabels_fields =
     [(''f'', field Features Features_update dec_strings), (''brand'', field Brand Brand_update dec_string),
      (''price_range'', field PriceRange PriceRange_update dec_string),
      (''avg_rating'', field AvgRating AvgRating_update dec_string)]"

text \<open>A flat array fills the features and keeps the other fields; an object is decoded afresh.\<close>

fun ItemLabels_UnmarshalJSON :: "ItemLabels field_decoder" where
  "ItemLabels_UnmarshalJSON (JArr js) l =
     rbind (dec_strings (JArr js) []) (\<lambda>flat. Inr (l\<lparr>Features := flat\<rparr>))"
| "ItemLabels_UnmarshalJSON j l = dec_struct ItemLabels_fields j zero_ItemLabels"

definition zero_ItemCarrier :: ItemCarrier where
  "zero_ItemCarrier = \<lparr>carrier_Name = [], carrier_Price = None, carrier_Desc = []\<rparr>"

definition ItemCarrier_fields :: "(string \<times> ItemCarrier field_decoder) list" where
  "ItemCarrier_fields =
     [(''name'', field carrier_Name carrier_Name_update dec_string),
      (''price'', field carrier_Price carrier_Price_update dec_float_ptr),
      (''desc'', field carrier_Desc carrier_Desc_update dec_string)]"

definition ParseItemCarrier :: "(string \<Rightarrow> json option) \<Rightarrow> string \<Rightarrow> ItemCarrier" where
  "ParseItemCarrier parse comment =
     (case parse comment of
        None \<Rightarrow> zero_ItemCarrier\<lparr>carrier_Desc := comment\<rparr>
      | Some j \<Rightarrow>
          (case dec_struct ItemCarrier_fields j zero_ItemCarrier of
             Inl e \<Rightarrow> zero_ItemCarrier\<lparr>carrier_Desc := comment\<rparr>
           | Inr c \<Rightarrow> c))"

subsection \<open>Builders\<close>

definition NewFashionUser :: "string \<Rightarrow> User" where
  "NewFashionUser userId = \<lparr>UserId = userId, UserLabels = [], UserComment = [], Subscribe = []\<rparr>"

definition add_label :: "string \<Rightarrow> string \<Rightarrow> User \<Rightarrow> User" where
  "add_label prefix v b = b\<lparr>UserLabels := UserLabels b @ [prefix @ v]\<rparr>"

definition user_WithGender :: "string \<Rightarrow> User \<Rightarrow> User" where
  "user_WithGender = add_label ''gender:''"

definition user_WithAgeGroup :: "string \<Rightarrow> User \<Rightarrow> User" where
  "user_WithAgeGroup = add_label ''age_group:''"

definition user_WithStyle :: "string list \<Rightarrow> User \<Rightarrow> User" where
  "user_WithStyle = fold (add_label ''style:'')"

definition user_WithPricePreference :: "string \<Rightarrow> User \<Rightarrow> User" where
  "user_WithPricePreference = add_label ''price_range:''"

definition user_WithFavoriteBrands :: "string list \<Rightarrow> User \<Rightarrow> User" where
  "user_WithFavoriteBrands = fold (add_label ''brand:'')"

definition user_WithComment :: "string \<Rightarrow> User \<Rightarrow> User" where
  "user_WithComment comment b = b\<lparr>UserComment := comment\<rparr>"

definition NewFashionItem :: "int \<Rightarrow> string \<Rightarrow> Item" where
  "NewFashionItem now itemId =
     \<lparr>ItemId = itemId, IsHidden = False, Categories = [], Labels = zero_ItemLabels, ItemComment = [],
      ItemTimestamp = now\<rparr>"

definition add_feature :: "string \<Rightarrow> string \<Rightarrow> Item \<Rightarrow> Item" where
  "add_feature prefix v b = b\<lparr>Labels := (Labels b)\<lparr>Features := Features (Labels b) @ [prefix @ v]\<rparr>\<rparr>"

definition item_WithCategories :: "string list \<Rightarrow> Item \<Rightarrow> Item" where
  "item_WithCategories cs b = b\<lparr>Categories := Categories b @ cs\<rparr>"

definition item_WithBrand :: "string \<Rightarrow> Item \<Rightarrow> Item" where
  "item_WithBrand brand b = b\<lparr>Labels := (Labels b)\<lparr>Brand := brand\<rparr>\<rparr>"

definition item_WithSeason :: "string \<Rightarrow> Item \<Rightarrow> Item" where
  "item_WithSeason = add_feature ''season:''"

definition item_WithStyle :: "string list \<Rightarrow> Item \<Rightarrow> Item" where
  "item_WithStyle = fold (add_feature ''style:'')"

definition item_WithColor :: "string list \<Rightarrow> Item \<Rightarrow> Item" where
  "item_WithColor = fold (add_feature ''color:'')"

definition item_WithMaterial :: "string \<Rightarrow> Item \<Rightarrow> Item" where
  "item_WithMaterial = add_feature ''material:''"

definition item_WithPriceRange :: "string \<Rightarrow> Item \<Rightarrow> Item" where
  "item_WithPriceRange priceRange b = b\<lparr>Labels := (Labels b)\<lparr>PriceRange := priceRange\<rparr>\<rparr>"

definition item_WithOccasion :: "string list \<Rightarrow> Item \<Rightarrow> Item" where
  "item_WithOccasion = fold (add_feature ''occasion:'')"

definition item_WithComment :: "string \<Rightarrow> Item \<Rightarrow> Item" where
  "item_WithComment comment b = b\<lparr>ItemComment := comment\<rparr>"

definition item_WithTimestamp :: "int \<Rightarrow> Item \<Rightarrow> Item" where
  "item_WithTimestamp timestamp b = b\<lparr>ItemTimestamp := timestamp\<rparr>"

definition item_Hidden :: "Item \<Rightarrow> Item" where
  "item_Hidden b = b\<lparr>IsHidden := True\<rparr>"

subsection \<open>Wire format\<close>

definition omitempty :: "string \<Rightarrow> string \<Rightarrow> (string \<times> json) list" where
  "omitempty k v = (if v = [] then [] else [(k, JStr v)])"

definition User_json :: "User \<Rightarrow> json" where
  "User_json u = JObj ([(''UserId'', JStr (UserId u)), (''Labels'', enc_strings (UserLabels u))] @
     omitempty ''Comment'' (UserComment u) @
     (if Subscribe u = [] then [] else [(''Subscribe'', enc_strings (Subscribe u))]))"

definition ItemLabels_json :: "ItemLabels \<Rightarrow> json" where
  "ItemLabels_json l = JObj ([(''f'', enc_strings (Features l))] @ omitempty ''brand'' (Brand l) @
     omitempty ''price_range'' (PriceRange l) @ omitempty ''avg_rating'' (AvgRating l))"

definition Item_json :: "Item \<Rightarrow> json" where
  "Item_json i = JObj ([(''ItemId'', JStr (ItemId i)), (''IsHidden'', JBool (IsHidden i)),
     (''Categories'', enc_strings (Categories i)), (''Labels'', ItemLabels_json (Labels i))] @
     omitempty ''Comment'' (ItemComment i) @ [(''Timestamp'', JTime (ItemTimestamp i))])"

definition Feedback_json :: "Feedback \<Rightarrow> go_fail + json" where
  "Feedback_json f = rbind (enc_float (fb_Value f)) (\<lambda>v.
     Inr (JObj ([(''FeedbackType'', JStr (FeedbackType f)), (''UserId'', JStr (fb_UserId f)),
       (''ItemId'', JStr (fb_ItemId f)), (''Value'', v), (''Timestamp'', JTime (fb_Timestamp f))] @
       omitempty ''Comment'' (fb_Comment f))))"

definition zero_Item :: Item where
  "zero_Item = \<lparr>ItemId = [], IsHidden = False, Categories = [], Labels = zero_ItemLabels,
     ItemComment = [], ItemTimestamp = 0\<rparr>"

definition User_fields :: "(string \<times> User field_decoder) list" where
  "User_fields =
     [(''UserId'', field UserId UserId_update dec_string), (''Labels'', field UserLabels UserLabels_update dec_strings),
      (''Comment'', field UserComment UserComment_update dec_string),
      (''Subscribe'', field Subscribe Subscribe_update dec_strings)]"

definition Item_fields :: "(string \<times> Item field_decoder) list" where
  "Item_fields =
     [(''ItemId'', field ItemId ItemId_update dec_string), (''IsHidden'', field IsHidden IsHidden_update dec_bool),
      (''Categories'', field Categories Categories_update dec_strings),
      (''Labels'', field Labels Labels_update ItemLabels_UnmarshalJSON),
      (''Comment'', field ItemComment ItemComment_update dec_string),
      (''Timestamp'', field ItemTimestamp ItemTimestamp_update dec_time)]"

section \<open>\<^verbatim>\<open>gorse_client.go\<close>\<close>

record GorseClient =
  endpoint :: string
  apiKey :: string

definition NewGorseClient :: "string \<Rightarrow> string \<Rightarrow> GorseClient" where
  "NewGorseClient ep key = \<lparr>endpoint = ep, apiKey = key\<rparr>"

record http_request =
  rq_method :: string
  rq_url :: string
  rq_headers :: "(string \<times> string) list"
  rq_body :: "json option"

text \<open>A reply: its status, its text, and the JSON document the text starts with, if any.\<close>

record http_reply =
  rp_status :: int
  rp_text :: string
  rp_json :: "json option"

record 'w network =
  url_ok :: "string \<Rightarrow> bool"
  serve :: "http_request \<Rightarrow> 'w \<Rightarrow> (string + http_reply) \<times> 'w"

text \<open>The body is given as the outcome of \<^verbatim>\<open>json.Marshal\<close>; \<open>decode\<close> is what the \<^verbatim>\<open>result\<close> argument
  expects, \<open>None\<close> for nil.\<close>

definition doRequest :: "'w network \<Rightarrow> GorseClient \<Rightarrow> string \<Rightarrow> string \<Rightarrow> (go_fail + json) option \<Rightarrow>
    (json \<Rightarrow> go_fail + 'a) option \<Rightarrow> 'w \<Rightarrow> (go_fail + 'a option) \<times> 'w" where
  "doRequest net c method url marshalled result w =
     (case marshalled of
        Some (Inl e) \<Rightarrow> (Inl (Error ''marshal request body''), w)
      | _ \<Rightarrow>
          if \<not> url_ok net url then (Inl (Error ''create request''), w)
          else
            let req = \<lparr>rq_method = method, rq_url = url,
                  rq_headers = (''Content-Type'', ''application/json'') #
                    (if apiKey c \<noteq> [] then [(''X-API-Key'', apiKey c)] else []),
                  rq_body = (case marshalled of Some (Inr j) \<Rightarrow> Some j | _ \<Rightarrow> None)\<rparr>
            in (case serve net req w of
                  (Inl e, w') \<Rightarrow> (Inl (Error (''do request: '' @ e)), w')
                | (Inr resp, w') \<Rightarrow>
                    if rp_status resp < 200 \<or> 300 \<le> rp_status resp
                    then (Inl (Error (''request failed with status '' @ FormatInt (rp_status resp) @ '': '' @
                           rp_text resp)), w')
                    else (case result of
                        Some decode \<Rightarrow>
                          if method = ''GET''
                          then (case rp_json resp of
                                  None \<Rightarrow> (Inl (Error ''decode response''), w')
                                | Some j \<Rightarrow> (case decode j of
                                    Inl e \<Rightarrow> (Inl (Error ''decode response''), w')
                                  | Inr x \<Rightarrow> (Inr (Some x), w')))
                          else (Inr None, w')
                      | None \<Rightarrow> (Inr None, w'))))"

definition post :: "'w network \<Rightarrow> GorseClient \<Rightarrow> string \<Rightarrow> (go_fail + json) \<Rightarrow> 'w \<Rightarrow> (go_fail + unit) \<times> 'w" where
  "post net c path marshalled w =
     (case doRequest net c ''POST'' (endpoint c @ path) (Some marshalled)
             (None :: (json \<Rightarrow> go_fail + unit) option) w of
        (Inl e, w') \<Rightarrow> (Inl e, w') | (Inr _, w') \<Rightarrow> (Inr (), w'))"

text \<open>A successful \<^verbatim>\<open>GET\<close> always carries a decoded result.\<close>

definition get :: "'w network \<Rightarrow> GorseClient \<Rightarrow> string \<Rightarrow> (json \<Rightarrow> go_fail + 'a) \<Rightarrow> 'w \<Rightarrow> (go_fail + 'a) \<times> 'w" where
  "get net c path decode w =
     (case doRequest net c ''GET'' (endpoint c @ path) None (Some decode) w of
        (Inl e, w') \<Rightarrow> (Inl e, w')
      | (Inr (Some x), w') \<Rightarrow> (Inr x, w')
      | (Inr None, w') \<Rightarrow> (Inl (Error ''decode response''), w'))"

definition InsertUser :: "'w network \<Rightarrow> GorseClient \<Rightarrow> User \<Rightarrow> 'w \<Rightarrow> (go_fail + unit) \<times> 'w" where
  "InsertUser net c user = post net c ''/api/user'' (Inr (User_json user))"

definition InsertUsers :: "'w network \<Rightarrow> GorseClient \<Rightarrow> User list \<Rightarrow> 'w \<Rightarrow> (go_fail + unit) \<times> 'w" where
  "InsertUsers net c users = post net c ''/api/users'' (Inr (JArr (map User_json users)))"

definition client_GetUser :: "'w network \<Rightarrow> GorseClient \<Rightarrow> string \<Rightarrow> 'w \<Rightarrow> (go_fail + User) \<times> 'w" where
  "client_GetUser net c userId =
     get net c (''/api/user/'' @ userId) (\<lambda>j. dec_struct User_fields j (NewFashionUser []))"

definition InsertItem :: "'w network \<Rightarrow> GorseClient \<Rightarrow> Item \<Rightarrow> 'w \<Rightarrow> (go_fail + unit) \<times> 'w" where
  "InsertItem net c item = post net c ''/api/item'' (Inr (Item_json item))"

definition InsertItems :: "'w network \<Rightarrow> GorseClient \<Rightarrow> Item list \<Rightarrow> 'w \<Rightarrow> (go_fail + unit) \<times> 'w" where
  "InsertItems net c items = post net c ''/api/items'' (Inr (JArr (map Item_json items)))"

definition GetItem :: "'w network \<Rightarrow> GorseClient \<Rightarrow> string \<Rightarrow> 'w \<Rightarrow> (go_fail + Item) \<times> 'w" where
  "GetItem net c itemId = get net c (''/api/item/'' @ itemId) (\<lambda>j. dec_struct Item_fields j zero_Item)"

definition InsertFeedback :: "'w network \<Rightarrow> GorseClient \<Rightarrow> Feedback list \<Rightarrow> 'w \<Rightarrow> (go_fail + unit) \<times> 'w" where
  "InsertFeedback net c feedback = post net c ''/api/feedback''
     (rbind (fold_res (\<lambda>f acc. rbind (Feedback_json f) (\<lambda>j. Inr (acc @ [j]))) feedback []) (\<lambda>js. Inr (JArr js)))"

text \<open>Scores fall from the length of the list to 1 in the order of the list.\<close>

definition rank_items :: "string list \<Rightarrow> RecommendItem list" where
  "rank_items ids = map (\<lambda>i. \<lparr>rec_ItemId = ids ! i, rec_Score = of_int64 (int (length ids) - int i),
     rec_Categories = []\<rparr>) [0..<length ids]"

definition GetRecommend :: "'w network \<Rightarrow> GorseClient \<Rightarrow> string \<Rightarrow> string \<Rightarrow> int \<Rightarrow> 'w \<Rightarrow>
    (go_fail + RecommendItem list) \<times> 'w" where
  "GetRecommend net c userId category n w =
     (let url = ''/api/recommend/'' @ userId @ ''?n='' @ FormatInt n @
            (if category \<noteq> [] then ''&category='' @ category else [])
      in (case get net c url (\<lambda>j. dec_strings j []) w of
            (Inl e, w') \<Rightarrow> (Inl e, w')
          | (Inr itemIds, w') \<Rightarrow> (Inr (rank_items itemIds), w')))"

record gorseScore =
  gs_Id :: string
  gs_Score :: fl

definition gorseScore_fields :: "(string \<times> gorseScore field_decoder) list" where
  "gorseScore_fields = [(''Id'', field gs_Id gs_Id_update dec_string), (''Score'', field gs_Score gs_Score_update dec_float)]"

fun dec_scores :: "json \<Rightarrow> go_fail + gorseScore list" where
  "dec_scores (JArr js) = dec_each (\<lambda>j. dec_struct gorseScore_fields j \<lparr>gs_Id = [], gs_Score = Fin 0\<rparr>) js"
| "dec_scores JNull = Inr []"
| "dec_scores j = type_error"

definition GetItemNeighbors :: "'w network \<Rightarrow> GorseClient \<Rightarrow> string \<Rightarrow> int \<Rightarrow> 'w \<Rightarrow>
    (go_fail + RecommendItem list) \<times> 'w" where
  "GetItemNeighbors net c itemId n w =
     (case get net c (''/api/item/'' @ itemId @ ''/neighbors?n='' @ FormatInt n) dec_scores w of
        (Inl e, w') \<Rightarrow> (Inl e, w')
      | (Inr scores, w') \<Rightarrow> (Inr (map (\<lambda>s. \<lparr>rec_ItemId = gs_Id s, rec_Score = gs_Score s, rec_Categories = []\<rparr>)
          scores), w'))"

section \<open>\<^verbatim>\<open>ai/service.go\<close>\<close>

record Config =
  cfg_APIKey :: string
  cfg_BaseURL :: string
  cfg_Model :: string
  cfg_MaxTokens :: int
  cfg_Temperature :: fl

record ChatCompletionMessage =
  cm_Role :: string
  cm_Content :: string

record ChatCompletionRequest =
  cr_Model :: string
  cr_Messages :: "ChatCompletionMessage list"
  cr_MaxTokens :: int
  cr_Temperature :: fl

text \<open>\<^verbatim>\<open>CreateChatCompletion\<close> of the third-party client: an error, or the contents of the choices.\<close>

type_synonym 'w completion = "Config \<Rightarrow> ChatCompletionRequest \<Rightarrow> 'w \<Rightarrow> (string + string list) \<times> 'w"

definition Chat :: "'w completion \<Rightarrow> Config \<Rightarrow> ChatCompletionMessage list \<Rightarrow> 'w \<Rightarrow> (go_fail + string) \<times> 'w" where
  "Chat llm config messages w =
     (case llm config \<lparr>cr_Model = cfg_Model config, cr_Messages = messages,
             cr_MaxTokens = cfg_MaxTokens config, cr_Temperature = cfg_Temperature config\<rparr> w of
        (Inl err, w') \<Rightarrow> (Inl (Error (''AI '' @ [CHR 0xE5, CHR 0xAF, CHR 0xB9, CHR 0xE8, CHR 0xAF, CHR 0x9D, CHR 0xE5, CHR 0xA4, CHR 0xB1, CHR 0xE8, CHR 0xB4, CHR 0xA5] @ '': '' @ err)), w')
      | (Inr [], w') \<Rightarrow> (Inl (Error (''AI '' @ [CHR 0xE6, CHR 0x9C, CHR 0xAA, CHR 0xE8, CHR 0xBF, CHR 0x94, CHR 0xE5, CHR 0x9B, CHR 0x9E, CHR 0xE5, CHR 0x93, CHR 0x8D, CHR 0xE5, CHR 0xBA, CHR 0x94])), w')
      | (Inr (content # _), w') \<Rightarrow> (Inr content, w'))"

definition system_message :: "string \<Rightarrow> ChatCompletionMessage" where
  "system_message text = \<lparr>cm_Role = ''system'', cm_Content = text\<rparr>"

definition user_message :: "string \<Rightarrow> ChatCompletionMessage" where
  "user_message text = \<lparr>cm_Role = ''user'', cm_Content = text\<rparr>"

text \<open>The verb \<^verbatim>\<open>%v\<close> on a slice of strings.\<close>

fun spaced :: "string list \<Rightarrow> string" where
  "spaced [] = []"
| "spaced [x] = x"
| "spaced (x # xs) = x @ '' '' @ spaced xs"

definition fmt_strings :: "string list \<Rightarrow> string" where
  "fmt_strings xs = ''['' @ spaced xs @ '']''"

definition ExplainRecommendation ::
  "'w completion \<Rightarrow> Config \<Rightarrow> string \<Rightarrow> string \<Rightarrow> string list \<Rightarrow> 'w \<Rightarrow> (go_fail + string) \<times> 'w" where
  "ExplainRecommendation llm config username itemID userPreferences =
     Chat llm config [system_message (
     ''You are an AI assistant for a fashion brand recommendation system, skilled at explaining why a product is recommended to a user. Please explain the recommendation reason in a concise and friendly tone.''), user_message (
     ''User '' @ username @ '' has the following preferences: '' @ fmt_strings userPreferences @
     [CHR 0x0A] @ ''We recommended item '' @ itemID @
     '' to this user. Please explain in 1-2 sentences why this item was recommended.'')]"

definition GenerateStyleAdvice ::
  "'w completion \<Rightarrow> Config \<Rightarrow> string list \<Rightarrow> string \<Rightarrow> 'w \<Rightarrow> (go_fail + string) \<times> 'w" where
  "GenerateStyleAdvice llm config items occasion =
     Chat llm config [system_message (
     ''You are a professional fashion stylist, skilled at providing outfit and styling advice to users.''), user_message (
     ''The user has selected these items: '' @ fmt_strings items @ [CHR 0x0A] @ ''The occasion is: '' @ occasion @
     [CHR 0x0A] @ ''Please provide concise outfit advice and styling tips.'')]"

definition assistant_prompt :: string where
  "assistant_prompt =
     ''You are an AI assistant for a fashion brand recommendation system, named '' @ [CHR 0x22] @
     ''Fashion Curator'' @ [CHR 0x22] @
     ''. You can help users explore fashion trends, discover products, and get outfit advice. Always respond in a friendly and professional tone in English.''"

definition ChatWithAssistant ::
  "'w completion \<Rightarrow> Config \<Rightarrow> string \<Rightarrow> ChatCompletionMessage list \<Rightarrow> 'w \<Rightarrow> (go_fail + string) \<times> 'w" where
  "ChatWithAssistant llm config userMessage conversationHistory =
     Chat llm config ([system_message assistant_prompt] @ conversationHistory @ [user_message userMessage])"

end
