(* ===== verification/Go_Sort.thy ===== *)
theory Go_Sort
  imports Go_Prelude
begin

text \<open>
  \<^verbatim>\<open>sort.Slice\<close> and \<^verbatim>\<open>sort.Sort\<close> with a comparison function. Go promises a sorted permutation and, for
  elements the comparison does not separate, no particular order; the model takes an insertion sort.
  Where the comparison is a strict total order on the elements, the result is the only sorted
  permutation, whatever the order of the input, so the choice of the algorithm does not matter.
\<close>

fun insert_by :: "('a \<Rightarrow> 'a \<Rightarrow> bool) \<Rightarrow> 'a \<Rightarrow> 'a list \<Rightarrow> 'a list" where
  "insert_by lt x [] = [x]"
| "insert_by lt x (y # ys) = (if lt y x then y # insert_by lt x ys else x # y # ys)"

definition sort_slice :: "('a \<Rightarrow> 'a \<Rightarrow> bool) \<Rightarrow> 'a list \<Rightarrow> 'a list" where
  "sort_slice lt xs = foldr (insert_by lt) xs []"

definition strict_total_on :: "('a \<Rightarrow> 'a \<Rightarrow> bool) \<Rightarrow> 'a set \<Rightarrow> bool" where
  "strict_total_on lt S \<longleftrightarrow>
     (\<forall>a\<in>S. \<forall>b\<in>S. lt a b \<longrightarrow> \<not> lt b a) \<and>
     (\<forall>a\<in>S. \<forall>b\<in>S. \<forall>c\<in>S. lt a b \<longrightarrow> lt b c \<longrightarrow> lt a c) \<and>
     (\<forall>a\<in>S. \<forall>b\<in>S. a \<noteq> b \<longrightarrow> lt a b \<or> lt b a)"

lemma strict_total_on_subset: "strict_total_on lt S \<Longrightarrow> T \<subseteq> S \<Longrightarrow> strict_total_on lt T"
  unfolding strict_total_on_def by blast

lemma strict_total_onD:
  "strict_total_on lt S \<Longrightarrow> a \<in> S \<Longrightarrow> b \<in> S \<Longrightarrow> c \<in> S \<Longrightarrow> lt a b \<Longrightarrow> lt b c \<Longrightarrow> lt a c"
  unfolding strict_total_on_def by blast

lemma mset_insert_by [simp]: "mset (insert_by lt x ys) = add_mset x (mset ys)"
  by (induction ys) auto

lemma mset_sort_slice [simp]: "mset (sort_slice lt xs) = mset xs"
  by (induction xs) (auto simp: sort_slice_def)

lemma set_sort_slice [simp]: "set (sort_slice lt xs) = set xs"
  by (metis mset_sort_slice set_mset_mset)

lemma length_sort_slice [simp]: "length (sort_slice lt xs) = length xs"
  by (metis mset_sort_slice size_mset)

lemma distinct_sort_slice [simp]: "distinct (sort_slice lt xs) = distinct xs"
  by (metis mset_eq_imp_distinct_iff mset_sort_slice)

lemma set_insert_by [simp]: "set (insert_by lt x ys) = insert x (set ys)"
  by (metis mset_insert_by set_mset_add_mset_insert set_mset_mset)

lemma sorted_insert_by:
  "sorted_wrt lt ys \<Longrightarrow> strict_total_on lt (insert x (set ys)) \<Longrightarrow> x \<notin> set ys \<Longrightarrow> sorted_wrt lt (insert_by lt x ys)"
proof (induction ys)
  case (Cons y ys)
  have sub: "strict_total_on lt (insert x (set ys))"
    using Cons.prems(2) by (rule strict_total_on_subset) auto
  show ?case
  proof (cases "lt y x")
    case True
    then show ?thesis using Cons sub by auto
  next
    case False
    then have "lt x y" using Cons.prems(2,3) unfolding strict_total_on_def by auto
    moreover have "lt x z" if "z \<in> set ys" for z
    proof -
      have "lt y z" using Cons.prems(1) that by simp
      with \<open>lt x y\<close> show ?thesis using strict_total_onD[OF Cons.prems(2), of x y z] that by simp
    qed
    ultimately show ?thesis using False Cons.prems(1) by auto
  qed
qed simp

lemma sorted_sort_slice:
  "strict_total_on lt (set xs) \<Longrightarrow> distinct xs \<Longrightarrow> sorted_wrt lt (sort_slice lt xs)"
proof (induction xs)
  case Nil
  show ?case by (simp add: sort_slice_def)
next
  case (Cons x xs)
  have "strict_total_on lt (set xs)" using Cons.prems(1) by (rule strict_total_on_subset) auto
  then have "sorted_wrt lt (insert_by lt x (sort_slice lt xs))"
    using Cons by (intro sorted_insert_by) auto
  then show ?case by (simp add: sort_slice_def)
qed

lemma sorted_wrt_unique:
  "sorted_wrt lt xs \<Longrightarrow> sorted_wrt lt ys \<Longrightarrow> set xs = set ys \<Longrightarrow> strict_total_on lt (set xs) \<Longrightarrow> xs = ys"
proof (induction xs arbitrary: ys)
  case (Cons x xs)
  then obtain y zs where ys: "ys = y # zs" by (cases ys) auto
  have asym: "lt a b \<Longrightarrow> \<not> lt b a" if "a \<in> set (x # xs)" "b \<in> set (x # xs)" for a b
    using Cons.prems(4) that unfolding strict_total_on_def by blast
  have "x = y"
  proof (rule ccontr)
    assume "x \<noteq> y"
    then have "x \<in> set zs" "y \<in> set xs" using Cons.prems(3) ys by auto
    then have "lt y x" "lt x y" using Cons.prems(1,2) ys by auto
    then show False using asym[of x y] \<open>y \<in> set xs\<close> by auto
  qed
  moreover have "x \<notin> set xs" "x \<notin> set zs"
    using asym[of x x] Cons.prems(1,2) ys \<open>x = y\<close> by auto
  ultimately have "set xs = set zs" using Cons.prems(3) ys by auto
  moreover have "strict_total_on lt (set xs)" using Cons.prems(4) by (rule strict_total_on_subset) auto
  ultimately show ?case using Cons.IH[of zs] Cons.prems(1,2) ys \<open>x = y\<close> by simp
qed simp

text \<open>Any sorted permutation is the result, and the result does not depend on the order of the input.\<close>

lemma sort_slice_unique:
  assumes "strict_total_on lt (set xs)" and "distinct xs" and "mset ys = mset xs" and "sorted_wrt lt ys"
  shows "sort_slice lt xs = ys"
  using sorted_wrt_unique[OF sorted_sort_slice[OF assms(1,2)] assms(4)] assms(1)
  by (metis assms(3) mset_sort_slice set_mset_mset)

lemma sort_slice_permute:
  assumes "strict_total_on lt (set xs)" and "distinct xs" and "mset ys = mset xs"
  shows "sort_slice lt ys = sort_slice lt xs"
proof -
  have "strict_total_on lt (set ys)" "distinct ys"
    using assms by (metis mset_eq_setD, metis mset_eq_imp_distinct_iff)
  then show ?thesis
    using sort_slice_unique[of lt ys "sort_slice lt xs"] sorted_sort_slice[OF assms(1,2)] assms(3) by simp
qed

text \<open>What is cut off after the first \<open>n\<close> comes later in the order.\<close>

lemma sorted_take_drop: "sorted_wrt lt xs \<Longrightarrow> a \<in> set (take n xs) \<Longrightarrow> b \<in> set (drop n xs) \<Longrightarrow> lt a b"
  by (metis append_take_drop_id sorted_wrt_append)

text \<open>Where the comparison is only a strict weak order, the result is sorted up to elements it does not separate.\<close>

definition weak_order_on :: "('a \<Rightarrow> 'a \<Rightarrow> bool) \<Rightarrow> 'a set \<Rightarrow> bool" where
  "weak_order_on lt S \<longleftrightarrow>
     (\<forall>a\<in>S. \<forall>b\<in>S. lt a b \<longrightarrow> \<not> lt b a) \<and> (\<forall>a\<in>S. \<forall>b\<in>S. \<forall>c\<in>S. lt a c \<longrightarrow> lt a b \<or> lt b c)"

lemma weak_order_on_subset: "weak_order_on lt S \<Longrightarrow> T \<subseteq> S \<Longrightarrow> weak_order_on lt T"
  unfolding weak_order_on_def by blast

lemma ordered_insert_by:
  "sorted_wrt (\<lambda>a b. \<not> lt b a) ys \<Longrightarrow> weak_order_on lt (insert x (set ys)) \<Longrightarrow> sorted_wrt (\<lambda>a b. \<not> lt b a) (insert_by lt x ys)"
proof (induction ys)
  case (Cons y ys)
  have sub: "weak_order_on lt (insert x (set ys))" using Cons.prems(2) by (rule weak_order_on_subset) auto
  have asym: "\<not> lt x y" if "lt y x" using that Cons.prems(2) unfolding weak_order_on_def by auto
  have "\<not> lt z x" if "\<not> lt y x" "z \<in> set ys" for z
  proof
    assume "lt z x"
    then have "lt z y \<or> lt y x" using Cons.prems(2) that(2) unfolding weak_order_on_def by auto
    then show False using that Cons.prems(1) by auto
  qed
  then show ?case using Cons sub asym by auto
qed simp

lemma sort_slice_ordered:
  "weak_order_on lt (set xs) \<Longrightarrow> sorted_wrt (\<lambda>a b. \<not> lt b a) (sort_slice lt xs)"
proof (induction xs)
  case (Cons x xs)
  have "weak_order_on lt (set xs)" using Cons.prems by (rule weak_order_on_subset) auto
  then have "sorted_wrt (\<lambda>a b. \<not> lt b a) (insert_by lt x (sort_slice lt xs))"
    using Cons by (intro ordered_insert_by) auto
  then show ?case by (simp add: sort_slice_def)
qed (simp add: sort_slice_def)

end
