(* ===== verification/Fashion_Traits.thy ===== *)
theory Fashion_Traits
  imports Fashion_DB Fashion_Client Dict_Index Go_Sort
begin

text \<open>
  Trait extraction (\<^verbatim>\<open>fashion-recommend/traits/extractor.go\<close>) and the transfer of traits to Gorse
  (\<^verbatim>\<open>fashion-recommend/traits/gorse_sync.go\<close>). Keywords are their UTF-8 bytes. A \<^verbatim>\<open>range\<close> loop over a map
  visits the entries in the order of the list it is given, so the order of the keyword tables is an
  argument of the extractor. \<^verbatim>\<open>strings.ToLower\<close> (Unicode case tables), the JSON reader and the language
  model are parameters.
\<close>

section \<open>Traits and their JSON form\<close>

record TraitsData =
  StylePreferences :: "fl go_map"
  ColorPreferences :: "fl go_map"
  PriceSensitivity :: string
  BrandPreferences :: "string list"
  Occasions :: "string list"
  Keywords :: "string list"
  Interests :: "string list"

definition empty_traits :: TraitsData where
  "empty_traits = \<lparr>StylePreferences = [], ColorPreferences = [], PriceSensitivity = [],
     BrandPreferences = [], Occasions = [], Keywords = [], Interests = []\<rparr>"

definition TraitsData_fields :: "(string \<times> TraitsData field_decoder) list" where
  "TraitsData_fields =
     [(''style_preferences'', field StylePreferences StylePreferences_update dec_float_map),
      (''color_preferences'', field ColorPreferences ColorPreferences_update dec_float_map),
      (''price_sensitivity'', field PriceSensitivity PriceSensitivity_update dec_string),
      (''brand_preferences'', field BrandPreferences BrandPreferences_update dec_strings),
      (''occasions'', field Occasions Occasions_update dec_strings),
      (''keywords'', field Keywords Keywords_update dec_strings),
      (''interests'', field Interests Interests_update dec_strings)]"

definition UnmarshalTraits :: "json \<Rightarrow> go_fail + TraitsData" where
  "UnmarshalTraits j = dec_struct TraitsData_fields j empty_traits"

definition MarshalTraits :: "TraitsData \<Rightarrow> go_fail + json" where
  "MarshalTraits td =
     rbind (enc_float_map (StylePreferences td)) (\<lambda>style.
     rbind (enc_float_map (ColorPreferences td)) (\<lambda>color.
       Inr (JObj [(''style_preferences'', style), (''color_preferences'', color),
         (''price_sensitivity'', JStr (PriceSensitivity td)),
         (''brand_preferences'', enc_strings (BrandPreferences td)),
         (''occasions'', enc_strings (Occasions td)), (''keywords'', enc_strings (Keywords td)),
         (''interests'', enc_strings (Interests td))])))"

section \<open>Keyword extraction\<close>

definition styleKeywords :: "(string \<times> string list) list" where
  "styleKeywords =
     [(''minimalist'', [utf8 [0xE7, 0xAE, 0x80, 0xE7, 0xBA, 0xA6],
        utf8 [0xE6, 0x9E, 0x81, 0xE7, 0xAE, 0x80],
        utf8 [0xE7, 0xAE, 0x80, 0xE5, 0x8D, 0x95],
        utf8 [0xE5, 0xB9, 0xB2, 0xE5, 0x87, 0x80],
        utf8 [0xE7, 0xBA, 0xAF, 0xE8, 0x89, 0xB2],
        utf8 [0xE5, 0x9F, 0xBA, 0xE7, 0xA1, 0x80, 0xE6, 0xAC, 0xBE]]),
      (''casual'', [utf8 [0xE4, 0xBC, 0x91, 0xE9, 0x97, 0xB2],
        utf8 [0xE8, 0x88, 0x92, 0xE9, 0x80, 0x82],
        utf8 [0xE6, 0x97, 0xA5, 0xE5, 0xB8, 0xB8],
        utf8 [0xE8, 0xBD, 0xBB, 0xE6, 0x9D, 0xBE],
        utf8 [0xE9, 0x9A, 0x8F, 0xE6, 0x84, 0x8F]]),
      (''formal'', [utf8 [0xE6, 0xAD, 0xA3, 0xE5, 0xBC, 0x8F],
        utf8 [0xE5, 0x95, 0x86, 0xE5, 0x8A, 0xA1],
        utf8 [0xE8, 0x81, 0x8C, 0xE4, 0xB8, 0x9A],
        utf8 [0xE4, 0xBC, 0x98, 0xE9, 0x9B, 0x85],
        utf8 [0xE8, 0xA5, 0xBF, 0xE8, 0xA3, 0x85],
        utf8 [0xE8, 0xA1, 0xAC, 0xE8, 0xA1, 0xAB]]),
      (''streetwear'', [utf8 [0xE8, 0xA1, 0x97, 0xE5, 0xA4, 0xB4],
        utf8 [0xE6, 0xBD, 0xAE, 0xE6, 0xB5, 0x81],
        utf8 [0xE5, 0x98, 0xBB, 0xE5, 0x93, 0x88],
        utf8 [0xE8, 0xBF, 0x90, 0xE5, 0x8A, 0xA8],
        ''oversize'']),
      (''vintage'', [utf8 [0xE5, 0xA4, 0x8D, 0xE5, 0x8F, 0xA4],
        utf8 [0xE6, 0x80, 0x80, 0xE6, 0x97, 0xA7],
        utf8 [0xE5, 0x8F, 0xA4, 0xE7, 0x9D, 0x80],
        utf8 [0xE7, 0xBB, 0x8F, 0xE5, 0x85, 0xB8]]),
      (''romantic'', [utf8 [0xE6, 0xB5, 0xAA, 0xE6, 0xBC, 0xAB],
        utf8 [0xE7, 0x94, 0x9C, 0xE7, 0xBE, 0x8E],
        utf8 [0xE6, 0xB8, 0xA9, 0xE6, 0x9F, 0x94],
        utf8 [0xE6, 0xB7, 0x91, 0xE5, 0xA5, 0xB3],
        utf8 [0xE8, 0x95, 0xBE, 0xE4, 0xB8, 0x9D]])]"

definition colorKeywords :: "(string \<times> string list) list" where
  "colorKeywords =
     [(''black'', [utf8 [0xE9, 0xBB, 0x91, 0xE8, 0x89, 0xB2],
        utf8 [0xE9, 0xBB, 0x91]]),
      (''white'', [utf8 [0xE7, 0x99, 0xBD, 0xE8, 0x89, 0xB2],
        utf8 [0xE7, 0x99, 0xBD]]),
      (''gray'', [utf8 [0xE7, 0x81, 0xB0, 0xE8, 0x89, 0xB2],
        utf8 [0xE7, 0x81, 0xB0]]),
      (''blue'', [utf8 [0xE8, 0x93, 0x9D, 0xE8, 0x89, 0xB2],
        utf8 [0xE8, 0x93, 0x9D],
        utf8 [0xE6, 0xB7, 0xB1, 0xE8, 0x93, 0x9D],
        utf8 [0xE6, 0xB5, 0x85, 0xE8, 0x93, 0x9D]]),
      (''red'', [utf8 [0xE7, 0xBA, 0xA2, 0xE8, 0x89, 0xB2],
        utf8 [0xE7, 0xBA, 0xA2],
        utf8 [0xE9, 0x85, 0x92, 0xE7, 0xBA, 0xA2]]),
      (''pink'', [utf8 [0xE7, 0xB2, 0x89, 0xE8, 0x89, 0xB2],
        utf8 [0xE7, 0xB2, 0x89],
        utf8 [0xE7, 0xB2, 0x89, 0xE7, 0xBA, 0xA2]]),
      (''beige'', [utf8 [0xE7, 0xB1, 0xB3, 0xE8, 0x89, 0xB2],
        utf8 [0xE7, 0xB1, 0xB3, 0xE7, 0x99, 0xBD],
        utf8 [0xE6, 0x9D, 0x8F, 0xE8, 0x89, 0xB2],
        utf8 [0xE5, 0x8D, 0xA1, 0xE5, 0x85, 0xB6]]),
      (''brown'', [utf8 [0xE6, 0xA3, 0x95, 0xE8, 0x89, 0xB2],
        utf8 [0xE5, 0x92, 0x96, 0xE5, 0x95, 0xA1, 0xE8, 0x89, 0xB2],
        utf8 [0xE8, 0xA4, 0x90, 0xE8, 0x89, 0xB2]]),
      (''green'', [utf8 [0xE7, 0xBB, 0xBF, 0xE8, 0x89, 0xB2],
        utf8 [0xE7, 0xBB, 0xBF],
        utf8 [0xE5, 0xA2, 0xA8, 0xE7, 0xBB, 0xBF]]),
      (''yellow'', [utf8 [0xE9, 0xBB, 0x84, 0xE8, 0x89, 0xB2],
        utf8 [0xE9, 0xBB, 0x84]])]"

definition occasionKeywords :: "(string \<times> string list) list" where
  "occasionKeywords =
     [(''work'', [utf8 [0xE4, 0xB8, 0x8A, 0xE7, 0x8F, 0xAD],
        utf8 [0xE5, 0xB7, 0xA5, 0xE4, 0xBD, 0x9C],
        utf8 [0xE8, 0x81, 0x8C, 0xE5, 0x9C, 0xBA],
        utf8 [0xE5, 0x8A, 0x9E, 0xE5, 0x85, 0xAC],
        utf8 [0xE5, 0x95, 0x86, 0xE5, 0x8A, 0xA1]]),
      (''casual'', [utf8 [0xE6, 0x97, 0xA5, 0xE5, 0xB8, 0xB8],
        utf8 [0xE5, 0xB9, 0xB3, 0xE6, 0x97, 0xB6],
        utf8 [0xE4, 0xBC, 0x91, 0xE9, 0x97, 0xB2],
        utf8 [0xE9, 0x80, 0x9B, 0xE8, 0xA1, 0x97]]),
      (''party'', [utf8 [0xE6, 0xB4, 0xBE, 0xE5, 0xAF, 0xB9],
        utf8 [0xE8, 0x81, 0x9A, 0xE4, 0xBC, 0x9A],
        utf8 [0xE6, 0x99, 0x9A, 0xE5, 0xAE, 0xB4],
        utf8 [0xE5, 0xAE, 0xB4, 0xE4, 0xBC, 0x9A]]),
      (''date'', [utf8 [0xE7, 0xBA, 0xA6, 0xE4, 0xBC, 0x9A],
        utf8 [0xE8, 0xA7, 0x81, 0xE9, 0x9D, 0xA2],
        utf8 [0xE7, 0x9B, 0xB8, 0xE4, 0xBA, 0xB2]]),
      (''sport'', [utf8 [0xE8, 0xBF, 0x90, 0xE5, 0x8A, 0xA8],
        utf8 [0xE5, 0x81, 0xA5, 0xE8, 0xBA, 0xAB],
        utf8 [0xE8, 0xB7, 0x91, 0xE6, 0xAD, 0xA5],
        utf8 [0xE7, 0x91, 0x9C, 0xE4, 0xBC, 0xBD]]),
      (''travel'', [utf8 [0xE6, 0x97, 0x85, 0xE8, 0xA1, 0x8C],
        utf8 [0xE5, 0xBA, 0xA6, 0xE5, 0x81, 0x87],
        utf8 [0xE5, 0x87, 0xBA, 0xE6, 0xB8, 0xB8]]),
      (''wedding'', [utf8 [0xE5, 0xA9, 0x9A, 0xE7, 0xA4, 0xBC],
        utf8 [0xE7, 0xBB, 0x93, 0xE5, 0xA9, 0x9A]])]"

definition priceKeywords :: "(string \<times> string list) list" where
  "priceKeywords =
     [(''low'', [utf8 [0xE4, 0xBE, 0xBF, 0xE5, 0xAE, 0x9C],
        utf8 [0xE5, 0xAE, 0x9E, 0xE6, 0x83, 0xA0],
        utf8 [0xE6, 0x80, 0xA7, 0xE4, 0xBB, 0xB7, 0xE6, 0xAF, 0x94],
        utf8 [0xE5, 0xB9, 0xB3, 0xE4, 0xBB, 0xB7],
        utf8 [0xE7, 0x9C, 0x81, 0xE9, 0x92, 0xB1]]),
      (''medium'', [utf8 [0xE9, 0x80, 0x82, 0xE4, 0xB8, 0xAD],
        utf8 [0xE4, 0xB8, 0xAD, 0xE7, 0xAD, 0x89],
        utf8 [0xE5, 0x90, 0x88, 0xE7, 0x90, 0x86]]),
      (''high'', [utf8 [0xE8, 0xB4, 0xB5],
        utf8 [0xE9, 0xAB, 0x98, 0xE7, 0xAB, 0xAF],
        utf8 [0xE5, 0xA5, 0xA2, 0xE4, 0xBE, 0x88],
        utf8 [0xE5, 0x93, 0x81, 0xE8, 0xB4, 0xA8],
        utf8 [0xE9, 0xAB, 0x98, 0xE6, 0xA1, 0xA3]])]"

text \<open>\<^verbatim>\<open>strings.Contains\<close>\<close>

fun str_contains :: "string \<Rightarrow> string \<Rightarrow> bool" where
  "str_contains [] sub = (sub = [])"
| "str_contains (c # cs) sub = (take (length sub) (c # cs) = sub \<or> str_contains cs sub)"

fun go_contains :: "string list \<Rightarrow> string \<Rightarrow> bool" where
  "go_contains [] item = False"
| "go_contains (s # slice) item = (s = item \<or> go_contains slice item)"

abbreviation go_lookup :: "fl go_map \<Rightarrow> string \<Rightarrow> fl" where
  "go_lookup m k \<equiv> (case map_of m k of Some x \<Rightarrow> x | None \<Rightarrow> Fin 0)"

definition hit_score :: fl where
  "hit_score = rnd64 (3 / 10)"

definition add_hit :: "string \<Rightarrow> fl go_map \<Rightarrow> fl go_map" where
  "add_hit k m = gput k (fadd (go_lookup m k) hit_score) m"

definition style_step :: "string \<Rightarrow> string \<times> string list \<Rightarrow> TraitsData \<Rightarrow> TraitsData" where
  "style_step content = (\<lambda>(style, keywords). fold (\<lambda>keyword td.
     if str_contains content keyword
     then td\<lparr>StylePreferences := add_hit style (StylePreferences td), Keywords := Keywords td @ [keyword]\<rparr>
     else td) keywords)"

definition color_step :: "string \<Rightarrow> string \<times> string list \<Rightarrow> TraitsData \<Rightarrow> TraitsData" where
  "color_step content = (\<lambda>(color, keywords). fold (\<lambda>keyword td.
     if str_contains content keyword
     then td\<lparr>ColorPreferences := add_hit color (ColorPreferences td)\<rparr> else td) keywords)"

definition occasion_step :: "string \<Rightarrow> string \<times> string list \<Rightarrow> TraitsData \<Rightarrow> TraitsData" where
  "occasion_step content = (\<lambda>(occasion, keywords). fold (\<lambda>keyword td.
     if str_contains content keyword \<and> \<not> go_contains (Occasions td) occasion
     then td\<lparr>Occasions := Occasions td @ [occasion]\<rparr> else td) keywords)"

definition price_step :: "string \<Rightarrow> string \<times> string list \<Rightarrow> TraitsData \<Rightarrow> TraitsData" where
  "price_step content = (\<lambda>(price, keywords) td.
     if \<exists>keyword\<in>set keywords. str_contains content keyword then td\<lparr>PriceSensitivity := price\<rparr> else td)"

definition max_score :: "fl go_map \<Rightarrow> fl" where
  "max_score scores = fold (\<lambda>(k, score) m. if fless m score then score else m) scores (Fin 0)"

definition normalizeScores :: "fl go_map \<Rightarrow> fl go_map" where
  "normalizeScores scores =
     (let m = max_score scores
      in if fless (Fin 0) m then map (\<lambda>(k, v). (k, fdiv v m)) scores else scores)"

record keyword_tables =
  kt_style :: "(string \<times> string list) list"
  kt_color :: "(string \<times> string list) list"
  kt_occasion :: "(string \<times> string list) list"
  kt_price :: "(string \<times> string list) list"

text \<open>The tables in some order of iteration.\<close>

definition iteration_of_tables :: "keyword_tables \<Rightarrow> bool" where
  "iteration_of_tables kt \<longleftrightarrow> mset (kt_style kt) = mset styleKeywords \<and> mset (kt_color kt) = mset colorKeywords \<and>
     mset (kt_occasion kt) = mset occasionKeywords \<and> mset (kt_price kt) = mset priceKeywords"

definition ExtractFromKeywords :: "(string \<Rightarrow> string) \<Rightarrow> keyword_tables \<Rightarrow> string \<Rightarrow> TraitsData" where
  "ExtractFromKeywords toLower kt content =
     (let contentLower = toLower content;
          td = fold (price_step contentLower) (kt_price kt)
              (fold (occasion_step contentLower) (kt_occasion kt)
              (fold (color_step contentLower) (kt_color kt)
              (fold (style_step contentLower) (kt_style kt) empty_traits)))
      in td\<lparr>StylePreferences := normalizeScores (StylePreferences td),
            ColorPreferences := normalizeScores (ColorPreferences td)\<rparr>)"

section \<open>Extraction by the language model, merging, saving\<close>

definition extraction_prompt :: string where
  "extraction_prompt =
     ''You are a fashion preference analysis expert. Analyze the user'' @ [CHR 0x27] @
     ''s conversation and extract their fashion preference traits.'' @ [CHR 0x0A, CHR 0x0A] @
     ''Return the result in JSON format with the following fields:'' @ [CHR 0x0A] @ ''{'' @
     [CHR 0x0A] @ ''  '' @ [CHR 0x22] @ ''style_preferences'' @ [CHR 0x22] @ '': {'' @ [CHR 0x22] @
     ''minimalist'' @ [CHR 0x22] @ '': 0.8, '' @ [CHR 0x22] @ ''casual'' @ [CHR 0x22] @ '': 0.6},'' @
     [CHR 0x0A] @ ''  '' @ [CHR 0x22] @ ''color_preferences'' @ [CHR 0x22] @ '': {'' @ [CHR 0x22] @
     ''black'' @ [CHR 0x22] @ '': 0.9, '' @ [CHR 0x22] @ ''white'' @ [CHR 0x22] @ '': 0.7},'' @
     [CHR 0x0A] @ ''  '' @ [CHR 0x22] @ ''price_sensitivity'' @ [CHR 0x22] @ '': '' @ [CHR 0x22] @
     ''medium'' @ [CHR 0x22] @ '','' @ [CHR 0x0A] @ ''  '' @ [CHR 0x22] @ ''brand_preferences'' @
     [CHR 0x22] @ '': ['' @ [CHR 0x22] @ ''ZARA'' @ [CHR 0x22] @ '', '' @ [CHR 0x22] @ ''UNIQLO'' @
     [CHR 0x22] @ ''],'' @ [CHR 0x0A] @ ''  '' @ [CHR 0x22] @ ''occasions'' @ [CHR 0x22] @ '': ['' @
     [CHR 0x22] @ ''work'' @ [CHR 0x22] @ '', '' @ [CHR 0x22] @ ''casual'' @ [CHR 0x22] @ ''],'' @
     [CHR 0x0A] @ ''  '' @ [CHR 0x22] @ ''keywords'' @ [CHR 0x22] @ '': ['' @ [CHR 0x22] @
     ''minimalist'' @ [CHR 0x22] @ '', '' @ [CHR 0x22] @ ''comfortable'' @ [CHR 0x22] @ '', '' @
     [CHR 0x22] @ ''high-quality'' @ [CHR 0x22] @ ''],'' @ [CHR 0x0A] @ ''  '' @ [CHR 0x22] @
     ''interests'' @ [CHR 0x22] @ '': ['' @ [CHR 0x22] @ ''sports'' @ [CHR 0x22] @ '', '' @
     [CHR 0x22] @ ''travel'' @ [CHR 0x22] @ '']'' @ [CHR 0x0A] @ ''}'' @ [CHR 0x0A, CHR 0x0A] @
     ''Rules:'' @ [CHR 0x0A] @ ''1. Score range is 0.0'' @ [CHR 0xE2, CHR 0x80, CHR 0x93] @ ''1.0'' @
     [CHR 0x0A] @ ''2. price_sensitivity must be one of: low / medium / high'' @ [CHR 0x0A] @
     ''3. Return JSON only '' @ [CHR 0xE2, CHR 0x80, CHR 0x94] @ '' no additional explanation''"

definition ExtractFromAI :: "'w completion \<Rightarrow> (string \<Rightarrow> json option) \<Rightarrow> Config \<Rightarrow> string \<Rightarrow> 'w \<Rightarrow>
    (go_fail + TraitsData) \<times> 'w" where
  "ExtractFromAI llm parse config conversationHistory w =
     (let userPrompt = ''Analyze the following conversation and extract the user'' @ [CHR 0x27] @
            ''s fashion preferences:'' @ [CHR 0x0A, CHR 0x0A] @ conversationHistory;
          fullPrompt = extraction_prompt @ [CHR 0x0A, CHR 0x0A] @ userPrompt
      in (case ChatWithAssistant llm config fullPrompt [] w of
            (Inl e, w') \<Rightarrow> (Inl e, w')
          | (Inr response, w') \<Rightarrow>
              (case parse response of
                 None \<Rightarrow> (Inl (Error ([CHR 0xE8, CHR 0xA7, CHR 0xA3, CHR 0xE6, CHR 0x9E, CHR 0x90] @ '' AI '' @ [CHR 0xE8, CHR 0xBF, CHR 0x94, CHR 0xE5, CHR 0x9B, CHR 0x9E, CHR 0xE7, CHR 0x9A, CHR 0x84, CHR 0xE7, CHR 0x89, CHR 0xB9, CHR 0xE8, CHR 0xB4, CHR 0xA8, CHR 0xE5, CHR 0xA4, CHR 0xB1, CHR 0xE8, CHR 0xB4, CHR 0xA5])), w')
               | Some j \<Rightarrow> (case UnmarshalTraits j of
                     Inl e \<Rightarrow> (Inl (Error ([CHR 0xE8, CHR 0xA7, CHR 0xA3, CHR 0xE6, CHR 0x9E, CHR 0x90] @ '' AI '' @ [CHR 0xE8, CHR 0xBF, CHR 0x94, CHR 0xE5, CHR 0x9B, CHR 0x9E, CHR 0xE7, CHR 0x9A, CHR 0x84, CHR 0xE7, CHR 0x89, CHR 0xB9, CHR 0xE8, CHR 0xB4, CHR 0xA8, CHR 0xE5, CHR 0xA4, CHR 0xB1, CHR 0xE8, CHR 0xB4, CHR 0xA5])), w')
                   | Inr td \<Rightarrow> (Inr td, w')))))"

fun uniqueStrings_loop :: "string list \<Rightarrow> string set \<Rightarrow> string list \<Rightarrow> string list" where
  "uniqueStrings_loop [] seen result = result"
| "uniqueStrings_loop (s # slice) seen result =
     (if s \<noteq> [] \<and> s \<notin> seen then uniqueStrings_loop slice (insert s seen) (result @ [s])
      else uniqueStrings_loop slice seen result)"

definition uniqueStrings :: "string list \<Rightarrow> string list" where
  "uniqueStrings slice = uniqueStrings_loop slice {} []"

definition keywordWeight :: fl where "keywordWeight = rnd64 (4 / 10)"
definition aiWeight :: fl where "aiWeight = rnd64 (6 / 10)"

definition merge_scores :: "fl go_map \<Rightarrow> fl go_map option \<Rightarrow> fl go_map" where
  "merge_scores kw ai =
     (let m = fold (\<lambda>(k, score). gput k (fmul score keywordWeight)) kw []
      in case ai of None \<Rightarrow> m
         | Some a \<Rightarrow> fold (\<lambda>(k, score) m. gput k (fadd (go_lookup m k) (fmul score aiWeight)) m) a m)"

definition MergeTraits :: "TraitsData \<Rightarrow> TraitsData option \<Rightarrow> TraitsData" where
  "MergeTraits kw ai =
     \<lparr>StylePreferences = merge_scores (StylePreferences kw) (map_option StylePreferences ai),
      ColorPreferences = merge_scores (ColorPreferences kw) (map_option ColorPreferences ai),
      PriceSensitivity = (case ai of
          Some a \<Rightarrow> if PriceSensitivity a \<noteq> [] then PriceSensitivity a else PriceSensitivity kw
        | None \<Rightarrow> PriceSensitivity kw),
      BrandPreferences = (case ai of None \<Rightarrow> BrandPreferences kw
        | Some a \<Rightarrow> uniqueStrings (BrandPreferences kw @ BrandPreferences a)),
      Occasions = (case ai of None \<Rightarrow> Occasions kw | Some a \<Rightarrow> uniqueStrings (Occasions kw @ Occasions a)),
      Keywords = (case ai of None \<Rightarrow> Keywords kw | Some a \<Rightarrow> uniqueStrings (Keywords kw @ Keywords a)),
      Interests = (case ai of None \<Rightarrow> Interests kw | Some a \<Rightarrow> uniqueStrings (Interests kw @ Interests a))\<rparr>"

definition calculateConfidence :: "TraitsData \<Rightarrow> int \<Rightarrow> fl" where
  "calculateConfidence td messageCount =
     (let b0 = fdiv (of_int64 messageCount) (Fin 20);
          b1 = (if fless (rnd64 (8 / 10)) b0 then rnd64 (8 / 10) else b0);
          traitCount = length (StylePreferences td) + length (ColorPreferences td) + length (Occasions td);
          b2 = (if 5 < traitCount then fadd b1 (rnd64 (1 / 10)) else b1);
          b3 = (if 10 < traitCount then fadd b2 (rnd64 (1 / 10)) else b2)
      in if fless (Fin 1) b3 then Fin 1 else b3)"

definition history_text :: "AIMessage list \<Rightarrow> string" where
  "history_text messages = concat (map (\<lambda>m. msg_Role m @ '': '' @ msg_Content m @ [CHR 0x0A]) messages)"

definition AnalyzeAndSave :: "'w completion \<Rightarrow> (string \<Rightarrow> json option) \<Rightarrow> (string \<Rightarrow> string) \<Rightarrow> keyword_tables \<Rightarrow>
    Config \<Rightarrow> int \<Rightarrow> string \<Rightarrow> string \<Rightarrow> AIMessage list \<Rightarrow> DB \<times> 'w \<Rightarrow> (go_fail + unit) \<times> DB \<times> 'w" where
  "AnalyzeAndSave llm parse toLower kt config now userID sessionID messages = (\<lambda>(db, w).
     let history = history_text messages;
         kw = ExtractFromKeywords toLower kt history;
         (ai, w1) = (if 4 \<le> length messages
                     then (case ExtractFromAI llm parse config history w of
                             (Inl e, w') \<Rightarrow> (None, w') | (Inr td, w') \<Rightarrow> (Some td, w'))
                     else (None, w));
         final = MergeTraits kw ai;
         confidence = calculateConfidence final (int (length messages))
     in case MarshalTraits final of
          Inl e \<Rightarrow> (Inl e, db, w1)
        | Inr j \<Rightarrow>
            (case SaveUserTraits now userID j confidence db of
               (Inl e, db1) \<Rightarrow> (Inl e, db1, w1)
             | (Inr _, db1) \<Rightarrow>
                 (case LogTraitExtraction now userID sessionID j
                        (if ai = None then ''keyword'' else ''keyword+ai'') confidence db1 of
                    (r, db2) \<Rightarrow> (r, db2, w1))))"

section \<open>\<^verbatim>\<open>gorse_sync.go\<close>\<close>

definition defaultMinScore :: fl where "defaultMinScore = rnd64 (35 / 100)"
definition defaultMaxPerPrefix :: int where "defaultMaxPerPrefix = 5"

definition priceRangeVocab :: "string \<rightharpoonup> string" where
  "priceRangeVocab = [''low'' \<mapsto> ''budget'', ''medium'' \<mapsto> ''mid'', ''high'' \<mapsto> ''premium'']"

record GorseSync =
  gs_client :: GorseClient
  minScore :: fl
  maxPerPrefix :: int

text \<open>\<^verbatim>\<open>strconv.ParseFloat\<close> of the environment variable is given as its outcome.\<close>

definition envFloat :: "fl option \<Rightarrow> fl \<Rightarrow> fl" where
  "envFloat parsed defaultValue = (case parsed of Some v \<Rightarrow> v | None \<Rightarrow> defaultValue)"

definition envInt :: "string \<Rightarrow> int \<Rightarrow> int" where
  "envInt value defaultValue =
     (case atoi value of Some v \<Rightarrow> if 0 < v then v else defaultValue | None \<Rightarrow> defaultValue)"

definition NewGorseSync :: "GorseClient \<Rightarrow> fl option \<Rightarrow> string \<Rightarrow> GorseSync" where
  "NewGorseSync client min_env max_env =
     \<lparr>gs_client = client, minScore = envFloat min_env defaultMinScore,
      maxPerPrefix = envInt max_env defaultMaxPerPrefix\<rparr>"

text \<open>The comparison handed to \<^verbatim>\<open>sort.Slice\<close>.\<close>

definition scored_less :: "string \<times> fl \<Rightarrow> string \<times> fl \<Rightarrow> bool" where
  "scored_less a b =
     (if \<not> feq (snd a) (snd b) then fless (snd b) (snd a) else fst a < fst b)"

definition topScored :: "GorseSync \<Rightarrow> string \<Rightarrow> fl go_map \<Rightarrow> string list" where
  "topScored g prefix scores =
     (let kept = filter (\<lambda>(name, score). fle (minScore g) score) scores;
          sorted_kept = sort_slice scored_less kept;
          cut = (if maxPerPrefix g < int (length sorted_kept) then take (nat (maxPerPrefix g)) sorted_kept
                 else sorted_kept)
      in map (\<lambda>(name, score). prefix @ '':'' @ name) cut)"

definition capped :: "GorseSync \<Rightarrow> string \<Rightarrow> string list \<Rightarrow> string list" where
  "capped g prefix values =
     (let vs = (if maxPerPrefix g < int (length values) then take (nat (maxPerPrefix g)) values else values)
      in map (\<lambda>v. prefix @ '':'' @ v) (filter (\<lambda>v. v \<noteq> []) vs))"

definition convertTraitsToLabels :: "GorseSync \<Rightarrow> TraitsData \<Rightarrow> string list" where
  "convertTraitsToLabels g td =
     topScored g ''style'' (StylePreferences td) @ topScored g ''color'' (ColorPreferences td) @
     (case priceRangeVocab (PriceSensitivity td) of Some v \<Rightarrow> [''price_range:'' @ v] | None \<Rightarrow> []) @
     capped g ''brand'' (BrandPreferences td) @ capped g ''occasion'' (Occasions td) @
     capped g ''interest'' (Interests td) @ capped g ''keyword'' (Keywords td)"

text \<open>\<open>fmt2\<close> is the verb \<^verbatim>\<open>%.2f\<close>.\<close>

definition SyncUserTraitsToGorse :: "'w network \<Rightarrow> (fl \<Rightarrow> string) \<Rightarrow> GorseSync \<Rightarrow> string \<Rightarrow> DB \<times> 'w \<Rightarrow>
    (go_fail + unit) \<times> DB \<times> 'w" where
  "SyncUserTraitsToGorse net fmt2 g userID = (\<lambda>(db, w).
     case GetUserTraits userID db of
       (Inl e, db') \<Rightarrow> (Inl e, db', w)
     | (Inr None, db') \<Rightarrow> (Inr (), db', w)
     | (Inr (Some ut), db') \<Rightarrow>
         (case UnmarshalTraits (ut_Traits ut) of
            Inl e \<Rightarrow> (Inl e, db', w)
          | Inr td \<Rightarrow>
              (case InsertUser net (gs_client g) \<lparr>UserId = userID, UserLabels = convertTraitsToLabels g td,
                      UserComment = [CHR 0xE7, CHR 0x89, CHR 0xB9, CHR 0xE8, CHR 0xB4, CHR 0xA8, CHR 0xE7, CHR 0xBD, CHR 0xAE, CHR 0xE4, CHR 0xBF, CHR 0xA1, CHR 0xE5, CHR 0xBA, CHR 0xA6] @ '': '' @ fmt2 (ut_ConfidenceScore ut), Subscribe = []\<rparr> w of
                 (r, w') \<Rightarrow> (r, db', w'))))"

definition GenerateImplicitFeedback :: "string \<Rightarrow> TraitsData \<Rightarrow> go_fail + unit" where
  "GenerateImplicitFeedback userID td = Inr ()"

end
