(* ===== verification/Traits_Properties.thy ===== *)
theory Traits_Properties
  imports Fashion_Traits
begin

text \<open>
  What trait extraction and the transfer of traits to Gorse guarantee: scores, thresholds, labels,
  confidence and the JSON form of the traits.
\<close>

section \<open>Association lists as maps\<close>

lemma gput_new: "k \<notin> fst ` set m \<Longrightarrow> gput k v m = m @ [(k, v)]"
  by (induction m) auto

lemma fold_gput_distinct:
  "distinct (map fst (m @ xs)) \<Longrightarrow> fold (\<lambda>(k, s). gput k (f s)) xs m = m @ map (\<lambda>(k, s). (k, f s)) xs"
proof (induction xs arbitrary: m)
  case (Cons x xs)
  then show ?case by (cases x) (auto simp: gput_new)
qed simp

lemma map_of_distinct_iff: "distinct (map fst m) \<Longrightarrow> (k, v) \<in> set m \<longleftrightarrow> map_of m k = Some v"
  by simp

section \<open>Hits\<close>

definition hits :: "string \<Rightarrow> string list \<Rightarrow> nat" where
  "hits content keywords = length (filter (str_contains content) keywords)"

text \<open>The score of \<open>n\<close> hits.\<close>

fun acc :: "nat \<Rightarrow> fl" where
  "acc 0 = Fin 0"
| "acc (Suc n) = fadd (acc n) hit_score"

fun hit_map :: "string \<Rightarrow> (string \<times> string list) list \<Rightarrow> fl go_map" where
  "hit_map content [] = []"
| "hit_map content ((k, kws) # table) =
     (if 0 < hits content kws then [(k, acc (hits content kws))] else []) @ hit_map content table"

lemma add_hits:
  "k \<notin> fst ` set m \<Longrightarrow> (add_hit k ^^ n) m = (if 0 < n then m @ [(k, acc n)] else m)"
proof (induction n)
  case (Suc n)
  have app: "gput k v (m @ [(k, w)]) = m @ [(k, v)]" for v w :: fl
    using Suc.prems by (induction m) auto
  have "map_of (m @ [(k, w)]) k = Some w" for w :: fl
    using Suc.prems by (simp add: map_add_def map_of_eq_None_iff[THEN iffD2])
  then show ?case using Suc by (auto simp: add_hit_def app gput_new map_of_eq_None_iff[THEN iffD2])
qed simp

lemma style_step_prefs:
  "StylePreferences (style_step content (k, kws) td) = (add_hit k ^^ hits content kws) (StylePreferences td) \<and>
   ColorPreferences (style_step content (k, kws) td) = ColorPreferences td"
  by (induction kws arbitrary: td) (simp_all add: style_step_def hits_def funpow_swap1)

lemma color_step_prefs:
  "ColorPreferences (color_step content (k, kws) td) = (add_hit k ^^ hits content kws) (ColorPreferences td) \<and>
   StylePreferences (color_step content (k, kws) td) = StylePreferences td"
  by (induction kws arbitrary: td) (simp_all add: color_step_def hits_def funpow_swap1)

lemma occasion_step_prefs:
  "StylePreferences (occasion_step content r td) = StylePreferences td \<and>
   ColorPreferences (occasion_step content r td) = ColorPreferences td"
proof (cases r)
  case (Pair k kws)
  show ?thesis unfolding Pair by (induction kws arbitrary: td) (simp_all add: occasion_step_def)
qed

lemma price_step_prefs:
  "StylePreferences (price_step content r td) = StylePreferences td \<and>
   ColorPreferences (price_step content r td) = ColorPreferences td"
  by (cases r) (simp add: price_step_def)

lemma fold_keeps:
  assumes "\<And>x td. f (step x td) = f td"
  shows "f (fold step xs td) = f td"
  using assms by (induction xs arbitrary: td) simp_all

lemma fold_style:
  "distinct (map fst (StylePreferences td @ hit_map content table)) \<Longrightarrow>
   distinct (map fst table) \<Longrightarrow> fst ` set (StylePreferences td) \<inter> fst ` set table = {} \<Longrightarrow>
   StylePreferences (fold (style_step content) table td) = StylePreferences td @ hit_map content table"
proof (induction table arbitrary: td)
  case (Cons r table)
  obtain k kws where r: "r = (k, kws)" by (cases r)
  have "k \<notin> fst ` set (StylePreferences td)" using Cons.prems(3) r by auto
  then have s: "StylePreferences (style_step content r td) = StylePreferences td @
      (if 0 < hits content kws then [(k, acc (hits content kws))] else [])"
    using style_step_prefs[of content k kws td] r by (simp add: add_hits)
  show ?case using Cons.IH[of "style_step content r td"] Cons.prems s r by auto
qed simp

lemma fold_color:
  "distinct (map fst (ColorPreferences td @ hit_map content table)) \<Longrightarrow>
   distinct (map fst table) \<Longrightarrow> fst ` set (ColorPreferences td) \<inter> fst ` set table = {} \<Longrightarrow>
   ColorPreferences (fold (color_step content) table td) = ColorPreferences td @ hit_map content table"
proof (induction table arbitrary: td)
  case (Cons r table)
  obtain k kws where r: "r = (k, kws)" by (cases r)
  have "k \<notin> fst ` set (ColorPreferences td)" using Cons.prems(3) r by auto
  then have s: "ColorPreferences (color_step content r td) = ColorPreferences td @
      (if 0 < hits content kws then [(k, acc (hits content kws))] else [])"
    using color_step_prefs[of content k kws td] r by (simp add: add_hits)
  show ?case using Cons.IH[of "color_step content r td"] Cons.prems s r by auto
qed simp

lemma hit_map_keys: "fst ` set (hit_map content table) \<subseteq> fst ` set table"
  by (induction content table rule: hit_map.induct) auto

lemma hit_map_distinct: "distinct (map fst table) \<Longrightarrow> distinct (map fst (hit_map content table))"
proof (induction content table rule: hit_map.induct)
  case (2 content k kws table)
  then show ?case using hit_map_keys[of content table] by auto
qed simp

lemma hit_map_iff:
  "(k, v) \<in> set (hit_map content table) \<longleftrightarrow>
   (\<exists>kws. (k, kws) \<in> set table \<and> 0 < hits content kws \<and> v = acc (hits content kws))"
  by (induction content table rule: hit_map.induct) auto

lemma extracted_prefs:
  assumes "distinct (map fst (kt_style kt))" and "distinct (map fst (kt_color kt))"
  shows "StylePreferences (ExtractFromKeywords lw kt content) = normalizeScores (hit_map (lw content) (kt_style kt))"
    and "ColorPreferences (ExtractFromKeywords lw kt content) = normalizeScores (hit_map (lw content) (kt_color kt))"
proof -
  let ?c = "lw content"
  let ?td1 = "fold (style_step ?c) (kt_style kt) empty_traits"
  let ?td2 = "fold (color_step ?c) (kt_color kt) ?td1"
  let ?td = "fold (price_step ?c) (kt_price kt) (fold (occasion_step ?c) (kt_occasion kt) ?td2)"
  have e: "StylePreferences empty_traits = []" "ColorPreferences empty_traits = []" by (simp_all add: empty_traits_def)
  have s1: "StylePreferences ?td1 = hit_map ?c (kt_style kt)"
    using fold_style[of empty_traits ?c "kt_style kt"] assms(1) e by (simp add: hit_map_distinct)
  have c1: "ColorPreferences ?td1 = []"
    using fold_keeps[of ColorPreferences "style_step ?c"] style_step_prefs e by (metis surj_pair)
  have c2: "ColorPreferences ?td2 = hit_map ?c (kt_color kt)"
    using fold_color[of ?td1 ?c "kt_color kt"] assms(2) c1 by (simp add: hit_map_distinct)
  have s2: "StylePreferences ?td2 = hit_map ?c (kt_style kt)"
    using fold_keeps[of StylePreferences "color_step ?c"] color_step_prefs s1 by (metis surj_pair)
  have "StylePreferences ?td = hit_map ?c (kt_style kt)" "ColorPreferences ?td = hit_map ?c (kt_color kt)"
    using s2 c2 fold_keeps[of StylePreferences "occasion_step ?c"] fold_keeps[of StylePreferences "price_step ?c"]
      fold_keeps[of ColorPreferences "occasion_step ?c"] fold_keeps[of ColorPreferences "price_step ?c"]
    by (simp_all add: occasion_step_prefs price_step_prefs)
  then show "StylePreferences (ExtractFromKeywords lw kt content) = normalizeScores (hit_map (lw content) (kt_style kt))"
    "ColorPreferences (ExtractFromKeywords lw kt content) = normalizeScores (hit_map (lw content) (kt_color kt))"
    by (simp_all add: ExtractFromKeywords_def Let_def)
qed

section \<open>Scores\<close>

lemma max_score_props:
  assumes "\<And>k v. (k, v) \<in> set m \<Longrightarrow> v \<noteq> NaN"
  shows "max_score m \<noteq> NaN \<and> (\<forall>(k, v)\<in>set m. fle v (max_score m)) \<and> fle (Fin 0) (max_score m) \<and>
    (max_score m = Fin 0 \<or> (\<exists>k. (k, max_score m) \<in> set m))"
proof -
  let ?f = "\<lambda>(k, score) m. if fless m score then score else m"
  have "x \<noteq> NaN \<Longrightarrow> (\<And>k v. (k, v) \<in> set m \<Longrightarrow> v \<noteq> NaN) \<Longrightarrow>
    fold ?f m x \<noteq> NaN \<and> (\<forall>(k, v)\<in>set m. fle v (fold ?f m x)) \<and> fle x (fold ?f m x) \<and>
    (fold ?f m x = x \<or> (\<exists>k. (k, fold ?f m x) \<in> set m))" for x and m :: "fl go_map"
  proof (induction m arbitrary: x)
    case Nil
    then show ?case by (simp add: fle_refl)
  next
    case (Cons a m)
    obtain k v where a: "a = (k, v)" by (cases a)
    have v: "v \<noteq> NaN" using Cons.prems(2)[of k v] a by simp
    let ?y = "if fless x v then v else x"
    have y: "?y \<noteq> NaN" "fle x ?y" "fle v ?y"
      using v Cons.prems(1) fle_refl[OF v] fle_refl[OF Cons.prems(1)] not_fless_fle[OF Cons.prems(1) v]
        fle_def[of x v] by auto
    have IH: "fold ?f m ?y \<noteq> NaN \<and> (\<forall>(k, v)\<in>set m. fle v (fold ?f m ?y)) \<and> fle ?y (fold ?f m ?y) \<and>
        (fold ?f m ?y = ?y \<or> (\<exists>k. (k, fold ?f m ?y) \<in> set m))"
      by (rule Cons.IH[OF y(1)]) (use Cons.prems(2) in auto)
    have "fold ?f (a # m) x = fold ?f m ?y" by (simp add: a)
    then show ?case using IH fle_trans[OF y(2)] fle_trans[OF y(3)] a by auto
  qed
  from this[of "Fin 0" m] assms show ?thesis by (auto simp: max_score_def)
qed

lemma fdiv_le_1:
  assumes "0 \<le> x" and "x \<le> y" and "0 < y"
  shows "fle (Fin 0) (fdiv (Fin x) (Fin y)) \<and> fle (fdiv (Fin x) (Fin y)) (Fin 1)"
proof -
  have "fle (rnd64 (x / y)) (rnd64 1)" using assms by (intro rnd_mono) simp_all
  then show ?thesis using assms rnd_nonneg[of "x / y"] by simp
qed

lemma fdiv_mono:
  assumes "x \<le> y" and "0 < z"
  shows "fle (fdiv (Fin x) (Fin z)) (fdiv (Fin y) (Fin z))"
  using assms by (simp add: rnd_mono divide_right_mono)

section \<open>The threshold for keyword scores\<close>

lemma score_constants:
  "hit_score = Fin (5404319552844595 / 18014398509481984)"
  "keywordWeight = Fin (3602879701896397 / 9007199254740992)"
  "defaultMinScore = Fin (3152519739159347 / 9007199254740992)"
  "rnd64 (21 / 25) = Fin (7566047373982433 / 9007199254740992)"
  unfolding hit_score_def keywordWeight_def defaultMinScore_def
  using rnd64_eval[of "-2" "3/10" 5404319552844595] rnd64_eval[of "-2" "4/10" 7205759403792794]
    rnd64_eval[of "-2" "35/100" 6305039478318694] rnd64_eval[of "-1" "21/25" 7566047373982433]
  by (simp_all add: rnd_eval_simps)

definition score_of :: "nat \<Rightarrow> rat" where
  "score_of n = [0, 5404319552844595 / 18014398509481984, 5404319552844595 / 9007199254740992,
     2026619832316723 / 2251799813685248, 5404319552844595 / 4503599627370496, 3 / 2,
     8106479329266893 / 4503599627370496] ! n"

lemma acc_eval:
  "acc 1 = Fin (score_of 1)" "acc 2 = Fin (score_of 2)" "acc 3 = Fin (score_of 3)"
  "acc 4 = Fin (score_of 4)" "acc 5 = Fin (score_of 5)" "acc 6 = Fin (score_of 6)"
proof -
  have s: "score_of 0 = 0" "score_of 1 = 5404319552844595 / 18014398509481984"
    "score_of 2 = 5404319552844595 / 9007199254740992" "score_of 3 = 2026619832316723 / 2251799813685248"
    "score_of 4 = 5404319552844595 / 4503599627370496" "score_of 5 = 3 / 2"
    "score_of 6 = 8106479329266893 / 4503599627370496"
    by (simp_all add: score_of_def)
  have step: "acc m = rnd64 (q + 5404319552844595 / 18014398509481984)" if "acc n = Fin q" and "m = Suc n" for n m q
    using that by (simp add: score_constants)
  have r1: "rnd64 (5404319552844595 / 18014398509481984) = Fin (5404319552844595 / 18014398509481984)"
    using rnd64_eval[of "-2" "5404319552844595 / 18014398509481984" 5404319552844595] by (simp add: rnd_eval_simps)
  have a1: "acc 1 = Fin (5404319552844595 / 18014398509481984)" using step[of 0 0 1]  r1 by simp
  have r2: "rnd64 (5404319552844595 / 18014398509481984 + 5404319552844595 / 18014398509481984) = Fin (5404319552844595 / 9007199254740992)"
    using rnd64_eval[of "-1" "5404319552844595 / 18014398509481984 + 5404319552844595 / 18014398509481984" 5404319552844595] by (simp add: rnd_eval_simps)
  have a2: "acc 2 = Fin (5404319552844595 / 9007199254740992)" using step[of 1 "5404319552844595 / 18014398509481984" 2] a1 r2 by simp
  have r3: "rnd64 (5404319552844595 / 9007199254740992 + 5404319552844595 / 18014398509481984) = Fin (2026619832316723 / 2251799813685248)"
    using rnd64_eval[of "-1" "5404319552844595 / 9007199254740992 + 5404319552844595 / 18014398509481984" 8106479329266892] by (simp add: rnd_eval_simps)
  have a3: "acc 3 = Fin (2026619832316723 / 2251799813685248)" using step[of 2 "5404319552844595 / 9007199254740992" 3] a2 r3 by simp
  have r4: "rnd64 (2026619832316723 / 2251799813685248 + 5404319552844595 / 18014398509481984) = Fin (5404319552844595 / 4503599627370496)"
    using rnd64_eval[of "0" "2026619832316723 / 2251799813685248 + 5404319552844595 / 18014398509481984" 5404319552844595] by (simp add: rnd_eval_simps)
  have a4: "acc 4 = Fin (5404319552844595 / 4503599627370496)" using step[of 3 "2026619832316723 / 2251799813685248" 4] a3 r4 by simp
  have r5: "rnd64 (5404319552844595 / 4503599627370496 + 5404319552844595 / 18014398509481984) = Fin (3 / 2)"
    using rnd64_eval[of "0" "5404319552844595 / 4503599627370496 + 5404319552844595 / 18014398509481984" 6755399441055744] by (simp add: rnd_eval_simps)
  have a5: "acc 5 = Fin (3 / 2)" using step[of 4 "5404319552844595 / 4503599627370496" 5] a4 r5 by simp
  have r6: "rnd64 (3 / 2 + 5404319552844595 / 18014398509481984) = Fin (8106479329266893 / 4503599627370496)"
    using rnd64_eval[of "0" "3 / 2 + 5404319552844595 / 18014398509481984" 8106479329266893] by (simp add: rnd_eval_simps)
  have a6: "acc 6 = Fin (8106479329266893 / 4503599627370496)" using step[of 5 "3 / 2" 6] a5 r6 by simp
  show "acc 1 = Fin (score_of 1)" "acc 2 = Fin (score_of 2)" "acc 3 = Fin (score_of 3)"
    "acc 4 = Fin (score_of 4)" "acc 5 = Fin (score_of 5)" "acc 6 = Fin (score_of 6)"
    unfolding a1 a2 a3 a4 a5 a6 s by (rule refl)+
qed

lemma nat_le_6: "n \<le> 6 \<longleftrightarrow> n = 0 \<or> n = 1 \<or> n = 2 \<or> n = 3 \<or> n = 4 \<or> n = 5 \<or> n = (6 :: nat)"
  by auto

lemma acc_score_of: "n \<le> 6 \<Longrightarrow> acc n = Fin (score_of n)"
  using acc_eval by (auto simp: nat_le_6) (simp add: score_of_def)

lemma score_of_gap:
  assumes "k \<le> n" and "n \<le> 6"
  shows "0 \<le> score_of k" and "score_of k \<le> score_of n" and "0 < n \<Longrightarrow> 0 < score_of n"
    and "k < n \<Longrightarrow> score_of k / score_of n \<le> 21 / 25" and "k < n \<Longrightarrow> score_of k < score_of n"
  using assms order_trans[OF assms] unfolding nat_le_6 score_of_def by (elim disjE; simp)+

lemma rounded_weight: "rnd64 (3602879701896397 / 9007199254740992) = Fin (3602879701896397 / 9007199254740992)"
  using rnd64_eval[of "-2" "3602879701896397 / 9007199254740992" 7205759403792794] by (simp add: rnd_eval_simps)

lemma second_tier: "rnd64 (7566047373982433 / 9007199254740992 * (3602879701896397 / 9007199254740992)) =
    Fin (6052837899185947 / 18014398509481984)"
  using rnd64_eval[of "-2" "7566047373982433 / 9007199254740992 * (3602879701896397 / 9007199254740992)" 6052837899185947]
  by (simp add: rnd_eval_simps)

text \<open>The score a preference has after normalization and merging without the language model.\<close>

definition merged_score :: "nat \<Rightarrow> nat \<Rightarrow> fl" where
  "merged_score k n = fmul (fdiv (acc k) (acc n)) keywordWeight"

lemma merged_score_top: "0 < n \<Longrightarrow> n \<le> 6 \<Longrightarrow> merged_score n n = keywordWeight"
  using score_of_gap(3)[of n n] by (simp add: merged_score_def acc_score_of score_constants rounded_weight)

lemma merged_score_lower:
  assumes "k < n" and "n \<le> 6"
  shows "fle (Fin 0) (merged_score k n) \<and> fless (merged_score k n) defaultMinScore"
proof -
  have k: "k \<le> n" "k \<le> 6" and pos: "0 < score_of n" using assms score_of_gap(3)[of n n] by simp_all
  let ?r = "rnd64 (score_of k / score_of n)"
  have d: "fdiv (acc k) (acc n) = ?r" using k assms pos by (simp add: acc_score_of)
  have "fle ?r (rnd64 (21 / 25))" using score_of_gap(4)[OF k(1) assms(2,1)] by (intro rnd_mono) simp_all
  moreover have "fle (Fin 0) ?r" using score_of_gap(1)[OF k(1) assms(2)] pos by (intro rnd_nonneg) simp
  ultimately obtain x where x: "?r = Fin x" "0 \<le> x" "x \<le> 7566047373982433 / 9007199254740992"
    by (cases ?r) (auto simp: score_constants)
  have "fle (rnd64 (x * (3602879701896397 / 9007199254740992)))
      (rnd64 (7566047373982433 / 9007199254740992 * (3602879701896397 / 9007199254740992)))"
    using x(3) by (intro rnd_mono) (simp_all add: mult_right_mono)
  moreover have "fle (Fin 0) (rnd64 (x * (3602879701896397 / 9007199254740992)))"
    using x(2) by (intro rnd_nonneg) simp
  ultimately show ?thesis
    unfolding merged_score_def d x(1) score_constants fmul.simps second_tier
    by (cases "rnd64 (x * (3602879701896397 / 9007199254740992))") auto
qed

lemma normalize_hit_map:
  fixes content :: string and table :: "(string \<times> string list) list"
  assumes few: "\<forall>kws\<in>snd ` set table. length kws \<le> 6" and nonempty: "hit_map content table \<noteq> []"
  defines "n \<equiv> Max (hits content ` snd ` set table)"
  shows "normalizeScores (hit_map content table) = map (\<lambda>(k, v). (k, fdiv v (acc n))) (hit_map content table)"
    and "0 < n" and "n \<le> 6"
proof -
  have le6: "hits content kws \<le> 6" if "(k, kws) \<in> set table" for k kws
  proof -
    have "length kws \<le> 6" using few that by force
    then show ?thesis unfolding hits_def by (meson length_filter_le order_trans)
  qed
  have fin: "finite (hits content ` snd ` set table)" by simp
  obtain k v where kv: "(k, v) \<in> set (hit_map content table)" using nonempty by (cases "hit_map content table") auto
  then obtain kws where kws: "(k, kws) \<in> set table" "0 < hits content kws" by (auto simp: hit_map_iff)
  have max_ge: "hits content ws \<le> n" if "(j, ws) \<in> set table" for j ws
    unfolding n_def using that fin by (intro Max_ge) force+
  then show n0: "0 < n" using kws by force
  have "n \<in> hits content ` snd ` set table" unfolding n_def using kws fin by (intro Max_in) auto
  then obtain kt wt where top: "(kt, wt) \<in> set table" "n = hits content wt" by auto
  then show n6: "n \<le> 6" using le6 by simp
  have vals: "\<exists>h. h \<le> n \<and> v = Fin (score_of h)" if "(k, v) \<in> set (hit_map content table)" for k v
    using that max_ge le6 acc_score_of by (fastforce simp: hit_map_iff)
  have topv: "(kt, acc n) \<in> set (hit_map content table)" using top n0 by (auto simp: hit_map_iff)
  let ?m = "max_score (hit_map content table)"
  have m: "?m \<noteq> NaN \<and> (\<forall>(k, v)\<in>set (hit_map content table). fle v ?m) \<and> fle (Fin 0) ?m \<and>
    (?m = Fin 0 \<or> (\<exists>k. (k, ?m) \<in> set (hit_map content table)))"
    by (rule max_score_props) (use vals in blast)
  have "fle (acc n) ?m" using m topv by blast
  then have ge: "fle (Fin (score_of n)) ?m" using n6 by (simp add: acc_score_of)
  have pos: "0 < score_of n" using score_of_gap(3)[of n n] n0 n6 by simp
  have "?m = Fin (score_of n)"
  proof (cases "?m = Fin 0")
    case True
    then show ?thesis using ge pos by simp
  next
    case False
    then obtain j where "(j, ?m) \<in> set (hit_map content table)" using m by blast
    then obtain h where h: "h \<le> n" "?m = Fin (score_of h)" using vals by blast
    then have "score_of h \<le> score_of n" using score_of_gap(2)[of h n] n6 by simp
    then show ?thesis using ge h by simp
  qed
  then show "normalizeScores (hit_map content table) = map (\<lambda>(k, v). (k, fdiv v (acc n))) (hit_map content table)"
    using pos n6 by (simp add: normalizeScores_def Let_def acc_score_of)
qed

definition table_hits :: "string \<Rightarrow> (string \<times> string list) list \<Rightarrow> string \<Rightarrow> nat" where
  "table_hits content table k = (case map_of table k of Some kws \<Rightarrow> hits content kws | None \<Rightarrow> 0)"

lemma table_hits_mem: "distinct (map fst table) \<Longrightarrow> (k, kws) \<in> set table \<Longrightarrow> table_hits content table k = hits content kws"
  by (simp add: table_hits_def)

lemma hit_map_hits:
  "distinct (map fst table) \<Longrightarrow>
   (k, v) \<in> set (hit_map content table) \<longleftrightarrow> 0 < table_hits content table k \<and> v = acc (table_hits content table k)"
proof -
  assume d: "distinct (map fst table)"
  then have "(k, kws) \<in> set table \<longleftrightarrow> map_of table k = Some kws" for kws by simp
  then show ?thesis unfolding hit_map_iff table_hits_def by (cases "map_of table k") simp_all
qed

lemma merge_without_ai:
  "distinct (map fst m) \<Longrightarrow> merge_scores m None = map (\<lambda>(k, v). (k, fmul v keywordWeight)) m"
  using fold_gput_distinct[of "[]" m "\<lambda>v. fmul v keywordWeight"] by (simp add: merge_scores_def Let_def)

lemma keys_normalize [simp]: "map fst (normalizeScores m) = map fst m"
  by (simp add: normalizeScores_def Let_def comp_def case_prod_unfold)

text \<open>Keyword scores of a table with distinct keys and at most six keywords each.\<close>

lemma keyword_scores:
  fixes content :: string and table :: "(string \<times> string list) list"
  assumes d: "distinct (map fst table)" and few: "\<forall>kws\<in>snd ` set table. length kws \<le> 6"
  defines "m \<equiv> merge_scores (normalizeScores (hit_map content table)) None"
  shows "fst ` set m = {k. 0 < table_hits content table k}"
    and "(k, score) \<in> set m \<Longrightarrow> fle (Fin 0) score \<and> fle score keywordWeight \<and>
      (fle defaultMinScore score \<longleftrightarrow> (\<forall>other. table_hits content table other \<le> table_hits content table k))"
proof -
  let ?h = "table_hits content table"
  have dk: "distinct (map fst (normalizeScores (hit_map content table)))"
    using hit_map_distinct[OF d, of content] by simp
  have keys: "fst ` set m = fst ` set (hit_map content table)"
  proof -
    have "map fst m = map fst (normalizeScores (hit_map content table))"
      unfolding m_def merge_without_ai[OF dk] by (simp only: map_map) (simp add: comp_def case_prod_unfold)
    then show ?thesis by (metis keys_normalize set_map)
  qed
  also have "\<dots> = {k. 0 < ?h k}" using hit_map_hits[OF d, of _ _ content] by force
  finally show "fst ` set m = {k. 0 < ?h k}" .
  assume "(k, score) \<in> set m"
  then have "hit_map content table \<noteq> []" using keys by auto
  then have ne: "hit_map content table \<noteq> []" .
  note n = normalize_hit_map[OF few ne]
  define n where "n = Max (hits content ` snd ` set table)"
  have m: "m = map (\<lambda>(k, v). (k, fmul (fdiv v (acc n)) keywordWeight)) (hit_map content table)"
    unfolding m_def merge_without_ai[OF dk] by (subst n(1)) (simp add: n_def comp_def case_prod_unfold)
  then obtain v where v: "(k, v) \<in> set (hit_map content table)" "score = fmul (fdiv v (acc n)) keywordWeight"
    using \<open>(k, score) \<in> set m\<close> by auto
  then have pos: "0 < ?h k" and s: "score = merged_score (?h k) n"
    using hit_map_hits[OF d, of k v content] by (auto simp: merged_score_def)
  have le: "?h other \<le> n" for other
    unfolding n_def table_hits_def by (auto split: option.splits intro!: Max_ge dest!: map_of_SomeD) (force simp: image_iff)
  have "n \<in> hits content ` snd ` set table"
    unfolding n_def using v(1) by (intro Max_in) (auto simp: hit_map_iff)
  then obtain j where j: "?h j = n" using table_hits_mem[OF d, of _ _ content] by force
  have top: "(\<forall>other. ?h other \<le> ?h k) \<longleftrightarrow> ?h k = n" using le j by (metis le_antisym)
  have nn: "0 < n" "n \<le> 6" using n(2,3) by (simp_all add: n_def)
  show "fle (Fin 0) score \<and> fle score keywordWeight \<and> (fle defaultMinScore score \<longleftrightarrow> (\<forall>other. ?h other \<le> ?h k))"
  proof (cases "?h k = n")
    case True
    then show ?thesis using s nn merged_score_top[OF nn] top by (simp add: score_constants)
  next
    case False
    then have lt: "?h k < n" using le[of k] by simp
    note low = merged_score_lower[OF lt nn(2)]
    have "fle score defaultMinScore" "\<not> fle defaultMinScore score" "fle defaultMinScore keywordWeight"
      using low s by (auto simp: fle_def score_constants elim: fless.elims)
    then show ?thesis using low s top False fle_trans by blast
  qed
qed

lemma table_mset:
  assumes "mset t = mset (u :: (string \<times> string list) list)" and "distinct (map fst u)"
  shows "distinct (map fst t)" and "table_hits content t = table_hits content u" and "set t = set u"
proof -
  show st: "set t = set u" using assms(1) by (metis set_mset_mset)
  have "mset (map fst t) = mset (map fst u)" using assms(1) by simp
  then show d: "distinct (map fst t)" using assms(2) by (metis mset_eq_imp_distinct_iff)
  have "map_of t = map_of u" using d assms(2) st by (metis map_of_inject_set)
  then show "table_hits content t = table_hits content u" by (simp add: table_hits_def fun_eq_iff)
qed

lemma tables_small:
  "distinct (map fst styleKeywords)" "distinct (map fst colorKeywords)"
  "(k, kws) \<in> set styleKeywords \<Longrightarrow> length kws \<le> 6" "(k, kws) \<in> set colorKeywords \<Longrightarrow> length kws \<le> 6"
  by (auto simp: styleKeywords_def colorKeywords_def)

section \<open>Properties of the scores\<close>

text \<open>C34. When the language model contributes nothing, the preferences that reach Gorse are decided by the
  keyword hits alone: for every text and every iteration order of the keyword tables, the scored styles
  are exactly those with a hit, every score lies between 0 and 0.4, and a style passes the default
  threshold of 0.35 exactly if no other style has more hits. The same holds for the colours.\<close>

theorem keyword_threshold:
  assumes "iteration_of_tables kt"
  shows "let td = MergeTraits (ExtractFromKeywords toLower kt content) None;
      h = table_hits (toLower content) styleKeywords; hc = table_hits (toLower content) colorKeywords
    in fst ` set (StylePreferences td) = {k. 0 < h k} \<and> fst ` set (ColorPreferences td) = {k. 0 < hc k} \<and>
       (\<forall>(k, score)\<in>set (StylePreferences td). fle (Fin 0) score \<and> fle score (rnd64 (4 / 10)) \<and>
          (fle (rnd64 (35 / 100)) score \<longleftrightarrow> (\<forall>other. h other \<le> h k))) \<and>
       (\<forall>(k, score)\<in>set (ColorPreferences td). fle (Fin 0) score \<and> fle score (rnd64 (4 / 10)) \<and>
          (fle (rnd64 (35 / 100)) score \<longleftrightarrow> (\<forall>other. hc other \<le> hc k)))"
proof -
  have ms: "mset (kt_style kt) = mset styleKeywords" "mset (kt_color kt) = mset colorKeywords"
    using assms by (simp_all add: iteration_of_tables_def)
  note st = table_mset[OF ms(1) tables_small(1)] and ct = table_mset[OF ms(2) tables_small(2)]
  have "\<forall>kws\<in>snd ` set (kt_style kt). length kws \<le> 6" "\<forall>kws\<in>snd ` set (kt_color kt). length kws \<le> 6"
    using tables_small(3,4) unfolding st(3) ct(3) by auto
  note s = keyword_scores[where content = "toLower content", OF st(1) this(1)]
    and c = keyword_scores[where content = "toLower content", OF ct(1) this(2)]
  have p: "StylePreferences (MergeTraits (ExtractFromKeywords toLower kt content) None) =
      merge_scores (normalizeScores (hit_map (toLower content) (kt_style kt))) None"
    "ColorPreferences (MergeTraits (ExtractFromKeywords toLower kt content) None) =
      merge_scores (normalizeScores (hit_map (toLower content) (kt_color kt))) None"
    using extracted_prefs[OF st(1) ct(1)] by (simp_all add: MergeTraits_def)
  have "\<forall>(k, score)\<in>set (StylePreferences (MergeTraits (ExtractFromKeywords toLower kt content) None)).
      fle (Fin 0) score \<and> fle score (rnd64 (4 / 10)) \<and> (fle (rnd64 (35 / 100)) score \<longleftrightarrow>
        (\<forall>other. table_hits (toLower content) styleKeywords other \<le> table_hits (toLower content) styleKeywords k))"
    unfolding p using s(2) unfolding st(2) keywordWeight_def defaultMinScore_def by auto
  moreover have "\<forall>(k, score)\<in>set (ColorPreferences (MergeTraits (ExtractFromKeywords toLower kt content) None)).
      fle (Fin 0) score \<and> fle score (rnd64 (4 / 10)) \<and> (fle (rnd64 (35 / 100)) score \<longleftrightarrow>
        (\<forall>other. table_hits (toLower content) colorKeywords other \<le> table_hits (toLower content) colorKeywords k))"
    unfolding p using c(2) unfolding ct(2) keywordWeight_def defaultMinScore_def by auto
  ultimately show ?thesis using s(1) c(1) unfolding Let_def p st(2) ct(2) by simp
qed

definition source_tables :: keyword_tables where
  "source_tables = \<lparr>kt_style = styleKeywords, kt_color = colorKeywords, kt_occasion = occasionKeywords,
     kt_price = priceKeywords\<rparr>"

theorem keyword_threshold_witness:
  "iteration_of_tables source_tables \<and>
   ''streetwear'' \<in> fst ` set (StylePreferences (MergeTraits (ExtractFromKeywords (\<lambda>s. s) source_tables ''oversize'') None))"
proof -
  have it: "iteration_of_tables source_tables" by (simp add: iteration_of_tables_def source_tables_def)
  have "0 < table_hits ''oversize'' styleKeywords ''streetwear''"
    by (simp add: table_hits_def styleKeywords_def hits_def)
  with keyword_threshold[OF it, of "\<lambda>s. s" "''oversize''"] it show ?thesis by (simp add: Let_def)
qed

section \<open>Labels\<close>

lemma scored_less_total:
  assumes "distinct (map fst kept)" and "\<And>n s. (n, s) \<in> set kept \<Longrightarrow> s \<noteq> NaN"
  shows "strict_total_on scored_less (set kept)"
proof -
  have feq: "feq a b \<longleftrightarrow> a = b" if "a \<noteq> NaN" for a b using that by (cases a) auto
  have tot: "fless a b \<or> fless b a" if "a \<noteq> NaN" "b \<noteq> NaN" "a \<noteq> b" for a b
    using that by (cases a; cases b) auto
  have asym: "fless a b \<Longrightarrow> \<not> fless b a" for a b by (cases a; cases b) auto
  have irr: "\<not> fless a a" for a by (cases a) auto
  have tr: "fless a b \<Longrightarrow> fless b c \<Longrightarrow> fless a c" for a b c by (cases a; cases b; cases c) auto
  have same: "a = b" if "a \<in> set kept" "b \<in> set kept" "fst a = fst b" for a b
    using assms(1) that by (metis distinct_map inj_onD)
  have nn: "snd a \<noteq> NaN" if "a \<in> set kept" for a using assms(2)[of "fst a" "snd a"] that by simp
  show ?thesis unfolding strict_total_on_def
  proof (intro conjI ballI impI)
    fix a b assume ab: "a \<in> set kept" "b \<in> set kept"
    show "scored_less a b \<Longrightarrow> \<not> scored_less b a"
      using nn[OF ab(1)] nn[OF ab(2)] asym by (auto simp: scored_less_def feq split: if_splits)
    show "a \<noteq> b \<Longrightarrow> scored_less a b \<or> scored_less b a"
      using nn[OF ab(1)] nn[OF ab(2)] tot[of "snd a" "snd b"] same[OF ab]
      by (auto simp: scored_less_def feq split: if_splits) (metis linorder_neqE)+
    fix c assume c: "c \<in> set kept" and l: "scored_less a b" "scored_less b c"
    have sl: "scored_less x y \<longleftrightarrow> fless (snd y) (snd x) \<or> snd x = snd y \<and> fst x < fst y"
      if "snd x \<noteq> NaN" "snd y \<noteq> NaN" for x y
      using feq[OF that(1)] irr by (auto simp: scored_less_def)
    from l have "fless (snd b) (snd a) \<or> snd a = snd b \<and> fst a < fst b"
      "fless (snd c) (snd b) \<or> snd b = snd c \<and> fst b < fst c"
      using sl nn ab c by blast+
    then have "fless (snd c) (snd a) \<or> snd a = snd c \<and> fst a < fst c"
      using tr[of "snd c" "snd b" "snd a"] order.strict_trans[of "fst a" "fst b" "fst c"] by fastforce
    then show "scored_less a c" using sl nn ab c by blast
  qed
qed

definition kept_scores :: "GorseSync \<Rightarrow> fl go_map \<Rightarrow> fl go_map" where
  "kept_scores g scores = filter (\<lambda>(name, score). fle (minScore g) score) scores"

lemma kept_total: "distinct (map fst scores) \<Longrightarrow> strict_total_on scored_less (set (kept_scores g scores))"
  by (rule scored_less_total) (auto simp: kept_scores_def distinct_map intro: inj_on_subset)

lemma kept_distinct: "distinct (map fst scores) \<Longrightarrow> distinct (kept_scores g scores)"
  by (simp add: kept_scores_def distinct_map)

lemma topScored_eq:
  "topScored g prefix scores = map (\<lambda>(name, score). prefix @ '':'' @ name)
     (take (nat (maxPerPrefix g)) (sort_slice scored_less (kept_scores g scores)))"
  by (simp add: topScored_def Let_def kept_scores_def)

text \<open>C33. \<^verbatim>\<open>topScored\<close> does not depend on the iteration order of the score map: two maps with the same
  entries give the same labels in the same order. At most \<^verbatim>\<open>maxPerPrefix\<close> labels result, each for a
  preference at or above the threshold, and a preference at or above the threshold that is left out has a
  lower score than, or the same score and a later name than, every preference that is kept; a score that
  is not a number is never kept.\<close>

theorem top_scored_labels:
  assumes "distinct (map fst scores)" and "mset scores = mset scores'" and "0 \<le> maxPerPrefix g"
  shows "topScored g prefix scores = topScored g prefix scores' \<and>
    (\<exists>chosen. topScored g prefix scores = map (\<lambda>(name, score). prefix @ '':'' @ name) chosen \<and>
       int (length chosen) \<le> maxPerPrefix g \<and> distinct (map fst chosen) \<and>
       (\<forall>x\<in>set chosen. x \<in> set scores \<and> fle (minScore g) (snd x)) \<and>
       (\<forall>x\<in>set chosen. \<forall>y\<in>set scores - set chosen. fle (minScore g) (snd y) \<longrightarrow>
          fless (snd y) (snd x) \<or> snd y = snd x \<and> fst x < fst y))"
proof -
  let ?k = "kept_scores g scores" and ?n = "nat (maxPerPrefix g)"
  let ?s = "sort_slice scored_less ?k"
  note tot = kept_total[OF assms(1), of g] and dis = kept_distinct[OF assms(1), of g]
  have "mset (kept_scores g scores') = mset ?k" using assms(2) by (simp add: kept_scores_def)
  then have "sort_slice scored_less (kept_scores g scores') = ?s" by (rule sort_slice_permute[OF tot dis])
  then have "topScored g prefix scores = topScored g prefix scores'" by (simp add: topScored_eq)
  moreover have "\<forall>x\<in>set (take ?n ?s). x \<in> set scores \<and> fle (minScore g) (snd x)"
    using set_take_subset[of ?n ?s] by (auto simp: kept_scores_def)
  moreover have "distinct (map fst (take ?n ?s))"
  proof -
    have "inj_on fst (set scores)" using assms(1) by (simp add: distinct_map)
    then have "inj_on fst (set (take ?n ?s))"
      by (rule inj_on_subset) (use set_take_subset[of ?n ?s] in \<open>auto simp: kept_scores_def\<close>)
    then show ?thesis using dis by (simp add: distinct_map)
  qed
  moreover have "fless (snd y) (snd x) \<or> snd y = snd x \<and> fst x < fst y"
    if x: "x \<in> set (take ?n ?s)" and y: "y \<in> set scores - set (take ?n ?s)" and k: "fle (minScore g) (snd y)" for x y
  proof -
    have "y \<in> set ?s" using y k by (auto simp: kept_scores_def)
    then have "y \<in> set (drop ?n ?s)" using y by (metis DiffD2 UnE append_take_drop_id set_append)
    then have "scored_less x y" by (rule sorted_take_drop[OF sorted_sort_slice[OF tot dis] x])
    then show ?thesis by (cases "snd x") (auto simp: scored_less_def split: if_splits)
  qed
  moreover have "int (length (take ?n ?s)) \<le> maxPerPrefix g" using assms(3) by simp
  ultimately show ?thesis unfolding topScored_eq[of g prefix scores] by blast
qed

theorem top_scored_labels_witness:
  "topScored \<lparr>gs_client = NewGorseClient [] [], minScore = Fin 0, maxPerPrefix = 1\<rparr> ''style''
     [(''a'', Fin 1), (''b'', Fin 2)] =
   topScored \<lparr>gs_client = NewGorseClient [] [], minScore = Fin 0, maxPerPrefix = 1\<rparr> ''style''
     [(''b'', Fin 2), (''a'', Fin 1)]"
  using top_scored_labels[of "[(''a'', Fin 1), (''b'', Fin 2)]" "[(''b'', Fin 2), (''a'', Fin 1)]"
      "\<lparr>gs_client = NewGorseClient [] [], minScore = Fin 0, maxPerPrefix = 1\<rparr>" "''style''"]
  by (simp add: add_mset_commute)

lemma uniqueStrings_loop_eq:
  "uniqueStrings_loop slice (set result) result = fold insert_new (filter (\<lambda>s. s \<noteq> []) slice) result"
proof (induction slice arbitrary: result)
  case (Cons a slice)
  show ?case using Cons[of "result @ [a]"] Cons[of result] by (auto simp: insert_new_def)
qed simp

text \<open>\<^verbatim>\<open>uniqueStrings\<close> drops empty strings and repetitions and keeps the order of first appearance.\<close>

theorem unique_strings:
  "uniqueStrings slice = fold insert_new (filter (\<lambda>s. s \<noteq> []) slice) [] \<and>
   distinct (uniqueStrings slice) \<and> set (uniqueStrings slice) = set slice - {[]}"
  unfolding uniqueStrings_def by (auto simp: uniqueStrings_loop_eq[of _ "[]", simplified] fold_insert_new_distinct)

section \<open>Confidence\<close>

lemma confidence_constants:
  "rnd64 (4 / 5) = Fin (3602879701896397 / 4503599627370496)"
  "rnd64 (1 / 10) = Fin (3602879701896397 / 36028797018963968)"
  using rnd64_eval[of "-1" "4/5" 7205759403792794] rnd64_eval[of "-4" "1/10" 7205759403792794]
  by (simp_all add: rnd_eval_simps)

lemma fadd_tenth:
  assumes "fle (Fin 0) x" and "fle x (Fin y)"
  shows "fle (Fin 0) (fadd x (rnd64 (1 / 10))) \<and> fle (fadd x (rnd64 (1 / 10))) (rnd64 (y + 3602879701896397 / 36028797018963968))"
proof -
  obtain z where z: "x = Fin z" "0 \<le> z" "z \<le> y" using assms by (cases x) auto
  then show ?thesis unfolding confidence_constants
    using rnd_mono[of 53 "z + 3602879701896397 / 36028797018963968" "y + 3602879701896397 / 36028797018963968"]
      rnd_nonneg[of "z + 3602879701896397 / 36028797018963968"] by simp
qed

definition base_conf :: "int \<Rightarrow> fl" where
  "base_conf k = (let b0 = fdiv (of_int64 k) (Fin 20) in if fless (rnd64 (8 / 10)) b0 then rnd64 (8 / 10) else b0)"

lemma base_confidence:
  assumes "0 \<le> n"
  shows "fle (Fin 0) (base_conf n)" and "fle (base_conf n) (rnd64 (8 / 10))"
    and "m \<le> n \<Longrightarrow> 0 \<le> m \<Longrightarrow> fle (base_conf m) (base_conf n)"
proof -
  have nonneg: "fle (Fin 0) (fdiv (of_int64 k) (Fin 20))" if "0 \<le> k" for k
  proof -
    have "fle (Fin 0) (of_int64 k)" using that rnd_nonneg[of "of_int k"] by (simp add: of_int64_def)
    then show ?thesis using rnd_nonneg by (cases "of_int64 k") (auto simp: fsign_inf_def)
  qed
  have mono: "fle (fdiv (of_int64 k) (Fin 20)) (fdiv (of_int64 l) (Fin 20))" if "0 \<le> k" "k \<le> l" for k l
  proof -
    have "fle (of_int64 k) (of_int64 l)" using that by (simp add: of_int64_def rnd_mono)
    then show ?thesis
      by (cases "of_int64 k"; cases "of_int64 l") (auto simp: fsign_inf_def rnd_mono divide_right_mono)
  qed
  have c: "fle (Fin 0) (rnd64 (8 / 10))" by (rule rnd_nonneg) simp
  show "fle (Fin 0) (base_conf n)" using nonneg[OF assms(1)] c by (simp add: base_conf_def Let_def)
  have nn: "fdiv (of_int64 k) (Fin 20) \<noteq> NaN" if "0 \<le> k" for k using nonneg[OF that] by auto
  have r: "rnd64 (8 / 10) \<noteq> NaN" by simp
  show "fle (base_conf n) (rnd64 (8 / 10))"
    using not_fless_fle[OF r nn[OF assms(1)]] fle_refl[OF r] by (simp add: base_conf_def Let_def)
  assume m: "m \<le> n" "0 \<le> m"
  have "fless x y \<Longrightarrow> fle x y" for x y by (simp add: fle_def)
  then show "fle (base_conf m) (base_conf n)"
    using mono[OF m(2,1)] not_fless_fle[OF r nn[OF m(2)]] not_fless_fle[OF r nn[OF assms(1)]] fle_refl[OF r]
      fle_trans[of "rnd64 (8 / 10)" "fdiv (of_int64 m) (Fin 20)"] fless_iff[OF r nn[OF assms(1)]]
      by (auto simp: base_conf_def Let_def)
qed

lemma fadd_tenth_mono:
  assumes "fle (Fin 0) x" and "fle x y"
  shows "fle (fadd x (rnd64 (1 / 10))) (fadd y (rnd64 (1 / 10)))"
  using assms unfolding confidence_constants
  by (cases x; cases y) (auto simp: rnd_mono)

lemma fadd_tenth_nonneg: "fle (Fin 0) x \<Longrightarrow> fle (Fin 0) (fadd x (rnd64 (1 / 10)))"
  unfolding confidence_constants by (cases x) (auto simp: rnd_nonneg)

lemma clamp_mono:
  assumes "fle (Fin 0) x" and "fle x y"
  shows "fle (if fless (Fin 1) x then Fin 1 else x) (if fless (Fin 1) y then Fin 1 else y)"
  using assms by (cases x; cases y) auto

text \<open>C37. The confidence lies between 0 and 1 for every number of messages that is not negative, at most
  0.8 when at most five traits were found, and one message more never lowers it.\<close>

theorem confidence_bounds:
  assumes "0 \<le> m" and "m \<le> n"
  shows "fle (Fin 0) (calculateConfidence td n) \<and> fle (calculateConfidence td n) (Fin 1) \<and>
    fle (calculateConfidence td m) (calculateConfidence td n) \<and>
    (length (StylePreferences td) + length (ColorPreferences td) + length (Occasions td) \<le> 5 \<longrightarrow>
       fle (calculateConfidence td n) (rnd64 (8 / 10)))"
proof -
  let ?c = "length (StylePreferences td) + length (ColorPreferences td) + length (Occasions td)"
  define b2 where "b2 k = (if 5 < ?c then fadd (base_conf k) (rnd64 (1 / 10)) else base_conf k)" for k
  define b3 where "b3 k = (if 10 < ?c then fadd (b2 k) (rnd64 (1 / 10)) else b2 k)" for k
  have conf: "calculateConfidence td k = (if fless (Fin 1) (b3 k) then Fin 1 else b3 k)" for k
    by (simp add: calculateConfidence_def Let_def base_conf_def b2_def b3_def)
  have n: "0 \<le> n" using assms by simp
  note B = base_confidence[OF n] and M = base_confidence[OF assms(1)]
  have pos: "fle (Fin 0) (b3 n)" "fle (Fin 0) (b3 m)"
    using B(1) M(1) by (simp_all add: b3_def b2_def fadd_tenth_nonneg)
  have "fle (b2 m) (b2 n)" "fle (Fin 0) (b2 m)"
    using B(3)[OF assms(2,1)] M(1) by (simp_all add: b2_def fadd_tenth_mono fadd_tenth_nonneg)
  then have "fle (b3 m) (b3 n)" by (simp add: b3_def fadd_tenth_mono)
  then have "fle (calculateConfidence td m) (calculateConfidence td n)"
    unfolding conf using pos(2) by (rule clamp_mono[rotated])
  moreover have "fle (calculateConfidence td n) (Fin 1)" "fle (Fin 0) (calculateConfidence td n)"
    unfolding conf using pos(1) by (cases "b3 n"; auto)+
  moreover have "fle (calculateConfidence td n) (rnd64 (8 / 10))" if "?c \<le> 5"
  proof -
    have "b3 n = base_conf n" using that by (simp add: b3_def b2_def)
    moreover have "fle (base_conf n) (Fin 1)"
      using fle_trans[OF B(2), of "Fin 1"] confidence_constants(1) by simp
    then have "\<not> fless (Fin 1) (base_conf n)" by (cases "base_conf n") auto
    ultimately show ?thesis unfolding conf using B(2) by simp
  qed
  ultimately show ?thesis by simp
qed

theorem confidence_bounds_witness:
  "fle (calculateConfidence empty_traits 7) (Fin 1) \<and> fle (calculateConfidence empty_traits 7) (rnd64 (8 / 10))"
  using confidence_bounds[of 3 7 empty_traits] by (simp add: empty_traits_def)

section \<open>Stored traits\<close>

definition finite_scores :: "fl go_map \<Rightarrow> bool" where
  "finite_scores m \<longleftrightarrow> distinct (map fst m) \<and> (\<forall>(k, v)\<in>set m. \<exists>q. v = Fin q \<and> rnd64 q = Fin q)"

lemma enc_entries:
  "(\<forall>(k, v)\<in>set m. \<exists>q. v = Fin q) \<Longrightarrow>
   fold_res (\<lambda>(k, v) a. rbind (enc_float v) (\<lambda>j. Inr (a @ [(k, j)]))) m a0 =
     Inr (a0 @ map (\<lambda>(k, v). (k, JNum (case v of Fin q \<Rightarrow> q))) m)"
proof (induction m arbitrary: a0)
  case (Cons x m)
  then obtain k q where "x = (k, Fin q)" by (cases x) auto
  then show ?case using Cons by simp
qed simp

lemma dec_entries:
  "finite_scores m \<Longrightarrow> fst ` set m \<inter> fst ` set old = {} \<Longrightarrow>
   dec_float_map (JObj (map (\<lambda>(k, v). (k, JNum (case v of Fin q \<Rightarrow> q))) m)) old = Inr (old @ m)"
proof (induction m arbitrary: old)
  case (Cons x m)
  then obtain k q where x: "x = (k, Fin q)" "rnd64 q = Fin q" by (cases x) (auto simp: finite_scores_def)
  have fs: "finite_scores m" using Cons.prems(1) by (simp add: finite_scores_def)
  have "fst ` set m \<inter> fst ` set (old @ [(k, Fin q)]) = {}"
    using Cons.prems x by (auto simp: finite_scores_def)
  from Cons.IH[OF fs this] show ?case using x Cons.prems(2) by (simp add: gput_new)
qed simp

lemma float_map_round_trip:
  assumes "finite_scores m"
  shows "\<exists>j. enc_float_map m = Inr j \<and> dec_float_map j [] = Inr (sort_key fst m)"
proof -
  let ?s = "sort_key fst m"
  have "mset (map fst ?s) = mset (map fst m)" by simp
  then have "distinct (map fst ?s) = distinct (map fst m)" by (metis mset_eq_imp_distinct_iff)
  then have fs: "finite_scores ?s" using assms by (simp add: finite_scores_def)
  then have "\<forall>(k, v)\<in>set ?s. \<exists>q. v = Fin q" unfolding finite_scores_def by fastforce
  then show ?thesis using enc_entries[of ?s "[]"] dec_entries[OF fs, of "[]"] by (simp add: enc_float_map_def)
qed

lemma TraitsData_names: "plain_names (map fst TraitsData_fields)"
proof -
  have "plain_names [''style_preferences'', ''color_preferences'', ''price_sensitivity'', ''brand_preferences'',
      ''occasions'', ''keywords'', ''interests'']" by code_simp
  then show ?thesis by (simp add: TraitsData_fields_def)
qed

text \<open>Traits with finite scores survive storage: what \<^verbatim>\<open>json.Marshal\<close> writes, \<^verbatim>\<open>json.Unmarshal\<close> reads back
  with the score maps in key order and every other field unchanged; labels computed from the stored traits
  are those of the original ones.\<close>

theorem traits_json_round_trip:
  assumes "finite_scores (StylePreferences td)" and "finite_scores (ColorPreferences td)"
  shows "\<exists>j td'. MarshalTraits td = Inr j \<and> UnmarshalTraits j = Inr td' \<and>
    td' = td\<lparr>StylePreferences := sort_key fst (StylePreferences td),
             ColorPreferences := sort_key fst (ColorPreferences td)\<rparr> \<and>
    (0 \<le> maxPerPrefix g \<longrightarrow> convertTraitsToLabels g td' = convertTraitsToLabels g td)"
proof -
  obtain js jc where j: "enc_float_map (StylePreferences td) = Inr js" "dec_float_map js [] = Inr (sort_key fst (StylePreferences td))"
    "enc_float_map (ColorPreferences td) = Inr jc" "dec_float_map jc [] = Inr (sort_key fst (ColorPreferences td))"
    using float_map_round_trip[OF assms(1)] float_map_round_trip[OF assms(2)] by blast
  let ?td = "td\<lparr>StylePreferences := sort_key fst (StylePreferences td), ColorPreferences := sort_key fst (ColorPreferences td)\<rparr>"
  let ?j = "JObj [(''style_preferences'', js), (''color_preferences'', jc), (''price_sensitivity'', JStr (PriceSensitivity td)),
     (''brand_preferences'', enc_strings (BrandPreferences td)), (''occasions'', enc_strings (Occasions td)),
     (''keywords'', enc_strings (Keywords td)), (''interests'', enc_strings (Interests td))]"
  have ff: "find_field TraitsData_fields ''style_preferences'' = Some (field StylePreferences StylePreferences_update dec_float_map)"
    "find_field TraitsData_fields ''color_preferences'' = Some (field ColorPreferences ColorPreferences_update dec_float_map)"
    "find_field TraitsData_fields ''price_sensitivity'' = Some (field PriceSensitivity PriceSensitivity_update dec_string)"
    "find_field TraitsData_fields ''brand_preferences'' = Some (field BrandPreferences BrandPreferences_update dec_strings)"
    "find_field TraitsData_fields ''occasions'' = Some (field Occasions Occasions_update dec_strings)"
    "find_field TraitsData_fields ''keywords'' = Some (field Keywords Keywords_update dec_strings)"
    "find_field TraitsData_fields ''interests'' = Some (field Interests Interests_update dec_strings)"
    by (subst find_field_plain[OF TraitsData_names]; simp add: TraitsData_fields_def)+
  have "UnmarshalTraits ?j = Inr ?td"
    unfolding UnmarshalTraits_def dec_struct.simps fold_res.simps prod.case ff option.case
    by (simp add: field_def j empty_traits_def)
  moreover have "MarshalTraits td = Inr ?j" by (simp add: MarshalTraits_def j)
  moreover have "topScored g p (sort_key fst m) = topScored g p m" if "finite_scores m" for p m
  proof -
    have d: "distinct (map fst m)" using that by (simp add: finite_scores_def)
    have "mset (kept_scores g (sort_key fst m)) = mset (kept_scores g m)" by (simp add: kept_scores_def)
    from sort_slice_permute[OF kept_total[OF d] kept_distinct[OF d] this] show ?thesis
      unfolding topScored_eq by (simp only:)
  qed
  then have "convertTraitsToLabels g ?td = convertTraitsToLabels g td"
    using assms by (simp add: convertTraitsToLabels_def)
  ultimately show ?thesis by blast
qed

theorem traits_json_round_trip_witness:
  "\<exists>j td'. MarshalTraits (empty_traits\<lparr>StylePreferences := [(''b'', Fin 1), (''a'', Fin 0)]\<rparr>) = Inr j \<and>
     UnmarshalTraits j = Inr td' \<and> StylePreferences td' = [(''a'', Fin 0), (''b'', Fin 1)]"
proof -
  let ?td = "empty_traits\<lparr>StylePreferences := [(''b'', Fin 1), (''a'', Fin 0)]\<rparr>"
  have "finite_scores (StylePreferences ?td)" "finite_scores (ColorPreferences ?td)"
    by (simp_all add: finite_scores_def empty_traits_def)
  from traits_json_round_trip[OF this] obtain j td' where "MarshalTraits ?td = Inr j" "UnmarshalTraits j = Inr td'"
    "td' = ?td\<lparr>StylePreferences := sort_key fst (StylePreferences ?td), ColorPreferences := sort_key fst (ColorPreferences ?td)\<rparr>"
    by blast
  then show ?thesis by (auto simp: less_char_def)
qed

end
