(* ===== verification/Fashion_Api.thy ===== *)
theory Fashion_Api
  imports Fashion_Auth Fashion_Traits
begin

text \<open>
  The HTTP handlers of the fashion front end (\<^verbatim>\<open>fashion-recommend/api\<close>) other than those of
  authentication. A handler gets what it reads of the request as arguments (path and query parameters,
  headers, the outcome of \<^verbatim>\<open>ShouldBindJSON\<close>) and returns the response and the new state: the database and
  the state of the remote services. \<open>env\<close> collects the services of the \<^verbatim>\<open>Server\<close> struct. An absent header
  or parameter is the empty string.
\<close>

record 'w env =
  env_net :: "'w network"
  env_gorse :: GorseClient
  env_llm :: "'w completion"
  env_config :: Config
  env_parse :: "string \<Rightarrow> json option"
  env_lower :: "string \<Rightarrow> string"
  env_tables :: keyword_tables
  env_sync :: GorseSync
  env_fmt2 :: "fl \<Rightarrow> string"
  env_parse_float :: "string \<Rightarrow> fl option"

definition fail_text :: "go_fail \<Rightarrow> string" where
  "fail_text e = (case e of Panic m \<Rightarrow> m | Error m \<Rightarrow> m)"

definition guest_or :: "string \<Rightarrow> string" where
  "guest_or userID = (if userID = [] then ''guest'' else userID)"

section \<open>\<^verbatim>\<open>like_handlers.go\<close>\<close>

text \<open>The outcome of the feedback is only logged.\<close>

definition sendFeedback :: "'w env \<Rightarrow> int \<Rightarrow> string \<Rightarrow> string \<Rightarrow> string \<Rightarrow> 'w \<Rightarrow> 'w" where
  "sendFeedback env now feedbackType userID itemID w =
     snd (InsertFeedback (env_net env) (env_gorse env)
       [\<lparr>FeedbackType = feedbackType, fb_UserId = userID, fb_ItemId = itemID, fb_Value = Fin 0,
         fb_Timestamp = now, fb_Comment = []\<rparr>] w)"

text \<open>A failing count is reported as 0.\<close>

definition count_or_zero :: "string \<Rightarrow> DB \<Rightarrow> int \<times> DB" where
  "count_or_zero itemID db = (case GetProductLikeCount itemID db of (Inl e, db') \<Rightarrow> (0, db') | (Inr n, db') \<Rightarrow> (n, db'))"

definition likeProduct :: "'w env \<Rightarrow> int \<Rightarrow> string \<Rightarrow> string \<Rightarrow> DB \<times> 'w \<Rightarrow> response \<times> DB \<times> 'w" where
  "likeProduct env now itemID header = (\<lambda>(db, w).
     if itemID = [] then (error_response StatusBadRequest ''Item ID is required'', db, w)
     else let userID = guest_or header in
       (case LikeProduct now itemID userID db of
          (Inl e, db1) \<Rightarrow> (error_response StatusInternalServerError ''Failed to like product'', db1, w)
        | (Inr _, db1) \<Rightarrow>
            let w1 = sendFeedback env now ''favorite'' userID itemID w; (n_likes, db2) = count_or_zero itemID db1
            in (ok_response [(''message'', JStr ''Product liked successfully''), (''like_count'', JInt n_likes)], db2, w1)))"

definition unlikeProduct :: "int \<Rightarrow> string \<Rightarrow> string \<Rightarrow> DB \<Rightarrow> response \<times> DB" where
  "unlikeProduct now itemID header db =
     (if itemID = [] then (error_response StatusBadRequest ''Item ID is required'', db)
      else let userID = guest_or header in
        (case UnlikeProduct now itemID userID db of
           (Inl e, db1) \<Rightarrow> (error_response StatusInternalServerError ''Failed to unlike product'', db1)
         | (Inr _, db1) \<Rightarrow>
             let (n_likes, db2) = count_or_zero itemID db1
             in (ok_response [(''message'', JStr ''Product unliked successfully''), (''like_count'', JInt n_likes)], db2)))"

definition getProductLikes :: "string \<Rightarrow> string \<Rightarrow> DB \<Rightarrow> response \<times> DB" where
  "getProductLikes itemID header db =
     (if itemID = [] then (error_response StatusBadRequest ''Item ID is required'', db)
      else let userID = guest_or header in
        (case GetProductLikeCount itemID db of
           (Inl e, db1) \<Rightarrow> (error_response StatusInternalServerError ''Failed to get like count'', db1)
         | (Inr n_likes, db1) \<Rightarrow>
             (case IsProductLiked itemID userID db1 of
                (Inl e, db2) \<Rightarrow> (error_response StatusInternalServerError ''Failed to check like status'', db2)
              | (Inr isLiked, db2) \<Rightarrow>
                  (ok_response [(''item_id'', JStr itemID), (''like_count'', JInt n_likes), (''is_liked'', JBool isLiked)], db2))))"

definition getBatchProductLikes :: "string list option \<Rightarrow> string \<Rightarrow> DB \<Rightarrow> response \<times> DB" where
  "getBatchProductLikes bound header db =
     (case bound of
        None \<Rightarrow> (error_response StatusBadRequest ''Invalid request'', db)
      | Some itemIDs \<Rightarrow>
          (case GetProductsLikeInfo itemIDs (guest_or header) db of
             (Inl e, db1) \<Rightarrow> (error_response StatusInternalServerError ''Failed to get like info'', db1)
           | (Inr info, db1) \<Rightarrow>
               (ok_response [(''likes'', JObj (map (\<lambda>(k, n, b). (k, JObj [(''LikeCount'', JInt n), (''IsLiked'', JBool b)]))
                  (sort_key fst info)))], db1)))"

section \<open>\<^verbatim>\<open>comment_handlers.go\<close>\<close>

record CreateCommentRequest =
  cc_ItemID :: string
  cc_Content :: string
  cc_ParentID :: "int option"
  cc_ReplyToUserID :: "string option"
  cc_ReplyToUsername :: "string option"

definition opt_json :: "('a \<Rightarrow> json) \<Rightarrow> 'a option \<Rightarrow> json" where
  "opt_json f x = (case x of None \<Rightarrow> JNull | Some y \<Rightarrow> f y)"

definition comment_entries :: "('a Comment_scheme) \<Rightarrow> (string \<times> json) list" where
  "comment_entries c =
     [(''id'', JInt (c_ID c)), (''item_id'', JStr (c_ItemID c)), (''user_id'', JStr (c_UserID c)),
      (''username'', JStr (c_Username c)), (''content'', JStr (c_Content c)),
      (''parent_id'', opt_json JInt (c_ParentID c)), (''reply_to_user_id'', opt_json JStr (c_ReplyToUserID c)),
      (''reply_to_username'', opt_json JStr (c_ReplyToUsername c)), (''likes_count'', JInt (c_LikesCount c)),
      (''replies_count'', JInt (c_RepliesCount c)), (''created_at'', JTime (c_CreatedAt c)),
      (''updated_at'', JTime (c_UpdatedAt c))]"

definition comment_json :: "Comment \<Rightarrow> json" where
  "comment_json c = JObj (comment_entries c @ [(''is_liked'', JBool (c_IsLiked c))])"

definition threaded_json :: "ThreadedComment \<Rightarrow> json" where
  "threaded_json c = JObj (comment_entries c @
     (if c_Replies c = [] then [] else [(''replies'', JArr (map comment_json (c_Replies c)))]) @
     [(''is_liked'', JBool (c_IsLiked c))])"

definition bad_request_text :: string where
  "bad_request_text = [CHR 0xE8, CHR 0xAF, CHR 0xB7, CHR 0xE6, CHR 0xB1, CHR 0x82, CHR 0xE5, CHR 0x8F, CHR 0x82, CHR 0xE6, CHR 0x95, CHR 0xB0, CHR 0xE9, CHR 0x94, CHR 0x99, CHR 0xE8, CHR 0xAF, CHR 0xAF]"

definition not_logged_in :: string where
  "not_logged_in = [CHR 0xE6, CHR 0x9C, CHR 0xAA, CHR 0xE7, CHR 0x99, CHR 0xBB, CHR 0xE5, CHR 0xBD, CHR 0x95]"

definition request_comment :: "CreateCommentRequest \<Rightarrow> string \<Rightarrow> Comment" where
  "request_comment req userID =
     \<lparr>c_ID = 0, c_ItemID = cc_ItemID req, c_UserID = userID, c_Username = userID, c_Content = cc_Content req,
      c_ParentID = cc_ParentID req, c_ReplyToUserID = cc_ReplyToUserID req,
      c_ReplyToUsername = cc_ReplyToUsername req, c_LikesCount = 0, c_RepliesCount = 0, c_CreatedAt = 0,
      c_UpdatedAt = 0, c_IsLiked = False\<rparr>"

definition createComment :: "int \<Rightarrow> string + CreateCommentRequest \<Rightarrow> string \<Rightarrow> DB \<Rightarrow> response \<times> DB" where
  "createComment now bound userID db =
     (case bound of
        Inl err \<Rightarrow> (\<lparr>status = StatusBadRequest,
            body = JObj [(''error'', JStr bad_request_text), (''details'', JStr err)]\<rparr>, db)
      | Inr req \<Rightarrow>
          if userID = [] then (error_response StatusUnauthorized not_logged_in, db)
          else (case CreateComment now (request_comment req userID) db of
                  (Inl e, db1) \<Rightarrow> (error_response StatusInternalServerError ([CHR 0xE5, CHR 0x88, CHR 0x9B, CHR 0xE5, CHR 0xBB, CHR 0xBA, CHR 0xE8, CHR 0xAF, CHR 0x84, CHR 0xE8, CHR 0xAE, CHR 0xBA, CHR 0xE5, CHR 0xA4, CHR 0xB1, CHR 0xE8, CHR 0xB4, CHR 0xA5]), db1)
                | (Inr c, db1) \<Rightarrow> (\<lparr>status = StatusOK, body = comment_json c\<rparr>, db1)))"

text \<open>An unreadable number is 0: the error of \<^verbatim>\<open>Atoi\<close> is dropped, with the value it returns (the nearest
  bound for a number out of range).\<close>

definition atoi_value :: "string \<Rightarrow> int" where
  "atoi_value s =
     (case atoi s of Some n \<Rightarrow> n
      | None \<Rightarrow>
          let neg = (s \<noteq> [] \<and> hd s = CHR ''-'');
              t = (if s \<noteq> [] \<and> (hd s = CHR ''-'' \<or> hd s = CHR ''+'') then tl s else s)
          in if t \<noteq> [] \<and> digits_val 0 t \<noteq> None then (if neg then - (2 ^ 63) else 2 ^ 63 - 1) else 0)"

definition query_or :: "string \<Rightarrow> string option \<Rightarrow> string" where
  "query_or d q = (case q of None \<Rightarrow> d | Some v \<Rightarrow> v)"

definition getComments :: "string \<Rightarrow> string \<Rightarrow> string option \<Rightarrow> string option \<Rightarrow> DB \<Rightarrow> response \<times> DB" where
  "getComments itemID header limit_q offset_q db =
     (if itemID = [] then (error_response StatusBadRequest ([CHR 0xE5, CHR 0x95, CHR 0x86, CHR 0xE5, CHR 0x93, CHR 0x81] @ '' ID '' @ [CHR 0xE4, CHR 0xB8, CHR 0x8D, CHR 0xE8, CHR 0x83, CHR 0xBD, CHR 0xE4, CHR 0xB8, CHR 0xBA, CHR 0xE7, CHR 0xA9, CHR 0xBA]), db)
      else let userID = guest_or header; lmt = atoi_value (query_or ''20'' limit_q);
               ofs = atoi_value (query_or ''0'' offset_q)
           in (case GetComments itemID userID lmt ofs db of
                 (Inl e, db1) \<Rightarrow> (error_response StatusInternalServerError ([CHR 0xE8, CHR 0x8E, CHR 0xB7, CHR 0xE5, CHR 0x8F, CHR 0x96, CHR 0xE8, CHR 0xAF, CHR 0x84, CHR 0xE8, CHR 0xAE, CHR 0xBA, CHR 0xE5, CHR 0xA4, CHR 0xB1, CHR 0xE8, CHR 0xB4, CHR 0xA5]), db1)
               | (Inr cs, db1) \<Rightarrow>
                   (case GetCommentCount itemID db1 of
                      (r, db2) \<Rightarrow> (ok_response [(''comments'', if cs = [] then JNull else JArr (map threaded_json cs)),
                         (''total'', JInt (case r of Inl e \<Rightarrow> 0 | Inr n \<Rightarrow> n))], db2))))"

definition likeComment :: "int \<Rightarrow> string \<Rightarrow> string \<Rightarrow> DB \<Rightarrow> response \<times> DB" where
  "likeComment now commentIDStr userID db =
     (case atoi commentIDStr of
        None \<Rightarrow> (error_response StatusBadRequest ([CHR 0xE8, CHR 0xAF, CHR 0x84, CHR 0xE8, CHR 0xAE, CHR 0xBA] @ '' ID '' @ [CHR 0xE6, CHR 0x97, CHR 0xA0, CHR 0xE6, CHR 0x95, CHR 0x88]), db)
      | Some commentID \<Rightarrow>
          if userID = [] then (error_response StatusUnauthorized not_logged_in, db)
          else (case LikeComment now commentID userID db of
                  (Inl e, db1) \<Rightarrow> (error_response StatusInternalServerError ([CHR 0xE7, CHR 0x82, CHR 0xB9, CHR 0xE8, CHR 0xB5, CHR 0x9E, CHR 0xE5, CHR 0xA4, CHR 0xB1, CHR 0xE8, CHR 0xB4, CHR 0xA5]), db1)
                | (Inr _, db1) \<Rightarrow> (ok_response [(''message'', JStr ([CHR 0xE7, CHR 0x82, CHR 0xB9, CHR 0xE8, CHR 0xB5, CHR 0x9E, CHR 0xE6, CHR 0x88, CHR 0x90, CHR 0xE5, CHR 0x8A, CHR 0x9F]))], db1)))"

definition unlikeComment :: "int \<Rightarrow> string \<Rightarrow> string \<Rightarrow> DB \<Rightarrow> response \<times> DB" where
  "unlikeComment now commentIDStr userID db =
     (case atoi commentIDStr of
        None \<Rightarrow> (error_response StatusBadRequest ([CHR 0xE8, CHR 0xAF, CHR 0x84, CHR 0xE8, CHR 0xAE, CHR 0xBA] @ '' ID '' @ [CHR 0xE6, CHR 0x97, CHR 0xA0, CHR 0xE6, CHR 0x95, CHR 0x88]), db)
      | Some commentID \<Rightarrow>
          if userID = [] then (error_response StatusUnauthorized not_logged_in, db)
          else (case UnlikeComment now commentID userID db of
                  (Inl e, db1) \<Rightarrow> (error_response StatusInternalServerError ([CHR 0xE5, CHR 0x8F, CHR 0x96, CHR 0xE6, CHR 0xB6, CHR 0x88, CHR 0xE7, CHR 0x82, CHR 0xB9, CHR 0xE8, CHR 0xB5, CHR 0x9E, CHR 0xE5, CHR 0xA4, CHR 0xB1, CHR 0xE8, CHR 0xB4, CHR 0xA5]), db1)
                | (Inr _, db1) \<Rightarrow> (ok_response [(''message'', JStr ([CHR 0xE5, CHR 0x8F, CHR 0x96, CHR 0xE6, CHR 0xB6, CHR 0x88, CHR 0xE7, CHR 0x82, CHR 0xB9, CHR 0xE8, CHR 0xB5, CHR 0x9E, CHR 0xE6, CHR 0x88, CHR 0x90, CHR 0xE5, CHR 0x8A, CHR 0x9F]))], db1)))"

section \<open>\<^verbatim>\<open>ai_handlers.go\<close>\<close>

record ChatRequest =
  chat_Message :: string
  chat_History :: "ChatCompletionMessage list"

record ExplainRequest =
  ex_Username :: string
  ex_ItemID :: string
  ex_UserPreferences :: "string list"

record StyleAdviceRequest =
  sa_Items :: "string list"
  sa_Occasion :: string

definition generateSessionID :: "string \<Rightarrow> string" where
  "generateSessionID rand = hex_encode (take 16 rand)"

definition new_message :: "string \<Rightarrow> string \<Rightarrow> string \<Rightarrow> string \<Rightarrow> AIMessage" where
  "new_message sessionID userID role content =
     \<lparr>msg_ID = 0, msg_SessionID = sessionID, msg_UserID = userID, msg_Role = role, msg_Content = content,
      msg_CreatedAt = 0, msg_TokensUsed = 0\<rparr>"

text \<open>The goroutine started after the answer: its errors are only printed.\<close>

definition extract_in_background :: "'w env \<Rightarrow> int \<Rightarrow> string \<Rightarrow> string \<Rightarrow> DB \<times> 'w \<Rightarrow> DB \<times> 'w" where
  "extract_in_background env now userID sessionID = (\<lambda>(db, w).
     case GetConversationMessages sessionID 100 db of
       (Inl e, db1) \<Rightarrow> (db1, w)
     | (Inr messages, db1) \<Rightarrow>
         if length messages < 2 then (db1, w)
         else snd (SyncUserTraitsToGorse (env_net env) (env_fmt2 env) (env_sync env) userID
                (snd (AnalyzeAndSave (env_llm env) (env_parse env) (env_lower env) (env_tables env) (env_config env)
                   now userID sessionID messages (db1, w)))))"

text \<open>The flag of the result says whether the background extraction is started, for the user and session
  that follow it. \<open>t0\<close>, \<open>t1\<close>, \<open>t2\<close> are the times of the three statements.\<close>

definition aiChat :: "'w env \<Rightarrow> string \<Rightarrow> int \<Rightarrow> int \<Rightarrow> int \<Rightarrow> ChatRequest option \<Rightarrow> string \<Rightarrow> string \<Rightarrow> DB \<times> 'w \<Rightarrow>
    response \<times> (string \<times> string) option \<times> DB \<times> 'w" where
  "aiChat env rand t0 t1 t2 bound user_header session_header = (\<lambda>(db, w).
     case bound of
       None \<Rightarrow> (error_response StatusBadRequest bad_request_text, None, db, w)
     | Some req \<Rightarrow>
         let userID = guest_or user_header;
             sessionID = (if session_header = [] then generateSessionID rand else session_header);
             db0 = snd (CreateConversation t0 userID sessionID (''AI '' @ [CHR 0xE5, CHR 0xAF, CHR 0xB9, CHR 0xE8, CHR 0xAF, CHR 0x9D]) db)
         in (case SaveMessage t1 (new_message sessionID userID ''user'' (chat_Message req)) db0 of
               (Inl e, db1) \<Rightarrow> (error_response StatusInternalServerError ([CHR 0xE4, CHR 0xBF, CHR 0x9D, CHR 0xE5, CHR 0xAD, CHR 0x98, CHR 0xE6, CHR 0xB6, CHR 0x88, CHR 0xE6, CHR 0x81, CHR 0xAF, CHR 0xE5, CHR 0xA4, CHR 0xB1, CHR 0xE8, CHR 0xB4, CHR 0xA5]), None, db1, w)
             | (Inr _, db1) \<Rightarrow>
                 (case ChatWithAssistant (env_llm env) (env_config env) (chat_Message req) (chat_History req) w of
                    (Inl e, w1) \<Rightarrow> (error_response StatusInternalServerError (fail_text e), None, db1, w1)
                  | (Inr reply, w1) \<Rightarrow>
                      (case SaveMessage t2 (new_message sessionID userID ''assistant'' reply) db1 of
                         (Inl e, db2) \<Rightarrow> (error_response StatusInternalServerError ([CHR 0xE4, CHR 0xBF, CHR 0x9D, CHR 0xE5, CHR 0xAD, CHR 0x98] @ '' AI '' @ [CHR 0xE5, CHR 0x9B, CHR 0x9E, CHR 0xE5, CHR 0xA4, CHR 0x8D, CHR 0xE5, CHR 0xA4, CHR 0xB1, CHR 0xE8, CHR 0xB4, CHR 0xA5]), None, db2, w1)
                       | (Inr _, db2) \<Rightarrow>
                           (ok_response [(''message'', JStr reply), (''session_id'', JStr sessionID)],
                            Some (userID, sessionID), db2, w1)))))"

definition aiExplainRecommendation :: "'w env \<Rightarrow> ExplainRequest option \<Rightarrow> 'w \<Rightarrow> response \<times> 'w" where
  "aiExplainRecommendation env bound w =
     (case bound of
        None \<Rightarrow> (error_response StatusBadRequest bad_request_text, w)
      | Some req \<Rightarrow>
          (case ExplainRecommendation (env_llm env) (env_config env) (ex_Username req) (ex_ItemID req)
                  (ex_UserPreferences req) w of
             (Inl e, w1) \<Rightarrow> (error_response StatusInternalServerError (fail_text e), w1)
           | (Inr explanation, w1) \<Rightarrow> (ok_response [(''explanation'', JStr explanation)], w1)))"

definition aiStyleAdvice :: "'w env \<Rightarrow> StyleAdviceRequest option \<Rightarrow> 'w \<Rightarrow> response \<times> 'w" where
  "aiStyleAdvice env bound w =
     (case bound of
        None \<Rightarrow> (error_response StatusBadRequest bad_request_text, w)
      | Some req \<Rightarrow>
          (case GenerateStyleAdvice (env_llm env) (env_config env) (sa_Items req) (sa_Occasion req) w of
             (Inl e, w1) \<Rightarrow> (error_response StatusInternalServerError (fail_text e), w1)
           | (Inr advice, w1) \<Rightarrow> (ok_response [(''advice'', JStr advice)], w1)))"

section \<open>\<^verbatim>\<open>server.go\<close>\<close>

definition createUser :: "'w env \<Rightarrow> string + Fashion_Client.User \<Rightarrow> 'w \<Rightarrow> response \<times> 'w" where
  "createUser env bound w =
     (case bound of
        Inl err \<Rightarrow> (error_response StatusBadRequest err, w)
      | Inr user \<Rightarrow>
          (case InsertUser (env_net env) (env_gorse env) user w of
             (Inl e, w1) \<Rightarrow> (error_response StatusInternalServerError (fail_text e), w1)
           | (Inr _, w1) \<Rightarrow> (ok_response [(''message'', JStr ''user created successfully''), (''user_id'', JStr (UserId user))], w1)))"

definition getUser :: "'w env \<Rightarrow> string \<Rightarrow> 'w \<Rightarrow> response \<times> 'w" where
  "getUser env userId w =
     (case client_GetUser (env_net env) (env_gorse env) userId w of
        (Inl e, w1) \<Rightarrow> (error_response StatusNotFound (fail_text e), w1)
      | (Inr user, w1) \<Rightarrow> (\<lparr>status = StatusOK, body = User_json user\<rparr>, w1))"

definition createUsers :: "'w env \<Rightarrow> string + Fashion_Client.User list \<Rightarrow> 'w \<Rightarrow> response \<times> 'w" where
  "createUsers env bound w =
     (case bound of
        Inl err \<Rightarrow> (error_response StatusBadRequest err, w)
      | Inr us \<Rightarrow>
          (case InsertUsers (env_net env) (env_gorse env) us w of
             (Inl e, w1) \<Rightarrow> (error_response StatusInternalServerError (fail_text e), w1)
           | (Inr _, w1) \<Rightarrow> (ok_response [(''message'', JStr ''users created successfully''), (''count'', JInt (int (length us)))], w1)))"

definition createItem :: "'w env \<Rightarrow> string + Item \<Rightarrow> 'w \<Rightarrow> response \<times> 'w" where
  "createItem env bound w =
     (case bound of
        Inl err \<Rightarrow> (error_response StatusBadRequest err, w)
      | Inr item \<Rightarrow>
          (case InsertItem (env_net env) (env_gorse env) item w of
             (Inl e, w1) \<Rightarrow> (error_response StatusInternalServerError (fail_text e), w1)
           | (Inr _, w1) \<Rightarrow> (ok_response [(''message'', JStr ''item created successfully''), (''item_id'', JStr (ItemId item))], w1)))"

definition getItem :: "'w env \<Rightarrow> string \<Rightarrow> 'w \<Rightarrow> response \<times> 'w" where
  "getItem env itemId w =
     (case GetItem (env_net env) (env_gorse env) itemId w of
        (Inl e, w1) \<Rightarrow> (error_response StatusNotFound (fail_text e), w1)
      | (Inr item, w1) \<Rightarrow> (\<lparr>status = StatusOK, body = Item_json item\<rparr>, w1))"

definition createItems :: "'w env \<Rightarrow> string + Item list \<Rightarrow> 'w \<Rightarrow> response \<times> 'w" where
  "createItems env bound w =
     (case bound of
        Inl err \<Rightarrow> (error_response StatusBadRequest err, w)
      | Inr items \<Rightarrow>
          (case InsertItems (env_net env) (env_gorse env) items w of
             (Inl e, w1) \<Rightarrow> (error_response StatusInternalServerError (fail_text e), w1)
           | (Inr _, w1) \<Rightarrow> (ok_response [(''message'', JStr ''items created successfully''), (''count'', JInt (int (length items)))], w1)))"

definition createFeedback :: "'w env \<Rightarrow> string + Feedback list \<Rightarrow> 'w \<Rightarrow> response \<times> 'w" where
  "createFeedback env bound w =
     (case bound of
        Inl err \<Rightarrow> (error_response StatusBadRequest err, w)
      | Inr feedback \<Rightarrow>
          (case InsertFeedback (env_net env) (env_gorse env) feedback w of
             (Inl e, w1) \<Rightarrow> (error_response StatusInternalServerError (fail_text e), w1)
           | (Inr _, w1) \<Rightarrow> (ok_response [(''message'', JStr ''feedback created successfully''), (''count'', JInt (int (length feedback)))], w1)))"

record EnrichedItem =
  en_ItemId :: string
  en_Score :: fl
  en_Name :: string
  en_Price :: fl
  en_PriceRange :: string
  en_AvgRating :: fl

definition enrich :: "'w env \<Rightarrow> RecommendItem \<Rightarrow> 'w \<Rightarrow> EnrichedItem \<times> 'w" where
  "enrich env rec w =
     (let item = \<lparr>en_ItemId = rec_ItemId rec, en_Score = rec_Score rec, en_Name = [], en_Price = Fin 0,
                  en_PriceRange = [], en_AvgRating = Fin 0\<rparr>
      in (case GetItem (env_net env) (env_gorse env) (rec_ItemId rec) w of
            (Inl e, w1) \<Rightarrow> (item, w1)
          | (Inr full, w1) \<Rightarrow>
              let carrier = ParseItemCarrier (env_parse env) (ItemComment full)
              in (item\<lparr>en_Name := carrier_Name carrier,
                      en_Price := (case carrier_Price carrier of Some p \<Rightarrow> p | None \<Rightarrow> Fin 0),
                      en_PriceRange := PriceRange (Labels full),
                      en_AvgRating := (case env_parse_float env (AvgRating (Labels full)) of Some r \<Rightarrow> r | None \<Rightarrow> Fin 0)\<rparr>,
                  w1)))"

fun enrich_all :: "'w env \<Rightarrow> RecommendItem list \<Rightarrow> 'w \<Rightarrow> EnrichedItem list \<times> 'w" where
  "enrich_all env [] w = ([], w)"
| "enrich_all env (rec # recs) w =
     (if rec_ItemId rec = [] then enrich_all env recs w
      else let (item, w1) = enrich env rec w; (items, w2) = enrich_all env recs w1 in (item # items, w2))"

definition enriched_json :: "EnrichedItem \<Rightarrow> go_fail + json" where
  "enriched_json e =
     rbind (enc_float (en_Score e)) (\<lambda>score. rbind (enc_float (en_Price e)) (\<lambda>price.
     rbind (enc_float (en_AvgRating e)) (\<lambda>rating.
       Inr (JObj [(''item_id'', JStr (en_ItemId e)), (''score'', score), (''name'', JStr (en_Name e)),
         (''price'', price), (''price_range'', JStr (en_PriceRange e)), (''avg_rating'', rating)]))))"

definition json_list :: "('a \<Rightarrow> go_fail + json) \<Rightarrow> 'a list \<Rightarrow> go_fail + json" where
  "json_list f xs = rbind (fold_res (\<lambda>x acc. rbind (f x) (\<lambda>j. Inr (acc @ [j]))) xs []) (\<lambda>js. Inr (JArr js))"

text \<open>A score that JSON cannot express makes the rendering of the response fail.\<close>

definition getRecommend :: "'w env \<Rightarrow> string \<Rightarrow> string \<Rightarrow> string option \<Rightarrow> 'w \<Rightarrow> (go_fail + response) \<times> 'w" where
  "getRecommend env userId category n_q w =
     (case GetRecommend (env_net env) (env_gorse env) userId category (atoi_value (query_or ''10'' n_q)) w of
        (Inl e, w1) \<Rightarrow> (Inr (error_response StatusInternalServerError (fail_text e)), w1)
      | (Inr recommended, w1) \<Rightarrow>
          let (enriched, w2) = enrich_all env recommended w1
          in (rbind (json_list enriched_json enriched) (\<lambda>items.
                Inr (ok_response [(''user_id'', JStr userId), (''items'', items),
                  (''total'', JInt (int (length enriched)))])), w2))"

definition recommend_json :: "RecommendItem \<Rightarrow> go_fail + json" where
  "recommend_json r = rbind (enc_float (rec_Score r)) (\<lambda>score.
     Inr (JObj ([(''item_id'', JStr (rec_ItemId r)), (''score'', score)] @
       (if rec_Categories r = [] then [] else [(''categories'', enc_strings (rec_Categories r))]))))"

definition getSimilarItems :: "'w env \<Rightarrow> string \<Rightarrow> string option \<Rightarrow> 'w \<Rightarrow> (go_fail + response) \<times> 'w" where
  "getSimilarItems env itemId n_q w =
     (case GetItemNeighbors (env_net env) (env_gorse env) itemId (atoi_value (query_or ''10'' n_q)) w of
        (Inl e, w1) \<Rightarrow> (Inr (error_response StatusInternalServerError (fail_text e)), w1)
      | (Inr items, w1) \<Rightarrow>
          (rbind (json_list recommend_json items) (\<lambda>js.
             Inr (ok_response [(''item_id'', JStr itemId), (''items'', js), (''total'', JInt (int (length items)))])), w1))"

definition healthCheck :: response where
  "healthCheck = ok_response [(''status'', JStr ''ok''), (''service'', JStr ''fashion-recommend-api'')]"

section \<open>Properties\<close>

lemma LikeProduct_no_faults:
  assumes "faults db = []"
  shows "\<exists>db'. LikeProduct now itemID u db = (Inr (), db') \<and> faults db' = []"
  using assms by (auto simp: LikeProduct_def transaction_def qbind_def qreturn_def stmt_def insert_product_like_def
      update_stats_def Let_def)

text \<open>C14. On a working database \<^verbatim>\<open>likeProduct\<close> answers 200 with the number of users who like the product now,
  the caller included (an absent user header counts as the user \<^verbatim>\<open>guest\<close>), and leaves the same database
  behind whatever the Gorse service does with the feedback: the answer and the stored data do not depend
  on the network.\<close>

theorem like_product_response:
  assumes "product_inv (tabs db)" and "faults db = []" and "itemID \<noteq> []"
  shows "\<exists>db'. product_inv (tabs db') \<and> (\<forall>env w. \<exists>w'. likeProduct env now itemID header (db, w) =
    (ok_response [(''message'', JStr ''Product liked successfully''),
       (''like_count'', JInt (int (card (insert (guest_or header) (product_likers (tabs db) itemID)))))], db', w'))"
proof -
  obtain db' where l: "LikeProduct now itemID (guest_or header) db = (Inr (), db')" "faults db' = []"
    using LikeProduct_no_faults[OF assms(2)] by blast
  note i = LikeProduct_Inr[OF assms(1) l(1)]
  have c: "count_or_zero itemID db' = (int (card (insert (guest_or header) (product_likers (tabs db) itemID))), db')"
    using i l(2) by (simp add: count_or_zero_def GetProductLikeCount_def stmt_no_faults product_inv_def product_stored_def)
  show ?thesis
    by (rule exI[of _ db']) (use i l c assms(3) in \<open>simp add: likeProduct_def Let_def\<close>)
qed

theorem like_product_response_witness:
  "\<exists>db'. product_inv (tabs db') \<and> (\<forall>env w. \<exists>w'. likeProduct (env :: nat env) 1 ''shoe'' [] (empty_db [], w) =
    (ok_response [(''message'', JStr ''Product liked successfully''), (''like_count'', JInt 1)], db', w'))"
proof -
  have "product_likers (tabs (empty_db [])) ''shoe'' = {}" by (simp add: product_likers_def empty_db_def)
  moreover have "faults (empty_db []) = []" by (simp add: empty_db_def)
  ultimately show ?thesis
    using like_product_response[where db = "empty_db []" and itemID = "''shoe''" and now = 1 and header = "[]"]
      empty_db_inv(1)[of "[]"] by simp
qed

text \<open>\<^verbatim>\<open>getBatchProductLikes\<close> answers every well-formed request that names at least one item with the
  status 500, on every state of the database.\<close>

theorem batch_likes_unavailable:
  assumes "itemIDs \<noteq> []"
  shows "status (fst (getBatchProductLikes (Some itemIDs) header db)) = StatusInternalServerError"
  using assms
  by (auto simp: getBatchProductLikes_def GetProductsLikeInfo_def columns_of_s_def error_response_def stmt_def
      split: list.splits)

theorem batch_likes_unavailable_witness:
  "status (fst (getBatchProductLikes (Some [''shoe'']) [] (empty_db []))) = StatusInternalServerError"
  using batch_likes_unavailable[of "[''shoe'']" "[]" "empty_db []"] by simp

text \<open>What \<^verbatim>\<open>aiChat\<close> leaves in the message table of a working database: the user's message always; then,
  exactly if the language model answers, the assistant's message behind it, the answer 200 with that
  message, and the trait extraction started for this user and session. If the model fails, the answer is
  500 and no extraction is started.\<close>

theorem ai_chat_messages:
  assumes "faults db = []"
    and "aiChat env rand t0 t1 t2 (Some req) user_header session_header (db, w) = (resp, started, db', w')"
  shows "let user = guest_or user_header;
      session = (if session_header = [] then generateSessionID rand else session_header);
      rows = map (\<lambda>m. (msg_SessionID m, msg_UserID m, msg_Role m, msg_Content m));
      asked = rows (ai_messages (tabs db)) @ [(session, user, ''user'', chat_Message req)]
    in case fst (ChatWithAssistant (env_llm env) (env_config env) (chat_Message req) (chat_History req) w) of
         Inl e \<Rightarrow> status resp = StatusInternalServerError \<and> started = None \<and> rows (ai_messages (tabs db')) = asked
       | Inr reply \<Rightarrow> resp = ok_response [(''message'', JStr reply), (''session_id'', JStr session)] \<and>
           started = Some (user, session) \<and>
           rows (ai_messages (tabs db')) = asked @ [(session, user, ''assistant'', reply)]"
proof -
  have create: "ai_messages (tabs (snd (CreateConversation t u s ti db))) = ai_messages (tabs db) \<and>
      faults (snd (CreateConversation t u s ti db)) = []" for t u s ti
    using assms(1) by (simp add: CreateConversation_def stmt_no_faults Let_def)
  have save: "\<exists>d'. SaveMessage t (new_message s u r c) d = (Inr (), d') \<and> faults d' = [] \<and>
      map (\<lambda>m. (msg_SessionID m, msg_UserID m, msg_Role m, msg_Content m)) (ai_messages (tabs d')) =
      map (\<lambda>m. (msg_SessionID m, msg_UserID m, msg_Role m, msg_Content m)) (ai_messages (tabs d)) @ [(s, u, r, c)]"
    if "faults d = []" for t s u r c d
    using that by (simp add: SaveMessage_def qbind_def insert_message_def count_message_def stmt_no_faults Let_def
        new_message_def)
  define user where "user = guest_or user_header"
  define session where "session = (if session_header = [] then generateSessionID rand else session_header)"
  define db0 where "db0 = snd (CreateConversation t0 user session (''AI '' @ [CHR 0xE5, CHR 0xAF, CHR 0xB9, CHR 0xE8, CHR 0xAF, CHR 0x9D]) db)"
  have f0: "faults db0 = []" and m0: "ai_messages (tabs db0) = ai_messages (tabs db)" using create by (simp_all add: db0_def)
  obtain d1 where d1: "SaveMessage t1 (new_message session user ''user'' (chat_Message req)) db0 = (Inr (), d1)" "faults d1 = []"
    "map (\<lambda>m. (msg_SessionID m, msg_UserID m, msg_Role m, msg_Content m)) (ai_messages (tabs d1)) =
     map (\<lambda>m. (msg_SessionID m, msg_UserID m, msg_Role m, msg_Content m)) (ai_messages (tabs db)) @ [(session, user, ''user'', chat_Message req)]"
    using save[OF f0] m0 by fastforce
  obtain r w1 where chat: "ChatWithAssistant (env_llm env) (env_config env) (chat_Message req) (chat_History req) w = (r, w1)"
    by (cases "ChatWithAssistant (env_llm env) (env_config env) (chat_Message req) (chat_History req) w")
  note run = assms(2)[unfolded aiChat_def Let_def prod.case option.case user_def[symmetric] session_def[symmetric] db0_def[symmetric] d1(1) sum.case chat]
  show ?thesis
  proof (cases r)
    case (Inl e)
    then show ?thesis using run d1(3) chat
      by (auto simp: Let_def user_def[symmetric] session_def[symmetric] error_response_def)
  next
    case (Inr reply)
    obtain d2 where "SaveMessage t2 (new_message session user ''assistant'' reply) d1 = (Inr (), d2)"
      "map (\<lambda>m. (msg_SessionID m, msg_UserID m, msg_Role m, msg_Content m)) (ai_messages (tabs d2)) =
       map (\<lambda>m. (msg_SessionID m, msg_UserID m, msg_Role m, msg_Content m)) (ai_messages (tabs d1)) @ [(session, user, ''assistant'', reply)]"
      using save[OF d1(2)] by fastforce
    then show ?thesis using run d1(3) chat Inr
      by (auto simp: Let_def user_def[symmetric] session_def[symmetric])
  qed
qed

definition sample_env :: "nat env" where
  "sample_env = \<lparr>env_net = \<lparr>url_ok = (\<lambda>_. True), serve = (\<lambda>r w. (Inr \<lparr>rp_status = 200, rp_text = [], rp_json =
       Some (JArr [JStr ''x'', JStr [], JStr ''y''])\<rparr>, w + 1))\<rparr>, env_gorse = NewGorseClient ''g'' [],
     env_llm = (\<lambda>_ _ w. (Inr [''hi''], w)), env_config = \<lparr>cfg_APIKey = [], cfg_BaseURL = [], cfg_Model = [],
       cfg_MaxTokens = 0, cfg_Temperature = Fin 0\<rparr>, env_parse = (\<lambda>_. None), env_lower = (\<lambda>s. s),
     env_tables = \<lparr>kt_style = [], kt_color = [], kt_occasion = [], kt_price = []\<rparr>,
     env_sync = \<lparr>gs_client = NewGorseClient ''g'' [], minScore = Fin 0, maxPerPrefix = 5\<rparr>,
     env_fmt2 = (\<lambda>_. []), env_parse_float = (\<lambda>_. None)\<rparr>"

theorem ai_chat_messages_witness:
  "\<exists>resp started db' w'. aiChat sample_env ''r'' 1 2 3 (Some \<lparr>chat_Message = ''hello'', chat_History = []\<rparr>) ''ann'' ''s1''
       (empty_db [], 0) = (resp, started, db', w') \<and> started = Some (''ann'', ''s1'') \<and>
     map msg_Content (ai_messages (tabs db')) = [''hello'', ''hi'']"
proof -
  let ?req = "\<lparr>chat_Message = ''hello'', chat_History = []\<rparr>"
  let ?run = "aiChat sample_env ''r'' 1 2 3 (Some ?req) ''ann'' ''s1'' (empty_db [], 0)"
  obtain resp started db' w' where run: "?run = (resp, started, db', w')" by (cases ?run)
  have f: "faults (empty_db []) = []" and e: "ai_messages (tabs (empty_db [])) = []" by (simp_all add: empty_db_def)
  have "fst (ChatWithAssistant (env_llm sample_env) (env_config sample_env) (chat_Message ?req) (chat_History ?req) 0) = Inr ''hi''"
    by (simp add: ChatWithAssistant_def Chat_def sample_env_def)
  with ai_chat_messages[OF f run] e
  have "started = Some (''ann'', ''s1'') \<and> map (\<lambda>m. (msg_SessionID m, msg_UserID m, msg_Role m, msg_Content m)) (ai_messages (tabs db')) =
      [(''s1'', ''ann'', ''user'', ''hello''), (''s1'', ''ann'', ''assistant'', ''hi'')]"
    by (simp add: Let_def guest_or_def)
  then have "started = Some (''ann'', ''s1'')" "map msg_Content (ai_messages (tabs db')) = [''hello'', ''hi'']" by auto
  with run show ?thesis by (intro exI[of _ resp] exI[of _ started] exI[of _ db'] exI[of _ w']) simp
qed

lemma enrich_all_ids:
  "map en_ItemId (fst (enrich_all env recs w)) = filter (\<lambda>i. i \<noteq> []) (map rec_ItemId recs) \<and>
   map en_Score (fst (enrich_all env recs w)) = map rec_Score (filter (\<lambda>r. rec_ItemId r \<noteq> []) recs)"
proof (induction env recs w rule: enrich_all.induct)
  case (2 env rec recs w)
  have e: "en_ItemId (fst (enrich env rec w)) = rec_ItemId rec \<and> en_Score (fst (enrich env rec w)) = rec_Score rec"
    by (simp add: enrich_def Let_def split: prod.splits sum.splits)
  show ?case
  proof (cases "rec_ItemId rec = []")
    case True
    then show ?thesis using 2(1) by simp
  next
    case False
    obtain item w1 where "enrich env rec w = (item, w1)" by (cases "enrich env rec w")
    then show ?thesis using 2(2)[OF False refl] e False by (simp add: case_prod_unfold Let_def)
  qed
qed simp

lemma json_list_length:
  "json_list f xs = Inr j \<Longrightarrow> \<exists>js. j = JArr js \<and> length js = length xs"
proof -
  have "fold_res (\<lambda>x acc. rbind (f x) (\<lambda>j. Inr (acc @ [j]))) xs a = Inr b \<Longrightarrow> length b = length a + length xs" for a b
    by (induction xs arbitrary: a) (auto simp: rbind_eq_Inr)
  then show "json_list f xs = Inr j \<Longrightarrow> ?thesis" by (force simp: json_list_def rbind_eq_Inr)
qed

text \<open>The recommendations shown to the user are the item identifiers Gorse returned, in its order, without
  the empty ones: whatever the item lookups answer, \<^verbatim>\<open>getRecommend\<close> keeps the list and gives the item at
  position \<open>i\<close> of \<open>n\<close> the score \<open>n - i\<close>, so scores fall strictly along the list.\<close>

theorem recommend_keeps_order:
  assumes "GetRecommend (env_net env) (env_gorse env) userId category (atoi_value (query_or ''10'' n_q)) w = (Inr recs, w1)"
  shows "\<exists>ids. map rec_ItemId recs = ids \<and>
    map rec_Score recs = map (\<lambda>i. of_int64 (int (length ids) - int i)) [0..<length ids] \<and>
    map en_ItemId (fst (enrich_all env recs w1)) = filter (\<lambda>i. i \<noteq> []) ids \<and>
    (\<forall>resp. fst (getRecommend env userId category n_q w) = Inr resp \<longrightarrow> status resp = StatusOK \<and>
       (\<exists>js. body resp = JObj [(''user_id'', JStr userId), (''items'', JArr js), (''total'', JInt (int (length js)))] \<and>
          length js = length (filter (\<lambda>i. i \<noteq> []) ids)))"
proof -
  obtain ids where ids: "recs = rank_items ids"
    using assms by (auto simp: GetRecommend_def Let_def split: prod.splits sum.splits)
  have m: "map rec_ItemId recs = ids" "map rec_Score recs = map (\<lambda>i. of_int64 (int (length ids) - int i)) [0..<length ids]"
    by (simp_all add: ids rank_items_def comp_def map_nth)
  have e: "map en_ItemId (fst (enrich_all env recs w1)) = filter (\<lambda>i. i \<noteq> []) ids"
    using enrich_all_ids[of env recs w1] m by simp
  have len: "length (fst (enrich_all env recs w1)) = length (filter (\<lambda>i. i \<noteq> []) ids)"
    using arg_cong[OF e, of length] by simp
  have "status resp = StatusOK \<and> (\<exists>js. body resp = JObj [(''user_id'', JStr userId), (''items'', JArr js),
      (''total'', JInt (int (length js)))] \<and> length js = length (filter (\<lambda>i. i \<noteq> []) ids))"
    if ok: "fst (getRecommend env userId category n_q w) = Inr resp" for resp
  proof -
    obtain items w2 where it: "enrich_all env recs w1 = (items, w2)" by (cases "enrich_all env recs w1")
    have "fst (getRecommend env userId category n_q w) = rbind (json_list enriched_json items)
        (\<lambda>js. Inr (ok_response [(''user_id'', JStr userId), (''items'', js), (''total'', JInt (int (length items)))]))"
      by (simp add: getRecommend_def assms it)
    with ok have "rbind (json_list enriched_json items) (\<lambda>js. Inr (ok_response [(''user_id'', JStr userId),
        (''items'', js), (''total'', JInt (int (length items)))])) = Inr resp" by simp
    then obtain js where "json_list enriched_json items = Inr js" and
      r: "resp = ok_response [(''user_id'', JStr userId), (''items'', js), (''total'', JInt (int (length items)))]"
      by (auto simp: rbind_eq_Inr)
    then obtain js' where "js = JArr js'" "length js' = length items" using json_list_length by blast
    then show ?thesis using r len it by (simp add: ok_response_def)
  qed
  then show ?thesis using m e by blast
qed

theorem recommend_keeps_order_witness:
  "\<exists>recs w1. GetRecommend (env_net sample_env) (env_gorse sample_env) ''ann'' [] (atoi_value (query_or ''10'' None)) 0 = (Inr recs, w1) \<and>
     map en_ItemId (fst (enrich_all sample_env recs w1)) = [''x'', ''y'']"
proof -
  have r: "GetRecommend (env_net sample_env) (env_gorse sample_env) ''ann'' [] (atoi_value (query_or ''10'' None)) 0 =
      (Inr (rank_items [''x'', [], ''y'']), 1)"
    by (simp add: GetRecommend_def get_def doRequest_def sample_env_def NewGorseClient_def dec_each_def Let_def)
  obtain ids where "map rec_ItemId (rank_items [''x'', [], ''y'']) = ids"
    "map en_ItemId (fst (enrich_all sample_env (rank_items [''x'', [], ''y'']) 1)) = filter (\<lambda>i. i \<noteq> []) ids"
    using recommend_keeps_order[OF r] by blast
  then have "map en_ItemId (fst (enrich_all sample_env (rank_items [''x'', [], ''y'']) 1)) = [''x'', ''y'']"
    by (auto simp: rank_items_def upt_rec)
  with r show ?thesis by (intro exI[of _ "rank_items [''x'', [], ''y'']"] exI[of _ 1]) simp
qed

end
