(* ===== verification/Go_Format.thy ===== *)
theory Go_Format
  imports Go_Encoding Go_Json
begin

text \<open>
  Decimal text of floating-point numbers: \<^verbatim>\<open>strconv.ParseFloat\<close> on unsigned decimals without exponent (the
  only text the components pass to it) and the verb \<^verbatim>\<open>%v\<close> of \<^verbatim>\<open>fmt\<close>, which is \<^verbatim>\<open>FormatFloat(v, 'g', -1, 64)\<close>:
  the fewest digits that still round to the number, in exponent notation when the decimal exponent is
  below -4 or at least 6. The main fact is that integers below one million are written as plain
  decimals and read back exactly.
\<close>

section \<open>Reading\<close>

definition is_digit :: "char \<Rightarrow> bool" where
  "is_digit c \<longleftrightarrow> digit_val c \<noteq> None"

datatype float_error = SyntaxError | RangeError

text \<open>The value returned with an error: 0 for a syntax error, the infinity for a range error.\<close>

definition parse_decimal :: "string \<Rightarrow> float_error option \<times> fl" where
  "parse_decimal s =
     (let ip = takeWhile is_digit s; rest = dropWhile is_digit s;
          fp = (case rest of [] \<Rightarrow> [] | c # cs \<Rightarrow> cs)
      in if (ip = [] \<and> fp = []) \<or> (rest \<noteq> [] \<and> hd rest \<noteq> CHR ''.'') then (Some SyntaxError, Fin 0)
         else case digits_val 0 (ip @ fp) of
                None \<Rightarrow> (Some SyntaxError, Fin 0)
              | Some n \<Rightarrow>
                  let v = rnd64 (of_int n / 10 ^ length fp)
                  in if v = PInf then (Some RangeError, PInf) else (None, v))"

section \<open>Writing\<close>

text \<open>The position of the decimal point: \<open>10\<^sup>d\<^sup>p\<^sup>-\<^sup>1 \<le> q < 10\<^sup>d\<^sup>p\<close> for a positive float64.\<close>

fun dec_point_below :: "nat \<Rightarrow> rat \<Rightarrow> int" where
  "dec_point_below 0 q = 0"
| "dec_point_below (Suc n) q = (if 1 / 10 \<le> q then 0 else dec_point_below n (q * 10) - 1)"

definition dec_point :: "rat \<Rightarrow> int" where
  "dec_point q = (if 1 \<le> q then int (length (nat_digits (nat \<lfloor>q\<rfloor>))) else dec_point_below 330 q)"

text \<open>The shortest decimal: \<open>k\<close> digits if rounding down or up to \<open>k\<close> digits stays within the numbers that
  round to \<open>q\<close>, the nearer one if both do; 17 digits always suffice.\<close>

function shortest_from :: "nat \<Rightarrow> int \<Rightarrow> rat \<Rightarrow> int \<times> nat" where
  "shortest_from k dp q =
     (let s = 10 powi (int k - dp); lo = \<lfloor>q * s\<rfloor>; down = rnd64 (of_int lo / s) = Fin q;
          up = rnd64 (of_int (lo + 1) / s) = Fin q
      in if 17 \<le> k then (round_even (q * s), k)
         else if down \<and> up then (round_even (q * s), k)
         else if down then (lo, k) else if up then (lo + 1, k)
         else shortest_from (Suc k) dp q)"
  by pat_completeness auto
termination by (relation "measure (\<lambda>(k, _, _). 17 - k)") auto

declare shortest_from.simps [simp del]

definition strip_zeros :: "string \<Rightarrow> string" where
  "strip_zeros ds = rev (dropWhile (\<lambda>c. c = CHR ''0'') (rev ds))"

text \<open>Significant digits and the position of the point; no digits for zero.\<close>

definition shortest_digits :: "rat \<Rightarrow> string \<times> int" where
  "shortest_digits q =
     (if q = 0 then ([], 0)
      else let (m, k) = shortest_from 1 (dec_point q) q; ds = nat_digits (nat m)
           in (strip_zeros ds, dec_point q + (int (length ds) - int k)))"

definition fmt_F :: "string \<Rightarrow> int \<Rightarrow> string" where
  "fmt_F ds dp =
     (if 0 < dp then take (nat dp) ds @ replicate (nat dp - length ds) CHR ''0'' else ''0'') @
     (if int (length ds) \<le> dp then []
      else CHR ''.'' # replicate (nat (- dp)) CHR ''0'' @ drop (nat dp) ds)"

definition fmt_E :: "string \<Rightarrow> int \<Rightarrow> string" where
  "fmt_E ds dp =
     (let e = dp - 1; a = nat_digits (nat \<bar>e\<bar>)
      in take 1 ds @ (if length ds \<le> 1 then [] else CHR ''.'' # drop 1 ds) @ ''e'' @
         (if e < 0 then ''-'' else ''+'') @ replicate (2 - length a) CHR ''0'' @ a)"

definition fmt_pos :: "rat \<Rightarrow> string" where
  "fmt_pos q =
     (let (ds, dp) = shortest_digits q
      in if dp - 1 < - 4 \<or> 6 \<le> dp - 1 then fmt_E ds dp else fmt_F ds dp)"

fun fmt_v :: "fl \<Rightarrow> string" where
  "fmt_v NaN = ''NaN''"
| "fmt_v PInf = ''+Inf''"
| "fmt_v NInf = ''-Inf''"
| "fmt_v (Fin q) = (if q < 0 then CHR ''-'' # fmt_pos (- q) else fmt_pos q)"

section \<open>Integers below one million\<close>

lemma rnd64_of_int:
  assumes "0 \<le> n" and "n < 2 ^ 53"
  shows "rnd64 (of_int n) = Fin (of_int n)"
proof (cases "n = 0")
  case True
  then show ?thesis by simp
next
  case False
  with assms have pos: "0 < (of_int n :: rat)" by simp
  let ?e = "fexp (of_int n)"
  note b = fexp_bounds[OF pos]
  have "(2::rat) powi ?e < 2 powi 53"
  proof -
    have "(of_int n :: rat) < of_int (2 ^ 53)" using assms(2) by (simp only: of_int_less_iff)
    then show ?thesis using b(1) by (simp add: power_int_def)
  qed
  then have hi: "?e < 53" by (rule powi2_less_imp)
  have "(2::rat) powi 0 < 2 powi (?e + 1)" using b(2) False assms(1) by (simp add: order_le_less_trans[of 1 "of_int n"])
  then have lo: "0 \<le> ?e" using powi2_less_imp[of 0 "?e + 1"] by simp
  have p: "(2::rat) powi (52 - ?e) = of_int (2 ^ nat (52 - ?e))" using hi by (intro powi2_nat) simp
  have "round_even (of_int n * 2 powi (52 - ?e)) = n * 2 ^ nat (52 - ?e)"
    unfolding p of_int_mult[symmetric] by (rule round_even_of_int)
  from rnd64_eval[OF b _ _ this] lo hi
  have "rnd64 (of_int n) = Fin (of_int (n * 2 ^ nat (52 - ?e)) * 2 powi (?e - 52))" by simp
  also have "of_int (n * 2 ^ nat (52 - ?e)) * (2::rat) powi (?e - 52) = of_int n"
    unfolding of_int_mult p[symmetric] by (simp add: mult.assoc powi2_add[symmetric])
  finally show ?thesis .
qed

lemma char_of_48: "char_of (48 :: nat) = CHR ''0''"
  using char_of_char[where 'a = nat, of "CHR ''0''"] by simp

lemma nat_digits_times_10: "0 < n \<Longrightarrow> nat_digits (n * 10) = nat_digits n @ ''0''"
  by (subst nat_digits.simps) (simp add: char_of_48)

lemma nat_digits_times_power: "0 < n \<Longrightarrow> nat_digits (n * 10 ^ z) = nat_digits n @ replicate z CHR ''0''"
proof (induction z)
  case (Suc z)
  have "nat_digits (n * 10 ^ Suc z) = nat_digits (n * 10 ^ z * 10)" by (simp add: ac_simps)
  with Suc show ?case by (simp add: nat_digits_times_10 replicate_append_same)
qed simp

lemma length_nat_digits: "0 < n \<Longrightarrow> 10 ^ (length (nat_digits n) - 1) \<le> n \<and> n < 10 ^ length (nat_digits n)"
proof (induction n rule: nat_digits.induct)
  case (1 n)
  show ?case
  proof (cases "n < 10")
    case True
    then show ?thesis using 1 by (simp add: nat_digits.simps[of n])
  next
    case False
    let ?l = "length (nat_digits (n div 10))"
    have ih: "10 ^ (?l - 1) \<le> n div 10" "n div 10 < 10 ^ ?l" using 1(1)[OF False] False by simp_all
    have l: "0 < ?l" by simp
    have "10 ^ ?l = 10 * (10 ^ (?l - 1) :: nat)" using l by (metis power_eq_if bot_nat_0.not_eq_extremum)
    then have "10 ^ ?l \<le> n" using ih(1) by linarith
    moreover have "n < 10 ^ Suc ?l" using ih(2) by (simp add: less_mult_imp_div_less div_less_iff_less_mult mult.commute)
    ultimately show ?thesis using False by (simp add: nat_digits.simps[of n])
  qed
qed

lemma strip_zeros_pad:
  "length ds \<le> d \<Longrightarrow> strip_zeros ds @ replicate (d - length (strip_zeros ds)) CHR ''0'' =
   ds @ replicate (d - length ds) CHR ''0''"
proof (induction ds arbitrary: d rule: rev_induct)
  case (snoc x xs)
  show ?case
  proof (cases "x = CHR ''0''")
    case True
    then have "strip_zeros (xs @ [x]) = strip_zeros xs" by (simp add: strip_zeros_def)
    moreover have "d - length xs = Suc (d - length (xs @ [x]))" using snoc.prems by simp
    ultimately show ?thesis using snoc True by simp
  next
    case False
    then show ?thesis by (simp add: strip_zeros_def)
  qed
qed (simp add: strip_zeros_def)

lemma length_strip_zeros: "length (strip_zeros ds) \<le> length ds"
  by (simp add: strip_zeros_def) (metis length_dropWhile_le length_rev)

lemma shortest_from_nat:
  assumes "0 < n" and "n < 10 ^ 6" and "1 \<le> k" and "k \<le> d" and "n < 10 ^ d" and "d \<le> 6"
  shows "\<exists>m j. shortest_from k (int d) (of_nat n) = (int m, j) \<and> j \<le> d \<and> m * 10 ^ (d - j) = n"
  using assms(3,4)
proof (induction "d - k" arbitrary: k rule: less_induct)
  case less
  let ?z = "d - k" and ?lo = "n div 10 ^ (d - k)"
  have s: "(10::rat) powi (int k - int d) = 1 / 10 ^ ?z"
    using less.prems by (cases "k = d") (simp_all add: power_int_def nat_diff_distrib' power_one_over)
  have lo: "\<lfloor>of_nat n * (1 / 10 ^ ?z) :: rat\<rfloor> = int ?lo"
    using floor_divide_of_nat_eq[where 'a = rat, of n "10 ^ ?z"] by simp
  have "?lo * 10 ^ ?z \<le> n" by simp
  have n53: "n < 2 ^ 53" by (rule less_le_trans[OF assms(2)]) simp
  with \<open>?lo * 10 ^ ?z \<le> n\<close> have small: "?lo * 10 ^ ?z < 2 ^ 53" by (rule le_less_trans)
  have "(10::nat) ^ ?z \<le> 10 ^ 6" using assms(6) by (intro power_increasing) simp_all
  with \<open>?lo * 10 ^ ?z \<le> n\<close> have "(?lo + 1) * 10 ^ ?z < 10 ^ 6 + 10 ^ 6" unfolding distrib_right using assms(2) by linarith
  then have small': "(?lo + 1) * 10 ^ ?z < 2 ^ 53" by (rule less_le_trans) simp
  have ex: "rnd64 (rat_of_nat (x * 10 ^ ?z)) = Fin (of_nat (x * 10 ^ ?z))" if "x * 10 ^ ?z < 2 ^ 53" for x
    using rnd64_of_int[of "int (x * 10 ^ ?z)"] that by (simp del: of_nat_mult of_nat_power)
  have quot: "rat_of_int (int x) / (1 / 10 ^ ?z) = rat_of_nat (x * 10 ^ ?z)" for x by simp
  have down: "rnd64 (rat_of_int (int ?lo) / (1 / 10 ^ ?z)) = Fin (of_nat n) \<longleftrightarrow> ?lo * 10 ^ ?z = n"
    unfolding quot ex[OF small] by (simp only: fl.inject of_nat_eq_iff)
  have "n < (?lo + 1) * 10 ^ ?z"
    using dividend_less_div_times[of "10 ^ ?z" n] by (simp add: add.commute distrib_right)
  moreover have "rat_of_int (int ?lo + 1) / (1 / 10 ^ ?z) = rat_of_nat ((?lo + 1) * 10 ^ ?z)"
    by (simp add: distrib_right add.commute)
  ultimately have up: "rnd64 (rat_of_int (int ?lo + 1) / (1 / 10 ^ ?z)) \<noteq> Fin (of_nat n)"
    using ex[OF small'] by (simp only: fl.inject of_nat_eq_iff)
  show ?case
  proof (cases "?lo * 10 ^ ?z = n")
    case True
    have "shortest_from k (int d) (of_nat n) = (int ?lo, k)"
      using True down up less.prems assms(6) by (subst shortest_from.simps) (simp add: Let_def s lo[simplified])
    then show ?thesis using True less.prems by blast
  next
    case False
    then have "k < d" using less.prems by (cases "k = d") auto
    moreover have "shortest_from k (int d) (of_nat n) = shortest_from (Suc k) (int d) (of_nat n)"
      using False down up less.prems assms(6) by (subst shortest_from.simps) (simp add: Let_def s lo[simplified])
    ultimately show ?thesis using less.hyps[of "Suc k"] by simp
  qed
qed

lemma fmt_v_nat:
  assumes "n < 10 ^ 6"
  shows "fmt_v (Fin (of_nat n)) = nat_digits n"
proof (cases "n = 0")
  case True
  then show ?thesis
    by (simp add: fmt_pos_def shortest_digits_def fmt_F_def nat_digits.simps char_of_48)
next
  case False
  let ?d = "length (nat_digits n)"
  note len = length_nat_digits[of n]
  have "10 ^ (?d - 1) < (10::nat) ^ 6" using len False assms by (meson le_less_trans neq0_conv)
  then have d6: "?d \<le> 6" using power_less_imp_less_exp[of "10::nat" "?d - 1" 6] by simp
  have dp: "dec_point (of_nat n) = int ?d" using False by (simp add: dec_point_def)
  obtain m j where m: "shortest_from 1 (int ?d) (of_nat n) = (int m, j)" "j \<le> ?d" "m * 10 ^ (?d - j) = n"
    using shortest_from_nat[of n 1 ?d] False assms len d6 by (auto simp: Suc_le_eq)
  have "0 < m" using m(3) False by (cases m) auto
  then have nd: "nat_digits n = nat_digits m @ replicate (?d - j) CHR ''0''"
    using nat_digits_times_power[of m "?d - j"] m(3) by simp
  have "?d = length (nat_digits m) + (?d - j)" using arg_cong[OF nd, of length] by simp
  then have lm: "length (nat_digits m) = j" using m(2) by linarith
  have "shortest_digits (of_nat n) = (strip_zeros (nat_digits m), int ?d)"
    using False m(1) lm by (simp add: shortest_digits_def dp)
  moreover have "fmt_F (strip_zeros (nat_digits m)) (int ?d) = nat_digits n"
    using length_strip_zeros[of "nat_digits m"] m(2) lm strip_zeros_pad[of "nat_digits m" ?d] nd
    by (simp add: fmt_F_def)
  ultimately show ?thesis using d6 False by (simp add: fmt_pos_def)
qed

lemma takeWhile_dropWhile_all: "(\<And>x. x \<in> set xs \<Longrightarrow> P x) \<Longrightarrow> takeWhile P xs = xs \<and> dropWhile P xs = []"
  by (simp add: takeWhile_eq_all_conv)

lemma nat_digits_are_digits: "c \<in> set (nat_digits n) \<Longrightarrow> is_digit c"
proof (induction n rule: nat_digits.induct)
  case (1 n)
  then show ?case by (cases "n < 10") (auto simp: nat_digits.simps[of n] is_digit_def)
qed

lemma parse_decimal_nat_digits:
  assumes "n < 10 ^ 6"
  shows "parse_decimal (nat_digits n) = (None, Fin (of_nat n))"
proof -
  have "rnd64 (of_nat n) = Fin (of_nat n)" using rnd64_of_int[of "int n"] assms by simp
  moreover have w: "takeWhile is_digit (nat_digits n) = nat_digits n" "dropWhile is_digit (nat_digits n) = []"
    using takeWhile_dropWhile_all[of "nat_digits n" is_digit] nat_digits_are_digits by blast+
  ultimately show ?thesis unfolding parse_decimal_def w using digits_val_nat_digits[of 0 n] by simp
qed

lemma fmt_v_million: "fmt_v (Fin 1000000) = ''1e+06''"
proof -
  have dp: "dec_point 1000000 = 7" by (simp add: dec_point_def nat_digits.simps)
  have "rnd64 1000000 = Fin 1000000" using rnd64_of_int[of 1000000] by simp
  moreover have "rnd64 2000000 = Fin 2000000" using rnd64_of_int[of 2000000] by simp
  ultimately have "shortest_from 1 7 1000000 = (1, 1)"
    by (subst shortest_from.simps) (simp add: Let_def power_int_def power_one_over)
  moreover have "char_of (49 :: nat) = CHR ''1''" "char_of (54 :: nat) = CHR ''6''"
    using char_of_char[where 'a = nat, of "CHR ''1''"] char_of_char[where 'a = nat, of "CHR ''6''"] by simp_all
  ultimately show ?thesis
    by (simp add: fmt_pos_def shortest_digits_def dp nat_digits.simps strip_zeros_def fmt_E_def Let_def)
qed

end
