(* ===== verification/Feedback_Expression.thy ===== *)
theory Feedback_Expression
  imports Go_Format
begin

text \<open>
  Feedback type expressions (\<^verbatim>\<open>common/expression/expression.go\<close>): the texts such as \<^verbatim>\<open>star\<close> or \<^verbatim>\<open>read>=3\<close> that
  say which feedback counts as positive, their parser, printer, protocol form and matching.

  The regular expression is matched by hand: the name is the longest run of word characters (a shorter
  run can only leave digits, which the rest of the pattern accepts exactly if it accepts what follows
  them), then an optional operator, then an optional decimal. The parser updates the expression in
  place, so its result is the error, if any, together with the fields it leaves behind.
\<close>

section \<open>Data\<close>

datatype ExprType = ExprNone | Less | LessOrEqual | Greater | GreaterOrEqual

fun ExprType_String :: "ExprType \<Rightarrow> string" where
  "ExprType_String Less = ''<''"
| "ExprType_String LessOrEqual = ''<=''"
| "ExprType_String Greater = ''>''"
| "ExprType_String GreaterOrEqual = ''>=''"
| "ExprType_String ExprNone = []"

record FeedbackTypeExpression =
  ex_FeedbackType :: string
  expr_type :: ExprType
  ex_Value :: fl

definition zero_expression :: FeedbackTypeExpression where
  "zero_expression = \<lparr>ex_FeedbackType = [], expr_type = ExprNone, ex_Value = Fin 0\<rparr>"

definition expr_String :: "FeedbackTypeExpression \<Rightarrow> string" where
  "expr_String f =
     (if expr_type f = ExprNone then ex_FeedbackType f
      else ex_FeedbackType f @ ExprType_String (expr_type f) @ fmt_v (ex_Value f))"

section \<open>Parsing\<close>

definition is_letter :: "char \<Rightarrow> bool" where
  "is_letter c = (let n = of_char c :: nat in (65 \<le> n \<and> n \<le> 90) \<or> (97 \<le> n \<and> n \<le> 122))"

definition is_word :: "char \<Rightarrow> bool" where
  "is_word c \<longleftrightarrow> is_letter c \<or> is_digit c \<or> c = CHR ''_''"

definition split_operator :: "string \<Rightarrow> string \<times> string" where
  "split_operator s =
     (if take 2 s = ''<='' \<or> take 2 s = ''>='' then (take 2 s, drop 2 s)
      else if take 1 s = ''<'' \<or> take 1 s = ''>'' \<or> take 1 s = ''='' then (take 1 s, drop 1 s)
      else ([], s))"

text \<open>\<^verbatim>\<open>[0-9]*\.?[0-9]*\<close> up to the end of the text.\<close>

definition is_number_text :: "string \<Rightarrow> bool" where
  "is_number_text s =
     (case dropWhile is_digit s of [] \<Rightarrow> True | c # cs \<Rightarrow> c = CHR ''.'' \<and> list_all is_digit cs)"

definition FindStringSubmatch :: "string \<Rightarrow> (string \<times> string \<times> string) option" where
  "FindStringSubmatch text =
     (let name = takeWhile is_word text; (oper, number) = split_operator (dropWhile is_word text)
      in if text \<noteq> [] \<and> is_letter (hd text) \<and> is_number_text number then Some (name, oper, number) else None)"

definition operator_type :: "string \<Rightarrow> ExprType" where
  "operator_type m =
     (if m = ''<'' then Less else if m = ''<='' then LessOrEqual
      else if m = ''>'' then Greater else if m = ''>='' then GreaterOrEqual else ExprNone)"

definition invalid_format :: string where
  "invalid_format = ''invalid expression format, expected format: <feedback_type>[<operator><value>]''"

definition parse_error_text :: "string \<Rightarrow> float_error \<Rightarrow> string" where
  "parse_error_text s e = ''invalid value: strconv.ParseFloat: parsing '' @ [CHR 0x22] @ s @ [CHR 0x22] @ '': '' @
     (case e of SyntaxError \<Rightarrow> ''invalid syntax'' | RangeError \<Rightarrow> ''value out of range'')"

definition FromString :: "string \<Rightarrow> FeedbackTypeExpression \<Rightarrow> go_fail option \<times> FeedbackTypeExpression" where
  "FromString text f =
     (case FindStringSubmatch text of
        None \<Rightarrow> (Some (Error invalid_format), f)
      | Some (name, oper, number) \<Rightarrow>
          let g = f\<lparr>ex_FeedbackType := name, expr_type := operator_type oper\<rparr>
          in if number = [] then (None, g)
             else case parse_decimal number of
                    (None, v) \<Rightarrow> (None, g\<lparr>ex_Value := v\<rparr>)
                  | (Some e, v) \<Rightarrow> (Some (Error (parse_error_text number e)), g\<lparr>ex_Value := v\<rparr>))"

definition expr_MarshalJSON :: "FeedbackTypeExpression \<Rightarrow> json" where
  "expr_MarshalJSON f = JStr (expr_String f)"

definition unmarshal_error :: "go_fail \<Rightarrow> go_fail" where
  "unmarshal_error e = (case e of Error m \<Rightarrow> Error (''unmarshal FeedbackTypeExpression: '' @ m) | Panic m \<Rightarrow> Panic m)"

text \<open>The document \<^verbatim>\<open>null\<close> decodes to the empty string.\<close>

definition expr_UnmarshalJSON :: "json \<Rightarrow> FeedbackTypeExpression \<Rightarrow> go_fail option \<times> FeedbackTypeExpression" where
  "expr_UnmarshalJSON j f =
     (case dec_string j [] of
        Inl e \<Rightarrow> (Some (unmarshal_error e), f)
      | Inr s \<Rightarrow> (case FromString s f of (e, g) \<Rightarrow> (map_option unmarshal_error e, g)))"

text \<open>\<^verbatim>\<open>lo.Must0\<close> panics on an error.\<close>

definition MustParseFeedbackTypeExpression :: "string \<Rightarrow> go_fail + FeedbackTypeExpression" where
  "MustParseFeedbackTypeExpression s =
     (case FromString s zero_expression of
        (None, f) \<Rightarrow> Inr f
      | (Some e, f) \<Rightarrow> Inl (Panic (case e of Error m \<Rightarrow> m | Panic m \<Rightarrow> m)))"

section \<open>Protocol form\<close>

text \<open>The message has the generated enumeration; a number it does not name is \<open>PB_Other\<close>.\<close>

datatype pb_ExpressionType = PB_None | PB_Less | PB_LessOrEqual | PB_Greater | PB_GreaterOrEqual | PB_Other int

record pb_FeedbackTypeExpression =
  pb_FeedbackType :: string
  pb_ExpressionType :: pb_ExpressionType
  pb_Value :: fl

fun to_pb_type :: "ExprType \<Rightarrow> pb_ExpressionType" where
  "to_pb_type ExprNone = PB_None"
| "to_pb_type Less = PB_Less"
| "to_pb_type LessOrEqual = PB_LessOrEqual"
| "to_pb_type Greater = PB_Greater"
| "to_pb_type GreaterOrEqual = PB_GreaterOrEqual"

definition ToPB :: "FeedbackTypeExpression \<Rightarrow> pb_FeedbackTypeExpression" where
  "ToPB f = \<lparr>pb_FeedbackType = ex_FeedbackType f, pb_ExpressionType = to_pb_type (expr_type f), pb_Value = ex_Value f\<rparr>"

text \<open>A number outside the enumeration leaves the operator as it is.\<close>

fun from_pb_type :: "pb_ExpressionType \<Rightarrow> ExprType \<Rightarrow> ExprType" where
  "from_pb_type PB_None _ = ExprNone"
| "from_pb_type PB_Less _ = Less"
| "from_pb_type PB_LessOrEqual _ = LessOrEqual"
| "from_pb_type PB_Greater _ = Greater"
| "from_pb_type PB_GreaterOrEqual _ = GreaterOrEqual"
| "from_pb_type (PB_Other _) old = old"

definition FromPB :: "pb_FeedbackTypeExpression \<Rightarrow> FeedbackTypeExpression \<Rightarrow> FeedbackTypeExpression" where
  "FromPB pb f = \<lparr>ex_FeedbackType = pb_FeedbackType pb,
     expr_type = from_pb_type (pb_ExpressionType pb) (expr_type f), ex_Value = pb_Value pb\<rparr>"

section \<open>Matching\<close>

definition expr_Match :: "FeedbackTypeExpression \<Rightarrow> string \<Rightarrow> fl \<Rightarrow> bool" where
  "expr_Match f feedbackType v =
     (if ex_FeedbackType f \<noteq> feedbackType then False
      else case expr_type f of
             ExprNone \<Rightarrow> True
           | Less \<Rightarrow> fless v (ex_Value f)
           | LessOrEqual \<Rightarrow> fle v (ex_Value f)
           | Greater \<Rightarrow> fless (ex_Value f) v
           | GreaterOrEqual \<Rightarrow> fle (ex_Value f) v)"

fun MatchFeedbackTypeExpressions :: "FeedbackTypeExpression list \<Rightarrow> string \<Rightarrow> fl \<Rightarrow> bool" where
  "MatchFeedbackTypeExpressions [] feedbackType v = False"
| "MatchFeedbackTypeExpressions (expr # exprs) feedbackType v =
     (if expr_Match expr feedbackType v then True else MatchFeedbackTypeExpressions exprs feedbackType v)"

lemma MatchFeedbackTypeExpressions_iff:
  "MatchFeedbackTypeExpressions exprs t v \<longleftrightarrow> (\<exists>e\<in>set exprs. expr_Match e t v)"
  by (induction exprs) auto

section \<open>Reading back what was printed\<close>

definition feedback_name :: "string \<Rightarrow> bool" where
  "feedback_name s \<longleftrightarrow> s \<noteq> [] \<and> is_letter (hd s) \<and> list_all is_word s"

lemma not_word_operator: "\<not> is_word CHR ''<''" "\<not> is_word CHR ''>''" "\<not> is_word CHR ''=''"
  by (simp_all add: is_word_def is_letter_def is_digit_def digit_val_def Let_def)

lemma word_run:
  "list_all is_word t \<Longrightarrow> rest = [] \<or> \<not> is_word (hd rest) \<Longrightarrow>
   takeWhile is_word (t @ rest) = t \<and> dropWhile is_word (t @ rest) = rest"
  by (cases rest) (auto simp: list_all_iff takeWhile_append dropWhile_append)

lemma digit_not_operator: "is_digit c \<Longrightarrow> c \<noteq> CHR ''=''"
  by (auto simp: is_digit_def digit_val_def Let_def)

lemma split_operator_String:
  "e \<noteq> ExprNone \<Longrightarrow> ds \<noteq> [] \<Longrightarrow> is_digit (hd ds) \<Longrightarrow>
   split_operator (ExprType_String e @ ds) = (ExprType_String e, ds)"
  by (cases e; cases ds) (auto simp: split_operator_def digit_not_operator numeral_2_eq_2)

lemma operator_type_String: "operator_type (ExprType_String e) = e"
  by (cases e) (simp_all add: operator_type_def)

lemma FindStringSubmatch_String:
  assumes "feedback_name t" and "e \<noteq> ExprNone" and "ds \<noteq> []" and "is_digit (hd ds)" and "is_number_text ds"
  shows "FindStringSubmatch (t @ ExprType_String e @ ds) = Some (t, ExprType_String e, ds)"
proof -
  have "\<not> is_word (hd (ExprType_String e @ ds))"
    using assms(2) by (cases e) (simp_all add: not_word_operator)
  then have "takeWhile is_word (t @ ExprType_String e @ ds) = t \<and>
      dropWhile is_word (t @ ExprType_String e @ ds) = ExprType_String e @ ds"
    using assms(1) by (intro word_run) (simp_all add: feedback_name_def)
  then show ?thesis
    using assms by (simp add: FindStringSubmatch_def split_operator_String feedback_name_def hd_append)
qed

lemma is_number_text_nat_digits: "is_number_text (nat_digits n)"
proof -
  have d: "dropWhile is_digit (nat_digits n) = []" by (simp add: nat_digits_are_digits)
  show ?thesis by (simp add: is_number_text_def d)
qed

lemma FromString_name:
  "feedback_name t \<Longrightarrow> FromString t f = (None, f\<lparr>ex_FeedbackType := t, expr_type := ExprNone\<rparr>)"
proof -
  assume t: "feedback_name t"
  then have w: "takeWhile is_word t = t" "dropWhile is_word t = []"
    using word_run[of t "[]"] by (simp_all add: feedback_name_def)
  show ?thesis using t
    by (simp add: w FromString_def FindStringSubmatch_def feedback_name_def split_operator_def is_number_text_def operator_type_def)
qed



lemma exponent_not_number: "\<not> is_number_text ''1e+06''"
  by (simp add: is_number_text_def is_digit_def digit_val_def)

text \<open>Two limits of the notation. A threshold of one million is printed in exponent notation, which the
  parser refuses, so such an expression cannot be read back. And the operator \<^verbatim>\<open>=\<close>, which the pattern
  accepts, is dropped: \<^verbatim>\<open>read=3\<close> matches every value of \<^verbatim>\<open>read\<close>.\<close>

theorem expression_limits:
  assumes "feedback_name t"
  shows "(op \<noteq> ExprNone \<longrightarrow>
      FromString (expr_String \<lparr>ex_FeedbackType = t, expr_type = op, ex_Value = Fin (10 ^ 6)\<rparr>) g = (Some (Error invalid_format), g)) \<and>
    (n < 10 ^ 6 \<longrightarrow> (\<exists>f. FromString (t @ ''='' @ nat_digits n) g = (None, f) \<and> (\<forall>v. expr_Match f t v)))"
proof (intro conjI impI)
  assume op: "op \<noteq> ExprNone"
  have "is_digit CHR ''1''" by (simp add: is_digit_def digit_val_def)
  then have s: "split_operator (ExprType_String op @ ''1e+06'') = (ExprType_String op, ''1e+06'')"
    using split_operator_String[OF op, of "''1e+06''"] by simp
  have "\<not> is_word (hd (ExprType_String op @ ''1e+06''))" using op by (cases op) (simp_all add: not_word_operator)
  then have w: "takeWhile is_word (t @ ExprType_String op @ ''1e+06'') = t"
    "dropWhile is_word (t @ ExprType_String op @ ''1e+06'') = ExprType_String op @ ''1e+06''"
    using word_run[of t "ExprType_String op @ ''1e+06''"] assms by (simp_all add: feedback_name_def)
  have "expr_String \<lparr>ex_FeedbackType = t, expr_type = op, ex_Value = Fin (10 ^ 6)\<rparr> = t @ ExprType_String op @ ''1e+06''"
    using op fmt_v_million by (simp add: expr_String_def)
  then show "FromString (expr_String \<lparr>ex_FeedbackType = t, expr_type = op, ex_Value = Fin (10 ^ 6)\<rparr>) g = (Some (Error invalid_format), g)"
    by (simp add: FromString_def FindStringSubmatch_def w s exponent_not_number)
next
  assume n: "n < 10 ^ 6"
  let ?s = "''='' @ nat_digits n"
  have w: "takeWhile is_word (t @ ?s) = t" "dropWhile is_word (t @ ?s) = ?s"
    using word_run[of t ?s] assms by (simp_all add: feedback_name_def not_word_operator)
  have "take 2 ?s = ''='' @ take 1 (nat_digits n)" by (simp add: numeral_2_eq_2)
  then have s: "split_operator ?s = (''='', nat_digits n)" by (simp add: split_operator_def)
  have "FindStringSubmatch (t @ ?s) = Some (t, ''='', nat_digits n)"
    using assms by (simp add: FindStringSubmatch_def w s is_number_text_nat_digits feedback_name_def hd_append del: append_Cons append_Nil)
  then show "\<exists>f. FromString (t @ ''='' @ nat_digits n) g = (None, f) \<and> (\<forall>v. expr_Match f t v)"
    using parse_decimal_nat_digits[OF n] by (simp add: FromString_def operator_type_def expr_Match_def)
qed

theorem expression_limits_witness:
  "FromString (expr_String \<lparr>ex_FeedbackType = ''read'', expr_type = GreaterOrEqual, ex_Value = Fin (10 ^ 6)\<rparr>) zero_expression =
     (Some (Error invalid_format), zero_expression) \<and>
   (\<exists>f. FromString (''read'' @ ''='' @ nat_digits 3) zero_expression = (None, f) \<and> (\<forall>v. expr_Match f ''read'' v))"
proof -
  have "feedback_name ''read''" by (simp add: feedback_name_def is_letter_def is_word_def)
  from expression_limits[OF this, of GreaterOrEqual zero_expression 3] show ?thesis
    by (simp del: append_Cons append_Nil)
qed

end
