(* ===== verification/Gorse_Data.thy ===== *)
theory Gorse_Data
  imports Feedback_Expression Go_Sort
begin

text \<open>
  The data the recommender works on: items, users and feedback (\<^verbatim>\<open>storage/data/database.go\<close>), cached scores
  and values (\<^verbatim>\<open>storage/cache/database.go\<close>), and computations that call the stores.

  A call of a store may fail and may change the world behind the store: it is a function from the world
  to a result and the next world. A \<^verbatim>\<open>time.Time\<close> is its instant in nanoseconds since the Unix epoch;
  \<open>zero_time\<close> is the zero value. Labels are JSON documents.
\<close>

section \<open>Computations with effects\<close>

type_synonym ('s, 'a) io = "'s \<Rightarrow> (go_fail + 'a) \<times> 's"

definition io_return :: "'a \<Rightarrow> ('s, 'a) io" where
  "io_return x s = (Inr x, s)"

definition io_fail :: "go_fail \<Rightarrow> ('s, 'a) io" where
  "io_fail e s = (Inl e, s)"

definition io_bind :: "('s, 'a) io \<Rightarrow> ('a \<Rightarrow> ('s, 'b) io) \<Rightarrow> ('s, 'b) io" where
  "io_bind m f s = (case m s of (Inl e, s') \<Rightarrow> (Inl e, s') | (Inr x, s') \<Rightarrow> f x s')"

definition io_lift :: "go_fail + 'a \<Rightarrow> ('s, 'a) io" where
  "io_lift r s = (r, s)"

lemma io_return_eq [simp]: "io_return x s = (r, s') \<longleftrightarrow> r = Inr x \<and> s' = s"
  by (auto simp: io_return_def)

lemma io_fail_eq [simp]: "io_fail e s = (r, s') \<longleftrightarrow> r = Inl e \<and> s' = s"
  by (auto simp: io_fail_def)

lemma io_lift_eq [simp]: "io_lift x s = (r, s') \<longleftrightarrow> r = x \<and> s' = s"
  by (auto simp: io_lift_def)

lemma io_bind_Inr:
  "io_bind m f s = (Inr y, s'') \<longleftrightarrow> (\<exists>x s'. m s = (Inr x, s') \<and> f x s' = (Inr y, s''))"
  by (cases "m s") (auto simp: io_bind_def split: sum.splits)

lemma io_bind_run: "m s = (Inr x, s') \<Longrightarrow> io_bind m f s = f x s'"
  by (simp add: io_bind_def)

lemma io_bind_err: "m s = (Inl e, s') \<Longrightarrow> io_bind m f s = (Inl e, s')"
  by (simp add: io_bind_def)

text \<open>A \<^verbatim>\<open>for range\<close> loop whose body calls a store.\<close>

fun io_fold :: "('a \<Rightarrow> 'b \<Rightarrow> ('s, 'b) io) \<Rightarrow> 'a list \<Rightarrow> 'b \<Rightarrow> ('s, 'b) io" where
  "io_fold f [] acc = io_return acc"
| "io_fold f (x # xs) acc = io_bind (f x acc) (io_fold f xs)"

lemma io_fold_invariant:
  assumes "io_fold f xs acc s = (Inr acc', s')" and "P acc s"
    and "\<And>x acc s acc' s'. x \<in> set xs \<Longrightarrow> P acc s \<Longrightarrow> f x acc s = (Inr acc', s') \<Longrightarrow> P acc' s'"
  shows "P acc' s'"
  using assms
proof (induction xs arbitrary: acc s)
  case (Cons x xs)
  from Cons.prems(1) obtain a1 s1 where 1: "f x acc s = (Inr a1, s1)" "io_fold f xs a1 s1 = (Inr acc', s')"
    by (auto simp: io_bind_Inr)
  have "P a1 s1" using Cons.prems(3)[OF _ Cons.prems(2) 1(1)] by simp
  then show ?case by (rule Cons.IH[OF 1(2)]) (rule Cons.prems(3), auto)
qed simp

text \<open>An error is logged and the computation goes on; a panic is not caught.\<close>

definition io_try :: "('s, 'a) io \<Rightarrow> ('s, 'a option) io" where
  "io_try m s = (case m s of (Inl (Error e), s') \<Rightarrow> (Inr None, s') | (Inl (Panic e), s') \<Rightarrow> (Inl (Panic e), s')
     | (Inr x, s') \<Rightarrow> (Inr (Some x), s'))"

lemma io_try_Inr:
  "io_try m s = (Inr r, s') \<longleftrightarrow> (r = None \<and> (\<exists>e. m s = (Inl (Error e), s'))) \<or> (\<exists>x. r = Some x \<and> m s = (Inr x, s'))"
  by (cases "m s") (auto simp: io_try_def split: sum.splits go_fail.splits)

section \<open>Items, users and feedback\<close>

record Item =
  ItemId :: string
  item_IsHidden :: bool
  item_Categories :: "string list"
  item_Timestamp :: int
  item_Labels :: json
  item_Comment :: string

record ItemPatch =
  ip_IsHidden :: "bool option"
  ip_Categories :: "string list option"
  ip_Timestamp :: "int option"
  ip_Labels :: json
  ip_Comment :: "string option"

record User =
  UserId :: string
  user_Labels :: json
  user_Comment :: string

record UserPatch =
  up_Labels :: json
  up_Comment :: "string option"

record FeedbackKey =
  key_FeedbackType :: string
  key_UserId :: string
  key_ItemId :: string

record Feedback = FeedbackKey +
  fb_Value :: fl
  fb_Timestamp :: int
  fb_Updated :: int
  fb_Comment :: string

definition feedback_Less :: "Feedback \<Rightarrow> Feedback \<Rightarrow> bool" where
  "feedback_Less a b \<longleftrightarrow> fb_Timestamp b < fb_Timestamp a"

definition SortFeedbacks :: "Feedback list \<Rightarrow> Feedback list" where
  "SortFeedbacks feedback = sort_slice feedback_Less feedback"

text \<open>The value \<^verbatim>\<open>nil\<close> is the JSON null. The offending document is left out of the error texts.\<close>

definition is_JStr :: "json \<Rightarrow> bool" where
  "is_JStr j = (case j of JStr _ \<Rightarrow> True | _ \<Rightarrow> False)"

definition is_JNum :: "json \<Rightarrow> bool" where
  "is_JNum j = (case j of JNum _ \<Rightarrow> True | _ \<Rightarrow> False)"

function ValidateLabels :: "json \<Rightarrow> go_fail + unit" where
  "ValidateLabels JNull = Inr ()"
| "ValidateLabels (JArr labels) =
     (if labels = [] then Inr ()
      else if is_JStr (hd labels)
      then (if list_all is_JStr labels then Inr () else Inl (Error ''unsupported labels''))
      else if is_JNum (hd labels)
      then (if list_all is_JNum labels then Inr () else Inl (Error ''unsupported labels''))
      else Inl (Error ''unsupported labels''))"
| "ValidateLabels (JObj []) = Inr ()"
| "ValidateLabels (JObj ((k, v) # labels)) = rbind (ValidateLabels v) (\<lambda>_. ValidateLabels (JObj labels))"
| "ValidateLabels (JStr s) = Inr ()"
| "ValidateLabels (JNum q) = Inr ()"
| "ValidateLabels (JBool b) = Inl (Error ''unsupported type in labels'')"
| "ValidateLabels (JTime t) = Inl (Error ''unsupported type in labels'')"
  by pat_completeness auto
termination by (relation "measure size") auto

section \<open>Scan options\<close>

record ScanOptions =
  BeginUserId :: "string option"
  EndUserId :: "string option"
  BeginItemId :: "string option"
  EndItemId :: "string option"
  BeginTime :: "int option"
  EndTime :: "int option"
  FeedbackTypes :: "FeedbackTypeExpression list"
  OrderByItemId :: bool

type_synonym ScanOption = "ScanOptions \<Rightarrow> ScanOptions"

definition zero_ScanOptions :: ScanOptions where
  "zero_ScanOptions = \<lparr>BeginUserId = None, EndUserId = None, BeginItemId = None, EndItemId = None, BeginTime = None,
     EndTime = None, FeedbackTypes = [], OrderByItemId = False\<rparr>"

definition WithBeginUserId :: "string \<Rightarrow> ScanOption" where
  "WithBeginUserId userId options = options\<lparr>BeginUserId := Some userId\<rparr>"

definition WithEndUserId :: "string \<Rightarrow> ScanOption" where
  "WithEndUserId userId options = options\<lparr>EndUserId := Some userId\<rparr>"

definition WithBeginItemId :: "string \<Rightarrow> ScanOption" where
  "WithBeginItemId itemId options = options\<lparr>BeginItemId := Some itemId\<rparr>"

definition WithEndItemId :: "string \<Rightarrow> ScanOption" where
  "WithEndItemId itemId options = options\<lparr>EndItemId := Some itemId\<rparr>"

definition WithBeginTime :: "int \<Rightarrow> ScanOption" where
  "WithBeginTime t options = options\<lparr>BeginTime := Some t\<rparr>"

definition WithEndTime :: "int \<Rightarrow> ScanOption" where
  "WithEndTime t options = options\<lparr>EndTime := Some t\<rparr>"

definition WithFeedbackTypes :: "FeedbackTypeExpression list \<Rightarrow> ScanOption" where
  "WithFeedbackTypes feedbackTypes options = options\<lparr>FeedbackTypes := feedbackTypes\<rparr>"

definition WithOrderByItemId :: ScanOption where
  "WithOrderByItemId options = options\<lparr>OrderByItemId := True\<rparr>"

text \<open>A nil option is skipped.\<close>

definition NewScanOptions :: "ScanOption option list \<Rightarrow> ScanOptions" where
  "NewScanOptions opts = fold (\<lambda>opt options. case opt of None \<Rightarrow> options | Some f \<Rightarrow> f options) opts zero_ScanOptions"

section \<open>Cached scores and values\<close>

abbreviation NonPersonalized :: string where "NonPersonalized \<equiv> ''non-personalized''"
abbreviation NonPersonalizedDigest :: string where "NonPersonalizedDigest \<equiv> ''non-personalized_digest''"
abbreviation ItemToItem :: string where "ItemToItem \<equiv> ''item-to-item''"
abbreviation ItemToItemDigest :: string where "ItemToItemDigest \<equiv> ''item-to-item_digest''"
abbreviation UserToUser :: string where "UserToUser \<equiv> ''user-to-user''"
abbreviation UserToUserDigest :: string where "UserToUserDigest \<equiv> ''user-to-user_digest''"
abbreviation CollaborativeFiltering :: string where "CollaborativeFiltering \<equiv> ''collaborative-filtering''"
abbreviation CollaborativeFilteringDigest :: string where
  "CollaborativeFilteringDigest \<equiv> ''collaborative-filtering_digest''"
abbreviation CollaborativeFilteringUpdateTime :: string where
  "CollaborativeFilteringUpdateTime \<equiv> ''collaborative-filtering_update_time''"
abbreviation RecommendCache :: string where "RecommendCache \<equiv> ''recommend''"
abbreviation RecommendDigest :: string where "RecommendDigest \<equiv> ''recommend_digest''"
abbreviation RecommendUpdateTime :: string where "RecommendUpdateTime \<equiv> ''recommend_update_time''"
abbreviation LastModifyUserTime :: string where "LastModifyUserTime \<equiv> ''last_modify_user_time''"

definition Key :: "string list \<Rightarrow> string" where
  "Key keys =
     (case keys of [] \<Rightarrow> []
      | k # ks \<Rightarrow> fold (\<lambda>key builder. if key \<noteq> [] then builder @ ''/'' @ key else builder) ks k)"

record cache_Value =
  cv_name :: string
  cv_value :: string

definition cache_String :: "string \<Rightarrow> string \<Rightarrow> cache_Value" where
  "cache_String name v = \<lparr>cv_name = name, cv_value = v\<rparr>"

definition cache_Integer :: "string \<Rightarrow> int \<Rightarrow> cache_Value" where
  "cache_Integer name v = \<lparr>cv_name = name, cv_value = FormatInt v\<rparr>"

text \<open>\<^verbatim>\<open>time.Time.String\<close> and the date parser are parameters.\<close>

definition cache_Time :: "(int \<Rightarrow> string) \<Rightarrow> string \<Rightarrow> int \<Rightarrow> cache_Value" where
  "cache_Time time_string name v = \<lparr>cv_name = name, cv_value = time_string v\<rparr>"

record ReturnValue =
  rv_value :: string
  rv_err :: "go_fail option"
  rv_exists :: bool

definition rv_String :: "ReturnValue \<Rightarrow> go_fail + string" where
  "rv_String r = (case rv_err r of Some e \<Rightarrow> Inl e | None \<Rightarrow> if \<not> rv_exists r then Inr [] else Inr (rv_value r))"

definition rv_Integer :: "ReturnValue \<Rightarrow> go_fail + int" where
  "rv_Integer r =
     (case rv_err r of Some e \<Rightarrow> Inl e
      | None \<Rightarrow> if \<not> rv_exists r then Inr 0
                else (case atoi (rv_value r) of Some n \<Rightarrow> Inr n | None \<Rightarrow> Inl (Error ''strconv.Atoi'')))"

definition zero_time :: int where
  "zero_time = - 62135596800 * 10 ^ 9"

definition rv_Time :: "(string \<Rightarrow> go_fail + int) \<Rightarrow> ReturnValue \<Rightarrow> go_fail + int" where
  "rv_Time parse_time r =
     (case rv_err r of Some e \<Rightarrow> Inl e
      | None \<Rightarrow> if \<not> rv_exists r then Inr zero_time else parse_time (rv_value r))"

record Score =
  sc_Id :: string
  sc_Score :: fl
  sc_IsHidden :: bool
  sc_Categories :: "string list"
  sc_Timestamp :: int

definition zero_Score :: Score where
  "zero_Score = \<lparr>sc_Id = [], sc_Score = Fin 0, sc_IsHidden = False, sc_Categories = [], sc_Timestamp = zero_time\<rparr>"

definition score_greater :: "Score \<Rightarrow> Score \<Rightarrow> bool" where
  "score_greater a b \<longleftrightarrow> fless (sc_Score b) (sc_Score a)"

definition SortDocuments :: "Score list \<Rightarrow> Score list" where
  "SortDocuments documents = sort_slice score_greater documents"

definition ConvertDocumentsToValues :: "Score list \<Rightarrow> string list" where
  "ConvertDocumentsToValues documents = map sc_Id documents"

record ScoreCondition =
  cond_Subset :: "string option"
  cond_Id :: "string option"
  cond_Before :: "int option"

definition cond_Check :: "ScoreCondition \<Rightarrow> go_fail + unit" where
  "cond_Check c =
     (if cond_Id c = None \<and> cond_Before c = None \<and> cond_Subset c = None
      then Inl (Error ''document condition not valid'') else Inr ())"

text \<open>A nil slice of categories is \<open>None\<close>.\<close>

record ScorePatch =
  sp_IsHidden :: "bool option"
  sp_Categories :: "string list option"
  sp_Score :: "fl option"

record TimeSeriesPoint =
  pt_Name :: string
  pt_Timestamp :: int
  pt_Value :: fl

section \<open>Facts\<close>

lemma SortFeedbacks_mset [simp]: "mset (SortFeedbacks fs) = mset fs"
  by (simp add: SortFeedbacks_def)

lemma SortFeedbacks_set [simp]: "set (SortFeedbacks fs) = set fs"
  by (simp add: SortFeedbacks_def)

lemma Key_two: "Key [a, b] = (if b = [] then a else a @ ''/'' @ b)"
  by (simp add: Key_def)

lemma Key_inj: "b \<noteq> [] \<Longrightarrow> b' \<noteq> [] \<Longrightarrow> CHR ''/'' \<notin> set a \<Longrightarrow> CHR ''/'' \<notin> set a' \<Longrightarrow>
   Key [a, b] = Key [a', b'] \<longleftrightarrow> a = a' \<and> b = b'"
proof -
  assume b: "b \<noteq> []" "b' \<noteq> []" and a: "CHR ''/'' \<notin> set a" "CHR ''/'' \<notin> set a'"
  have t: "takeWhile (\<lambda>c. c \<noteq> CHR ''/'') (x @ ''/'' @ y) = x" if "CHR ''/'' \<notin> set x" for x y
    using that by (induction x) auto
  show ?thesis
  proof
    assume "Key [a, b] = Key [a', b']"
    then have "a @ ''/'' @ b = a' @ ''/'' @ b'" using b by (simp add: Key_two)
    then show "a = a' \<and> b = b'" using t[OF a(1), of b] t[OF a(2), of b'] by auto
  qed simp
qed

text \<open>Scores that are numbers are sorted from the highest to the lowest.\<close>

lemma fless_weak_order: "\<forall>x\<in>S. f x \<noteq> NaN \<Longrightarrow> weak_order_on (\<lambda>a b. fless (f b) (f a)) S"
  unfolding weak_order_on_def by (metis fle_antisym fle_trans fless_iff fle_total)

definition best_first :: "Score list \<Rightarrow> bool" where
  "best_first scores \<longleftrightarrow> sorted_wrt (\<lambda>a b. fle (sc_Score b) (sc_Score a)) scores"

lemma SortDocuments_mset [simp]: "mset (SortDocuments ds) = mset ds"
  by (simp add: SortDocuments_def)

lemma SortDocuments_set [simp]: "set (SortDocuments ds) = set ds"
  by (simp add: SortDocuments_def)

lemma SortDocuments_best_first:
  assumes "\<forall>d\<in>set ds. sc_Score d \<noteq> NaN"
  shows "best_first (SortDocuments ds)"
proof -
  have "sorted_wrt (\<lambda>a b. \<not> score_greater b a) (SortDocuments ds)"
    unfolding SortDocuments_def by (rule sort_slice_ordered) (use fless_weak_order[of "set ds" sc_Score] assms in \<open>simp add: score_greater_def[abs_def]\<close>)
  then show ?thesis unfolding best_first_def
    by (rule sorted_wrt_mono_rel[rotated]) (use assms in \<open>auto simp: score_greater_def not_fless_fle\<close>)
qed

end
