(* ===== verification/Gorse_Config.thy ===== *)
theory Gorse_Config
  imports Gorse_Data
begin

text \<open>
  The recommender configuration (\<^verbatim>\<open>config/config.go\<close>) as far as the recommenders read it, the names of the
  configured recommenders and the digests that identify a configuration (\<^verbatim>\<open>Hash\<close>). The digest function
  \<^verbatim>\<open>crypto/md5\<close> is the parameter \<open>md5\<close>: it maps the bytes written to the hash to the hexadecimal text.
\<close>

section \<open>Configuration\<close>

record DataSourceConfig =
  PositiveFeedbackTypes :: "FeedbackTypeExpression list"
  ReadFeedbackTypes :: "FeedbackTypeExpression list"
  PositiveFeedbackTTL :: nat
  ItemTTL :: nat

record NonPersonalizedConfig =
  np_Name :: string
  np_Score :: string
  np_Filter :: string

record ItemToItemConfig =
  i2i_Name :: string
  i2i_Type :: string
  i2i_Column :: string
  i2i_Prompt :: string

record UserToUserConfig =
  u2u_Name :: string
  u2u_Type :: string
  u2u_Column :: string

record CollaborativeConfig =
  cf_Type :: string
  cf_FitPeriod :: int
  cf_FitEpoch :: int
  cf_OptimizePeriod :: int
  cf_OptimizeTrials :: int
  cf_Patience :: int

record ExternalConfig =
  ext_Name :: string
  ext_Script :: string

record ReplacementConfig =
  EnableReplacement :: bool
  PositiveReplacementDecay :: fl
  ReadReplacementDecay :: fl

record RerankerAPIConfig =
  rk_AuthToken :: string
  rk_Model :: string
  rk_URL :: string

record RankerConfig =
  rank_Type :: string
  rank_Recommenders :: "string list"
  rank_CacheExpire :: int
  QueryTemplate :: string
  DocumentTemplate :: string
  RerankerAPI :: RerankerAPIConfig

record FallbackConfig =
  fall_Recommenders :: "string list"

record RecommendConfig =
  CacheSize :: int
  CacheExpire :: int
  ContextSize :: int
  ActiveUserTTL :: int
  DataSource :: DataSourceConfig
  cfg_NonPersonalized :: "NonPersonalizedConfig list"
  cfg_ItemToItem :: "ItemToItemConfig list"
  cfg_UserToUser :: "UserToUserConfig list"
  Collaborative :: CollaborativeConfig
  cfg_External :: "ExternalConfig list"
  Replacement :: ReplacementConfig
  Ranker :: RankerConfig
  Fallback :: FallbackConfig

section \<open>Names and digests\<close>

definition np_FullName :: "NonPersonalizedConfig \<Rightarrow> string" where
  "np_FullName c = ''non-personalized/'' @ np_Name c"

definition i2i_FullName :: "ItemToItemConfig \<Rightarrow> string" where
  "i2i_FullName c = ''item-to-item/'' @ i2i_Name c"

definition u2u_FullName :: "UserToUserConfig \<Rightarrow> string" where
  "u2u_FullName c = ''user-to-user/'' @ u2u_Name c"

definition cf_FullName :: string where
  "cf_FullName = ''collaborative''"

definition ext_FullName :: "ExternalConfig \<Rightarrow> string" where
  "ext_FullName c = ''external/'' @ ext_Name c"

definition np_Hash :: "(string \<Rightarrow> string) \<Rightarrow> NonPersonalizedConfig \<Rightarrow> string" where
  "np_Hash md5 c = md5 (np_Name c @ np_Score c @ np_Filter c)"

definition positive_types_text :: "RecommendConfig \<Rightarrow> string" where
  "positive_types_text cfg = concat (map expr_String (PositiveFeedbackTypes (DataSource cfg)))"

definition i2i_Hash :: "(string \<Rightarrow> string) \<Rightarrow> RecommendConfig \<Rightarrow> ItemToItemConfig \<Rightarrow> string" where
  "i2i_Hash md5 cfg c =
     md5 (i2i_Name c @ i2i_Type c @ i2i_Column c @ (if i2i_Type c = ''users'' then positive_types_text cfg else []))"

definition u2u_Hash :: "(string \<Rightarrow> string) \<Rightarrow> RecommendConfig \<Rightarrow> UserToUserConfig \<Rightarrow> string" where
  "u2u_Hash md5 cfg c =
     md5 (u2u_Name c @ u2u_Type c @ u2u_Column c @ (if u2u_Type c = ''items'' then positive_types_text cfg else []))"

definition cf_Hash :: "(string \<Rightarrow> string) \<Rightarrow> RecommendConfig \<Rightarrow> string" where
  "cf_Hash md5 cfg = md5 (positive_types_text cfg)"

definition ext_Hash :: "(string \<Rightarrow> string) \<Rightarrow> ExternalConfig \<Rightarrow> string" where
  "ext_Hash md5 c = md5 (ext_Name c @ ext_Script c)"

text \<open>\<^verbatim>\<open>util.MD5\<close>: the strings are sorted and written one after the other.\<close>

definition MD5 :: "(string \<Rightarrow> string) \<Rightarrow> string list \<Rightarrow> string" where
  "MD5 md5 s = md5 (concat (sort s))"

definition ListRecommenders :: "RecommendConfig \<Rightarrow> string list" where
  "ListRecommenders r = map np_FullName (cfg_NonPersonalized r) @ map i2i_FullName (cfg_ItemToItem r) @
     map u2u_FullName (cfg_UserToUser r) @ map ext_FullName (cfg_External r) @ [cf_FullName] @ [''latest'']"

text \<open>The digests \<^verbatim>\<open>RecommendConfig.Hash\<close> combines, in the order it collects them.\<close>

definition config_digests :: "(string \<Rightarrow> string) \<Rightarrow> RecommendConfig \<Rightarrow> string list" where
  "config_digests md5 r =
     (let recommenders = (if rank_Recommenders (Ranker r) = [] then set (ListRecommenders r)
                          else set (rank_Recommenders (Ranker r)))
      in map (np_Hash md5) (filter (\<lambda>c. np_FullName c \<in> recommenders) (cfg_NonPersonalized r)) @
         map (i2i_Hash md5 r) (filter (\<lambda>c. i2i_FullName c \<in> recommenders) (cfg_ItemToItem r)) @
         map (u2u_Hash md5 r) (filter (\<lambda>c. u2u_FullName c \<in> recommenders) (cfg_UserToUser r)) @
         map (ext_Hash md5) (filter (\<lambda>c. ext_FullName c \<in> recommenders) (cfg_External r)) @
         (if cf_FullName \<in> recommenders then [cf_Hash md5 r] else []) @
         (if ''latest'' \<in> recommenders then [''latest''] else []))"

definition config_Hash :: "(string \<Rightarrow> string) \<Rightarrow> RecommendConfig \<Rightarrow> string" where
  "config_Hash md5 r = MD5 md5 (config_digests md5 r)"

section \<open>The digest of a set of recommenders\<close>

lemma MD5_permute: "mset xs = mset ys \<Longrightarrow> MD5 md5 xs = MD5 md5 ys"
  unfolding MD5_def by (metis properties_for_sort sorted_sort mset_sort)

text \<open>The names of a configuration with the digest each contributes.\<close>

definition named_digests :: "(string \<Rightarrow> string) \<Rightarrow> RecommendConfig \<Rightarrow> (string \<times> string) list" where
  "named_digests md5 r =
     map (\<lambda>c. (np_FullName c, np_Hash md5 c)) (cfg_NonPersonalized r) @
     map (\<lambda>c. (i2i_FullName c, i2i_Hash md5 r c)) (cfg_ItemToItem r) @
     map (\<lambda>c. (u2u_FullName c, u2u_Hash md5 r c)) (cfg_UserToUser r) @
     map (\<lambda>c. (ext_FullName c, ext_Hash md5 c)) (cfg_External r) @
     [(cf_FullName, cf_Hash md5 r)] @ [(''latest'', ''latest'')]"

lemma map_fst_named_digests: "map fst (named_digests md5 r) = ListRecommenders r"
  by (simp add: named_digests_def ListRecommenders_def comp_def)

lemma config_digests_named:
  "config_digests md5 r = map snd (filter (\<lambda>(n, _). n \<in> set (if rank_Recommenders (Ranker r) = []
     then ListRecommenders r else rank_Recommenders (Ranker r))) (named_digests md5 r))"
  unfolding config_digests_def named_digests_def Let_def
  by (simp add: filter_map comp_def)

lemma map_of_permute:
  assumes "distinct (map fst xs)" and "distinct ns" and "set ns \<subseteq> set (map fst xs)"
  shows "mset (map (\<lambda>n. the (map_of xs n)) ns) = mset (map snd (filter (\<lambda>(n, _). n \<in> set ns) xs))"
proof -
  let ?g = "\<lambda>n. the (map_of xs n)"
  have "map snd (filter (\<lambda>(n, _). n \<in> set ns) xs) = map ?g (filter (\<lambda>n. n \<in> set ns) (map fst xs))"
    using assms(1) by (auto simp: filter_map comp_def map_of_is_SomeI case_prod_unfold intro!: map_cong)
  moreover have "mset (filter (\<lambda>n. n \<in> set ns) (map fst xs)) = mset ns"
    using assms by (intro iffD1[OF set_eq_iff_mset_eq_distinct]) auto
  ultimately show ?thesis by (metis mset_map)
qed

text \<open>The digest of a configuration depends on the set of recommenders the ranker lists, not on their order:
  for distinct configured recommenders, \<^verbatim>\<open>RecommendConfig.Hash\<close> is the combined digest of the digests of the
  listed ones (of all configured ones if the list is empty), taken in any order.\<close>

theorem config_hash_order:
  assumes "distinct (ListRecommenders r)" and "distinct names" and "set names \<subseteq> set (ListRecommenders r)"
    and "set names = set (if rank_Recommenders (Ranker r) = [] then ListRecommenders r else rank_Recommenders (Ranker r))"
  shows "config_Hash md5 r = MD5 md5 (map (\<lambda>n. the (map_of (named_digests md5 r) n)) names)"
proof -
  have "mset (map (\<lambda>n. the (map_of (named_digests md5 r) n)) names) = mset (config_digests md5 r)"
    unfolding config_digests_named using map_of_permute[of "named_digests md5 r" names] assms
    by (simp add: map_fst_named_digests del: set_map)
  then show ?thesis unfolding config_Hash_def by (metis MD5_permute)
qed

definition sample_config :: RecommendConfig where
  "sample_config = \<lparr>CacheSize = 100, CacheExpire = 259200 * 10 ^ 9, ContextSize = 100, ActiveUserTTL = 0,
     DataSource = \<lparr>PositiveFeedbackTypes = [\<lparr>ex_FeedbackType = ''star'', expr_type = ExprNone, ex_Value = Fin 0\<rparr>],
       ReadFeedbackTypes = [\<lparr>ex_FeedbackType = ''read'', expr_type = ExprNone, ex_Value = Fin 0\<rparr>],
       PositiveFeedbackTTL = 0, ItemTTL = 0\<rparr>,
     cfg_NonPersonalized = [\<lparr>np_Name = ''popular'', np_Score = ''len(feedback)'', np_Filter = []\<rparr>],
     cfg_ItemToItem = [], cfg_UserToUser = [],
     Collaborative = \<lparr>cf_Type = ''none'', cf_FitPeriod = 1, cf_FitEpoch = 1, cf_OptimizePeriod = 0,
       cf_OptimizeTrials = 1, cf_Patience = 0\<rparr>,
     cfg_External = [], Replacement = \<lparr>EnableReplacement = False, PositiveReplacementDecay = rnd64 (8 / 10),
       ReadReplacementDecay = rnd64 (6 / 10)\<rparr>,
     Ranker = \<lparr>rank_Type = ''none'', rank_Recommenders = [''latest''], rank_CacheExpire = 432000 * 10 ^ 9,
       QueryTemplate = [], DocumentTemplate = [], RerankerAPI = \<lparr>rk_AuthToken = [], rk_Model = [], rk_URL = []\<rparr>\<rparr>,
     Fallback = \<lparr>fall_Recommenders = []\<rparr>\<rparr>"

theorem config_hash_order_witness:
  "config_Hash (\<lambda>s. s) sample_config = ''latest''"
proof -
  have "config_Hash (\<lambda>s. s) sample_config = MD5 (\<lambda>s. s) (map (\<lambda>n. the (map_of (named_digests (\<lambda>s. s) sample_config) n)) [''latest''])"
    by (rule config_hash_order)
      (simp_all add: sample_config_def ListRecommenders_def np_FullName_def cf_FullName_def)
  then show ?thesis
    by (simp add: MD5_def named_digests_def sample_config_def np_FullName_def cf_FullName_def)
qed

end
