(* ===== verification/Recommender.thy ===== *)
theory Recommender
  imports Gorse_Config Go_Heap Dict_Index
begin

text \<open>
  The online recommender (\<^verbatim>\<open>logics/recommend.go\<close>): it loads the user's feedback, then takes items from the
  cached recommendation and from named recommenders one after the other, leaving out the items the user
  has seen and those already taken, until the limit is reached.

  The stores are interfaces in the code (\<^verbatim>\<open>cache.Database\<close>, \<^verbatim>\<open>data.Database\<close>) and records of operations
  here; every call may fail and may see a different world. The clock, the digest function, the iteration
  order of maps and sets and the external scripts belong to the environment too.
\<close>

section \<open>Environment\<close>

record 'w CacheClient =
  cc_SearchScores :: "string \<Rightarrow> string \<Rightarrow> string list \<Rightarrow> int \<Rightarrow> int \<Rightarrow> ('w, Score list) io"
  cc_Get :: "string \<Rightarrow> 'w \<Rightarrow> ReturnValue \<times> 'w"
  cc_Set :: "cache_Value list \<Rightarrow> ('w, unit) io"
  cc_AddScores :: "string \<Rightarrow> string \<Rightarrow> Score list \<Rightarrow> ('w, unit) io"
  cc_DeleteScores :: "string list \<Rightarrow> ScoreCondition \<Rightarrow> ('w, unit) io"

record 'w DataClient =
  dc_GetUserFeedback :: "string \<Rightarrow> int option \<Rightarrow> FeedbackTypeExpression list \<Rightarrow> ('w, Feedback list) io"
  dc_GetLatestItems :: "int \<Rightarrow> string list \<Rightarrow> ('w, Item list) io"
  dc_BatchGetItems :: "string list \<Rightarrow> ('w, Item list) io"

record 'w Env =
  env_cache :: "'w CacheClient"
  env_data :: "'w DataClient"
  env_now :: "'w \<Rightarrow> int"
  env_md5 :: "string \<Rightarrow> string"
  env_range :: "fl go_map \<Rightarrow> fl go_map"
  env_slice :: "string list \<Rightarrow> string list"
  env_pull :: "ExternalConfig \<Rightarrow> string \<Rightarrow> ('w, string list) io"

record Recommender =
  config :: RecommendConfig
  online :: bool
  coldstart :: bool
  userId :: string
  userFeedback :: "Feedback list"
  categories :: "string list"
  excludeSet :: "string set"

type_synonym ('w, 'a) rec_io = "(Recommender \<times> 'w, 'a) io"

definition on_world :: "('w, 'a) io \<Rightarrow> ('w, 'a) rec_io" where
  "on_world m = (\<lambda>(r, w). case m w of (x, w') \<Rightarrow> (x, r, w'))"

definition get_rec :: "('w, Recommender) rec_io" where
  "get_rec = (\<lambda>(r, w). (Inr r, r, w))"

definition put_rec :: "Recommender \<Rightarrow> ('w, unit) rec_io" where
  "put_rec r' = (\<lambda>(r, w). (Inr (), r', w))"

text \<open>Reading a digest: \<^verbatim>\<open>Get(...).String()\<close>.\<close>

definition get_string :: "'w Env \<Rightarrow> string \<Rightarrow> ('w, string) io" where
  "get_string env name w = (case cc_Get (env_cache env) name w of (v, w') \<Rightarrow> (rv_String v, w'))"

section \<open>Construction\<close>

definition is_positive :: "RecommendConfig \<Rightarrow> Feedback \<Rightarrow> bool" where
  "is_positive cfg f = MatchFeedbackTypeExpressions (PositiveFeedbackTypes (DataSource cfg)) (key_FeedbackType f) (fb_Value f)"

definition NewRecommender ::
  "'w Env \<Rightarrow> RecommendConfig \<Rightarrow> bool \<Rightarrow> string \<Rightarrow> string list \<Rightarrow> ('w, Recommender) io" where
  "NewRecommender env cfg onl user cats = (\<lambda>w.
     io_bind (dc_GetUserFeedback (env_data env) user (Some (env_now env w)) []) (\<lambda>feedback.
       let (excl, cold) = fold (\<lambda>f (excl, cold).
             (if \<not> EnableReplacement (Replacement cfg) \<or> \<not> onl then insert (key_ItemId f) excl else excl,
              if is_positive cfg f then False else cold)) feedback ({}, True)
       in io_return \<lparr>config = cfg, online = onl, coldstart = cold, userId = user, userFeedback = feedback,
            categories = cats, excludeSet = excl\<rparr>) w)"

definition IsColdStart :: "Recommender \<Rightarrow> bool" where
  "IsColdStart r = coldstart r"

section \<open>The recommenders\<close>

definition unix :: "int \<Rightarrow> int" where
  "unix t = t div 10 ^ 9"

definition recommendLatest :: "'w Env \<Rightarrow> ('w, Score list \<times> string) rec_io" where
  "recommendLatest env = io_bind get_rec (\<lambda>r.
     io_bind (on_world (dc_GetLatestItems (env_data env) (CacheSize (config r)) (categories r))) (\<lambda>items.
       io_return (map (\<lambda>item. zero_Score\<lparr>sc_Id := ItemId item, sc_Score := of_int64 (unix (item_Timestamp item)),
                                     sc_Categories := item_Categories item\<rparr>)
                    (filter (\<lambda>item. ItemId item \<notin> excludeSet r) items), ''latest'')))"

definition recommendNonPersonalized :: "'w Env \<Rightarrow> string \<Rightarrow> ('w, Score list \<times> string) rec_io" where
  "recommendNonPersonalized env name = io_bind get_rec (\<lambda>r.
     let cats = (if categories r = [] then [[]] else categories r)
     in io_bind (on_world (cc_SearchScores (env_cache env) NonPersonalized name cats 0 (CacheSize (config r)))) (\<lambda>items.
        io_bind (on_world (get_string env (Key [NonPersonalizedDigest, name]))) (\<lambda>digest.
          io_return (filter (\<lambda>item. sc_Id item \<notin> excludeSet r) items, digest))))"

definition recommendCollaborative :: "'w Env \<Rightarrow> ('w, Score list \<times> string) rec_io" where
  "recommendCollaborative env = io_bind get_rec (\<lambda>r.
     io_bind (on_world (cc_SearchScores (env_cache env) CollaborativeFiltering (userId r) (categories r) 0
                          (CacheSize (config r)))) (\<lambda>items.
     io_bind (on_world (get_string env (Key [CollaborativeFilteringDigest, userId r]))) (\<lambda>digest.
       io_return (filter (\<lambda>item. sc_Id item \<notin> excludeSet r) items, digest))))"

text \<open>The context: positive feedback in order, online at most \<^verbatim>\<open>ContextSize\<close> of them.\<close>

fun context_loop :: "(Feedback \<Rightarrow> bool) \<Rightarrow> bool \<Rightarrow> int \<Rightarrow> Feedback list \<Rightarrow> Feedback list \<Rightarrow> Feedback list" where
  "context_loop good onl sz [] acc = acc"
| "context_loop good onl sz (f # fs) acc =
     (if onl \<and> sz \<le> int (length acc) then acc
      else context_loop good onl sz fs (if good f then acc @ [f] else acc))"

definition gget :: "'v \<Rightarrow> string \<Rightarrow> 'v go_map \<Rightarrow> 'v" where
  "gget d k m = (case map_of m k of None \<Rightarrow> d | Some v \<Rightarrow> v)"

definition add_score :: "string \<Rightarrow> fl \<Rightarrow> fl go_map \<Rightarrow> fl go_map" where
  "add_score k v m = gput k (fadd (gget (Fin 0) k m) v) m"

type_synonym i2i_acc = "fl go_map \<times> string list go_map \<times> string list"

definition collect_similar :: "string set \<Rightarrow> string \<Rightarrow> Score \<Rightarrow> i2i_acc \<Rightarrow> i2i_acc" where
  "collect_similar excl digest item = (\<lambda>(scores, cats, digests).
     if sc_Id item \<notin> excl
     then (add_score (sc_Id item) (sc_Score item) scores, gput (sc_Id item) (sc_Categories item) cats,
           insert_new digest digests)
     else (scores, cats, digests))"

definition similar_step ::
  "'w Env \<Rightarrow> Recommender \<Rightarrow> string \<Rightarrow> Feedback \<Rightarrow> i2i_acc \<Rightarrow> ('w, i2i_acc) rec_io" where
  "similar_step env r name feedback acc =
     io_bind (on_world (cc_SearchScores (env_cache env) ItemToItem (Key [name, key_ItemId feedback]) (categories r) 0
                          (CacheSize (config r)))) (\<lambda>similarItems.
     io_bind (on_world (get_string env (Key [ItemToItemDigest, name, key_ItemId feedback]))) (\<lambda>digest.
       io_return (fold (collect_similar (excludeSet r) digest) similarItems acc)))"

definition top_scores :: "'w Env \<Rightarrow> int \<Rightarrow> fl go_map \<Rightarrow> ('s, (string, fl) Elem list) io" where
  "top_scores env k scores = io_lift (topk_run k (map (\<lambda>(i, v). \<lparr>Value = i, Weight = v\<rparr>) (env_range env scores)))"

text \<open>\<^verbatim>\<open>make\<close> panics on a negative capacity.\<close>

definition make_cap :: "int \<Rightarrow> ('s, unit) io" where
  "make_cap n = (if n < 0 then io_fail (Panic ''makeslice: cap out of range'') else io_return ())"

definition recommendItemToItem :: "'w Env \<Rightarrow> string \<Rightarrow> ('w, Score list \<times> string) rec_io" where
  "recommendItemToItem env name = io_bind get_rec (\<lambda>r0.
     let r = r0\<lparr>userFeedback := SortFeedbacks (userFeedback r0)\<rparr>
     in io_bind (put_rec r) (\<lambda>_. io_bind (make_cap (CacheSize (config r))) (\<lambda>_.
        let ctxt = context_loop (is_positive (config r)) (online r) (ContextSize (config r)) (userFeedback r) []
        in io_bind (io_fold (similar_step env r name) ctxt ([], [], [])) (\<lambda>(scores, cats, digests).
           io_bind (top_scores env (CacheSize (config r)) scores) (\<lambda>best.
             io_return (map (\<lambda>e. zero_Score\<lparr>sc_Id := Value e, sc_Score := Weight e, sc_Categories := gget [] (Value e) cats\<rparr>) best,
                        concat (env_slice env digests)))))))"

definition neighbour_step :: "'w Env \<Rightarrow> Recommender \<Rightarrow> Score \<Rightarrow> fl go_map \<Rightarrow> ('w, fl go_map) rec_io" where
  "neighbour_step env r user scores = (\<lambda>(r', w).
     io_bind (on_world (dc_GetUserFeedback (env_data env) (sc_Id user) (Some (env_now env w))
                          (PositiveFeedbackTypes (DataSource (config r))))) (\<lambda>feedbacks.
       io_return (fold (\<lambda>f m. if key_ItemId f \<notin> excludeSet r then add_score (key_ItemId f) (sc_Score user) m else m)
                    feedbacks scores)) (r', w))"

definition items_map :: "Item list \<Rightarrow> string \<rightharpoonup> Item" where
  "items_map items = map_of (rev (map (\<lambda>i. (ItemId i, i)) items))"

definition category_scores :: "Recommender \<Rightarrow> (string \<rightharpoonup> Item) \<Rightarrow> (string, fl) Elem list \<Rightarrow> Score list" where
  "category_scores r m best = concat (map (\<lambda>e.
     case m (Value e) of
       None \<Rightarrow> []
     | Some item \<Rightarrow>
         if list_all (\<lambda>c. c \<in> set (item_Categories item)) (categories r)
         then [zero_Score\<lparr>sc_Id := ItemId item, sc_Score := Weight e, sc_Categories := item_Categories item\<rparr>]
         else []) best)"

definition recommendUserToUser :: "'w Env \<Rightarrow> string \<Rightarrow> ('w, Score list \<times> string) rec_io" where
  "recommendUserToUser env name = io_bind get_rec (\<lambda>r.
     io_bind (on_world (cc_SearchScores (env_cache env) UserToUser (Key [name, userId r]) [] 0 (CacheSize (config r))))
       (\<lambda>similarUsers.
     io_bind (on_world (get_string env (Key [UserToUserDigest, name, userId r]))) (\<lambda>digest.
     io_bind (io_fold (neighbour_step env r) similarUsers []) (\<lambda>scores.
     io_bind (top_scores env (CacheSize (config r)) scores) (\<lambda>best.
     io_bind (on_world (dc_BatchGetItems (env_data env) (map Value best))) (\<lambda>items.
       io_return (category_scores r (items_map items) best, digest)))))))"

definition external_config :: "string \<Rightarrow> ExternalConfig list \<Rightarrow> ExternalConfig" where
  "external_config name cfgs =
     (case find (\<lambda>c. ext_Name c = name) cfgs of None \<Rightarrow> \<lparr>ext_Name = [], ext_Script = []\<rparr> | Some c \<Rightarrow> c)"

definition recommendExternal :: "'w Env \<Rightarrow> string \<Rightarrow> ('w, Score list \<times> string) rec_io" where
  "recommendExternal env name = io_bind get_rec (\<lambda>r.
     let c = external_config name (cfg_External (config r)); digest = ext_Hash (env_md5 env) c
     in if categories r \<noteq> [] then io_return ([], digest)
        else io_bind (on_world (env_pull env c (userId r))) (\<lambda>items.
          io_return (map (\<lambda>i. zero_Score\<lparr>sc_Id := i\<rparr>) (filter (\<lambda>i. i \<notin> excludeSet r) items), digest)))"

section \<open>Combination\<close>

definition has_prefix :: "string \<Rightarrow> string \<Rightarrow> bool" where
  "has_prefix s p \<longleftrightarrow> take (length p) s = p"

definition parse :: "'w Env \<Rightarrow> string \<Rightarrow> go_fail + ('w, Score list \<times> string) rec_io" where
  "parse env fullname =
     (if fullname = ''collaborative'' then Inr (recommendCollaborative env)
      else if fullname = ''latest'' then Inr (recommendLatest env)
      else if has_prefix fullname ''non-personalized/''
      then Inr (recommendNonPersonalized env (drop (length ''non-personalized/'') fullname))
      else if has_prefix fullname ''item-to-item/''
      then Inr (recommendItemToItem env (drop (length ''item-to-item/'') fullname))
      else if has_prefix fullname ''user-to-user/''
      then Inr (recommendUserToUser env (drop (length ''user-to-user/'') fullname))
      else if has_prefix fullname ''external/''
      then Inr (recommendExternal env (drop (length ''external/'') fullname))
      else Inl (Error (''unknown recommender: '' @ fullname)))"

definition exclude :: "string list \<Rightarrow> ('w, unit) rec_io" where
  "exclude ids = io_bind get_rec (\<lambda>r. put_rec (r\<lparr>excludeSet := excludeSet r \<union> set ids\<rparr>))"

fun sequential_loop ::
  "'w Env \<Rightarrow> int \<Rightarrow> string list \<Rightarrow> Score list \<Rightarrow> string list \<Rightarrow> ('w, Score list \<times> string) rec_io" where
  "sequential_loop env limit [] result digests = io_return (result, MD5 (env_md5 env) digests)"
| "sequential_loop env limit (name # names) result digests =
     (case parse env name of
        Inl e \<Rightarrow> io_fail e
      | Inr recommenderFunc \<Rightarrow>
          io_bind recommenderFunc (\<lambda>(scores, digest).
          io_bind (exclude (map sc_Id scores)) (\<lambda>_.
            if 0 < limit \<and> limit \<le> int (length (result @ scores))
            then io_return (take (nat limit) (result @ scores), MD5 (env_md5 env) (digests @ [digest]))
            else sequential_loop env limit names (result @ scores) (digests @ [digest]))))"

definition RecommendSequential ::
  "'w Env \<Rightarrow> Score list \<Rightarrow> int \<Rightarrow> string list \<Rightarrow> ('w, Score list \<times> string) rec_io" where
  "RecommendSequential env result limit names = sequential_loop env limit names result []"

text \<open>\<^verbatim>\<open>strings.EqualFold\<close> with an ASCII word none of whose letters has a non-ASCII fold.\<close>

definition is_none :: "string \<Rightarrow> bool" where
  "is_none s \<longleftrightarrow> map lower s = ''none''"

fun take_unseen :: "Score list \<Rightarrow> Score list \<Rightarrow> ('w, Score list) rec_io" where
  "take_unseen [] result = io_return result"
| "take_unseen (score # scores) result = io_bind get_rec (\<lambda>r.
     if sc_Id score \<notin> excludeSet r
     then io_bind (exclude [sc_Id score]) (\<lambda>_. take_unseen scores (result @ [score]))
     else take_unseen scores result)"

definition Recommend :: "'w Env \<Rightarrow> int \<Rightarrow> ('w, Score list) rec_io" where
  "Recommend env limit = io_bind get_rec (\<lambda>r.
     io_bind (if \<not> is_none (rank_Type (Ranker (config r)))
              then io_bind (on_world (cc_SearchScores (env_cache env) RecommendCache (userId r) (categories r) 0
                                        (CacheSize (config r)))) (\<lambda>scores. take_unseen scores [])
              else io_bind (RecommendSequential env [] (CacheSize (config r)) (rank_Recommenders (Ranker (config r))))
                     (\<lambda>(result, _). io_return result)) (\<lambda>result.
       if limit \<le> int (length result) \<and> 0 < limit then io_return (take (nat limit) result)
       else io_bind (RecommendSequential env result limit (fall_Recommenders (Fallback (config r))))
              (\<lambda>(result', _). io_return result')))"

section \<open>What every recommender keeps\<close>

lemma on_world_Inr [simp]: "on_world m s = (Inr x, s') \<longleftrightarrow> (\<exists>w'. m (snd s) = (Inr x, w') \<and> s' = (fst s, w'))"
  by (cases s; cases "m (snd s)") (auto simp: on_world_def)

lemma get_rec_Inr [simp]: "get_rec s = (x, s') \<longleftrightarrow> x = Inr (fst s) \<and> s' = s"
  by (cases s) (auto simp: get_rec_def)

lemma put_rec_Inr [simp]: "put_rec r s = (x, s') \<longleftrightarrow> x = Inr () \<and> s' = (r, snd s)"
  by (cases s) (auto simp: put_rec_def)

lemma exclude_Inr [simp]:
  "exclude ids s = (x, s') \<longleftrightarrow> x = Inr () \<and> s' = ((fst s)\<lparr>excludeSet := excludeSet (fst s) \<union> set ids\<rparr>, snd s)"
  by (cases s) (auto simp: exclude_def io_bind_def get_rec_def put_rec_def)

text \<open>A \<^verbatim>\<open>range\<close> loop over a map visits every entry once.\<close>

definition map_iteration :: "'w Env \<Rightarrow> bool" where
  "map_iteration env \<longleftrightarrow> (\<forall>m. mset (env_range env m) = mset m)"

text \<open>The stores and scripts list no item twice in one answer.\<close>

definition distinct_answers :: "'w Env \<Rightarrow> bool" where
  "distinct_answers env \<longleftrightarrow>
     (\<forall>c s q b e w xs w'. cc_SearchScores (env_cache env) c s q b e w = (Inr xs, w') \<longrightarrow> distinct (map sc_Id xs)) \<and>
     (\<forall>n q w xs w'. dc_GetLatestItems (env_data env) n q w = (Inr xs, w') \<longrightarrow> distinct (map ItemId xs)) \<and>
     (\<forall>c u w xs w'. env_pull env c u w = (Inr xs, w') \<longrightarrow> distinct xs)"

definition same_setup :: "Recommender \<Rightarrow> Recommender \<Rightarrow> bool" where
  "same_setup r r' \<longleftrightarrow> config r' = config r \<and> userId r' = userId r \<and> categories r' = categories r \<and> online r' = online r \<and>
     coldstart r' = coldstart r \<and> mset (userFeedback r') = mset (userFeedback r)"

lemma same_setup_refl [simp]: "same_setup r r"
  by (simp add: same_setup_def)

lemma same_setup_trans: "same_setup a b \<Longrightarrow> same_setup b c \<Longrightarrow> same_setup a c"
  by (simp add: same_setup_def)

lemma same_setup_exclude [simp]: "same_setup r (r\<lparr>excludeSet := S\<rparr>)" "same_setup r (r\<lparr>userFeedback := SortFeedbacks (userFeedback r)\<rparr>)"
  by (simp_all add: same_setup_def)

text \<open>A recommender leaves the set of seen items alone and returns none of them.\<close>

definition fresh :: "bool \<Rightarrow> ('w, Score list \<times> string) rec_io \<Rightarrow> bool" where
  "fresh d f \<longleftrightarrow> (\<forall>s scores dg s'. f s = (Inr (scores, dg), s') \<longrightarrow>
     excludeSet (fst s') = excludeSet (fst s) \<and> same_setup (fst s) (fst s') \<and>
     sc_Id ` set scores \<inter> excludeSet (fst s) = {} \<and> (d \<longrightarrow> distinct (map sc_Id scores)))"

lemma freshD:
  "fresh d f \<Longrightarrow> f s = (Inr (scores, dg), s') \<Longrightarrow> excludeSet (fst s') = excludeSet (fst s) \<and> same_setup (fst s) (fst s') \<and>
     sc_Id ` set scores \<inter> excludeSet (fst s) = {} \<and> (d \<longrightarrow> distinct (map sc_Id scores))"
  unfolding fresh_def by blast

lemma get_string_Inr: "get_string env k w = (Inr x, w') \<Longrightarrow> \<exists>v. cc_Get (env_cache env) k w = (v, w') \<and> rv_String v = Inr x"
  by (cases "cc_Get (env_cache env) k w") (simp add: get_string_def)

lemma distinct_answersD:
  assumes "distinct_answers env"
  shows "cc_SearchScores (env_cache env) c s q b e w = (Inr xs, w') \<Longrightarrow> distinct (map sc_Id xs)"
    and "dc_GetLatestItems (env_data env) n q w = (Inr ys, w') \<Longrightarrow> distinct (map ItemId ys)"
    and "env_pull env cf u w = (Inr zs, w') \<Longrightarrow> distinct zs"
  using assms unfolding distinct_answers_def by blast+

lemma distinct_submset: "mset xs \<subseteq># mset ys \<Longrightarrow> distinct ys \<Longrightarrow> distinct xs"
proof -
  assume sub: "mset xs \<subseteq># mset ys" and ys: "distinct ys"
  obtain zs where "mset zs = mset ys - mset xs" using ex_mset by blast
  then have "mset ys = mset (xs @ zs)" using sub by simp
  then show ?thesis using ys mset_eq_imp_distinct_iff[of ys "xs @ zs"] by simp
qed

lemma fresh_latest: "fresh (distinct_answers env) (recommendLatest env)"
  unfolding fresh_def recommendLatest_def
  by (auto simp: io_bind_Inr comp_def zero_Score_def intro!: distinct_map_filter dest: distinct_answersD)

lemma fresh_non_personalized: "fresh (distinct_answers env) (recommendNonPersonalized env name)"
  unfolding fresh_def recommendNonPersonalized_def
  by (auto simp: io_bind_Inr Let_def intro!: distinct_map_filter dest: distinct_answersD)

lemma fresh_collaborative: "fresh (distinct_answers env) (recommendCollaborative env)"
  unfolding fresh_def recommendCollaborative_def
  by (auto simp: io_bind_Inr intro!: distinct_map_filter dest: distinct_answersD)

lemma fresh_external: "fresh (distinct_answers env) (recommendExternal env name)"
  unfolding fresh_def recommendExternal_def
  by (auto simp: io_bind_Inr Let_def comp_def zero_Score_def intro!: distinct_filter dest: distinct_answersD split: if_splits)

text \<open>The score maps of the two collecting recommenders hold unseen items only.\<close>

definition unseen_keys :: "string set \<Rightarrow> 'v go_map \<Rightarrow> bool" where
  "unseen_keys excl m \<longleftrightarrow> distinct (gkeys m) \<and> fst ` set m \<inter> excl = {}"

lemma unseen_add_score: "unseen_keys excl m \<Longrightarrow> k \<notin> excl \<Longrightarrow> unseen_keys excl (add_score k v m)"
  by (auto simp: unseen_keys_def add_score_def distinct_gput gkeys_gput set_map[symmetric] simp del: set_map)

lemma collect_similar_unseen:
  "unseen_keys excl (fst acc) \<Longrightarrow> unseen_keys excl (fst (fold (collect_similar excl digest) items acc))"
proof (induction items arbitrary: acc)
  case (Cons item items)
  have "unseen_keys excl (fst (collect_similar excl digest item acc))"
    using Cons.prems by (auto simp: collect_similar_def unseen_add_score split: prod.splits)
  then show ?case using Cons.IH by simp
qed simp

lemma neighbours_unseen:
  "unseen_keys excl m \<Longrightarrow>
   unseen_keys excl (fold (\<lambda>f m. if key_ItemId f \<notin> excl then add_score (key_ItemId f) v m else m) fs m)"
  by (induction fs arbitrary: m) (auto simp: unseen_add_score)

lemma top_scores_unseen:
  assumes "map_iteration env" and "unseen_keys excl scores" and "top_scores env k scores s = (Inr best, s')"
  shows "s' = s \<and> Value ` set best \<inter> excl = {} \<and> distinct (map Value best)"
proof -
  let ?es = "map (\<lambda>(i, v). \<lparr>Value = i, Weight = v\<rparr>) (env_range env scores) :: (string, fl) Elem list"
  have best: "topk_run k ?es = Inr best" and s: "s' = s" using assms(3) by (simp_all add: top_scores_def)
  then have sub: "mset best \<subseteq># mset ?es" using topk_run_subset[of k ?es] by auto
  have vs: "map Value ?es = map fst (env_range env scores)" by (simp add: comp_def case_prod_unfold)
  have m: "mset (map fst (env_range env scores)) = mset (gkeys scores)"
    using assms(1) by (simp add: map_iteration_def mset_map)
  have "image_mset Value (mset best) \<subseteq># image_mset Value (mset ?es)" using sub by (rule image_mset_subseteq_mono)
  then have sub': "mset (map Value best) \<subseteq># mset (gkeys scores)" using vs m by (metis mset_map)
  have "distinct (gkeys scores)" "set (gkeys scores) \<inter> excl = {}" using assms(2) by (simp_all add: unseen_keys_def)
  moreover have "set (map Value best) \<subseteq> set (gkeys scores)" using sub' by (rule set_mset_mono[of "mset _" "mset _", simplified set_mset_mset])
  moreover have "distinct (map Value best)"
    using sub' \<open>distinct (gkeys scores)\<close> by (rule distinct_submset)
  moreover from calculation have "Value ` set best \<inter> excl = {}" by (simp only: set_map) blast
  ultimately show ?thesis using s by simp
qed

lemma item_to_item_run:
  assumes "recommendItemToItem env name s = (Inr (out, dg), s')"
    and "r = (fst s)\<lparr>userFeedback := SortFeedbacks (userFeedback (fst s))\<rparr>"
  obtains m cats ds s1 best where
    "io_fold (similar_step env r name) (context_loop (is_positive (config r)) (online r) (ContextSize (config r)) (userFeedback r) [])
       ([], [], []) (r, snd s) = (Inr (m, cats, ds), s1)"
    "top_scores env (CacheSize (config r)) m s1 = (Inr best, s')"
    "out = map (\<lambda>e. zero_Score\<lparr>sc_Id := Value e, sc_Score := Weight e, sc_Categories := gget [] (Value e) cats\<rparr>) best"
    "unseen_keys (excludeSet r) m" "fst s1 = r"
proof -
  obtain m cats ds s1 best where
    fold: "io_fold (similar_step env r name) (context_loop (is_positive (config r)) (online r) (ContextSize (config r)) (userFeedback r) [])
       ([], [], []) (r, snd s) = (Inr (m, cats, ds), s1)"
    and best: "top_scores env (CacheSize (config r)) m s1 = (Inr best, s')"
    and out: "out = map (\<lambda>e. zero_Score\<lparr>sc_Id := Value e, sc_Score := Weight e, sc_Categories := gget [] (Value e) cats\<rparr>) best"
    using assms unfolding recommendItemToItem_def by (auto simp: io_bind_Inr Let_def make_cap_def split: if_splits)
  have "unseen_keys (excludeSet r) (fst (m, cats, ds)) \<and> fst s1 = r"
  proof (rule io_fold_invariant[OF fold, where P = "\<lambda>acc s. unseen_keys (excludeSet r) (fst acc) \<and> fst s = r"])
    fix f acc t acc' t'
    assume "unseen_keys (excludeSet r) (fst acc) \<and> fst t = r" "similar_step env r name f acc t = (Inr acc', t')"
    then show "unseen_keys (excludeSet r) (fst acc') \<and> fst t' = r"
      by (auto simp: similar_step_def io_bind_Inr intro: collect_similar_unseen)
  qed (simp add: unseen_keys_def)
  then show ?thesis using that[OF fold best out] by simp
qed

lemma fresh_item_to_item:
  assumes "map_iteration env"
  shows "fresh d (recommendItemToItem env name)"
  unfolding fresh_def
proof (intro allI impI)
  fix s scores dg s'
  assume run: "recommendItemToItem env name s = (Inr (scores, dg), s')"
  define r where "r = (fst s)\<lparr>userFeedback := SortFeedbacks (userFeedback (fst s))\<rparr>"
  obtain m cats ds s1 best where "io_fold (similar_step env r name) (context_loop (is_positive (config r)) (online r)
      (ContextSize (config r)) (userFeedback r) []) ([], [], []) (r, snd s) = (Inr (m, cats, ds), s1)"
    and best: "top_scores env (CacheSize (config r)) m s1 = (Inr best, s')"
    and scores: "scores = map (\<lambda>e. zero_Score\<lparr>sc_Id := Value e, sc_Score := Weight e, sc_Categories := gget [] (Value e) cats\<rparr>) best"
    and m: "unseen_keys (excludeSet r) m" "fst s1 = r"
    by (rule item_to_item_run[OF run r_def])
  from top_scores_unseen[OF assms m(1) best] m(2)
  show "excludeSet (fst s') = excludeSet (fst s) \<and> same_setup (fst s) (fst s') \<and>
      sc_Id ` set scores \<inter> excludeSet (fst s) = {} \<and> (d \<longrightarrow> distinct (map sc_Id scores))"
    by (auto simp: scores r_def comp_def zero_Score_def)
qed

lemma items_map_key: "items_map items i = Some item \<Longrightarrow> ItemId item = i"
  unfolding items_map_def by (auto dest!: map_of_SomeD)

lemma category_scores_ids:
  "\<exists>P. map sc_Id (category_scores r (items_map items) best) = filter P (map Value best)"
proof (intro exI)
  show "map sc_Id (category_scores r (items_map items) best) =
      filter (\<lambda>i. case items_map items i of None \<Rightarrow> False
        | Some item \<Rightarrow> list_all (\<lambda>c. c \<in> set (item_Categories item)) (categories r)) (map Value best)"
    by (induction best) (auto simp: category_scores_def zero_Score_def dest: items_map_key split: option.splits)
qed

lemma fresh_user_to_user:
  assumes "map_iteration env"
  shows "fresh d (recommendUserToUser env name)"
  unfolding fresh_def
proof (intro allI impI)
  fix s scores dg s'
  assume run: "recommendUserToUser env name s = (Inr (scores, dg), s')"
  let ?r = "fst s"
  obtain similar m s0 s1 best s2 items w where
    s0: "fst s0 = ?r" and fold: "io_fold (neighbour_step env ?r) similar [] s0 = (Inr m, s1)"
    and best: "top_scores env (CacheSize (config ?r)) m s1 = (Inr best, s2)"
    and scores: "scores = category_scores ?r (items_map items) best" "s' = (fst s2, w)"
    using run unfolding recommendUserToUser_def by (auto simp: io_bind_Inr)
  have "unseen_keys (excludeSet ?r) m \<and> fst s1 = ?r"
  proof (rule io_fold_invariant[OF fold, where P = "\<lambda>m s. unseen_keys (excludeSet ?r) m \<and> fst s = ?r"])
    fix u m t m' t'
    assume "unseen_keys (excludeSet ?r) m \<and> fst t = ?r" "neighbour_step env ?r u m t = (Inr m', t')"
    then show "unseen_keys (excludeSet ?r) m' \<and> fst t' = ?r"
      by (cases t) (auto simp: neighbour_step_def io_bind_Inr intro: neighbours_unseen)
  qed (simp add: unseen_keys_def s0)
  moreover from this have b: "s2 = s1 \<and> Value ` set best \<inter> excludeSet ?r = {} \<and> distinct (map Value best)"
    using top_scores_unseen[OF assms _ best] by blast
  moreover obtain P where P: "map sc_Id scores = filter P (map Value best)"
    using category_scores_ids scores(1) by blast
  then have "sc_Id ` set scores \<subseteq> Value ` set best" "distinct (map sc_Id scores)"
    using b by (metis filter_is_subset set_map, simp)
  ultimately show "excludeSet (fst s') = excludeSet (fst s) \<and> same_setup (fst s) (fst s') \<and>
      sc_Id ` set scores \<inter> excludeSet (fst s) = {} \<and> (d \<longrightarrow> distinct (map sc_Id scores))"
    using scores(2) by auto
qed

lemma fresh_parse:
  assumes "map_iteration env" and "parse env name = Inr f"
  shows "fresh (distinct_answers env) f"
  using assms fresh_latest fresh_non_personalized fresh_collaborative fresh_external fresh_item_to_item fresh_user_to_user
  by (auto simp: parse_def split: if_splits)

section \<open>Combining recommenders\<close>

text \<open>Appending sources that avoid what is excluded, and excluding what they return.\<close>

definition extends :: "bool \<Rightarrow> Recommender \<Rightarrow> Score list \<Rightarrow> Recommender \<Rightarrow> Score list \<Rightarrow> bool" where
  "extends d r result r' result' \<longleftrightarrow> same_setup r r' \<and> excludeSet r \<subseteq> excludeSet r' \<and>
     (\<exists>more. result' = result @ more \<and> sc_Id ` set more \<inter> excludeSet r = {} \<and> sc_Id ` set more \<subseteq> excludeSet r' \<and>
        (d \<longrightarrow> distinct (map sc_Id more)))"

lemma extends_refl: "extends d r result r result"
  by (simp add: extends_def)

lemma extends_trans:
  "extends d a xs b ys \<Longrightarrow> extends d b ys c zs \<Longrightarrow> extends d a xs c zs"
proof -
  assume 1: "extends d a xs b ys" and 2: "extends d b ys c zs"
  from 1 obtain m1 where m1: "ys = xs @ m1" "sc_Id ` set m1 \<inter> excludeSet a = {}" "sc_Id ` set m1 \<subseteq> excludeSet b"
    "d \<longrightarrow> distinct (map sc_Id m1)" unfolding extends_def by blast
  from 2 obtain m2 where m2: "zs = ys @ m2" "sc_Id ` set m2 \<inter> excludeSet b = {}" "sc_Id ` set m2 \<subseteq> excludeSet c"
    "d \<longrightarrow> distinct (map sc_Id m2)" unfolding extends_def by blast
  have sub: "excludeSet a \<subseteq> excludeSet b" "excludeSet b \<subseteq> excludeSet c" and same: "same_setup a c"
    using 1 2 same_setup_trans[of a b c] unfolding extends_def by simp_all
  have "zs = xs @ (m1 @ m2)" using m1(1) m2(1) by simp
  moreover have "sc_Id ` set (m1 @ m2) \<inter> excludeSet a = {}" using m1(2) m2(2) sub(1) by (simp only: set_append image_Un) blast
  moreover have "sc_Id ` set (m1 @ m2) \<subseteq> excludeSet c" using m1(3) m2(3) sub(2) by (simp only: set_append image_Un) blast
  moreover have "set (map sc_Id m1) \<inter> set (map sc_Id m2) = {}" using m1(3) m2(2) by (simp only: set_map) blast
  then have "d \<longrightarrow> distinct (map sc_Id (m1 @ m2))" using m1(4) m2(4) by simp
  ultimately show ?thesis using subset_trans[OF sub] same unfolding extends_def by (intro conjI exI[of _ "m1 @ m2"]) simp_all
qed

lemma sequential_step:
  assumes "fresh d f" and "f s = (Inr (scores, dg), s1)"
  shows "extends d (fst s) result ((fst s1)\<lparr>excludeSet := excludeSet (fst s1) \<union> set (map sc_Id scores)\<rparr>) (result @ scores)"
  using freshD[OF assms] unfolding extends_def by (auto simp: same_setup_def)

lemma sequential_loop_extends:
  assumes "map_iteration env" and "sequential_loop env limit names result ds s = (Inr (out, dg), s')"
  shows "\<exists>all. extends (distinct_answers env) (fst s) result (fst s') all \<and>
    (out = all \<or> 0 < limit \<and> out = take (nat limit) all)"
  using assms(2)
proof (induction names arbitrary: result ds s)
  case Nil
  then show ?case by (auto intro: extends_refl)
next
  case (Cons name names)
  obtain f where f: "parse env name = Inr f" using Cons.prems by (cases "parse env name") auto
  obtain scores d1 s1 where run: "f s = (Inr (scores, d1), s1)"
    using Cons.prems f by (auto simp: io_bind_Inr)
  let ?s2 = "((fst s1)\<lparr>excludeSet := excludeSet (fst s1) \<union> set (map sc_Id scores)\<rparr>, snd s1)"
  note ext = sequential_step[OF fresh_parse[OF assms(1) f] run, of result]
  show ?case
  proof (cases "0 < limit \<and> limit \<le> int (length (result @ scores))")
    case True
    then have "out = take (nat limit) (result @ scores)" "s' = ?s2"
      using Cons.prems f run True by (auto simp: io_bind_Inr)
    then show ?thesis using ext True by auto
  next
    case False
    then have "sequential_loop env limit names (result @ scores) (ds @ [d1]) ?s2 = (Inr (out, dg), s')"
      using Cons.prems f run by (auto simp: io_bind_Inr)
    from Cons.IH[OF this] ext extends_trans show ?thesis by fastforce
  qed
qed

lemma take_unseen_extends:
  assumes "take_unseen scores result s = (Inr out, s')"
  shows "extends True (fst s) result (fst s') out"
  using assms
proof (induction scores arbitrary: result s)
  case Nil
  then show ?case by (auto intro: extends_refl)
next
  case (Cons x xs)
  show ?case
  proof (cases "sc_Id x \<in> excludeSet (fst s)")
    case True
    then show ?thesis using Cons.prems Cons.IH[of result s] by (simp add: io_bind_Inr)
  next
    case False
    let ?r = "(fst s)\<lparr>excludeSet := excludeSet (fst s) \<union> set [sc_Id x]\<rparr>"
    have "extends True (fst s) result ?r (result @ [x])" using False by (auto simp: extends_def)
    moreover have "extends True ?r (result @ [x]) (fst s') out"
      using Cons.prems False Cons.IH[of "result @ [x]" "(?r, snd s)"] by (simp add: io_bind_Inr)
    ultimately show ?thesis by (rule extends_trans)
  qed
qed

lemma extends_weaken: "extends d r xs r' ys \<Longrightarrow> (e \<Longrightarrow> d) \<Longrightarrow> extends e r xs r' ys"
  unfolding extends_def by blast

lemma extends_take:
  assumes "extends d r [] r' all"
  shows "extends d r [] r' (take n all)"
proof -
  have sub: "sc_Id ` set (take n all) \<subseteq> sc_Id ` set all" using set_take_subset[of n all] by blast
  have "distinct (map sc_Id all) \<Longrightarrow> distinct (map sc_Id (take n all))" by (metis distinct_take take_map)
  moreover have "sc_Id ` set all \<inter> excludeSet r = {}" "sc_Id ` set all \<subseteq> excludeSet r'" "d \<longrightarrow> distinct (map sc_Id all)"
    "same_setup r r'" "excludeSet r \<subseteq> excludeSet r'" using assms unfolding extends_def by simp_all
  moreover have "sc_Id ` set (take n all) \<inter> excludeSet r = {}" "sc_Id ` set (take n all) \<subseteq> excludeSet r'"
    using sub calculation(2,3) by blast+
  ultimately show ?thesis unfolding extends_def by simp
qed

lemma sequential_loop_length:
  assumes "sequential_loop env limit names result ds s = (Inr (out, dg), s')"
    and "0 < limit" and "int (length result) < limit"
  shows "int (length out) \<le> limit"
  using assms(1,3)
proof (induction names arbitrary: result ds s)
  case (Cons name names)
  obtain f where f: "parse env name = Inr f" using Cons.prems by (cases "parse env name") auto
  obtain scores d1 s1 where run: "f s = (Inr (scores, d1), s1)"
    using Cons.prems f by (auto simp: io_bind_Inr)
  let ?s2 = "((fst s1)\<lparr>excludeSet := excludeSet (fst s1) \<union> set (map sc_Id scores)\<rparr>, snd s1)"
  show ?case
  proof (cases "0 < limit \<and> limit \<le> int (length (result @ scores))")
    case True
    then have "out = take (nat limit) (result @ scores)" using Cons.prems f run by (auto simp: io_bind_Inr)
    then show ?thesis using assms(2) by simp
  next
    case False
    then have "sequential_loop env limit names (result @ scores) (ds @ [d1]) ?s2 = (Inr (out, dg), s')"
      using Cons.prems f run by (auto simp: io_bind_Inr)
    from Cons.IH[OF this] False assms(2) show ?thesis by simp
  qed
qed simp

lemma Recommend_extends:
  assumes "map_iteration env" and "Recommend env limit s = (Inr out, s')"
  shows "extends (distinct_answers env) (fst s) [] (fst s') out \<and> (0 < limit \<longrightarrow> int (length out) \<le> limit)"
proof -
  let ?d = "distinct_answers env"
  obtain res s1 where first: "extends ?d (fst s) [] (fst s1) res" and
    rest: "(if limit \<le> int (length res) \<and> 0 < limit then io_return (take (nat limit) res)
       else io_bind (RecommendSequential env res limit (fall_Recommenders (Fallback (config (fst s)))))
              (\<lambda>(result', _). io_return result')) s1 = (Inr out, s')"
  proof (cases "is_none (rank_Type (Ranker (config (fst s))))")
    case True
    then obtain res dg s1 where r: "RecommendSequential env [] (CacheSize (config (fst s)))
        (rank_Recommenders (Ranker (config (fst s)))) s = (Inr (res, dg), s1)"
      and rest: "(if limit \<le> int (length res) \<and> 0 < limit then io_return (take (nat limit) res)
       else io_bind (RecommendSequential env res limit (fall_Recommenders (Fallback (config (fst s)))))
              (\<lambda>(result', _). io_return result')) s1 = (Inr out, s')"
      using assms(2) unfolding Recommend_def by (auto simp: io_bind_Inr)
    have "extends ?d (fst s) [] (fst s1) res"
      using sequential_loop_extends[OF assms(1) r[unfolded RecommendSequential_def]] extends_take by blast
    then show ?thesis using rest that by blast
  next
    case False
    then obtain scores w res s1 where r: "take_unseen scores [] (fst s, w) = (Inr res, s1)"
      and rest: "(if limit \<le> int (length res) \<and> 0 < limit then io_return (take (nat limit) res)
       else io_bind (RecommendSequential env res limit (fall_Recommenders (Fallback (config (fst s)))))
              (\<lambda>(result', _). io_return result')) s1 = (Inr out, s')"
      using assms(2) unfolding Recommend_def by (auto simp: io_bind_Inr)
    have "extends ?d (fst s) [] (fst s1) res" using take_unseen_extends[OF r] extends_weaken by fastforce
    then show ?thesis using rest that by blast
  qed
  show ?thesis
  proof (cases "limit \<le> int (length res) \<and> 0 < limit")
    case True
    then have "out = take (nat limit) res" "s' = s1" using rest by simp_all
    moreover have "int (length (take (nat limit) res)) \<le> limit" using True by auto
    ultimately show ?thesis using extends_take[OF first, of "nat limit"] by simp
  next
    case False
    then obtain dg where r: "sequential_loop env limit (fall_Recommenders (Fallback (config (fst s)))) res [] s1 = (Inr (out, dg), s')"
      using rest by (auto simp: io_bind_Inr RecommendSequential_def)
    obtain all where all: "extends ?d (fst s1) res (fst s') all" "out = all \<or> 0 < limit \<and> out = take (nat limit) all"
      using sequential_loop_extends[OF assms(1) r] by blast
    have "extends ?d (fst s) [] (fst s') all" using first all(1) by (rule extends_trans)
    then have "extends ?d (fst s) [] (fst s') out" using all(2) extends_take by blast
    moreover have "0 < limit \<longrightarrow> int (length out) \<le> limit" using sequential_loop_length[OF r] False by linarith
    ultimately show ?thesis by blast
  qed
qed

section \<open>Properties\<close>

lemma NewRecommender_fold:
  "fold (\<lambda>f (excl, cold). (if c then insert (key_ItemId f) excl else excl, if p f then False else cold)) fs (E, b) =
   ((if c then E \<union> key_ItemId ` set fs else E), b \<and> (\<forall>f\<in>set fs. \<not> p f))"
  by (induction fs arbitrary: E b) auto

text \<open>C12. A user is never recommended an item again: whatever the stores answer, and in whatever order maps are
  iterated, the items \<^verbatim>\<open>Recommend\<close> returns for a recommender made by \<^verbatim>\<open>NewRecommender\<close> are items the user has
  given no feedback on (unless replacement is enabled online); at most the limit are returned when one
  is given, and no item is returned twice when no store lists an item twice in one answer. The
  recommender is a cold start exactly if none of the feedback is positive.\<close>

theorem recommend_unseen:
  assumes "map_iteration env" and "NewRecommender env cfg onl user cats w = (Inr r, w1)"
    and "Recommend env limit (r, w1) = (Inr out, s')"
  shows "(\<not> EnableReplacement (Replacement cfg) \<or> \<not> onl \<longrightarrow>
      (\<forall>f\<in>set (userFeedback r). \<forall>x\<in>set out. sc_Id x \<noteq> key_ItemId f)) \<and>
    (0 < limit \<longrightarrow> int (length out) \<le> limit) \<and>
    (distinct_answers env \<longrightarrow> distinct (map sc_Id out)) \<and>
    (IsColdStart r \<longleftrightarrow> (\<forall>f\<in>set (userFeedback r). \<not> is_positive cfg f))"
proof -
  obtain feedback where r: "r = \<lparr>config = cfg, online = onl,
      coldstart = (\<forall>f\<in>set feedback. \<not> is_positive cfg f), userId = user, userFeedback = feedback, categories = cats,
      excludeSet = (if \<not> EnableReplacement (Replacement cfg) \<or> \<not> onl then key_ItemId ` set feedback else {})\<rparr>"
    using assms(2) unfolding NewRecommender_def by (auto simp: io_bind_Inr NewRecommender_fold Let_def)
  have "extends (distinct_answers env) r [] (fst s') out \<and> (0 < limit \<longrightarrow> int (length out) \<le> limit)"
    using Recommend_extends[OF assms(1,3)] by simp
  then show ?thesis unfolding extends_def r IsColdStart_def by auto
qed


text \<open>The score of an item among similar items: the float64 sum in the order they are visited.\<close>

definition sum_scores :: "string \<Rightarrow> Score list \<Rightarrow> fl \<Rightarrow> fl" where
  "sum_scores i xs a = fold (\<lambda>x a. if sc_Id x = i then fadd a (sc_Score x) else a) xs a"

definition plus_scores :: "string set \<Rightarrow> Score list \<Rightarrow> (string \<rightharpoonup> fl) \<Rightarrow> string \<rightharpoonup> fl" where
  "plus_scores excl xs m i =
     (if i \<notin> excl \<and> i \<in> sc_Id ` set xs then Some (sum_scores i xs (case m i of None \<Rightarrow> Fin 0 | Some v \<Rightarrow> v)) else m i)"

lemma sum_scores_none: "i \<notin> sc_Id ` set xs \<Longrightarrow> sum_scores i xs a = a"
  by (induction xs arbitrary: a) (auto simp: sum_scores_def)

lemma sum_scores_append: "sum_scores i (xs @ ys) a = sum_scores i ys (sum_scores i xs a)"
  by (simp add: sum_scores_def)

lemma plus_scores_append: "plus_scores excl (xs @ ys) m = plus_scores excl ys (plus_scores excl xs m)"
  by (rule ext) (auto simp: plus_scores_def image_Un sum_scores_append sum_scores_none)

lemma plus_scores_Nil: "plus_scores excl [] m = m"
  by (rule ext) (simp add: plus_scores_def)

lemma collect_similar_map:
  "map_of (fst (fold (collect_similar excl dg) xs acc)) = plus_scores excl xs (map_of (fst acc))"
proof (induction xs arbitrary: acc)
  case (Cons x xs)
  have "map_of (fst (collect_similar excl dg x acc)) = plus_scores excl [x] (map_of (fst acc))"
    by (rule ext) (auto simp: collect_similar_def add_score_def plus_scores_def sum_scores_def gget_def split: prod.splits)
  then show ?case using Cons.IH plus_scores_append[of excl "[x]" xs] by simp
qed (simp add: plus_scores_Nil)

lemma context_loop_eq:
  "context_loop good onl sz fs acc = acc @ (if onl then take (nat sz - length acc) (filter good fs) else filter good fs)"
proof (induction fs arbitrary: acc)
  case (Cons f fs)
  show ?case
  proof (cases "onl \<and> sz \<le> int (length acc)")
    case True
    then show ?thesis by (simp add: nat_le_iff)
  next
    case False
    then have "onl \<Longrightarrow> nat sz - length acc = Suc (nat sz - Suc (length acc))" by linarith
    then show ?thesis using False Cons.IH by auto
  qed
qed simp

lemma similar_fold_map:
  assumes "\<And>f w. f \<in> set ctxt \<Longrightarrow> \<exists>w'. cc_SearchScores (env_cache env) ItemToItem (Key [name, key_ItemId f]) (categories r) 0
      (CacheSize (config r)) w = (Inr (sim f), w')"
    and "io_fold (similar_step env r name) ctxt acc s = (Inr acc', s')"
  shows "map_of (fst acc') = plus_scores (excludeSet r) (concat (map sim ctxt)) (map_of (fst acc))"
  using assms
proof (induction ctxt arbitrary: acc s)
  case (Cons f fs)
  from Cons.prems(2) obtain acc1 s1 where 1: "similar_step env r name f acc s = (Inr acc1, s1)"
    and 2: "io_fold (similar_step env r name) fs acc1 s1 = (Inr acc', s')" by (auto simp: io_bind_Inr)
  obtain dg where acc1: "acc1 = fold (collect_similar (excludeSet r) dg) (sim f) acc"
    using 1 Cons.prems(1)[of f "snd s"] by (auto simp: similar_step_def io_bind_Inr)
  have "map_of (fst acc') = plus_scores (excludeSet r) (concat (map sim fs)) (map_of (fst acc1))"
    using Cons.IH[OF _ 2] Cons.prems(1) by auto
  then show ?case unfolding acc1 by (simp add: collect_similar_map plus_scores_append)
qed (simp add: plus_scores_Nil)

lemma best_of_map:
  assumes "map_iteration env" and "distinct (gkeys m)" and "\<And>i. map_of m i = (if i \<in> C then Some (score_of i) else None)"
    and "\<And>i. i \<in> C \<Longrightarrow> score_of i \<noteq> NaN" and "top_scores env k m s = (Inr best, s')"
  shows "distinct (map Value best) \<and> (\<forall>e\<in>set best. Value e \<in> C \<and> Weight e = score_of (Value e)) \<and>
    length best = min (nat k) (card C) \<and> sorted_wrt (\<lambda>a b. fle (Weight b) (Weight a)) best \<and>
    (\<forall>i\<in>C - Value ` set best. \<forall>e\<in>set best. fle (score_of i) (Weight e))"
proof -
  let ?es = "map (\<lambda>(i, v). \<lparr>Value = i, Weight = v\<rparr>) (env_range env m) :: (string, fl) Elem list"
  have run: "topk_run k ?es = Inr best" using assms(5) by (simp add: top_scores_def)
  have mm: "mset (env_range env m) = mset m" using assms(1) by (simp add: map_iteration_def)
  then have set_m: "set (env_range env m) = set m" by (rule mset_eq_setD)
  have entry: "(i, v) \<in> set m \<longleftrightarrow> i \<in> C \<and> v = score_of i" for i v
    using assms(3)[of i] map_of_eq_Some_iff[OF assms(2), of i v] by (auto split: if_splits)
  have keys: "set (gkeys m) = C" using entry by force
  have es: "e \<in> set ?es \<longleftrightarrow> Value e \<in> C \<and> Weight e = score_of (Value e)" for e
    using set_m entry by (cases e) (force simp: image_iff)
  have "\<forall>e\<in>set ?es. Weight e \<noteq> NaN" using es assms(4) by auto
  then obtain ys where ys: "topk_run k ?es = Inr ys" "mset ys \<subseteq># mset ?es" "length ys = min (nat k) (length ?es)"
    "sorted_wrt (\<lambda>a b. fle (Weight b) (Weight a)) ys" "\<forall>a\<in>set ys. \<forall>b\<in># mset ?es - mset ys. fle (Weight b) (Weight a)"
    using topk_run_best[of ?es k] by blast
  have yb: "ys = best" using ys(1) run by simp
  have sub: "set best \<subseteq> set ?es" using ys(2) unfolding yb by (metis set_mset_mono set_mset_mset)
  have "length ?es = card C"
    using mm keys distinct_card[OF assms(2)] by (metis length_map size_mset)
  moreover have "distinct (map Value best)"
    using top_scores_unseen[OF assms(1) _ assms(5), of "{}"] assms(2) by (simp add: unseen_keys_def)
  moreover have "fle (score_of i) (Weight e)" if i: "i \<in> C - Value ` set best" and e: "e \<in> set best" for i e
  proof -
    let ?b = "\<lparr>Value = i, Weight = score_of i\<rparr>"
    have "?b \<in># mset ?es" using es[of ?b] i by simp
    moreover have "?b \<notin># mset best" using i by force
    ultimately have "?b \<in># mset ?es - mset best" by (metis in_diff_count not_in_iff zero_less_iff_neq_zero count_greater_zero_iff)
    then show ?thesis using ys(5) e unfolding yb by fastforce
  qed
  moreover have "\<forall>e\<in>set best. Value e \<in> C \<and> Weight e = score_of (Value e)" using sub es by blast
  ultimately show ?thesis using ys(3,4) unfolding yb by simp
qed

text \<open>C30. The item-to-item recommender returns the best-scored unseen items: with the answers \<open>sim f\<close> of the
  cache for the feedback \<open>f\<close> in the context (the latest positive feedback, at most \<^verbatim>\<open>ContextSize\<close> of it online),
  the score of an item is the sum of its scores over the context. The result is sorted by score, has
  \<^verbatim>\<open>CacheSize\<close> items or all there are, each unseen and with its sum, and no unseen similar item that is left out
  scores higher than one that is returned. The sums must not be NaN.\<close>

theorem item_to_item_best:
  assumes "map_iteration env" and "0 \<le> CacheSize (config r)"
    and "ctxt = (let good = filter (is_positive (config r)) (SortFeedbacks (userFeedback r))
                 in if online r then take (nat (ContextSize (config r))) good else good)"
    and "\<And>f w. f \<in> set ctxt \<Longrightarrow> \<exists>w'. cc_SearchScores (env_cache env) ItemToItem (Key [name, key_ItemId f])
           (categories r) 0 (CacheSize (config r)) w = (Inr (sim f), w')"
    and "candidates = sc_Id ` set (concat (map sim ctxt)) - excludeSet r"
    and "score_of = (\<lambda>i. sum_scores i (concat (map sim ctxt)) (Fin 0))" and "\<And>i. i \<in> candidates \<Longrightarrow> score_of i \<noteq> NaN"
    and "recommendItemToItem env name (r, w) = (Inr (out, dg), s')"
  shows "distinct (map sc_Id out) \<and> (\<forall>x\<in>set out. sc_Id x \<in> candidates \<and> sc_Score x = score_of (sc_Id x)) \<and>
    length out = min (nat (CacheSize (config r))) (card candidates) \<and>
    sorted_wrt (\<lambda>x y. fle (sc_Score y) (sc_Score x)) out \<and>
    (\<forall>i\<in>candidates - sc_Id ` set out. \<forall>x\<in>set out. fle (score_of i) (sc_Score x))"
proof -
  define r' where "r' = r\<lparr>userFeedback := SortFeedbacks (userFeedback r)\<rparr>"
  have ctxt: "context_loop (is_positive (config r')) (online r') (ContextSize (config r')) (userFeedback r') [] = ctxt"
    by (simp add: r'_def context_loop_eq assms(3) Let_def)
  obtain m cats ds s1 best where
    fold: "io_fold (similar_step env r' name) ctxt ([], [], []) (r', snd (r, w)) = (Inr (m, cats, ds), s1)"
    and best: "top_scores env (CacheSize (config r')) m s1 = (Inr best, s')"
    and out: "out = map (\<lambda>e. zero_Score\<lparr>sc_Id := Value e, sc_Score := Weight e, sc_Categories := gget [] (Value e) cats\<rparr>) best"
    and un: "unseen_keys (excludeSet r') m" "fst s1 = r'"
    by (rule item_to_item_run[OF assms(8), of r', unfolded ctxt]) (simp_all add: r'_def)
  have "map_of (fst (m, cats, ds)) = plus_scores (excludeSet r') (concat (map sim ctxt)) (map_of (fst ([], [], [])))"
    using similar_fold_map[OF _ fold, of sim] assms(4) by (auto simp: r'_def)
  then have m: "map_of m i = (if i \<in> candidates then Some (score_of i) else None)" for i
    by (auto simp: plus_scores_def assms(5,6) r'_def)
  have d: "distinct (gkeys m)" using un(1) by (simp add: unseen_keys_def)
  show ?thesis
    using best_of_map[OF assms(1) d m assms(7) best] by (auto simp: out r'_def comp_def zero_Score_def sorted_wrt_map image_image)
qed


section \<open>A concrete run\<close>

definition scored :: "string \<Rightarrow> rat \<Rightarrow> Score" where
  "scored i q = zero_Score\<lparr>sc_Id := i, sc_Score := Fin q\<rparr>"

definition liked :: "string \<Rightarrow> Feedback" where
  "liked i = \<lparr>key_FeedbackType = ''star'', key_UserId = ''ann'', key_ItemId = i, fb_Value = Fin 1, fb_Timestamp = 7,
     fb_Updated = 7, fb_Comment = []\<rparr>"

definition small_env :: "nat Env" where
  "small_env = \<lparr>env_cache = \<lparr>cc_SearchScores = (\<lambda>c s q b e w. (Inr (if c = ItemToItem \<or> c = RecommendCache
         then [scored ''hat'' 3, scored ''shoe'' 2] else []), w)),
       cc_Get = (\<lambda>k w. (\<lparr>rv_value = ''d'', rv_err = None, rv_exists = True\<rparr>, w)), cc_Set = (\<lambda>_ w. (Inr (), w)),
       cc_AddScores = (\<lambda>_ _ _ w. (Inr (), w)), cc_DeleteScores = (\<lambda>_ _ w. (Inr (), w))\<rparr>,
     env_data = \<lparr>dc_GetUserFeedback = (\<lambda>u t ts w. (Inr [liked ''hat''], w)), dc_GetLatestItems = (\<lambda>_ _ w. (Inr [], w)),
       dc_BatchGetItems = (\<lambda>_ w. (Inr [], w))\<rparr>,
     env_now = (\<lambda>w. 10), env_md5 = (\<lambda>s. s), env_range = (\<lambda>m. m), env_slice = (\<lambda>xs. xs), env_pull = (\<lambda>_ _ w. (Inr [], w))\<rparr>"

definition small_config :: RecommendConfig where
  "small_config = sample_config\<lparr>Ranker := (Ranker sample_config)\<lparr>rank_Type := ''fm''\<rparr>\<rparr>"

definition ann :: Recommender where
  "ann = \<lparr>config = small_config, online = True, coldstart = False, userId = ''ann'', userFeedback = [liked ''hat''],
     categories = [], excludeSet = {''hat''}\<rparr>"

lemma small_env_iteration: "map_iteration small_env"
  by (simp add: map_iteration_def small_env_def)

lemma ann_new: "NewRecommender small_env small_config True ''ann'' [] 0 = (Inr ann, 0)"
  by (simp add: NewRecommender_def small_env_def io_bind_def io_return_def ann_def small_config_def sample_config_def
      is_positive_def expr_Match_def liked_def)

lemma ann_recommend: "\<exists>s'. Recommend small_env 5 (ann, 0) = (Inr [scored ''shoe'' 2], s')"
  by (simp add: Recommend_def small_env_def io_bind_def io_return_def get_rec_def put_rec_def on_world_def exclude_def ann_def
      small_config_def sample_config_def is_none_def lower_def RecommendSequential_def scored_def zero_Score_def)

theorem recommend_unseen_witness:
  "\<exists>out s'. Recommend small_env 5 (ann, 0) = (Inr out, s') \<and> out = [scored ''shoe'' 2] \<and>
     (\<forall>f\<in>set (userFeedback ann). \<forall>x\<in>set out. sc_Id x \<noteq> key_ItemId f)"
proof -
  obtain s' where run: "Recommend small_env 5 (ann, 0) = (Inr [scored ''shoe'' 2], s')" using ann_recommend by blast
  have "\<not> EnableReplacement (Replacement small_config)" by (simp add: small_config_def sample_config_def)
  then have "\<forall>f\<in>set (userFeedback ann). \<forall>x\<in>set [scored ''shoe'' 2]. sc_Id x \<noteq> key_ItemId f"
    using recommend_unseen[OF small_env_iteration ann_new run] by blast
  then show ?thesis using run by blast
qed

theorem item_to_item_best_witness:
  "\<exists>out dg s'. recommendItemToItem small_env ''n'' (ann, 0) = (Inr (out, dg), s') \<and> length out = 1 \<and>
     (\<forall>x\<in>set out. sc_Id x = ''shoe'')"
proof -
  let ?sim = "\<lambda>f :: Feedback. [scored ''hat'' 3, scored ''shoe'' 2]"
  have ctxt: "(let good = filter (is_positive (config ann)) (SortFeedbacks (userFeedback ann))
                 in if online ann then take (nat (ContextSize (config ann))) good else good) = [liked ''hat'']"
    by (simp add: ann_def small_config_def sample_config_def is_positive_def expr_Match_def liked_def SortFeedbacks_def sort_slice_def)
  have c: "sc_Id ` set (concat (map ?sim [liked ''hat''])) - excludeSet ann = {''shoe''}"
    by (auto simp: scored_def ann_def)
  obtain ys where ys: "topk_run 100 [\<lparr>Value = ''shoe'', Weight = rnd64 2\<rparr>] = Inr (ys :: (string, fl) Elem list)"
    using topk_run_subset by blast
  have "\<exists>out dg s'. recommendItemToItem small_env ''n'' (ann, 0) = (Inr (out, dg), s')"
    using ys by (simp add: recommendItemToItem_def small_env_def io_bind_def io_return_def io_lift_def get_rec_def put_rec_def on_world_def
        ann_def small_config_def sample_config_def make_cap_def is_positive_def expr_Match_def liked_def SortFeedbacks_def
        sort_slice_def similar_step_def get_string_def rv_String_def collect_similar_def scored_def zero_Score_def top_scores_def
        add_score_def gget_def Let_def)
  then obtain out dg s' where run: "recommendItemToItem small_env ''n'' (ann, 0) = (Inr (out, dg), s')" by blast
  have size: "CacheSize (config ann) = 100" by (simp add: ann_def small_config_def sample_config_def)
  have sim: "\<exists>w'. cc_SearchScores (env_cache small_env) ItemToItem k q b e w = (Inr [scored ''hat'' 3, scored ''shoe'' 2], w')" for k q b e w
    by (simp add: small_env_def)
  have "sum_scores ''shoe'' (concat (map ?sim [liked ''hat''])) (Fin 0) \<noteq> NaN"
    by (simp add: sum_scores_def scored_def)
  then have "length out = min (nat 100) (card {''shoe''}) \<and> (\<forall>x\<in>set out. sc_Id x \<in> {''shoe''})"
    using item_to_item_best[OF small_env_iteration _ ctxt[symmetric] _ c[symmetric] refl _ run] size sim by simp
  then show ?thesis using run by (intro exI[of _ out] exI[of _ dg] exI[of _ s']) simp
qed

end
