(* ===== verification/Sql_Base.thy ===== *)
theory Sql_Base
  imports Gorse_Data
begin

text \<open>
  What the stores over a SQL database share (\<^verbatim>\<open>storage/cache/sql.go\<close>, \<^verbatim>\<open>storage/data/sql.go\<close>). A database
  extends the record \<open>sql_conn\<close>: any statement may fail (\<open>db_faults\<close> says which of the next ones do), and
  \<open>round_time\<close> is the precision of the driver's time columns. A table is the list of its rows in the order
  they were inserted.
\<close>

section \<open>Statements\<close>

datatype SQLDriver = MySQL | Postgres | SQLite

record sql_conn =
  sql_driver :: SQLDriver
  db_faults :: "bool list"
  round_time :: "int \<Rightarrow> int"

definition sql_error :: go_fail where
  "sql_error = Error ''database error''"

definition sql :: "('r sql_conn_scheme, 'a) io \<Rightarrow> ('r sql_conn_scheme, 'a) io" where
  "sql f db =
     (case db_faults db of
        [] \<Rightarrow> f db
      | b # bs \<Rightarrow> if b then (Inl sql_error, db\<lparr>db_faults := bs\<rparr>) else f (db\<lparr>db_faults := bs\<rparr>))"

text \<open>\<^verbatim>\<open>INSERT ... ON CONFLICT DO UPDATE\<close> of one row.\<close>

definition upsert :: "('r \<Rightarrow> bool) \<Rightarrow> ('r \<Rightarrow> 'r) \<Rightarrow> 'r \<Rightarrow> 'r list \<Rightarrow> 'r list" where
  "upsert hit f row rows = (if \<exists>x\<in>set rows. hit x then map (\<lambda>x. if hit x then f x else x) rows else rows @ [row])"

text \<open>The mapper takes the condition from the fields of the key that are not zero values and refuses to delete
  with no condition at all.\<close>

definition missing_where :: go_fail where
  "missing_where = Error ''WHERE conditions required''"

text \<open>The mapper leaves out an offset that is not positive and a limit that is not positive.\<close>

definition limited :: "int \<Rightarrow> int \<Rightarrow> 'r list \<Rightarrow> 'r list" where
  "limited offset limit rows = (let rest = drop (nat offset) rows in if limit \<le> 0 then rest else take (nat limit) rest)"

text \<open>Of several rows with one key in a call the first counts.\<close>

definition first_rows :: "('r \<Rightarrow> 'k) \<Rightarrow> 'r list \<Rightarrow> 'r list" where
  "first_rows key rs = fold (\<lambda>r rows. if key r \<notin> key ` set rows then rows @ [r] else rows) rs []"

section \<open>Facts\<close>

lemma sql_Inr:
  assumes "sql f db = (Inr x, db')"
  shows "\<exists>fs. f (db\<lparr>db_faults := fs\<rparr>) = (Inr x, db')"
proof (cases "db_faults db")
  case Nil
  then have "f db = (Inr x, db')" using assms by (simp add: sql_def)
  moreover have "db\<lparr>db_faults := db_faults db\<rparr> = db" by simp
  ultimately show ?thesis by metis
qed (use assms in \<open>auto simp: sql_def split: if_splits\<close>)

lemma sql_no_fault: "db_faults db = [] \<Longrightarrow> sql f db = f db"
  by (simp add: sql_def)

lemma map_upsert:
  assumes "\<And>x. k (f x) = k x"
  shows "map k (upsert (\<lambda>x. k x = k r) f r rows) = (if k r \<in> k ` set rows then map k rows else map k rows @ [k r])"
  using assms by (auto simp: upsert_def) (metis image_eqI)

lemma distinct_upsert:
  assumes "\<And>x. k (f x) = k x" and "distinct (map k rows)"
  shows "distinct (map k (upsert (\<lambda>x. k x = k r) f r rows))"
  using assms(2) by (subst map_upsert) (auto simp: assms(1))

lemma distinct_fold:
  assumes "\<And>r rows. distinct (map k rows) \<Longrightarrow> distinct (map k (put r rows))" and "distinct (map k rows)"
  shows "distinct (map k (fold put rs rows))"
  using assms(2) by (induction rs arbitrary: rows) (auto intro: assms(1))

lemma distinct_map_keep: "distinct (map k rows) \<Longrightarrow> (\<And>x. k (g x) = k x) \<Longrightarrow> distinct (map k (map g rows))"
  by (simp add: comp_def)

lemma find_snoc: "find P (xs @ [x]) = (case find P xs of None \<Rightarrow> if P x then Some x else None | Some y \<Rightarrow> Some y)"
  by (induction xs) auto

lemma find_first_rows_acc:
  "find (\<lambda>v. key v = n) (fold (\<lambda>v rows. if key v \<notin> key ` set rows then rows @ [v] else rows) vs rows) =
     (case find (\<lambda>v. key v = n) rows of None \<Rightarrow> find (\<lambda>v. key v = n) vs | Some v \<Rightarrow> Some v)"
proof (induction vs arbitrary: rows)
  case (Cons v vs)
  show ?case
  proof (cases "find (\<lambda>v. key v = n) rows")
    case None
    then have "key v = n \<Longrightarrow> key v \<notin> key ` set rows" by (auto simp: find_None_iff)
    then show ?thesis using None by (auto simp: Cons.IH find_snoc)
  qed (auto simp: Cons.IH find_snoc)
qed (simp split: option.splits)

lemma find_first_rows: "find (\<lambda>v. key v = n) (first_rows key vs) = find (\<lambda>v. key v = n) vs"
  by (simp add: first_rows_def find_first_rows_acc)

lemma distinct_first_rows: "distinct (map key (first_rows key vs))"
proof -
  have "distinct (map key rows) \<Longrightarrow>
    distinct (map key (fold (\<lambda>v rows. if key v \<notin> key ` set rows then rows @ [v] else rows) vs rows))" for rows
    by (induction vs arbitrary: rows) auto
  then show ?thesis by (simp add: first_rows_def)
qed

lemma set_first_rows: "set (first_rows key vs) \<subseteq> set vs"
proof -
  have "set (fold (\<lambda>v rows. if key v \<notin> key ` set rows then rows @ [v] else rows) vs rows) \<subseteq> set rows \<union> set vs" for rows
    by (induction vs arbitrary: rows) (auto, fastforce)
  from this[of "[]"] show ?thesis by (simp add: first_rows_def)
qed

lemma first_rows_keys: "key ` set (first_rows key vs) = key ` set vs"
proof -
  have "key ` set (fold (\<lambda>v rows. if key v \<notin> key ` set rows then rows @ [v] else rows) vs rows) = key ` (set rows \<union> set vs)" for rows
    by (induction vs arbitrary: rows) (auto simp: image_Un)
  from this[of "[]"] show ?thesis by (simp add: first_rows_def)
qed

lemma first_rows_eq_Nil [simp]: "first_rows key vs = [] \<longleftrightarrow> vs = []"
  using first_rows_keys[of key vs] by auto

section \<open>What calls keep\<close>

definition keeps :: "('s \<Rightarrow> bool) \<Rightarrow> ('s, 'a) io \<Rightarrow> bool" where
  "keeps P m \<longleftrightarrow> (\<forall>s. P s \<longrightarrow> P (snd (m s)))"

named_theorems keeps_intro "invariants through sequenced calls"

lemma keepsD: "keeps P m \<Longrightarrow> P s \<Longrightarrow> P (snd (m s))"
  by (simp add: keeps_def)

lemma keeps_basic [keeps_intro]: "keeps P (io_return x)" "keeps P (io_fail e)" "keeps P (io_lift r)"
  by (simp_all add: keeps_def io_return_def io_fail_def io_lift_def)

lemma keeps_bind [keeps_intro]: "keeps P m \<Longrightarrow> (\<And>x. keeps P (f x)) \<Longrightarrow> keeps P (io_bind m f)"
  unfolding keeps_def io_bind_def by (auto split: prod.splits sum.splits; metis snd_conv)

lemma keeps_if [keeps_intro]: "keeps P m \<Longrightarrow> keeps P m' \<Longrightarrow> keeps P (if c then m else m')"
  by simp

lemma keeps_fold [keeps_intro]: "(\<And>x acc. keeps P (f x acc)) \<Longrightarrow> keeps P (io_fold f xs acc)"
  by (induction xs arbitrary: acc) (auto intro!: keeps_intro)

lemma keeps_sql:
  assumes "\<And>db. P db \<Longrightarrow> P (snd (f db))" and "\<And>fs db. P db \<Longrightarrow> P (db\<lparr>db_faults := fs\<rparr>)"
  shows "keeps P (sql f)"
  using assms by (auto simp: keeps_def sql_def split: list.splits)

section \<open>Tables with a primary key\<close>

text \<open>What \<^verbatim>\<open>ON CONFLICT\<close> promises: \<open>put r\<close> adds the row \<open>r\<close> or, if the table has a row with its key, changes that row by \<open>change r\<close>.\<close>

locale keyed_table =
  fixes key :: "'r \<Rightarrow> 'k"
    and change :: "'r \<Rightarrow> 'r \<Rightarrow> 'r"
    and put :: "'r \<Rightarrow> 'r list \<Rightarrow> 'r list"
  assumes put: "put r = upsert (\<lambda>x. key x = key r) (change r) r"
    and key_change: "key (change r x) = key x"
begin

lemma distinct_put: "distinct (map key rows) \<Longrightarrow> distinct (map key (put r rows))"
  unfolding put by (rule distinct_upsert) (rule key_change)

lemma distinct_puts: "distinct (map key rows) \<Longrightarrow> distinct (map key (fold put rs rows))"
  by (rule distinct_fold) (auto intro: distinct_put)

lemma keys_put: "key ` set (put r rows) = insert (key r) (key ` set rows)"
  using arg_cong[OF map_upsert[of key "change r" r rows], of set] by (auto simp: put key_change)

lemma keys_puts: "key ` set (fold put rs rows) = key ` set rs \<union> key ` set rows"
  by (induction rs arbitrary: rows) (auto simp: keys_put)

lemma put_Ball:
  assumes "\<forall>x\<in>set rows. P x" and "P r" and "\<And>x. P x \<Longrightarrow> P (change r x)"
  shows "\<forall>x\<in>set (put r rows). P x"
  using assms by (auto simp: put upsert_def)

lemma puts_Ball:
  assumes "\<forall>x\<in>set rows. P x" and "\<forall>r\<in>set rs. P r" and "\<And>r x. r \<in> set rs \<Longrightarrow> P x \<Longrightarrow> P (change r x)"
  shows "\<forall>x\<in>set (fold put rs rows). P x"
  using assms
proof (induction rs arbitrary: rows)
  case (Cons r rs)
  have "\<forall>x\<in>set (put r rows). P x" by (rule put_Ball) (use Cons.prems in auto)
  then show ?case using Cons.IH[of "put r rows"] Cons.prems by auto
qed simp

lemma find_put:
  "find (\<lambda>x. key x = k) (put r rows) =
     (if k = key r then Some (case find (\<lambda>x. key x = k) rows of None \<Rightarrow> r | Some x \<Rightarrow> change r x)
      else find (\<lambda>x. key x = k) rows)"
proof (cases "\<exists>x\<in>set rows. key x = key r")
  case True
  then have "find (\<lambda>x. key x = key r) rows \<noteq> None" by (auto simp: find_None_iff)
  then obtain y where y: "find (\<lambda>x. key x = key r) rows = Some y" by blast
  have "find (\<lambda>x. key x = k) (map (\<lambda>x. if key x = key r then change r x else x) rows) =
      map_option (\<lambda>x. if k = key r then change r x else x) (find (\<lambda>x. key x = k) rows)"
    by (induction rows) (auto simp: key_change)
  with True y show ?thesis by (cases "k = key r") (auto simp: put upsert_def option.map_ident)
next
  case False
  then have "find (\<lambda>x. key x = key r) rows = None" by (auto simp: find_None_iff)
  with False show ?thesis by (auto simp: put upsert_def find_snoc split: option.splits)
qed

lemma find_puts:
  assumes "distinct (map key rs)"
  shows "find (\<lambda>x. key x = k) (fold put rs rows) =
    (case find (\<lambda>x. key x = k) rs of None \<Rightarrow> find (\<lambda>x. key x = k) rows
     | Some r \<Rightarrow> Some (case find (\<lambda>x. key x = k) rows of None \<Rightarrow> r | Some x \<Rightarrow> change r x))"
  using assms
proof (induction rs arbitrary: rows)
  case (Cons r rs)
  have "find (\<lambda>x. key x = key r) rs = None" using Cons.prems by (auto simp: find_None_iff rev_image_eqI)
  then show ?case using Cons by (auto simp: find_put split: option.splits)
qed simp

end

text \<open>In a table with distinct keys a row is found by its key.\<close>

lemma find_key: "distinct (map key rows) \<Longrightarrow> r \<in> set rows \<Longrightarrow> find (\<lambda>x. key x = key r) rows = Some r"
  by (induction rows) (auto simp: image_iff)

lemma find_key_iff:
  "distinct (map key rows) \<Longrightarrow> find (\<lambda>x. key x = k) rows = Some r \<longleftrightarrow> r \<in> set rows \<and> key r = k"
  by (induction rows) (auto simp: image_iff)

lemma filter_key: "distinct (map key rows) \<Longrightarrow>
  filter (\<lambda>x. key x = k) rows = (case find (\<lambda>x. key x = k) rows of None \<Rightarrow> [] | Some r \<Rightarrow> [r])"
proof (induction rows)
  case (Cons r rows)
  have "filter (\<lambda>x. key x = key r) rows = []" using Cons.prems by (auto simp: filter_empty_conv rev_image_eqI)
  then show ?case using Cons by auto
qed simp

end
