(* ===== verification/Cache_Store.thy ===== *)
theory Cache_Store
  imports Sql_Base
begin

text \<open>
  The cache store over a SQL database (\<^verbatim>\<open>storage/cache/sql.go\<close>). The tables are lists of rows in the order
  they were inserted; every operation runs the statements the code sends. What the object-relational mapper
  answers when it is asked to insert no row is a parameter of the database, \<open>empty_create\<close>.

  The contract the recommender relies on is the locale \<open>score_store\<close>; it is interpreted here.
\<close>

section \<open>Tables\<close>

record SQLDocument =
  doc_Collection :: string
  doc_Subset :: string
  doc_Id :: string
  doc_IsHidden :: bool
  doc_Categories :: "string list"
  doc_Score :: fl
  doc_Timestamp :: int

record Message =
  m_Name :: string
  m_Value :: string
  m_Timestamp :: int

record SQLDatabase = sql_conn +
  db_values :: "string go_map"
  db_messages :: "Message list"
  db_documents :: "SQLDocument list"
  db_points :: "TimeSeriesPoint list"
  empty_create :: "go_fail option"

type_synonym 'a sql_io = "(SQLDatabase, 'a) io"

section \<open>Values\<close>

text \<open>Of several values with one name in a call the first counts.\<close>

definition first_values :: "cache_Value list \<Rightarrow> cache_Value list" where
  "first_values vs = first_rows cv_name vs"

definition Set :: "cache_Value list \<Rightarrow> unit sql_io" where
  "Set vs =
     (if vs = [] then io_return ()
      else sql (\<lambda>db. (Inr (), db\<lparr>db_values := fold (\<lambda>v m. gput (cv_name v) (cv_value v) m) (first_values vs) (db_values db)\<rparr>)))"

definition Get :: "string \<Rightarrow> SQLDatabase \<Rightarrow> ReturnValue \<times> SQLDatabase" where
  "Get name db =
     (case sql (\<lambda>db. (Inr (map_of (db_values db) name), db)) db of
        (Inl e, db') \<Rightarrow> (\<lparr>rv_value = [], rv_err = Some e, rv_exists = False\<rparr>, db')
      | (Inr (Some v), db') \<Rightarrow> (\<lparr>rv_value = v, rv_err = None, rv_exists = True\<rparr>, db')
      | (Inr None, db') \<Rightarrow> (\<lparr>rv_value = [], rv_err = None, rv_exists = False\<rparr>, db'))"

definition Delete :: "string \<Rightarrow> unit sql_io" where
  "Delete name =
     (if name = [] then io_fail missing_where else sql (\<lambda>db. (Inr (), db\<lparr>db_values := filter (\<lambda>(k, _). k \<noteq> name) (db_values db)\<rparr>)))"

fun scan_keys :: "(string \<Rightarrow> go_fail option) \<Rightarrow> string list \<Rightarrow> go_fail + unit" where
  "scan_keys work [] = Inr ()"
| "scan_keys work (k # ks) = (case work k of None \<Rightarrow> scan_keys work ks | Some e \<Rightarrow> Inl e)"

definition Scan :: "(string \<Rightarrow> go_fail option) \<Rightarrow> unit sql_io" where
  "Scan work = sql (\<lambda>db. (scan_keys work (gkeys (db_values db)), db))"

definition Purge :: "unit sql_io" where
  "Purge = io_bind (sql (\<lambda>db. (Inr (), db\<lparr>db_values := []\<rparr>))) (\<lambda>_.
     io_bind (sql (\<lambda>db. (Inr (), db\<lparr>db_messages := []\<rparr>))) (\<lambda>_.
       sql (\<lambda>db. (Inr (), db\<lparr>db_documents := []\<rparr>))))"

section \<open>Messages\<close>

definition Push :: "int \<Rightarrow> string \<Rightarrow> string \<Rightarrow> unit sql_io" where
  "Push now name v = sql (\<lambda>db. (Inr (), db\<lparr>db_messages :=
     upsert (\<lambda>m. m_Name m = name \<and> m_Value m = v) (\<lambda>m. m\<lparr>m_Timestamp := now\<rparr>)
       \<lparr>m_Name = name, m_Value = v, m_Timestamp = now\<rparr> (db_messages db)\<rparr>))"

text \<open>The oldest message of a name; of equally old ones the first row.\<close>

fun oldest :: "Message list \<Rightarrow> Message option" where
  "oldest [] = None"
| "oldest (m # ms) =
     (case oldest ms of None \<Rightarrow> Some m | Some m' \<Rightarrow> if m_Timestamp m' < m_Timestamp m then Some m' else Some m)"

definition pop_select :: "string \<Rightarrow> Message option sql_io" where
  "pop_select name = sql (\<lambda>db. (Inr (oldest (filter (\<lambda>m. m_Name m = name) (db_messages db))), db))"

definition pop_delete :: "Message \<Rightarrow> unit sql_io" where
  "pop_delete m =
     (if m_Name m = [] \<and> m_Value m = [] then io_fail missing_where
      else sql (\<lambda>db. (Inr (), db\<lparr>db_messages :=
        filter (\<lambda>x. \<not> (m_Name x = m_Name m \<and> m_Value x = m_Value m)) (db_messages db)\<rparr>)))"

text \<open>Both statements go through \<^verbatim>\<open>db.gormDB\<close>, not through the transaction, so a failure rolls nothing back.
  The result \<open>Inl (Error ''EOF'')\<close> is \<^verbatim>\<open>io.EOF\<close>.\<close>

definition Pop :: "string \<Rightarrow> string sql_io" where
  "Pop name = io_bind (pop_select name) (\<lambda>found.
     case found of None \<Rightarrow> io_fail (Error ''EOF'')
     | Some m \<Rightarrow> io_bind (pop_delete m) (\<lambda>_. io_return (m_Value m)))"

definition Remain :: "string \<Rightarrow> int sql_io" where
  "Remain name = sql (\<lambda>db. (Inr (int (length (filter (\<lambda>m. m_Name m = name) (db_messages db)))), db))"

section \<open>Scores\<close>

definition to_document :: "(int \<Rightarrow> int) \<Rightarrow> string \<Rightarrow> string \<Rightarrow> Score \<Rightarrow> SQLDocument" where
  "to_document rt collection sset document =
     \<lparr>doc_Collection = collection, doc_Subset = sset, doc_Id = sc_Id document, doc_IsHidden = sc_IsHidden document,
      doc_Categories = sc_Categories document, doc_Score = sc_Score document, doc_Timestamp = rt (sc_Timestamp document)\<rparr>"

definition doc_key :: "SQLDocument \<Rightarrow> string \<times> string \<times> string" where
  "doc_key d = (doc_Collection d, doc_Subset d, doc_Id d)"

definition put_document :: "SQLDocument \<Rightarrow> SQLDocument list \<Rightarrow> SQLDocument list" where
  "put_document d = upsert (\<lambda>x. doc_key x = doc_key d)
     (\<lambda>x. x\<lparr>doc_Score := doc_Score d, doc_Categories := doc_Categories d, doc_Timestamp := doc_Timestamp d\<rparr>) d"

text \<open>Postgres refuses to update a row twice in one statement.\<close>

definition AddScores :: "string \<Rightarrow> string \<Rightarrow> Score list \<Rightarrow> unit sql_io" where
  "AddScores collection sset documents = (\<lambda>db.
     if documents = [] then (case empty_create db of None \<Rightarrow> (Inr (), db) | Some e \<Rightarrow> (Inl e, db))
     else sql (\<lambda>db.
       if sql_driver db = Postgres \<and> \<not> distinct (map sc_Id documents)
       then (Inl (Error ''ON CONFLICT DO UPDATE command cannot affect row a second time''), db)
       else (Inr (), db\<lparr>db_documents :=
         fold put_document (map (to_document (round_time db) collection sset) documents) (db_documents db)\<rparr>)) db)"

definition from_document :: "SQLDocument \<Rightarrow> Score" where
  "from_document d = \<lparr>sc_Id = doc_Id d, sc_Score = doc_Score d, sc_IsHidden = False, sc_Categories = doc_Categories d,
     sc_Timestamp = doc_Timestamp d\<rparr>"

definition doc_greater :: "SQLDocument \<Rightarrow> SQLDocument \<Rightarrow> bool" where
  "doc_greater a b \<longleftrightarrow> fless (doc_Score b) (doc_Score a)"

definition SearchScores :: "string \<Rightarrow> string \<Rightarrow> string list \<Rightarrow> int \<Rightarrow> int \<Rightarrow> Score list sql_io" where
  "SearchScores collection sset query lo hi = sql (\<lambda>db.
     (Inr (map from_document (limited lo (if hi \<noteq> - 1 then hi - lo else 2 ^ 63 - 1)
        (sort_slice doc_greater (filter (\<lambda>d. doc_Collection d = collection \<and> doc_Subset d = sset \<and>
           \<not> doc_IsHidden d \<and> set query \<subseteq> set (doc_Categories d)) (db_documents db))))), db))"

definition update_documents :: "(SQLDocument \<Rightarrow> bool) \<Rightarrow> (SQLDocument \<Rightarrow> SQLDocument) \<Rightarrow> unit sql_io" where
  "update_documents hit f = sql (\<lambda>db. (Inr (), db\<lparr>db_documents := map (\<lambda>d. if hit d then f d else d) (db_documents db)\<rparr>))"

text \<open>After a failed update the session keeps its error and sends nothing more.\<close>

definition UpdateScores :: "string list \<Rightarrow> string option \<Rightarrow> string \<Rightarrow> ScorePatch \<Rightarrow> unit sql_io" where
  "UpdateScores collections sset docId patch =
     (let hit = (\<lambda>d. doc_Collection d \<in> set collections \<and> doc_Id d = docId \<and>
                   (case sset of None \<Rightarrow> True | Some s \<Rightarrow> doc_Subset d = s))
      in if collections = [] then io_return ()
         else if sp_Score patch = None \<and> sp_IsHidden patch = None \<and> sp_Categories patch = None then io_return ()
         else io_bind (case sp_Score patch of None \<Rightarrow> io_return ()
                       | Some v \<Rightarrow> update_documents hit (\<lambda>d. d\<lparr>doc_Score := v\<rparr>)) (\<lambda>_.
              io_bind (case sp_IsHidden patch of None \<Rightarrow> io_return ()
                       | Some b \<Rightarrow> update_documents hit (\<lambda>d. d\<lparr>doc_IsHidden := b\<rparr>)) (\<lambda>_.
              (case sp_Categories patch of None \<Rightarrow> io_return ()
               | Some cs \<Rightarrow> update_documents hit (\<lambda>d. d\<lparr>doc_Categories := cs\<rparr>)))))"

text \<open>MySQL gets the time truncated to milliseconds.\<close>

definition before_time :: "SQLDatabase \<Rightarrow> int \<Rightarrow> int" where
  "before_time db t = round_time db (if sql_driver db = MySQL then t - t mod 10 ^ 6 else t)"

definition matches :: "SQLDatabase \<Rightarrow> string list \<Rightarrow> ScoreCondition \<Rightarrow> SQLDocument \<Rightarrow> bool" where
  "matches db collections c d \<longleftrightarrow> doc_Collection d \<in> set collections \<and>
     (case cond_Subset c of None \<Rightarrow> True | Some s \<Rightarrow> doc_Subset d = s) \<and>
     (case cond_Id c of None \<Rightarrow> True | Some i \<Rightarrow> doc_Id d = i) \<and>
     (case cond_Before c of None \<Rightarrow> True | Some t \<Rightarrow> doc_Timestamp d < before_time db t)"

definition DeleteScores :: "string list \<Rightarrow> ScoreCondition \<Rightarrow> unit sql_io" where
  "DeleteScores collections c = io_bind (io_lift (cond_Check c)) (\<lambda>_.
     sql (\<lambda>db. (Inr (), db\<lparr>db_documents := filter (\<lambda>d. \<not> matches db collections c d) (db_documents db)\<rparr>)))"

fun scan_documents :: "(string \<Rightarrow> string \<Rightarrow> string \<Rightarrow> int \<Rightarrow> go_fail option) \<Rightarrow> SQLDocument list \<Rightarrow> go_fail + unit" where
  "scan_documents callback [] = Inr ()"
| "scan_documents callback (d # ds) =
     (case callback (doc_Collection d) (doc_Id d) (doc_Subset d) (doc_Timestamp d) of
        None \<Rightarrow> scan_documents callback ds | Some e \<Rightarrow> Inl e)"

definition ScanScores :: "(string \<Rightarrow> string \<Rightarrow> string \<Rightarrow> int \<Rightarrow> go_fail option) \<Rightarrow> unit sql_io" where
  "ScanScores callback = sql (\<lambda>db. (scan_documents callback (db_documents db), db))"

section \<open>Time series\<close>

text \<open>Points with one name and time are one row; Postgres refuses two of them in one call.\<close>

definition put_point :: "TimeSeriesPoint \<Rightarrow> TimeSeriesPoint list \<Rightarrow> TimeSeriesPoint list" where
  "put_point p = upsert (\<lambda>x. pt_Name x = pt_Name p \<and> pt_Timestamp x = pt_Timestamp p) (\<lambda>x. x\<lparr>pt_Value := pt_Value p\<rparr>) p"

definition AddTimeSeriesPoints :: "TimeSeriesPoint list \<Rightarrow> unit sql_io" where
  "AddTimeSeriesPoints points =
     (if points = [] then io_return ()
      else sql (\<lambda>db.
        let rows = map (\<lambda>p. p\<lparr>pt_Timestamp := round_time db (pt_Timestamp p)\<rparr>) points
        in if sql_driver db = Postgres \<and> \<not> distinct (map (\<lambda>p. (pt_Name p, pt_Timestamp p)) rows)
           then (Inl (Error ''ON CONFLICT DO UPDATE command cannot affect row a second time''), db)
           else (Inr (), db\<lparr>db_points := fold put_point rows (db_points db)\<rparr>)))"

definition empty_cache :: "SQLDriver \<Rightarrow> (int \<Rightarrow> int) \<Rightarrow> go_fail option \<Rightarrow> bool list \<Rightarrow> SQLDatabase" where
  "empty_cache d rt ec fs = \<lparr>sql_driver = d, db_faults = fs, round_time = rt, db_values = [], db_messages = [], db_documents = [],
     db_points = [], empty_create = ec\<rparr>"

section \<open>Well-formed tables\<close>

text \<open>The primary keys are unique.\<close>

definition cache_ok :: "SQLDatabase \<Rightarrow> bool" where
  "cache_ok db \<longleftrightarrow> distinct (gkeys (db_values db)) \<and> distinct (map (\<lambda>m. (m_Name m, m_Value m)) (db_messages db)) \<and>
     distinct (map doc_key (db_documents db)) \<and> distinct (map (\<lambda>p. (pt_Name p, pt_Timestamp p)) (db_points db))"

lemma distinct_put_document:
  "distinct (map doc_key rows) \<Longrightarrow> distinct (map doc_key (put_document d rows))"
  unfolding put_document_def by (rule distinct_upsert) (auto simp: doc_key_def)

lemma distinct_put_point:
  assumes "distinct (map (\<lambda>p. (pt_Name p, pt_Timestamp p)) rows)"
  shows "distinct (map (\<lambda>p. (pt_Name p, pt_Timestamp p)) (put_point p rows))"
  using distinct_upsert[of "\<lambda>p. (pt_Name p, pt_Timestamp p)" "\<lambda>x. x\<lparr>pt_Value := pt_Value p\<rparr>" rows p] assms
  unfolding put_point_def by simp

lemma distinct_push:
  assumes "distinct (map (\<lambda>m. (m_Name m, m_Value m)) rows)"
  shows "distinct (map (\<lambda>m. (m_Name m, m_Value m)) (upsert (\<lambda>m. m_Name m = n \<and> m_Value m = v)
    (\<lambda>m. m\<lparr>m_Timestamp := t\<rparr>) \<lparr>m_Name = n, m_Value = v, m_Timestamp = t\<rparr> rows))"
  using distinct_upsert[of "\<lambda>m. (m_Name m, m_Value m)" "\<lambda>m. m\<lparr>m_Timestamp := t\<rparr>" rows
    "\<lparr>m_Name = n, m_Value = v, m_Timestamp = t\<rparr>"] assms by simp

lemma distinct_values: "distinct (gkeys m) \<Longrightarrow> distinct (gkeys (fold (\<lambda>v. gput (cv_name v) (cv_value v)) vs m))"
  by (induction vs arbitrary: m) (auto intro: distinct_gput)

text \<open>The calls of the interface that change tables.\<close>

datatype cache_call =
    CallSet "cache_Value list" | CallDelete string | CallPush int string string | CallPop string
  | CallAddScores string string "Score list" | CallUpdateScores "string list" "string option" string ScorePatch
  | CallDeleteScores "string list" ScoreCondition | CallAddPoints "TimeSeriesPoint list" | CallPurge

fun cache_exec :: "cache_call \<Rightarrow> SQLDatabase \<Rightarrow> SQLDatabase" where
  "cache_exec (CallSet vs) db = snd (Set vs db)"
| "cache_exec (CallDelete n) db = snd (Delete n db)"
| "cache_exec (CallPush now n v) db = snd (Push now n v db)"
| "cache_exec (CallPop n) db = snd (Pop n db)"
| "cache_exec (CallAddScores c s ds) db = snd (AddScores c s ds db)"
| "cache_exec (CallUpdateScores cs s i p) db = snd (UpdateScores cs s i p db)"
| "cache_exec (CallDeleteScores cs c) db = snd (DeleteScores cs c db)"
| "cache_exec (CallAddPoints ps) db = snd (AddTimeSeriesPoints ps db)"
| "cache_exec CallPurge db = snd (Purge db)"

lemma cache_ok_faults [simp]: "cache_ok (db\<lparr>db_faults := fs\<rparr>) = cache_ok db"
  by (simp add: cache_ok_def)

lemma cache_ok_sql:
  assumes "\<And>db. cache_ok db \<Longrightarrow> cache_ok (snd (f db))" and "cache_ok db"
  shows "cache_ok (snd (sql f db))"
  using assms by (auto simp: sql_def split: list.splits)

lemma cache_ok_bind:
  assumes "cache_ok (snd (m db))" and "\<And>x db. cache_ok db \<Longrightarrow> cache_ok (snd (f x db))"
  shows "cache_ok (snd (io_bind m f db))"
  using assms by (cases "m db") (auto simp: io_bind_def split: sum.splits)

lemma cache_ok_update:
  assumes "\<And>d. doc_key (f d) = doc_key d" and "cache_ok db"
  shows "cache_ok (snd (update_documents hit f db))"
  unfolding update_documents_def
  by (rule cache_ok_sql[OF _ assms(2)]) (auto simp: cache_ok_def comp_def assms(1) if_distrib cong: if_cong)

lemma cache_ok_exec: "cache_ok db \<Longrightarrow> cache_ok (cache_exec c db)"
proof (induction c db rule: cache_exec.induct)
  case (1 vs db)
  then show ?case
    by (auto simp: Set_def io_return_def cache_ok_def intro!: cache_ok_sql[unfolded cache_ok_def] distinct_values)
next
  case (2 n db)
  then show ?case
    by (auto simp: Delete_def io_fail_def cache_ok_def distinct_map_filter intro!: cache_ok_sql[unfolded cache_ok_def])
next
  case (3 now n v db)
  show ?case unfolding cache_exec.simps Push_def
    by (rule cache_ok_sql[OF _ 3]) (use distinct_push in \<open>auto simp: cache_ok_def\<close>)
next
  case (4 n db)
  have "cache_ok (snd (pop_delete m db))" if "cache_ok db" for m db
    using that by (auto simp: pop_delete_def io_fail_def cache_ok_def distinct_map_filter intro!: cache_ok_sql[unfolded cache_ok_def])
  moreover have "cache_ok (snd (pop_select n db))"
    unfolding pop_select_def by (rule cache_ok_sql[OF _ 4]) simp
  ultimately show ?case
    by (auto simp: Pop_def io_fail_def io_return_def intro!: cache_ok_bind split: option.splits)
next
  case (5 c s ds db)
  then show ?case
    by (auto simp: AddScores_def cache_ok_def intro!: cache_ok_sql[unfolded cache_ok_def] distinct_fold distinct_put_document
      split: option.splits)
next
  case (6 cs s i p db)
  then show ?case
    by (auto simp: UpdateScores_def Let_def io_return_def doc_key_def intro!: cache_ok_bind cache_ok_update split: option.splits)
next
  case (7 cs c db)
  then show ?case
    by (auto simp: DeleteScores_def io_lift_def intro!: cache_ok_bind cache_ok_sql) (auto simp: cache_ok_def distinct_map_filter)
next
  case (8 ps db)
  then show ?case
    by (auto simp: AddTimeSeriesPoints_def Let_def io_return_def cache_ok_def
      intro!: cache_ok_sql[unfolded cache_ok_def] distinct_fold distinct_put_point)
next
  case (9 db)
  then show ?case
    by (auto simp: Purge_def cache_ok_def intro!: cache_ok_bind[unfolded cache_ok_def] cache_ok_sql[unfolded cache_ok_def])
qed

text \<open>However the calls of the cache follow one another and whichever statements fail, the tables keep their
  primary keys unique: values by name, messages by name and value, scores by collection, subset and id, points by name
  and time.\<close>

theorem cache_calls_ok: "cache_ok (fold cache_exec calls (empty_cache d rt ec fs))"
proof -
  have "cache_ok (fold cache_exec calls db)" if "cache_ok db" for db
    using that by (induction calls arbitrary: db) (auto intro: cache_ok_exec)
  then show ?thesis by (simp add: cache_ok_def empty_cache_def)
qed

section \<open>Messages form a queue\<close>

text \<open>The promise of a message queue: it keeps, per name, the values in the order they were last pushed.
  \<open>inv now s\<close> says that the clock has passed every time stamp in \<open>s\<close>.\<close>

primrec pop_times :: "(string \<Rightarrow> ('s, string) io) \<Rightarrow> string \<Rightarrow> nat \<Rightarrow> ('s, string list) io" where
  "pop_times pop n 0 = io_return []"
| "pop_times pop n (Suc k) = io_bind (pop n) (\<lambda>v. io_bind (pop_times pop n k) (\<lambda>vs. io_return (v # vs)))"

locale fifo =
  fixes queue :: "'s \<Rightarrow> string \<Rightarrow> string list"
    and inv :: "int \<Rightarrow> 's \<Rightarrow> bool"
    and push :: "int \<Rightarrow> string \<Rightarrow> string \<Rightarrow> ('s, unit) io"
    and pop :: "string \<Rightarrow> ('s, string) io"
  assumes push: "inv now s \<Longrightarrow> n \<noteq> [] \<Longrightarrow>
      \<exists>s'. push now n v s = (Inr (), s') \<and> inv (now + 1) s' \<and> queue s' = (queue s)(n := filter (\<lambda>x. x \<noteq> v) (queue s n) @ [v])"
    and pop_Cons: "inv now s \<Longrightarrow> queue s n = v # q \<Longrightarrow> \<exists>s'. pop n s = (Inr v, s') \<and> inv now s' \<and> queue s' = (queue s)(n := q)"
    and pop_Nil: "inv now s \<Longrightarrow> queue s n = [] \<Longrightarrow> pop n s = (Inl (Error ''EOF''), s)"
    and later: "inv now s \<Longrightarrow> now \<le> now' \<Longrightarrow> inv now' s"
begin

lemma push_all:
  assumes "inv now s" and "n \<noteq> []" and "sorted_wrt (<) (map fst tvs)" and "\<forall>t \<in> fst ` set tvs. now \<le> t"
    and "distinct (map snd tvs)"
  shows "\<exists>s' now'. io_fold (\<lambda>(t, v) _. push t n v) tvs () s = (Inr (), s') \<and> inv now' s' \<and>
    queue s' = (queue s)(n := filter (\<lambda>x. x \<notin> snd ` set tvs) (queue s n) @ map snd tvs)"
  using assms
proof (induction tvs arbitrary: now s)
  case Nil
  then show ?case by (auto simp: fun_upd_idem)
next
  case (Cons a tvs)
  obtain t v where a: "a = (t, v)" by force
  have "inv t s" using later[OF Cons.prems(1)] Cons.prems(4) a by simp
  then obtain s1 where s1: "push t n v s = (Inr (), s1)" "inv (t + 1) s1"
    "queue s1 = (queue s)(n := filter (\<lambda>x. x \<noteq> v) (queue s n) @ [v])" using push[OF _ Cons.prems(2)] by blast
  have "\<forall>u \<in> fst ` set tvs. t + 1 \<le> u" using Cons.prems(3) a by auto
  then have "\<exists>s2 now'. io_fold (\<lambda>(t, v) _. push t n v) tvs () s1 = (Inr (), s2) \<and> inv now' s2 \<and>
    queue s2 = (queue s1)(n := filter (\<lambda>x. x \<notin> snd ` set tvs) (queue s1 n) @ map snd tvs)"
    by (intro Cons.IH[OF s1(2) Cons.prems(2)]) (use Cons.prems(3,5) a in auto)
  then obtain s2 now' where s2: "io_fold (\<lambda>(t, v) _. push t n v) tvs () s1 = (Inr (), s2)" "inv now' s2"
    "queue s2 = (queue s1)(n := filter (\<lambda>x. x \<notin> snd ` set tvs) (queue s1 n) @ map snd tvs)" by blast
  have "v \<notin> snd ` set tvs" using Cons.prems(5) a by auto
  then have "queue s2 = (queue s)(n := filter (\<lambda>x. x \<notin> snd ` set (a # tvs)) (queue s n) @ map snd (a # tvs))"
    using s1(3) s2(3) a by (auto simp: conj_commute intro!: filter_cong)
  then show ?case using s1(1) s2(1,2) a by (auto simp: io_bind_def)
qed

lemma pop_all:
  assumes "inv now s" and "queue s n = vs @ rest"
  shows "\<exists>s'. pop_times pop n (length vs) s = (Inr vs, s') \<and> inv now s' \<and> queue s' = (queue s)(n := rest)"
  using assms
proof (induction vs arbitrary: s)
  case Nil
  then show ?case by (auto simp: fun_upd_idem)
next
  case (Cons v vs)
  then obtain s1 where s1: "pop n s = (Inr v, s1)" "inv now s1" "queue s1 = (queue s)(n := vs @ rest)"
    using pop_Cons by fastforce
  then have "queue s1 n = vs @ rest" by simp
  from Cons.IH[OF s1(2) this] obtain s2 where
    s2: "pop_times pop n (length vs) s1 = (Inr vs, s2)" "inv now s2" "queue s2 = (queue s1)(n := rest)" by blast
  show ?case using s1 s2 by (auto simp: io_bind_def io_return_def)
qed

lemma drain_in_order:
  assumes "inv now s" and "n \<noteq> []" and "sorted_wrt (<) (map fst tvs)" and "\<forall>t \<in> fst ` set tvs. now \<le> t"
    and "distinct (map snd tvs)" and "vs = filter (\<lambda>x. x \<notin> snd ` set tvs) (queue s n) @ map snd tvs"
  shows "\<exists>s' s''. io_fold (\<lambda>(t, v) _. push t n v) tvs () s = (Inr (), s') \<and>
    pop_times pop n (length vs) s' = (Inr vs, s'') \<and> pop n s'' = (Inl (Error ''EOF''), s'') \<and>
    (\<forall>m. m \<noteq> n \<longrightarrow> queue s'' m = queue s m)"
proof -
  obtain s' now' where 1: "io_fold (\<lambda>(t, v) _. push t n v) tvs () s = (Inr (), s')" "inv now' s'"
    "queue s' = (queue s)(n := vs)" using push_all[OF assms(1-5)] assms(6) by auto
  then obtain s'' where 2: "pop_times pop n (length vs) s' = (Inr vs, s'')" "inv now' s''" "queue s'' = (queue s')(n := [])"
    using pop_all[of now' s' n vs "[]"] by auto
  show ?thesis using 1 2 pop_Nil[OF 2(2), of n] by auto
qed

end

definition message_queue :: "SQLDatabase \<Rightarrow> string \<Rightarrow> string list" where
  "message_queue db n = map m_Value (sort_key m_Timestamp (filter (\<lambda>m. m_Name m = n) (db_messages db)))"

definition messages_before :: "int \<Rightarrow> SQLDatabase \<Rightarrow> bool" where
  "messages_before now db \<longleftrightarrow> distinct (map (\<lambda>m. (m_Name m, m_Value m)) (db_messages db)) \<and> db_faults db = [] \<and>
     (\<forall>m \<in> set (db_messages db). m_Timestamp m < now \<and> m_Name m \<noteq> [])"

lemma oldest_sort: "oldest ms = (case sort_key m_Timestamp ms of [] \<Rightarrow> None | m # _ \<Rightarrow> Some m)"
proof (induction ms)
  case (Cons m ms)
  show ?case
  proof (cases "sort_key m_Timestamp ms")
    case (Cons x xs)
    then show ?thesis using Cons.IH by auto
  qed (use Cons.IH in auto)
qed simp

lemma sort_key_last:
  assumes "\<forall>x \<in> set (xs @ ys). f x < f m"
  shows "sort_key f (xs @ m # ys) = sort_key f (xs @ ys) @ [m]"
proof (rule properties_for_sort_key)
  fix k assume "k \<in> set (sort_key f (xs @ ys) @ [m])"
  then consider "k = m" | "f k < f m" using assms by auto
  then show "filter (\<lambda>x. f k = f x) (sort_key f (xs @ ys) @ [m]) = filter (\<lambda>x. f k = f x) (xs @ m # ys)"
  proof cases
    case 1
    have "filter (\<lambda>x. f m = f x) zs = []" if "set zs \<subseteq> set (xs @ ys)" for zs
      using that assms by (force simp: filter_empty_conv)
    from this[of xs] this[of ys] this[of "sort_key f (xs @ ys)"] show ?thesis using 1 by simp
  next
    case 2
    have "filter (\<lambda>x. f k = f x) (sort_key f (xs @ ys)) = filter (\<lambda>x. f k = f x) (xs @ ys)"
      using sort_key_stable[of f "f k" "xs @ ys"] by (simp add: eq_commute)
    with 2 show ?thesis by auto
  qed
qed (use assms in \<open>auto simp: sorted_append less_imp_le\<close>)

lemma upsert_message:
  assumes "distinct (map (\<lambda>m. (m_Name m, m_Value m)) ms)"
  shows "\<exists>a b. upsert (\<lambda>m. m_Name m = n \<and> m_Value m = v) (\<lambda>m. m\<lparr>m_Timestamp := t\<rparr>)
      \<lparr>m_Name = n, m_Value = v, m_Timestamp = t\<rparr> ms = a @ \<lparr>m_Name = n, m_Value = v, m_Timestamp = t\<rparr> # b \<and>
    a @ b = filter (\<lambda>m. \<not> (m_Name m = n \<and> m_Value m = v)) ms"
proof (cases "\<exists>x\<in>set ms. m_Name x = n \<and> m_Value x = v")
  case True
  then obtain a x b where ms: "ms = a @ x # b" and x: "m_Name x = n" "m_Value x = v" by (metis split_list)
  have other: "\<not> (m_Name y = n \<and> m_Value y = v)" if "y \<in> set a \<union> set b" for y
    using assms that x unfolding ms by (auto simp: image_iff)
  have "map (\<lambda>m. if m_Name m = n \<and> m_Value m = v then m\<lparr>m_Timestamp := t\<rparr> else m) zs = zs" if "set zs \<subseteq> set a \<union> set b" for zs
    by (rule map_idI) (use that other in auto)
  from this[of a] this[of b] have 1: "upsert (\<lambda>m. m_Name m = n \<and> m_Value m = v) (\<lambda>m. m\<lparr>m_Timestamp := t\<rparr>)
      \<lparr>m_Name = n, m_Value = v, m_Timestamp = t\<rparr> ms = a @ \<lparr>m_Name = n, m_Value = v, m_Timestamp = t\<rparr> # b"
    using True ms x by (auto simp: upsert_def)
  have "filter (\<lambda>m. \<not> (m_Name m = n \<and> m_Value m = v)) (a @ b) = a @ b"
    by (rule filter_True) (use other in auto)
  then have "a @ b = filter (\<lambda>m. \<not> (m_Name m = n \<and> m_Value m = v)) ms"
    using x unfolding ms by simp
  with 1 show ?thesis by blast
next
  case False
  then have "filter (\<lambda>m. \<not> (m_Name m = n \<and> m_Value m = v)) ms = ms" by (simp add: filter_id_conv)
  with False show ?thesis by (intro exI[of _ ms] exI[of _ "[]"]) (auto simp: upsert_def)
qed

lemma message_queue_other: "m \<noteq> n \<Longrightarrow> filter (\<lambda>x. m_Name x = m) (filter (\<lambda>x. \<not> (m_Name x = n \<and> P x)) ms) = filter (\<lambda>x. m_Name x = m) ms"
  by (auto intro!: filter_cong)

lemma push_law:
  assumes "messages_before now db" and "n \<noteq> []"
  shows "\<exists>db'. Push now n v db = (Inr (), db') \<and> messages_before (now + 1) db' \<and>
    message_queue db' = (message_queue db)(n := filter (\<lambda>x. x \<noteq> v) (message_queue db n) @ [v])"
proof -
  let ?m = "\<lparr>m_Name = n, m_Value = v, m_Timestamp = now\<rparr>"
  let ?ms = "upsert (\<lambda>m. m_Name m = n \<and> m_Value m = v) (\<lambda>m. m\<lparr>m_Timestamp := now\<rparr>) ?m (db_messages db)"
  let ?name = "\<lambda>k x. m_Name x = k"
  have ok: "distinct (map (\<lambda>m. (m_Name m, m_Value m)) (db_messages db))" "db_faults db = []"
    "\<forall>m \<in> set (db_messages db). m_Timestamp m < now \<and> m_Name m \<noteq> []" using assms(1) by (auto simp: messages_before_def)
  obtain a b where ab: "?ms = a @ ?m # b" "a @ b = filter (\<lambda>m. \<not> (m_Name m = n \<and> m_Value m = v)) (db_messages db)"
    using upsert_message[OF ok(1)] by blast
  have old: "\<forall>x \<in> set (a @ b). m_Timestamp x < now \<and> m_Name x \<noteq> []" unfolding ab(2) using ok(3) by simp
  then have inv: "messages_before (now + 1) (db\<lparr>db_messages := ?ms\<rparr>)"
    unfolding messages_before_def using distinct_push[OF ok(1), of n v now] ok(2) assms(2)
    by (simp add: ab(1)) (meson less_imp_le)
  have keep: "filter (?name n) a @ filter (?name n) b = filter (\<lambda>m. m_Value m \<noteq> v) (filter (?name n) (db_messages db))"
    using arg_cong[OF ab(2), of "filter (?name n)"] unfolding filter_append filter_filter
    by (rule trans) (rule filter_cong, auto)
  have "sort_key m_Timestamp (filter (?name n) ?ms) = sort_key m_Timestamp (filter (?name n) a @ filter (?name n) b) @ [?m]"
    unfolding ab(1) filter_append filter.simps by (simp, rule sort_key_last) (use old in auto)
  then have "message_queue (db\<lparr>db_messages := ?ms\<rparr>) n = filter (\<lambda>x. x \<noteq> v) (message_queue db n) @ [v]"
    unfolding message_queue_def by (simp add: keep filter_map comp_def flip: filter_sort)
  moreover have "message_queue (db\<lparr>db_messages := ?ms\<rparr>) k = message_queue db k" if "k \<noteq> n" for k
  proof -
    have "filter (?name k) ?ms = filter (?name k) (a @ b)" using ab(1) that by simp
    then show ?thesis unfolding message_queue_def ab(2) message_queue_other[OF that] by simp
  qed
  ultimately show ?thesis using inv ok(2) by (auto simp: Push_def sql_no_fault)
qed

lemma pop_law:
  assumes "messages_before now db"
  shows "message_queue db n = v # q \<Longrightarrow>
      \<exists>db'. Pop n db = (Inr v, db') \<and> messages_before now db' \<and> message_queue db' = (message_queue db)(n := q)"
    and "message_queue db n = [] \<Longrightarrow> Pop n db = (Inl (Error ''EOF''), db)"
proof -
  let ?name = "\<lambda>k x. m_Name x = k"
  have ok: "distinct (map (\<lambda>m. (m_Name m, m_Value m)) (db_messages db))" "db_faults db = []"
    "\<forall>m \<in> set (db_messages db). m_Timestamp m < now \<and> m_Name m \<noteq> []" using assms(1) by (auto simp: messages_before_def)
  have sel: "pop_select n db = (Inr (case sort_key m_Timestamp (filter (?name n) (db_messages db)) of [] \<Rightarrow> None | m # _ \<Rightarrow> Some m), db)"
    using ok(2) by (simp add: pop_select_def sql_no_fault oldest_sort)
  show "Pop n db = (Inl (Error ''EOF''), db)" if "message_queue db n = []"
    using that sel by (simp add: Pop_def io_bind_def io_fail_def message_queue_def)
  assume "message_queue db n = v # q"
  then obtain m ms where m: "sort_key m_Timestamp (filter (?name n) (db_messages db)) = m # ms" "m_Value m = v" "map m_Value ms = q"
    by (auto simp: message_queue_def)
  have "m \<in> set (filter (?name n) (db_messages db))" using m(1) by (metis list.set_intros(1) set_sort)
  then have mn: "m_Name m = n" "n \<noteq> []" using ok(3) by auto
  let ?db = "db\<lparr>db_messages := filter (\<lambda>x. \<not> (m_Name x = n \<and> m_Value x = v)) (db_messages db)\<rparr>"
  have pop: "Pop n db = (Inr v, ?db)"
    using sel m(1,2) mn ok(2) by (simp add: Pop_def io_bind_def pop_delete_def sql_no_fault io_return_def)
  have "messages_before now ?db" using ok by (simp add: messages_before_def distinct_map_filter)
  moreover have "message_queue ?db n = q"
  proof -
    have "inj_on m_Value (set (filter (?name n) (db_messages db)))"
      using ok(1) by (auto simp: distinct_map inj_on_def)
    moreover have "distinct (m # ms)"
      using ok(1) by (metis distinct_map distinct_filter distinct_sort m(1))
    moreover have "set (m # ms) = set (filter (?name n) (db_messages db))" using m(1) by (metis set_sort)
    ultimately have "filter (\<lambda>x. m_Value x \<noteq> v) (m # ms) = ms"
      using m(2) by (auto simp: filter_id_conv inj_on_def)
    then have "sort_key m_Timestamp (filter (\<lambda>x. m_Value x \<noteq> v) (filter (?name n) (db_messages db))) = ms"
      using m(1) by (metis filter_sort)
    moreover have "filter (?name n) (db_messages ?db) = filter (\<lambda>x. m_Value x \<noteq> v) (filter (?name n) (db_messages db))"
      by (auto intro!: filter_cong)
    ultimately show ?thesis unfolding message_queue_def using m(3) by simp
  qed
  moreover have "message_queue ?db k = message_queue db k" if "k \<noteq> n" for k
    using message_queue_other[OF that, of "\<lambda>x. m_Value x = v" "db_messages db"]
    by (simp add: message_queue_def del: filter_filter)
  ultimately show "\<exists>db'. Pop n db = (Inr v, db') \<and> messages_before now db' \<and> message_queue db' = (message_queue db)(n := q)"
    using pop by auto
qed

interpretation sqlq: fifo message_queue messages_before Push Pop
proof unfold_locales
  show "messages_before now db \<Longrightarrow> now \<le> now' \<Longrightarrow> messages_before now' db" for now now' db
    by (force simp: messages_before_def)
qed (use push_law pop_law in blast)+

text \<open>C28. Messages are first in, first out: from a store whose time stamps the clock has passed, pushing distinct
  values at increasing times and then popping as often as there are values returns the values that were already waiting
  and were not pushed again, in their order, then the pushed ones in theirs; the next pop reports the end, and the
  queues of other names are as before.\<close>

theorem messages_fifo:
  assumes "messages_before now db" and "n \<noteq> []" and "sorted_wrt (<) (map fst tvs)" and "\<forall>t \<in> fst ` set tvs. now \<le> t"
    and "distinct (map snd tvs)" and "vs = filter (\<lambda>x. x \<notin> snd ` set tvs) (message_queue db n) @ map snd tvs"
  shows "\<exists>db' db''. io_fold (\<lambda>(t, v) _. Push t n v) tvs () db = (Inr (), db') \<and>
    pop_times Pop n (length vs) db' = (Inr vs, db'') \<and> Pop n db'' = (Inl (Error ''EOF''), db'') \<and>
    (\<forall>m. m \<noteq> n \<longrightarrow> message_queue db'' m = message_queue db m)"
  using assms by (rule sqlq.drain_in_order)

theorem messages_fifo_witness:
  "\<exists>db' db''. io_fold (\<lambda>(t, v) _. Push t ''jobs'' v) [(1, ''a''), (5, ''b'')] () (empty_cache SQLite (\<lambda>t. t) None []) = (Inr (), db') \<and>
    pop_times Pop ''jobs'' 2 db' = (Inr [''a'', ''b''], db'') \<and> Pop ''jobs'' db'' = (Inl (Error ''EOF''), db'')"
proof -
  let ?db = "empty_cache SQLite (\<lambda>t. t) None []" and ?tvs = "[(1, ''a''), (5, ''b'')] :: (int \<times> string) list"
  have 1: "messages_before 0 ?db" by (simp add: messages_before_def empty_cache_def)
  have 2: "sorted_wrt (<) (map fst ?tvs)" "\<forall>t \<in> fst ` set ?tvs. 0 \<le> t" "distinct (map snd ?tvs)" "''jobs'' \<noteq> []"
    by simp_all
  have 3: "[''a'', ''b''] = filter (\<lambda>x. x \<notin> snd ` set ?tvs) (message_queue ?db ''jobs'') @ map snd ?tvs"
    by (simp add: empty_cache_def message_queue_def)
  have "length [''a'', ''b''] = 2" by simp
  from messages_fifo[OF 1 2(4) 2(1-3) 3, unfolded this] show ?thesis by blast
qed

text \<open>Two calls of \<^verbatim>\<open>Pop\<close> whose statements interleave: both select, then both delete.\<close>

definition pop_finish :: "Message option \<Rightarrow> string sql_io" where
  "pop_finish found = (case found of None \<Rightarrow> io_fail (Error ''EOF'') | Some m \<Rightarrow> io_bind (pop_delete m) (\<lambda>_. io_return (m_Value m)))"

definition two_pops :: "string \<Rightarrow> (string \<times> string) sql_io" where
  "two_pops n = io_bind (pop_select n) (\<lambda>a. io_bind (pop_select n) (\<lambda>b.
     io_bind (pop_finish a) (\<lambda>v. io_bind (pop_finish b) (\<lambda>w. io_return (v, w)))))"

lemma Pop_finish: "Pop n = io_bind (pop_select n) pop_finish"
  by (simp add: Pop_def pop_finish_def[abs_def] cong: option.case_cong)

lemma pop_finish_Some:
  "db_faults db = [] \<Longrightarrow> \<not> (m_Name m = [] \<and> m_Value m = []) \<Longrightarrow> pop_finish (Some m) db = (Inr (m_Value m),
    db\<lparr>db_messages := filter (\<lambda>x. \<not> (m_Name x = m_Name m \<and> m_Value x = m_Value m)) (db_messages db)\<rparr>)"
  by (auto simp: pop_finish_def io_bind_def pop_delete_def io_return_def sql_no_fault)

lemma pop_finish_again:
  assumes "db_faults db = []" and "pop_finish (Some m) db = (Inr v, db')"
  shows "pop_finish (Some m) db' = (Inr v, db')"
proof -
  have "\<not> (m_Name m = [] \<and> m_Value m = [])"
    using assms(2) by (auto simp: pop_finish_def io_bind_def pop_delete_def io_fail_def)
  note fin = pop_finish_Some[OF _ this]
  show ?thesis using assms fin[of db] fin[of db'] by auto
qed

text \<open>\<^verbatim>\<open>Pop\<close> does not run its two statements in the transaction it opens: when two clients interleave, both receive
  the same message, whatever else is waiting.\<close>

theorem pop_same_message_twice:
  assumes "messages_before now db" and "message_queue db n = v # q"
  shows "\<exists>db'. two_pops n db = (Inr (v, v), db') \<and> message_queue db' n = q"
proof -
  obtain db' where pop: "Pop n db = (Inr v, db')" "messages_before now db'" "message_queue db' = (message_queue db)(n := q)"
    using pop_law(1)[OF assms] by blast
  obtain f where sel: "pop_select n db = (Inr f, db)"
    using assms(1) by (simp add: pop_select_def sql_no_fault messages_before_def)
  have fin: "pop_finish f db = (Inr v, db')" using pop(1) sel by (simp add: Pop_finish io_bind_def)
  then obtain m where f: "f = Some m" by (cases f) (auto simp: pop_finish_def)
  have "pop_finish f db' = (Inr v, db')"
    using pop_finish_again[of db m v db'] assms(1) fin f by (simp add: messages_before_def)
  then have "two_pops n db = (Inr (v, v), db')"
    using sel fin by (simp add: two_pops_def io_bind_def io_return_def)
  then show ?thesis using pop(3) by simp
qed

definition one_message :: SQLDatabase where
  "one_message = (empty_cache SQLite (\<lambda>t. t) None [])\<lparr>db_messages := [\<lparr>m_Name = ''jobs'', m_Value = ''a'', m_Timestamp = 1\<rparr>]\<rparr>"

theorem pop_same_message_twice_witness: "\<exists>db'. two_pops ''jobs'' one_message = (Inr (''a'', ''a''), db')"
  using pop_same_message_twice[of 2 one_message "''jobs''" "''a''" "[]"]
  by (auto simp: messages_before_def one_message_def empty_cache_def message_queue_def)

section \<open>Replacing the scores of a subset\<close>

text \<open>The promise of a score store. \<open>view s c b i\<close> is what is stored under collection, subset and id; \<open>stamp\<close> is the
  precision of its time column, \<open>before\<close> the bound a deletion compares with, \<open>good\<close> a well-formed store and \<open>fits\<close> one that a search
  reads to the end.\<close>

locale score_store =
  fixes view :: "'s \<Rightarrow> string \<Rightarrow> string \<Rightarrow> string \<Rightarrow> Score option"
    and good :: "'s \<Rightarrow> bool"
    and fits :: "'s \<Rightarrow> bool"
    and stamp :: "'s \<Rightarrow> int \<Rightarrow> int"
    and before :: "'s \<Rightarrow> int \<Rightarrow> int"
    and add :: "string \<Rightarrow> string \<Rightarrow> Score list \<Rightarrow> ('s, unit) io"
    and del :: "string list \<Rightarrow> ScoreCondition \<Rightarrow> ('s, unit) io"
    and search :: "string \<Rightarrow> string \<Rightarrow> string list \<Rightarrow> int \<Rightarrow> int \<Rightarrow> ('s, Score list) io"
  assumes add_good: "good s \<Longrightarrow> add c b ds s = (Inr (), s') \<Longrightarrow> good s' \<and> stamp s' = stamp s \<and> before s' = before s"
    and add_new: "good s \<Longrightarrow> add c b ds s = (Inr (), s') \<Longrightarrow> distinct (map sc_Id ds) \<Longrightarrow> d \<in> set ds \<Longrightarrow>
      view s' c b (sc_Id d) = Some (d\<lparr>sc_Timestamp := stamp s (sc_Timestamp d),
        sc_IsHidden := (case view s c b (sc_Id d) of None \<Rightarrow> sc_IsHidden d | Some x \<Rightarrow> sc_IsHidden x)\<rparr>)"
    and add_old: "good s \<Longrightarrow> add c b ds s = (Inr (), s') \<Longrightarrow> c' \<noteq> c \<or> b' \<noteq> b \<or> i \<notin> sc_Id ` set ds \<Longrightarrow>
      view s' c' b' i = view s c' b' i"
    and del_good: "good s \<Longrightarrow> del cs p s = (Inr (), s') \<Longrightarrow> good s' \<and> stamp s' = stamp s \<and> before s' = before s"
    and del_view: "good s \<Longrightarrow> del [c] \<lparr>cond_Subset = Some b, cond_Id = None, cond_Before = Some t\<rparr> s = (Inr (), s') \<Longrightarrow>
      view s' c' b' i = (if c' = c \<and> b' = b \<and> (\<exists>x. view s c b i = Some x \<and> sc_Timestamp x < before s t) then None
        else view s c' b' i)"
    and before_stamp: "good s \<Longrightarrow> before s t \<le> stamp s t"
    and search_all: "good s \<Longrightarrow> fits s \<Longrightarrow> search c b [] 0 (- 1) s = (Inr res, s') \<Longrightarrow>
      distinct (map sc_Id res) \<and> set res = {x. view s c b (sc_Id x) = Some x \<and> \<not> sc_IsHidden x}"
begin

text \<open>The workers replace a subset by writing the new scores with the time \<open>t\<close> of the run and deleting what is older.\<close>

lemma replace_view:
  assumes "good s" and "add c b ds s = (Inr (), s1)"
    and "del [c] \<lparr>cond_Subset = Some b, cond_Id = None, cond_Before = Some t\<rparr> s1 = (Inr (), s2)"
    and "distinct (map sc_Id ds)" and "\<forall>d\<in>set ds. sc_Timestamp d = t \<and> \<not> sc_IsHidden d"
    and "\<forall>i x. view s c b i = Some x \<longrightarrow> sc_Timestamp x < before s t \<and> \<not> sc_IsHidden x"
  shows "good s2"
    and "{x. view s2 c b (sc_Id x) = Some x \<and> \<not> sc_IsHidden x} = (\<lambda>d. d\<lparr>sc_Timestamp := stamp s t\<rparr>) ` set ds"
    and "c' \<noteq> c \<or> b' \<noteq> b \<Longrightarrow> view s2 c' b' i = view s c' b' i"
proof -
  have g1: "good s1" "stamp s1 = stamp s" "before s1 = before s" using add_good[OF assms(1,2)] by auto
  show "good s2" using del_good[OF g1(1) assms(3)] by auto
  have new: "view s1 c b (sc_Id d) = Some (d\<lparr>sc_Timestamp := stamp s t\<rparr>)" if "d \<in> set ds" for d
    using add_new[OF assms(1,2,4) that] assms(5,6) that by (cases "view s c b (sc_Id d)") auto
  have kept: "view s2 c b (sc_Id d) = Some (d\<lparr>sc_Timestamp := stamp s t\<rparr>)" if "d \<in> set ds" for d
    using del_view[OF g1(1) assms(3), of c b "sc_Id d"] new[OF that] before_stamp[OF assms(1), of t] g1(3) by simp
  have gone: "view s2 c b i = None" if "i \<notin> sc_Id ` set ds" for i
    using del_view[OF g1(1) assms(3), of c b i] add_old[OF assms(1,2), of c b i] assms(6) g1(3) that
    by (cases "view s c b i") auto
  show "{x. view s2 c b (sc_Id x) = Some x \<and> \<not> sc_IsHidden x} = (\<lambda>d. d\<lparr>sc_Timestamp := stamp s t\<rparr>) ` set ds" (is "?L = ?R")
  proof (intro set_eqI iffI)
    fix x assume x: "x \<in> ?L"
    then have "sc_Id x \<in> sc_Id ` set ds" using gone by fastforce
    then obtain d where d: "d \<in> set ds" "sc_Id d = sc_Id x" by auto
    then have "x = d\<lparr>sc_Timestamp := stamp s t\<rparr>" using kept[OF d(1)] x by simp
    then show "x \<in> ?R" using d(1) by blast
  next
    fix x assume "x \<in> ?R"
    then show "x \<in> ?L" using kept assms(5) by auto
  qed
  show "view s2 c' b' i = view s c' b' i" if "c' \<noteq> c \<or> b' \<noteq> b"
    using del_view[OF g1(1) assms(3), of c' b' i] add_old[OF assms(1,2), of c' b' i] that by auto
qed

lemma replace:
  assumes "good s" and "add c b ds s = (Inr (), s1)"
    and "del [c] \<lparr>cond_Subset = Some b, cond_Id = None, cond_Before = Some t\<rparr> s1 = (Inr (), s2)"
    and "search c b [] 0 (- 1) s' = (Inr res, s3)" and "fits s'" and "good s'" and "view s' c b = view s2 c b"
    and "distinct (map sc_Id ds)" and "\<forall>d\<in>set ds. sc_Timestamp d = t \<and> \<not> sc_IsHidden d"
    and "\<forall>i x. view s c b i = Some x \<longrightarrow> sc_Timestamp x < before s t \<and> \<not> sc_IsHidden x"
  shows "mset res = mset (map (\<lambda>d. d\<lparr>sc_Timestamp := stamp s t\<rparr>) ds)"
proof -
  have "set res = set (map (\<lambda>d. d\<lparr>sc_Timestamp := stamp s t\<rparr>) ds)" "distinct (map sc_Id res)"
    using search_all[OF assms(6,5,4)] replace_view(2)[OF assms(1-3,8-10)] assms(7) by auto
  moreover have "distinct (map (\<lambda>d. d\<lparr>sc_Timestamp := stamp s t\<rparr>) ds)"
    using assms(8) by (auto simp: distinct_map inj_on_def) (metis Score.select_convs(1) Score.surjective Score.update_convs(5))
  ultimately show ?thesis by (metis distinct_map set_eq_iff_mset_eq_distinct)
qed

end

definition stored :: "SQLDocument \<Rightarrow> Score" where
  "stored d = (from_document d)\<lparr>sc_IsHidden := doc_IsHidden d\<rparr>"

definition docs_view :: "SQLDocument list \<Rightarrow> string \<times> string \<times> string \<Rightarrow> Score option" where
  "docs_view docs = map_of (map (\<lambda>d. (doc_key d, stored d)) docs)"

definition cache_view :: "SQLDatabase \<Rightarrow> string \<Rightarrow> string \<Rightarrow> string \<Rightarrow> Score option" where
  "cache_view db c b i = docs_view (db_documents db) (c, b, i)"

definition cache_good :: "SQLDatabase \<Rightarrow> bool" where
  "cache_good db \<longleftrightarrow> cache_ok db \<and> mono (round_time db)"

definition cache_fits :: "SQLDatabase \<Rightarrow> bool" where
  "cache_fits db \<longleftrightarrow> length (db_documents db) < 2 ^ 63"

lemma docs_view_Some:
  "distinct (map doc_key docs) \<Longrightarrow> docs_view docs k = Some x \<longleftrightarrow> (\<exists>d\<in>set docs. doc_key d = k \<and> stored d = x)"
  unfolding docs_view_def by (subst map_of_eq_Some_iff) (auto simp: comp_def)

lemma docs_view_eqI:
  assumes "distinct (map doc_key docs)" and "distinct (map doc_key docs')"
    and "\<And>x. (\<exists>d\<in>set docs. doc_key d = k \<and> stored d = x) \<longleftrightarrow> (\<exists>d\<in>set docs'. doc_key d = k' \<and> stored d = x)"
  shows "docs_view docs k = docs_view docs' k'"
  by (rule option.expand) (metis assms docs_view_Some not_None_eq option.sel)+

lemma set_upsert:
  "set (upsert hit f row rows) = (if \<exists>x\<in>set rows. hit x then f ` {x \<in> set rows. hit x} \<union> {x \<in> set rows. \<not> hit x} else insert row (set rows))"
  by (auto simp: upsert_def)

lemma docs_view_put_other:
  assumes "distinct (map doc_key docs)" and "k \<noteq> doc_key d"
  shows "docs_view (put_document d docs) k = docs_view docs k"
  by (rule docs_view_eqI[OF distinct_put_document[OF assms(1)] assms(1)])
    (use assms(2) in \<open>auto simp: put_document_def set_upsert doc_key_def split: if_splits\<close>)

lemma docs_view_put_same:
  assumes "distinct (map doc_key docs)"
  shows "docs_view (put_document d docs) (doc_key d) =
    Some ((stored d)\<lparr>sc_IsHidden := (case docs_view docs (doc_key d) of None \<Rightarrow> doc_IsHidden d | Some x \<Rightarrow> sc_IsHidden x)\<rparr>)"
proof (cases "\<exists>x\<in>set docs. doc_key x = doc_key d")
  case True
  then obtain x where x: "x \<in> set docs" "doc_key x = doc_key d" by blast
  then have "docs_view docs (doc_key d) = Some (stored x)" using docs_view_Some[OF assms] by blast
  moreover have "x\<lparr>doc_Score := doc_Score d, doc_Categories := doc_Categories d, doc_Timestamp := doc_Timestamp d\<rparr> \<in> set (put_document d docs)"
    using x by (auto simp: put_document_def set_upsert)
  ultimately show ?thesis
    using x(2) by (intro iffD2[OF docs_view_Some[OF distinct_put_document[OF assms]]] bexI) (auto simp: stored_def from_document_def doc_key_def)
next
  case False
  then have "docs_view docs (doc_key d) = None" using docs_view_Some[OF assms] by (metis not_None_eq)
  moreover have "d \<in> set (put_document d docs)" using False by (auto simp: put_document_def set_upsert)
  ultimately show ?thesis
    by (intro iffD2[OF docs_view_Some[OF distinct_put_document[OF assms]]] bexI[of _ d]) (auto simp: stored_def from_document_def)
qed

lemma docs_view_puts_other:
  "distinct (map doc_key docs) \<Longrightarrow> k \<notin> doc_key ` set ds \<Longrightarrow> docs_view (fold put_document ds docs) k = docs_view docs k"
  by (induction ds arbitrary: docs) (auto simp: docs_view_put_other distinct_put_document)

lemma docs_view_puts:
  "distinct (map doc_key docs) \<Longrightarrow> distinct (map doc_key ds) \<Longrightarrow> d \<in> set ds \<Longrightarrow> docs_view (fold put_document ds docs) (doc_key d) =
    Some ((stored d)\<lparr>sc_IsHidden := (case docs_view docs (doc_key d) of None \<Rightarrow> doc_IsHidden d | Some x \<Rightarrow> sc_IsHidden x)\<rparr>)"
proof (induction ds arbitrary: docs)
  case (Cons a ds)
  show ?case
  proof (cases "d = a")
    case True
    show ?thesis unfolding True using Cons.prems by (simp add: docs_view_puts_other distinct_put_document docs_view_put_same)
  next
    case False
    then have "d \<in> set ds" using Cons.prems by simp
    moreover from this have "doc_key d \<noteq> doc_key a" using Cons.prems(2) by (metis distinct.simps(2) image_eqI list.set_map list.simps(9))
    ultimately show ?thesis using Cons by (simp add: distinct_put_document docs_view_put_other)
  qed
qed simp

lemma docs_view_filter:
  assumes "distinct (map doc_key docs)" and "\<And>d. d \<in> set docs \<Longrightarrow> doc_key d = k \<Longrightarrow> P d \<longleftrightarrow> Q (stored d)"
  shows "docs_view (filter P docs) k = (case docs_view docs k of None \<Rightarrow> None | Some x \<Rightarrow> if Q x then Some x else None)"
proof (cases "docs_view docs k")
  case None
  then have "docs_view (filter P docs) k = None"
    by (auto simp: docs_view_def map_of_eq_None_iff)
  then show ?thesis using None by simp
next
  case (Some x)
  then obtain d where d: "d \<in> set docs" "doc_key d = k" "stored d = x" using docs_view_Some[OF assms(1)] by blast
  have "(\<exists>e\<in>set (filter P docs). doc_key e = k \<and> stored e = y) \<longleftrightarrow> P d \<and> y = x" for y
    using d assms by (auto simp: distinct_map inj_on_def)
  then have "docs_view (filter P docs) k = Some y \<longleftrightarrow> P d \<and> y = x" for y
    using docs_view_Some[of "filter P docs"] assms(1) by (simp add: distinct_map_filter)
  then show ?thesis using Some assms(2)[OF d(1,2)] d(3) by (cases "docs_view (filter P docs) k") auto
qed

lemma AddScores_Inr:
  assumes "AddScores c b ds db = (Inr (), db')"
  shows "\<exists>fs. db' = db\<lparr>db_faults := fs, db_documents := fold put_document (map (to_document (round_time db) c b) ds) (db_documents db)\<rparr>"
proof (cases "ds = []")
  case True
  then have "db' = db\<lparr>db_faults := db_faults db, db_documents := fold put_document (map (to_document (round_time db) c b) ds) (db_documents db)\<rparr>"
    using assms by (auto simp: AddScores_def split: option.splits)
  then show ?thesis by blast
next
  case False
  then show ?thesis using assms by (auto simp: AddScores_def dest!: sql_Inr split: if_splits)
qed

lemma DeleteScores_Inr:
  assumes "DeleteScores cs p db = (Inr (), db')"
  shows "\<exists>fs. db' = db\<lparr>db_faults := fs, db_documents := filter (\<lambda>d. \<not> matches db cs p d) (db_documents db)\<rparr>"
proof -
  have "matches (db\<lparr>db_faults := fs\<rparr>) = matches db" for fs
    by (intro ext) (simp add: matches_def before_time_def cong: option.case_cong)
  then show ?thesis using assms by (auto simp: DeleteScores_def io_bind_Inr dest!: sql_Inr)
qed

lemma SearchScores_all:
  assumes "SearchScores c b [] 0 (- 1) db = (Inr res, db')" and "cache_fits db"
  shows "res = map from_document (sort_slice doc_greater (filter (\<lambda>d. doc_Collection d = c \<and> doc_Subset d = b \<and> \<not> doc_IsHidden d) (db_documents db)))"
proof -
  have "length (filter P (db_documents db)) \<le> nat (2 ^ 63 - 1)" for P
    using le_less_trans[OF length_filter_le[of P "db_documents db"] assms(2)[unfolded cache_fits_def]] by simp
  then show ?thesis using assms(1) by (auto simp: SearchScores_def limited_def dest!: sql_Inr)
qed

lemma doc_key_to_document: "doc_key (to_document rt c b d) = (c, b, sc_Id d)"
  by (simp add: doc_key_def to_document_def)

lemma view_AddScores:
  assumes "cache_good db" and "AddScores c b ds db = (Inr (), db')"
  shows "distinct (map sc_Id ds) \<Longrightarrow> d \<in> set ds \<Longrightarrow>
      cache_view db' c b (sc_Id d) = Some (d\<lparr>sc_Timestamp := round_time db (sc_Timestamp d),
        sc_IsHidden := (case cache_view db c b (sc_Id d) of None \<Rightarrow> sc_IsHidden d | Some x \<Rightarrow> sc_IsHidden x)\<rparr>)"
    and "c' \<noteq> c \<or> b' \<noteq> b \<or> i \<notin> sc_Id ` set ds \<Longrightarrow> cache_view db' c' b' i = cache_view db c' b' i"
proof -
  let ?ds = "map (to_document (round_time db) c b) ds"
  have ok: "distinct (map doc_key (db_documents db))" using assms(1) by (simp add: cache_good_def cache_ok_def)
  have db': "db_documents db' = fold put_document ?ds (db_documents db)" using AddScores_Inr[OF assms(2)] by auto
  show "cache_view db' c' b' i = cache_view db c' b' i" if "c' \<noteq> c \<or> b' \<noteq> b \<or> i \<notin> sc_Id ` set ds"
    unfolding cache_view_def db' by (rule docs_view_puts_other[OF ok]) (use that in \<open>auto simp: doc_key_to_document\<close>)
  assume d: "distinct (map sc_Id ds)" "d \<in> set ds"
  have "distinct (map doc_key ?ds)" using d(1) by (auto simp: doc_key_to_document distinct_map inj_on_def comp_def)
  moreover have "to_document (round_time db) c b d \<in> set ?ds" using d(2) by simp
  ultimately show "cache_view db' c b (sc_Id d) = Some (d\<lparr>sc_Timestamp := round_time db (sc_Timestamp d),
        sc_IsHidden := (case cache_view db c b (sc_Id d) of None \<Rightarrow> sc_IsHidden d | Some x \<Rightarrow> sc_IsHidden x)\<rparr>)"
    using docs_view_puts[OF ok, of ?ds "to_document (round_time db) c b d"]
    by (cases "cache_view db c b (sc_Id d)")
      (simp_all add: cache_view_def db' doc_key_to_document stored_def from_document_def, simp_all add: to_document_def)
qed

lemma view_DeleteScores:
  assumes "cache_good db" and "DeleteScores [c] \<lparr>cond_Subset = Some b, cond_Id = None, cond_Before = Some t\<rparr> db = (Inr (), db')"
  shows "cache_view db' c' b' i = (if c' = c \<and> b' = b \<and> (\<exists>x. cache_view db c b i = Some x \<and> sc_Timestamp x < before_time db t) then None
    else cache_view db c' b' i)"
proof -
  have ok: "distinct (map doc_key (db_documents db))" using assms(1) by (simp add: cache_good_def cache_ok_def)
  have "cache_view db' c' b' i = (case cache_view db c' b' i of None \<Rightarrow> None
      | Some x \<Rightarrow> if \<not> (c' = c \<and> b' = b \<and> sc_Timestamp x < before_time db t) then Some x else None)"
    using DeleteScores_Inr[OF assms(2)] unfolding cache_view_def
    by (auto intro!: docs_view_filter[OF ok] simp: matches_def doc_key_def stored_def from_document_def)
  then show ?thesis by (auto split: option.splits)
qed

lemma view_SearchScores:
  assumes "cache_good db" and "cache_fits db" and "SearchScores c b [] 0 (- 1) db = (Inr res, db')"
  shows "distinct (map sc_Id res) \<and> set res = {x. cache_view db c b (sc_Id x) = Some x \<and> \<not> sc_IsHidden x}"
proof
  let ?P = "\<lambda>d. doc_Collection d = c \<and> doc_Subset d = b \<and> \<not> doc_IsHidden d"
  have ok: "distinct (map doc_key (db_documents db))" using assms(1) by (simp add: cache_good_def cache_ok_def)
  note res = SearchScores_all[OF assms(3,2)]
  have "map doc_key (filter ?P (db_documents db)) = map (\<lambda>i. (c, b, i)) (map doc_Id (filter ?P (db_documents db)))"
    by (simp add: doc_key_def)
  with distinct_map_filter[OF ok, of ?P] have "distinct (map (\<lambda>i. (c, b, i)) (map doc_Id (filter ?P (db_documents db))))" by (rule subst[rotated])
  then have "distinct (map doc_Id (filter ?P (db_documents db)))" by (rule distinct_map[THEN iffD1, THEN conjunct1])
  then have "distinct (map doc_Id (sort_slice doc_greater (filter ?P (db_documents db))))"
    by (rule mset_eq_imp_distinct_iff[THEN iffD1, rotated]) (simp only: mset_map mset_sort_slice)
  moreover have "sc_Id \<circ> from_document = doc_Id" by (auto simp: from_document_def)
  ultimately show "distinct (map sc_Id res)" unfolding res by simp
  have "from_document d = stored d" if "\<not> doc_IsHidden d" for d using that by (simp add: stored_def from_document_def)
  then have "set res = stored ` {d \<in> set (db_documents db). ?P d}" unfolding res by auto
  also have "\<dots> = {x. cache_view db c b (sc_Id x) = Some x \<and> \<not> sc_IsHidden x}"
    unfolding cache_view_def docs_view_Some[OF ok] by (auto simp: stored_def from_document_def doc_key_def)
  finally show "set res = {x. cache_view db c b (sc_Id x) = Some x \<and> \<not> sc_IsHidden x}" .
qed

interpretation sqls: score_store cache_view cache_good cache_fits round_time before_time AddScores DeleteScores SearchScores
proof unfold_locales
  fix db db' c b ds cs p t
  show "cache_good db \<Longrightarrow> AddScores c b ds db = (Inr (), db') \<Longrightarrow>
      cache_good db' \<and> round_time db' = round_time db \<and> before_time db' = before_time db"
    using cache_ok_exec[of db "CallAddScores c b ds"] AddScores_Inr[of c b ds db db']
    by (auto simp: cache_good_def before_time_def)
  show "cache_good db \<Longrightarrow> DeleteScores cs p db = (Inr (), db') \<Longrightarrow>
      cache_good db' \<and> round_time db' = round_time db \<and> before_time db' = before_time db"
    using cache_ok_exec[of db "CallDeleteScores cs p"] DeleteScores_Inr[of cs p db db']
    by (auto simp: cache_good_def before_time_def)
  show "before_time db t \<le> round_time db t" if "cache_good db"
    using that by (auto simp: cache_good_def before_time_def intro!: monoD[of "round_time db"])
qed (fact view_AddScores view_DeleteScores view_SearchScores)+

lemma SearchScores_best_first:
  assumes "SearchScores c b [] 0 (- 1) db = (Inr res, db')" and "cache_fits db" and "\<forall>x\<in>set res. sc_Score x \<noteq> NaN"
  shows "best_first res"
proof -
  let ?ds = "filter (\<lambda>d. doc_Collection d = c \<and> doc_Subset d = b \<and> \<not> doc_IsHidden d) (db_documents db)"
  note res = SearchScores_all[OF assms(1,2)]
  have num: "\<forall>d\<in>set ?ds. doc_Score d \<noteq> NaN" using assms(3) unfolding res by (auto simp: from_document_def)
  then have "sorted_wrt (\<lambda>a b. \<not> doc_greater b a) (sort_slice doc_greater ?ds)"
    using fless_weak_order[of "set ?ds" doc_Score] by (intro sort_slice_ordered) (simp add: doc_greater_def[abs_def])
  then have "sorted_wrt (\<lambda>a b. fle (doc_Score b) (doc_Score a)) (sort_slice doc_greater ?ds)"
    by (rule sorted_wrt_mono_rel[rotated]) (use num in \<open>auto simp: doc_greater_def not_fless_fle\<close>)
  then show ?thesis unfolding best_first_def res by (simp add: sorted_wrt_map from_document_def)
qed

text \<open>C16. Replacing the scores of a user. A worker adds the new scores with the time of its run and deletes the
  scores of that subset from before that time: if what was stored is older, and nothing is hidden, a search then
  returns exactly the new scores (with their time in the precision of the column), the best first, and the other
  subsets are as before. The precision of the column never makes the deletion remove what was just written.\<close>

theorem scores_replaced:
  assumes "cache_good db" and "AddScores c b ds db = (Inr (), db1)"
    and "DeleteScores [c] \<lparr>cond_Subset = Some b, cond_Id = None, cond_Before = Some t\<rparr> db1 = (Inr (), db2)"
    and "SearchScores c b [] 0 (- 1) db2 = (Inr res, db3)" and "cache_fits db2"
    and "distinct (map sc_Id ds)"
    and "\<forall>d\<in>set ds. sc_Timestamp d = t \<and> \<not> sc_IsHidden d \<and> sc_Score d \<noteq> NaN"
    and "\<forall>i x. cache_view db c b i = Some x \<longrightarrow> sc_Timestamp x < before_time db t \<and> \<not> sc_IsHidden x"
  shows "mset res = mset (map (\<lambda>d. d\<lparr>sc_Timestamp := round_time db t\<rparr>) ds) \<and> best_first res \<and>
    (\<forall>c' b'. c' \<noteq> c \<or> b' \<noteq> b \<longrightarrow> cache_view db2 c' b' = cache_view db c' b')"
proof -
  have ds: "\<forall>d\<in>set ds. sc_Timestamp d = t \<and> \<not> sc_IsHidden d" using assms(7) by blast
  note view = sqls.replace_view[OF assms(1-3,6) ds assms(8)]
  have res: "mset res = mset (map (\<lambda>d. d\<lparr>sc_Timestamp := round_time db t\<rparr>) ds)"
    by (rule sqls.replace[OF assms(1-5) view(1) refl assms(6) ds assms(8)])
  have "\<forall>x\<in>set res. sc_Score x \<noteq> NaN" using mset_eq_setD[OF res] assms(7) by auto
  then show ?thesis using res view(3) SearchScores_best_first[OF assms(4,5)] by blast
qed

definition old_scores :: SQLDatabase where
  "old_scores = (empty_cache MySQL (\<lambda>t. t - t mod 10 ^ 6) None [])\<lparr>db_documents :=
     [\<lparr>doc_Collection = ''recommend'', doc_Subset = ''u'', doc_Id = ''x'', doc_IsHidden = False, doc_Categories = [],
       doc_Score = Fin 1, doc_Timestamp = 1000000\<rparr>]\<rparr>"

theorem scores_replaced_witness:
  "\<exists>db1 db2 db3 res. AddScores ''recommend'' ''u'' [\<lparr>sc_Id = ''y'', sc_Score = Fin 2, sc_IsHidden = False, sc_Categories = [],
      sc_Timestamp = 5000001\<rparr>] old_scores = (Inr (), db1) \<and>
    DeleteScores [''recommend''] \<lparr>cond_Subset = Some ''u'', cond_Id = None, cond_Before = Some 5000001\<rparr> db1 = (Inr (), db2) \<and>
    SearchScores ''recommend'' ''u'' [] 0 (- 1) db2 = (Inr res, db3) \<and> length res = 1"
proof -
  let ?y = "\<lparr>sc_Id = ''y'', sc_Score = Fin 2, sc_IsHidden = False, sc_Categories = [], sc_Timestamp = 5000001\<rparr>"
  let ?c = "\<lparr>cond_Subset = Some ''u'', cond_Id = None, cond_Before = Some 5000001\<rparr>"
  have m: "mono (\<lambda>t :: int. t - t mod 10 ^ 6)"
    by (rule monoI) (simp add: minus_mod_eq_div_mult zdiv_mono1 mult_right_mono)
  then have g: "cache_good old_scores" by (simp add: cache_good_def cache_ok_def old_scores_def empty_cache_def)
  obtain db1 where a: "AddScores ''recommend'' ''u'' [?y] old_scores = (Inr (), db1)"
      "db1 = old_scores\<lparr>db_documents := db_documents old_scores @ [to_document (\<lambda>t. t - t mod 10 ^ 6) ''recommend'' ''u'' ?y]\<rparr>"
    by (simp add: AddScores_def old_scores_def empty_cache_def sql_def put_document_def upsert_def doc_key_def to_document_def)
  obtain db2 where d: "DeleteScores [''recommend''] ?c db1 = (Inr (), db2)"
      "db2 = old_scores\<lparr>db_documents := [to_document (\<lambda>t. t - t mod 10 ^ 6) ''recommend'' ''u'' ?y]\<rparr>"
    using a(2) by (simp add: DeleteScores_def io_bind_def io_lift_def cond_Check_def old_scores_def empty_cache_def sql_def matches_def
      before_time_def to_document_def)
  obtain res db3 where s: "SearchScores ''recommend'' ''u'' [] 0 (- 1) db2 = (Inr res, db3)"
    using d(2) by (simp add: SearchScores_def sql_def old_scores_def empty_cache_def)
  have f: "cache_fits db2" using d(2) by (simp add: cache_fits_def)
  have o: "\<forall>i x. cache_view old_scores ''recommend'' ''u'' i = Some x \<longrightarrow> sc_Timestamp x < before_time old_scores 5000001 \<and> \<not> sc_IsHidden x"
    by (simp add: cache_view_def docs_view_def old_scores_def empty_cache_def doc_key_def stored_def from_document_def before_time_def)
  have "mset res = mset (map (\<lambda>d. d\<lparr>sc_Timestamp := round_time old_scores 5000001\<rparr>) [?y])"
    using scores_replaced[OF g a(1) d(1) s f _ _ o] by simp
  then have "length res = 1" by (metis length_map list.size(3,4) One_nat_def size_mset add_0)
  then show ?thesis using a(1) d(1) s by blast
qed

section \<open>Values round trip\<close>

lemma map_of_puts:
  "distinct (map cv_name rows) \<Longrightarrow> map_of (fold (\<lambda>v. gput (cv_name v) (cv_value v)) rows m) n =
     (case find (\<lambda>v. cv_name v = n) rows of None \<Rightarrow> map_of m n | Some v \<Rightarrow> Some (cv_value v))"
proof (induction rows arbitrary: m)
  case (Cons v rows)
  have "find (\<lambda>w. cv_name w = cv_name v) rows = None" using Cons.prems by (auto simp: find_None_iff image_iff)
  then show ?case using Cons by (auto split: option.splits)
qed simp

lemma db_values_Set:
  assumes "Set vs db = (Inr (), db')"
  shows "map_of (db_values db') n = (case find (\<lambda>v. cv_name v = n) vs of None \<Rightarrow> map_of (db_values db) n | Some v \<Rightarrow> Some (cv_value v))"
  using assms map_of_puts[OF distinct_first_rows[of cv_name vs], of "db_values db" n]
  by (auto simp: Set_def first_values_def find_first_rows dest!: sql_Inr split: if_splits)

lemma Get_no_fault: "db_faults db = [] \<Longrightarrow> Get n db = (case map_of (db_values db) n of
    Some x \<Rightarrow> \<lparr>rv_value = x, rv_err = None, rv_exists = True\<rparr> | None \<Rightarrow> \<lparr>rv_value = [], rv_err = None, rv_exists = False\<rparr>, db)"
  by (auto simp: Get_def sql_no_fault split: option.splits)

text \<open>What a successful \<^verbatim>\<open>Set\<close> writes, \<^verbatim>\<open>Get\<close> reads: the first value the call gives for a name, and for a name the
  call does not mention the value the store had.\<close>

theorem set_get:
  assumes "Set vs db = (Inr (), db')" and "db_faults db' = []"
  shows "Get n db' = ((case find (\<lambda>v. cv_name v = n) vs of
     Some v \<Rightarrow> \<lparr>rv_value = cv_value v, rv_err = None, rv_exists = True\<rparr>
   | None \<Rightarrow> (case map_of (db_values db) n of
       Some x \<Rightarrow> \<lparr>rv_value = x, rv_err = None, rv_exists = True\<rparr> | None \<Rightarrow> \<lparr>rv_value = [], rv_err = None, rv_exists = False\<rparr>)), db')"
  using db_values_Set[OF assms(1), of n] Get_no_fault[OF assms(2)] by (simp split: option.splits)

theorem set_get_witness:
  "\<exists>db'. Set [cache_String ''k'' ''1'', cache_String ''k'' ''2''] (empty_cache SQLite (\<lambda>t. t) None []) = (Inr (), db') \<and>
    rv_value (fst (Get ''k'' db')) = ''1''"
proof -
  let ?db = "empty_cache SQLite (\<lambda>t. t) None []" and ?vs = "[cache_String ''k'' ''1'', cache_String ''k'' ''2'']"
  obtain db' where s: "Set ?vs ?db = (Inr (), db')" "db_faults db' = []"
    by (simp add: Set_def sql_def empty_cache_def)
  then show ?thesis using set_get[OF s, of "''k''"] by (simp add: cache_String_def)
qed

end
