(* ===== verification/Chat_Reranker.thy ===== *)
theory Chat_Reranker
  imports Gorse_Config
begin

text \<open>
  Ranking by a language model: the client of the rerank service (\<^verbatim>\<open>common/reranker/client.go\<close>) and the ranker
  that renders a query and one document per item, asks the service and turns its answer into scores (\<^verbatim>\<open>ChatReranker\<close> of
  \<^verbatim>\<open>logics/chat.go\<close>).

  What is not in the repository is a record of parameters, \<open>rerank_lib\<close>: parsing and executing templates (\<^verbatim>\<open>gonja\<close>), the JSON text of a
  request and of an answer (an answer is the list of its results; its model and usage are never read), and sending a request to
  an address with a token, which gives a status and a body or fails.
\<close>

section \<open>The rerank service\<close>

record RerankRequest =
  rr_Model :: string
  rr_Query :: string
  rr_TopN :: int
  rr_Documents :: "string list"

record RerankResult =
  rr_Index :: int
  RelevanceScore :: fl

type_synonym FeedbackItem = "string \<times> Item"

datatype template_context = QueryContext User "FeedbackItem list" | DocumentContext Item

type_synonym template = "template_context \<Rightarrow> go_fail + string"

record 'w rerank_lib =
  gonja_FromString :: "string \<Rightarrow> go_fail + template"
  marshal_request :: "RerankRequest \<Rightarrow> go_fail + string"
  unmarshal_response :: "string \<Rightarrow> go_fail + RerankResult list"
  http_post :: "string \<Rightarrow> string \<Rightarrow> string \<Rightarrow> ('w, int \<times> string) io"

record Rerank_Client =
  rc_authToken :: string
  rc_url :: string

definition NewRerankClient :: "string \<Rightarrow> string \<Rightarrow> Rerank_Client" where
  "NewRerankClient apiKey endpoint = \<lparr>rc_authToken = apiKey, rc_url = endpoint\<rparr>"

text \<open>The status and the body are left out of the error text.\<close>

definition Rerank :: "'w rerank_lib \<Rightarrow> Rerank_Client \<Rightarrow> RerankRequest \<Rightarrow> ('w, RerankResult list) io" where
  "Rerank lib c req =
     io_bind (io_lift (marshal_request lib req)) (\<lambda>body.
     io_bind (http_post lib (rc_url c) (''Bearer '' @ rc_authToken c) body) (\<lambda>(statusCode, respBody).
       if statusCode \<noteq> 200 then io_fail (Error ''rerank request failed'')
       else io_lift (unmarshal_response lib respBody)))"

text \<open>The server of the tests answers every document, the earlier the better.\<close>

definition mock_rerank :: "RerankRequest \<Rightarrow> RerankResult list" where
  "mock_rerank r = map (\<lambda>i. \<lparr>rr_Index = int i, RelevanceScore = fdiv (Fin 1) (of_int64 (int i + 1))\<rparr>) [0..<length (rr_Documents r)]"

section \<open>The ranker\<close>

record ChatReranker =
  queryTemplate :: template
  docTemplate :: template
  client :: Rerank_Client
  chat_model :: string

definition NewChatReranker :: "'w rerank_lib \<Rightarrow> RerankerAPIConfig \<Rightarrow> string \<Rightarrow> string \<Rightarrow> go_fail + ChatReranker" where
  "NewChatReranker lib cfg query doc =
     rbind (gonja_FromString lib query) (\<lambda>qTpl.
     rbind (gonja_FromString lib doc) (\<lambda>dTpl.
       Inr \<lparr>queryTemplate = qTpl, docTemplate = dTpl, client = NewRerankClient (rk_AuthToken cfg) (rk_URL cfg), chat_model = rk_Model cfg\<rparr>))"

definition render_documents :: "template \<Rightarrow> Item list \<Rightarrow> go_fail + string list" where
  "render_documents tpl items = fold_res (\<lambda>item documents. rbind (tpl (DocumentContext item)) (\<lambda>text. Inr (documents @ [text]))) items []"

text \<open>An index outside the items panics.\<close>

definition rank_results :: "Item list \<Rightarrow> RerankResult list \<Rightarrow> go_fail + Score list" where
  "rank_results items results = fold_res (\<lambda>x scores. rbind (slice_get items (rr_Index x)) (\<lambda>item.
     Inr (scores @ [zero_Score\<lparr>sc_Id := ItemId item, sc_Score := RelevanceScore x\<rparr>]))) results []"

definition Rank :: "'w rerank_lib \<Rightarrow> ChatReranker \<Rightarrow> User \<Rightarrow> FeedbackItem list \<Rightarrow> Item list \<Rightarrow> ('w, Score list) io" where
  "Rank lib r user feedback items =
     io_bind (io_lift (queryTemplate r (QueryContext user feedback))) (\<lambda>query.
     io_bind (io_lift (render_documents (docTemplate r) items)) (\<lambda>documents.
     io_bind (Rerank lib (client r) \<lparr>rr_Model = chat_model r, rr_Query = query, rr_TopN = 0, rr_Documents = documents\<rparr>) (\<lambda>results.
       io_lift (rank_results items results))))"

section \<open>What a ranking holds\<close>

text \<open>A service that keeps to its contract answers no index twice.\<close>

definition answers_once :: "'w rerank_lib \<Rightarrow> bool" where
  "answers_once lib \<longleftrightarrow> (\<forall>url token req body w text w' results. marshal_request lib req = Inr body \<longrightarrow>
     http_post lib url token body w = (Inr (200, text), w') \<longrightarrow> unmarshal_response lib text = Inr results \<longrightarrow> distinct (map rr_Index results))"

lemma fold_res_collect:
  "fold_res (\<lambda>x acc. rbind (f x) (\<lambda>y. Inr (acc @ [g x y]))) xs acc = Inr ys \<longleftrightarrow>
    (\<exists>zs. list_all2 (\<lambda>x z. \<exists>y. f x = Inr y \<and> z = g x y) xs zs \<and> ys = acc @ zs)"
proof (induction xs arbitrary: acc)
  case (Cons x xs)
  show ?case by (cases "f x") (auto simp: Cons.IH list_all2_Cons1)
qed auto

text \<open>A ranking is, index by index, the answer of the service.\<close>

lemma rank_results_eq:
  "rank_results items results = Inr scores \<longleftrightarrow>
    (\<forall>x\<in>set results. 0 \<le> rr_Index x \<and> rr_Index x < int (length items)) \<and>
    scores = map (\<lambda>x. zero_Score\<lparr>sc_Id := ItemId (items ! nat (rr_Index x)), sc_Score := RelevanceScore x\<rparr>) results"
proof -
  have all: "list_all2 (\<lambda>x z. P x \<and> z = h x) xs zs \<longleftrightarrow> (\<forall>x\<in>set xs. P x) \<and> zs = map h xs"
    for P and h :: "RerankResult \<Rightarrow> Score" and xs zs by (induction xs arbitrary: zs) (auto simp: list_all2_Cons1)
  show ?thesis unfolding rank_results_def fold_res_collect append_Nil
    using all[of "\<lambda>x. 0 \<le> rr_Index x \<and> rr_Index x < int (length items)"
        "\<lambda>x. zero_Score\<lparr>sc_Id := ItemId (items ! nat (rr_Index x)), sc_Score := RelevanceScore x\<rparr>" results scores]
    by (simp add: slice_get_Inr ex_simps[symmetric] conj_assoc del: ex_simps)
qed

text \<open>Whatever the service answers, a ranking names only items that were given to it, and none twice if the items are
  distinct and the service answers no index twice.\<close>

lemma Rank_items:
  assumes "Rank lib r user feedback items w = (Inr scores, w')"
  shows "sc_Id ` set scores \<subseteq> ItemId ` set items"
    and "answers_once lib \<Longrightarrow> distinct (map ItemId items) \<Longrightarrow> distinct (map sc_Id scores)"
proof -
  obtain req results w1 where r: "Rerank lib (client r) req w = (Inr results, w')" "rank_results items results = Inr scores"
    using assms by (auto simp: Rank_def io_bind_Inr)
  have idx: "\<forall>x\<in>set results. 0 \<le> rr_Index x \<and> rr_Index x < int (length items)" and
    ids: "map sc_Id scores = map (\<lambda>x. ItemId (items ! nat (rr_Index x))) results"
    using r(2) unfolding rank_results_eq by auto
  then have "set (map sc_Id scores) \<subseteq> ItemId ` set items" by auto
  then show "sc_Id ` set scores \<subseteq> ItemId ` set items" by simp
  assume "answers_once lib" and dist: "distinct (map ItemId items)"
  obtain sent got w2 where "marshal_request lib req = Inr sent" "unmarshal_response lib got = Inr results"
      "http_post lib (rc_url (client r)) (''Bearer '' @ rc_authToken (client r)) sent w = (Inr (200, got), w2)"
    using r(1) by (auto simp: Rerank_def io_bind_Inr io_lift_def simp del: io_lift_eq split: if_splits)
  with \<open>answers_once lib\<close> have once: "distinct (map rr_Index results)" unfolding answers_once_def by blast
  have "inj_on (\<lambda>i. ItemId (items ! nat i)) (rr_Index ` set results)"
  proof (rule inj_onI)
    fix i j assume "i \<in> rr_Index ` set results" "j \<in> rr_Index ` set results" and eq: "ItemId (items ! nat i) = ItemId (items ! nat j)"
    then have b: "0 \<le> i" "nat i < length items" "0 \<le> j" "nat j < length items" using idx by force+
    then have "nat i = nat j" using nth_eq_iff_index_eq[OF dist, of "nat i" "nat j"] eq by simp
    then show "i = j" using b by simp
  qed
  then have "distinct (map (\<lambda>i. ItemId (items ! nat i)) (map rr_Index results))" using once by (simp only: distinct_map set_map simp_thms)
  then show "distinct (map sc_Id scores)" unfolding ids by (simp add: comp_def)
qed

end
