(* ===== verification/Pipeline.thy ===== *)
theory Pipeline
  imports Recommender Cache_Store Chat_Reranker
begin

text \<open>
  The worker's recommendation pipeline (\<^verbatim>\<open>worker/pipeline.go\<close>): for every active user whose cached
  recommendation is stale it collects candidates from the recommenders, ranks them and replaces the
  cached recommendation.

  The pipeline works on the stores (the world) and on a cache of items shared by all users. The clock,
  the text form of times, the ranking models, the search in the index of item vectors and what the reranker of \<^verbatim>\<open>Chat_Reranker\<close> calls outside the
  repository belong to the record \<open>Pipeline\<close>; logging, metrics and progress reports are left out. Users are processed one after the
  other, in an order that is a parameter.
\<close>

section \<open>State\<close>

text \<open>A model predicts one item at a time or a batch.\<close>

datatype Predictor = Predict "User \<Rightarrow> Item \<Rightarrow> fl" | BatchPredict "User \<Rightarrow> Item list \<Rightarrow> fl list"

record ('w, 'e) Pipeline =
  p_env :: "'w Env"
  p_Config :: RecommendConfig
  ChatCompletionModel :: string
  time_string :: "int \<Rightarrow> string"
  parse_time :: "string \<Rightarrow> go_fail + int"
  MatrixFactorizationItems :: "('e \<Rightarrow> int \<Rightarrow> Score list) option"
  MatrixFactorizationUsers :: "(string \<Rightarrow> 'e option) option"
  ClickThroughRateModel :: "Predictor option"
  p_rerank :: "'w rerank_lib"
  dontskipColdStartUsers :: bool

type_synonym ItemCache = "string \<rightharpoonup> Item"
type_synonym ('w, 'a) pipe_io = "(ItemCache \<times> 'w, 'a) io"

definition on_stores :: "('w, 'a) io \<Rightarrow> ('w, 'a) pipe_io" where
  "on_stores m = (\<lambda>(items, w). case m w of (x, w') \<Rightarrow> (x, items, w'))"

definition clock :: "('w, 'e) Pipeline \<Rightarrow> ('w, int) io" where
  "clock p w = (Inr (env_now (p_env p) w), w)"

definition get_time :: "('w, 'e) Pipeline \<Rightarrow> string \<Rightarrow> ('w, int) io" where
  "get_time p name w = (case cc_Get (env_cache (p_env p)) name w of (v, w') \<Rightarrow> (rv_Time (parse_time p) v, w'))"

section \<open>Item cache\<close>

definition NewItemCache :: ItemCache where
  "NewItemCache = Map.empty"

definition visible :: "ItemCache \<Rightarrow> string list \<Rightarrow> Item list" where
  "visible items ids = filter (\<lambda>item. \<not> item_IsHidden item) (List.map_filter items ids)"

definition GetSlice :: "('w, 'e) Pipeline \<Rightarrow> string list \<Rightarrow> ('w, Item list) pipe_io" where
  "GetSlice p itemIds = (\<lambda>(items, w).
     case dc_BatchGetItems (env_data (p_env p)) (filter (\<lambda>i. items i = None) itemIds) w of
       (Inl e, w') \<Rightarrow> (Inl e, items, w')
     | (Inr response, w') \<Rightarrow>
         let items' = fold (\<lambda>item m. m(ItemId item \<mapsto> item)) response items
         in (Inr (visible items' itemIds), items', w'))"

definition GetMap :: "('w, 'e) Pipeline \<Rightarrow> string list \<Rightarrow> ('w, string \<rightharpoonup> Item) pipe_io" where
  "GetMap p itemIds = io_bind (GetSlice p itemIds) (\<lambda>items. io_return (items_map items))"

section \<open>Freshness\<close>

text \<open>\<^verbatim>\<open>time.Since\<close> saturates.\<close>

definition since :: "int \<Rightarrow> int \<Rightarrow> int" where
  "since now t = max (- (2 ^ 63)) (min (2 ^ 63 - 1) (now - t))"

definition ttl_duration :: "int \<Rightarrow> int" where
  "ttl_duration days = int64 (int64 (days * 24) * (3600 * 10 ^ 9))"

definition checkUserActiveTime :: "('w, 'e) Pipeline \<Rightarrow> string \<Rightarrow> ('w, bool) io" where
  "checkUserActiveTime p user =
     (if ActiveUserTTL (p_Config p) = 0 then io_return True
      else io_bind (io_try (get_time p (Key [LastModifyUserTime, user]))) (\<lambda>active.
        case active of None \<Rightarrow> io_return True
        | Some activeTime \<Rightarrow>
            if activeTime = zero_time then io_return True
            else io_bind (clock p) (\<lambda>now.
              if since now activeTime < ttl_duration (ActiveUserTTL (p_Config p)) then io_return True
              else io_bind (io_try (cc_DeleteScores (env_cache (p_env p)) [RecommendCache]
                       \<lparr>cond_Subset = Some user, cond_Id = None, cond_Before = None\<rparr>))
                     (\<lambda>_. io_return False))))"

text \<open>A time that cannot be read is the zero time.\<close>

definition checkRecommendCacheOutOfDate :: "('w, 'e) Pipeline \<Rightarrow> string \<Rightarrow> ('w, bool) io" where
  "checkRecommendCacheOutOfDate p user =
     io_bind (io_try (cc_SearchScores (env_cache (p_env p)) RecommendCache user [] 0 (- 1))) (\<lambda>items.
     if items = None \<or> items = Some [] then io_return True
     else io_bind (io_try (get_string (p_env p) (Key [RecommendDigest, user]))) (\<lambda>found.
       case found of None \<Rightarrow> io_return True
       | Some digest \<Rightarrow>
           if digest = [] then io_return True
           else if digest \<noteq> config_Hash (env_md5 (p_env p)) (p_Config p) then io_return True
           else io_bind (io_try (get_time p (Key [LastModifyUserTime, user]))) (\<lambda>active.
             let activeTime = (case active of None \<Rightarrow> zero_time | Some t \<Rightarrow> t)
             in io_bind (io_try (get_time p (Key [RecommendUpdateTime, user]))) (\<lambda>updated.
                  case updated of None \<Rightarrow> io_return True
                  | Some recommendTime \<Rightarrow> io_bind (clock p) (\<lambda>now.
                      if recommendTime < now + int64 (- CacheExpire (p_Config p)) then io_return True
                      else if activeTime < recommendTime
                      then io_bind (clock p) (\<lambda>now'. io_return (recommendTime + rank_CacheExpire (Ranker (p_Config p)) < now'))
                      else io_return True)))))"

section \<open>Collaborative filtering\<close>

definition updateCollaborativeRecommend ::
  "('w, 'e) Pipeline \<Rightarrow> ('e \<Rightarrow> int \<Rightarrow> Score list) \<Rightarrow> string \<Rightarrow> 'e \<Rightarrow> string set \<Rightarrow> ('w, unit) pipe_io" where
  "updateCollaborativeRecommend p search user userEmbedding excl =
     io_bind (on_stores (clock p)) (\<lambda>localStartTime.
     let scores = search userEmbedding (CacheSize (p_Config p) + int (card excl))
     in io_bind (GetMap p (map sc_Id scores)) (\<lambda>itemsMap.
        let recommend = concat (map (\<lambda>score.
              case itemsMap (sc_Id score) of
                None \<Rightarrow> []
              | Some item \<Rightarrow>
                  if ItemId item \<notin> excl
                  then [zero_Score\<lparr>sc_Id := sc_Id score, sc_Score := sc_Score score, sc_Categories := item_Categories item,
                          sc_Timestamp := localStartTime\<rparr>]
                  else []) scores)
        in io_bind (on_stores (cc_AddScores (env_cache (p_env p)) CollaborativeFiltering user recommend)) (\<lambda>_.
           io_bind (on_stores (cc_Set (env_cache (p_env p))
             [cache_Time (time_string p) (Key [CollaborativeFilteringUpdateTime, user]) localStartTime,
              cache_String (Key [CollaborativeFilteringDigest, user]) (cf_Hash (env_md5 (p_env p)) (p_Config p))])) (\<lambda>_.
             on_stores (cc_DeleteScores (env_cache (p_env p)) [CollaborativeFiltering]
               \<lparr>cond_Subset = Some user, cond_Id = None, cond_Before = Some localStartTime\<rparr>)))))"

section \<open>Ranking\<close>

definition ranked :: "int \<Rightarrow> Item \<Rightarrow> fl \<Rightarrow> Score" where
  "ranked t item v = zero_Score\<lparr>sc_Id := ItemId item, sc_Score := v, sc_Categories := item_Categories item, sc_Timestamp := t\<rparr>"

text \<open>A batch with more scores than items panics.\<close>

definition predict_all :: "Predictor \<Rightarrow> User \<Rightarrow> int \<Rightarrow> Item list \<Rightarrow> go_fail + Score list" where
  "predict_all predictor user t items =
     (case predictor of
        Predict f \<Rightarrow> Inr (map (\<lambda>item. ranked t item (f user item)) items)
      | BatchPredict f \<Rightarrow>
          (if length items < length (f user items) then Inl (Panic ''index out of range'')
           else Inr (map (\<lambda>(item, v). ranked t item v) (zip items (f user items)))))"

definition rankByClickTroughRate ::
  "('w, 'e) Pipeline \<Rightarrow> Predictor \<Rightarrow> User \<Rightarrow> Score list \<Rightarrow> int \<Rightarrow> ('w, Score list) pipe_io" where
  "rankByClickTroughRate p predictor user candidates recommendTime =
     io_bind (GetSlice p (map sc_Id candidates)) (\<lambda>items.
     io_bind (io_lift (predict_all predictor user recommendTime items)) (\<lambda>topItems.
       io_return (SortDocuments topItems)))"

definition feedback_items :: "(string \<rightharpoonup> Item) \<Rightarrow> Feedback list \<Rightarrow> FeedbackItem list" where
  "feedback_items m fs = concat (map (\<lambda>f. case m (key_ItemId f) of None \<Rightarrow> [] | Some item \<Rightarrow> [(key_FeedbackType f, item)]) fs)"

definition rankByLLM ::
  "('w, 'e) Pipeline \<Rightarrow> ChatReranker \<Rightarrow> User \<Rightarrow> Feedback list \<Rightarrow> Score list \<Rightarrow> int \<Rightarrow> ('w, Score list) pipe_io" where
  "rankByLLM p ranker user feedback candidates recommendTime =
     io_bind (GetSlice p (map sc_Id candidates)) (\<lambda>items.
     io_bind (make_cap (ContextSize (p_Config p))) (\<lambda>_.
     let contextUserFeedback =
           context_loop (is_positive (p_Config p)) True (ContextSize (p_Config p)) (SortFeedbacks feedback) []
     in io_bind (GetMap p (map key_ItemId contextUserFeedback)) (\<lambda>itemMap.
        io_bind (on_stores (Rank (p_rerank p) ranker user (feedback_items itemMap contextUserFeedback) items)) (\<lambda>parsed.
          io_return (map (\<lambda>x. zero_Score\<lparr>sc_Id := sc_Id x, sc_Score := sc_Score x, sc_Timestamp := recommendTime,
            sc_Categories := (case items_map items (sc_Id x) of None \<Rightarrow> [] | Some item \<Rightarrow> item_Categories item)\<rparr>) parsed)))))"

text \<open>The ranker is built from the settings for every user.\<close>

definition rank_llm :: "('w, 'e) Pipeline \<Rightarrow> User \<Rightarrow> Feedback list \<Rightarrow> Score list \<Rightarrow> int \<Rightarrow> ('w, Score list) pipe_io" where
  "rank_llm p user feedback candidates recommendTime =
     (let cfg = Ranker (p_Config p)
      in io_bind (io_lift (NewChatReranker (p_rerank p) (RerankerAPI cfg) (QueryTemplate cfg) (DocumentTemplate cfg)))
           (\<lambda>ranker. rankByLLM p ranker user feedback candidates recommendTime))"

section \<open>Replacement\<close>

definition replacement_sets :: "RecommendConfig \<Rightarrow> Feedback list \<Rightarrow> string list \<times> string list" where
  "replacement_sets cfg feedbacks = fold (\<lambda>f (positiveItems, distinctItems).
     if MatchFeedbackTypeExpressions (PositiveFeedbackTypes (DataSource cfg)) (key_FeedbackType f) (fb_Value f)
     then (insert_new (key_ItemId f) positiveItems, insert_new (key_ItemId f) distinctItems)
     else if MatchFeedbackTypeExpressions (ReadFeedbackTypes (DataSource cfg)) (key_FeedbackType f) (fb_Value f)
     then (positiveItems, insert_new (key_ItemId f) distinctItems)
     else (positiveItems, distinctItems)) feedbacks ([], [])"

definition add_candidates :: "int \<Rightarrow> Item list \<Rightarrow> Score list \<times> string set \<Rightarrow> Score list \<times> string set" where
  "add_candidates t = fold (\<lambda>item (candidates, candidateSet).
     if ItemId item \<in> candidateSet then (candidates, candidateSet)
     else (candidates @ [ranked t item (Fin 0)], insert (ItemId item) candidateSet))"

definition addReplacementCandidates ::
  "('w, 'e) Pipeline \<Rightarrow> Score list \<Rightarrow> string set \<Rightarrow> Feedback list \<Rightarrow> int \<Rightarrow>
   ('w, Score list \<times> string set \<times> string set) pipe_io" where
  "addReplacementCandidates p candidates candidateSet feedbacks recommendTime =
     (let (positiveItems, distinctItems) = replacement_sets (p_Config p) feedbacks
      in if distinctItems = [] then io_return (candidates, set positiveItems, {})
         else io_bind (GetSlice p (env_slice (p_env p) distinctItems)) (\<lambda>items.
           let existingSet = ItemId ` set items
           in io_return (fst (add_candidates recommendTime items (candidates, candidateSet)),
                set positiveItems \<inter> existingSet, (set distinctItems - set positiveItems) \<inter> existingSet)))"

definition decayed :: "ReplacementConfig \<Rightarrow> string set \<Rightarrow> string set \<Rightarrow> Score \<Rightarrow> Score" where
  "decayed cfg positiveItems negativeItems score =
     (if sc_Id score \<in> positiveItems then score\<lparr>sc_Score := fmul (sc_Score score) (PositiveReplacementDecay cfg)\<rparr>
      else if sc_Id score \<in> negativeItems then score\<lparr>sc_Score := fmul (sc_Score score) (ReadReplacementDecay cfg)\<rparr>
      else score)"

definition applyReplacementDecay :: "ReplacementConfig \<Rightarrow> Score list \<Rightarrow> string set \<Rightarrow> string set \<Rightarrow> Score list" where
  "applyReplacementDecay cfg results positiveItems negativeItems =
     (if positiveItems = {} \<and> negativeItems = {} then results
      else let updated = map (decayed cfg positiveItems negativeItems) results
           in if \<exists>score\<in>set results. sc_Id score \<in> positiveItems \<union> negativeItems then SortDocuments updated else updated)"

section \<open>One user\<close>

definition run_rec :: "('w, 'a) rec_io \<Rightarrow> Recommender \<Rightarrow> ('w, 'a \<times> Recommender) io" where
  "run_rec m r w = (case m (r, w) of (Inl e, r', w') \<Rightarrow> (Inl e, w') | (Inr x, r', w') \<Rightarrow> (Inr (x, r'), w'))"

definition replacing :: "RecommendConfig \<Rightarrow> bool" where
  "replacing cfg \<longleftrightarrow> EnableReplacement (Replacement cfg) \<and> rank_Type (Ranker cfg) \<noteq> ''none''"

definition add_replacements ::
  "('w, 'e) Pipeline \<Rightarrow> Score list \<Rightarrow> Feedback list \<Rightarrow> int \<Rightarrow> ('w, Score list \<times> string set \<times> string set) pipe_io" where
  "add_replacements p candidates feedback recommendTime =
     (if replacing (p_Config p) then addReplacementCandidates p candidates (sc_Id ` set candidates) feedback recommendTime
      else io_return (candidates, {}, {}))"

definition decay_results :: "RecommendConfig \<Rightarrow> Score list \<Rightarrow> string set \<Rightarrow> string set \<Rightarrow> Score list" where
  "decay_results cfg results positiveItems negativeItems =
     (if replacing cfg then applyReplacementDecay (Replacement cfg) results positiveItems negativeItems else results)"

definition existing :: "int \<Rightarrow> (string \<rightharpoonup> Item) \<Rightarrow> Score list \<Rightarrow> Score list" where
  "existing t items scores = map (\<lambda>score. score\<lparr>sc_Timestamp := t\<rparr>) (filter (\<lambda>score. items (sc_Id score) \<noteq> None) scores)"

definition rank_candidates ::
  "('w, 'e) Pipeline \<Rightarrow> User \<Rightarrow> Feedback list \<Rightarrow> Score list \<Rightarrow> int \<Rightarrow> ('w, Score list) pipe_io" where
  "rank_candidates p user feedback candidates recommendTime =
     (case ClickThroughRateModel p of
        Some predictor \<Rightarrow>
          if rank_Type (Ranker (p_Config p)) = ''fm'' then rankByClickTroughRate p predictor user candidates recommendTime
          else if rank_Type (Ranker (p_Config p)) = ''llm'' \<and> ChatCompletionModel p \<noteq> []
          then rank_llm p user feedback candidates recommendTime
          else io_return candidates
      | None \<Rightarrow>
          if rank_Type (Ranker (p_Config p)) = ''llm'' \<and> ChatCompletionModel p \<noteq> []
          then rank_llm p user feedback candidates recommendTime
          else io_return candidates)"

text \<open>The recommendation for a user: scores, digest and time, or nothing if the user is skipped.\<close>

definition collaborative_step :: "('w, 'e) Pipeline \<Rightarrow> Recommender \<Rightarrow> ('w, bool) pipe_io" where
  "collaborative_step p r =
     (if is_none (cf_Type (Collaborative (p_Config p))) then io_return True
      else case (MatrixFactorizationUsers p, MatrixFactorizationItems p) of
        (Some get, Some search) \<Rightarrow>
          (case get (userId r) of
             Some userEmbedding \<Rightarrow>
               io_bind (updateCollaborativeRecommend p search (userId r) userEmbedding (excludeSet r)) (\<lambda>_. io_return True)
           | None \<Rightarrow> io_return (dontskipColdStartUsers p))
      | _ \<Rightarrow> io_return True)"

definition rankers :: "RecommendConfig \<Rightarrow> string list" where
  "rankers cfg = (if rank_Recommenders (Ranker cfg) \<noteq> [] then rank_Recommenders (Ranker cfg) else ListRecommenders cfg)"

definition recommend_user :: "('w, 'e) Pipeline \<Rightarrow> User \<Rightarrow> ('w, (Score list \<times> string \<times> int) option) pipe_io" where
  "recommend_user p user =
     io_bind (on_stores (clock p)) (\<lambda>recommendTime.
     io_bind (on_stores (NewRecommender (p_env p) (p_Config p) False (UserId user) [])) (\<lambda>r.
     if \<not> dontskipColdStartUsers p \<and> IsColdStart r then io_return None
     else io_bind (collaborative_step p r) (\<lambda>go.
     if \<not> go then io_return None
     else io_bind (on_stores (run_rec (RecommendSequential (p_env p) [] 0 (rankers (p_Config p))) r)) (\<lambda>((scores, digest), r').
     io_bind (GetMap p (map sc_Id scores)) (\<lambda>items.
     let candidates = existing recommendTime items scores
     in io_bind (add_replacements p candidates (userFeedback r') recommendTime) (\<lambda>(candidates', positiveItems, negativeItems).
        io_bind (rank_candidates p user (userFeedback r') candidates' recommendTime) (\<lambda>results.
          io_return (Some (decay_results (p_Config p) results positiveItems negativeItems, digest, recommendTime)))))))))"

definition cache_recommendation :: "('w, 'e) Pipeline \<Rightarrow> string \<Rightarrow> Score list \<Rightarrow> string \<Rightarrow> int \<Rightarrow> ('w, unit) io" where
  "cache_recommendation p user results digest recommendTime =
     io_bind (cc_AddScores (env_cache (p_env p)) RecommendCache user results) (\<lambda>_.
     io_bind (cc_DeleteScores (env_cache (p_env p)) [RecommendCache]
       \<lparr>cond_Subset = Some user, cond_Id = None, cond_Before = Some recommendTime\<rparr>) (\<lambda>_.
       cc_Set (env_cache (p_env p))
         [cache_Time (time_string p) (Key [RecommendUpdateTime, user]) recommendTime,
          cache_String (Key [RecommendDigest, user]) digest]))"

definition user_job :: "('w, 'e) Pipeline \<Rightarrow> User \<Rightarrow> ('w, unit) pipe_io" where
  "user_job p user =
     io_bind (on_stores (checkUserActiveTime p (UserId user))) (\<lambda>active.
     if \<not> active then io_return ()
     else io_bind (on_stores (checkRecommendCacheOutOfDate p (UserId user))) (\<lambda>stale.
       if \<not> stale then io_return ()
       else io_bind (recommend_user p user) (\<lambda>result.
         case result of None \<Rightarrow> io_return ()
         | Some (results, digest, t) \<Rightarrow> on_stores (cache_recommendation p (UserId user) results digest t))))"

text \<open>An error ends the job of one user only.\<close>

definition Pipeline_Recommend :: "('w, 'e) Pipeline \<Rightarrow> (User list \<Rightarrow> User list) \<Rightarrow> User list \<Rightarrow> ('w, unit) io" where
  "Pipeline_Recommend p order users w =
     (case io_fold (\<lambda>user _. io_bind (io_try (user_job p user)) (\<lambda>_. io_return ())) (order users) () (NewItemCache, w) of
        (x, _, w') \<Rightarrow> (x, w'))"

section \<open>What the stores and rankers promise\<close>

text \<open>A batch of items holds no items that were not asked for; the elements of a set are listed once each.\<close>

definition requested_only :: "'w Env \<Rightarrow> bool" where
  "requested_only env \<longleftrightarrow> (\<forall>ids w xs w'. dc_BatchGetItems (env_data env) ids w = (Inr xs, w') \<longrightarrow> ItemId ` set xs \<subseteq> set ids)"

definition set_iteration :: "'w Env \<Rightarrow> bool" where
  "set_iteration env \<longleftrightarrow> (\<forall>xs. mset (env_slice env xs) = mset xs)"

text \<open>If a language model ranks, the service answers no index twice.\<close>

definition reranks_once :: "('w, 'e) Pipeline \<Rightarrow> bool" where
  "reranks_once p \<longleftrightarrow> rank_Type (Ranker (p_Config p)) = ''llm'' \<longrightarrow> answers_once (p_rerank p)"

section \<open>Items of a recommendation\<close>

definition item_cache_ok :: "ItemCache \<Rightarrow> bool" where
  "item_cache_ok items \<longleftrightarrow> (\<forall>i item. items i = Some item \<longrightarrow> ItemId item = i)"

definition shown :: "ItemCache \<Rightarrow> string \<Rightarrow> bool" where
  "shown items i \<longleftrightarrow> (\<exists>item. items i = Some item \<and> \<not> item_IsHidden item)"

definition grows :: "ItemCache \<Rightarrow> ItemCache \<Rightarrow> bool" where
  "grows items items' \<longleftrightarrow> item_cache_ok items' \<and> items \<subseteq>\<^sub>m items'"

lemma grows_refl: "item_cache_ok items \<Longrightarrow> grows items items"
  by (simp add: grows_def)

lemma grows_trans: "grows a b \<Longrightarrow> grows b c \<Longrightarrow> grows a c"
  unfolding grows_def using map_le_trans by blast

lemma grows_ok: "grows a b \<Longrightarrow> item_cache_ok b"
  by (simp add: grows_def)

lemma shown_grows: "shown items i \<Longrightarrow> grows items items' \<Longrightarrow> shown items' i"
  unfolding shown_def grows_def map_le_def by (metis domI)

lemma on_stores_Inr [simp]: "on_stores m s = (Inr x, s') \<longleftrightarrow> (\<exists>w'. m (snd s) = (Inr x, w') \<and> s' = (fst s, w'))"
  by (cases s; cases "m (snd s)") (auto simp: on_stores_def)

lemma clock_Inr [simp]: "clock p w = (Inr t, w') \<longleftrightarrow> t = env_now (p_env p) w \<and> w' = w"
  by (auto simp: clock_def)

lemma visible_ids: "item_cache_ok items \<Longrightarrow> map ItemId (visible items ids) = filter (shown items) ids"
  by (induction ids) (auto simp: visible_def List.map_filter_def shown_def item_cache_ok_def)

lemma visible_set: "item_cache_ok items \<Longrightarrow> ItemId ` set (visible items ids) = {i \<in> set ids. shown items i}"
  using arg_cong[OF visible_ids, of items set ids] by simp

lemma store_items:
  assumes "item_cache_ok items" and "\<forall>x\<in>set xs. items (ItemId x) = None"
  shows "grows items (fold (\<lambda>item m. m(ItemId item \<mapsto> item)) xs items)"
proof -
  have "item_cache_ok (fold (\<lambda>item m. m(ItemId item \<mapsto> item)) xs m) \<and> items \<subseteq>\<^sub>m fold (\<lambda>item m. m(ItemId item \<mapsto> item)) xs m"
    if "item_cache_ok m" "items \<subseteq>\<^sub>m m" for m
    using that assms(2)
  proof (induction xs arbitrary: m)
    case (Cons x xs)
    have "item_cache_ok (m(ItemId x \<mapsto> x))" using Cons.prems(1) by (simp add: item_cache_ok_def)
    moreover have "items \<subseteq>\<^sub>m m(ItemId x \<mapsto> x)" using Cons.prems(2,3) by (auto simp: map_le_def dom_def)
    ultimately show ?case using Cons.IH Cons.prems(3) by (simp del: fun_upd_apply)
  qed simp
  then show ?thesis using assms(1) by (simp add: grows_def)
qed

lemma GetSlice_Inr:
  assumes "requested_only (p_env p)" and "item_cache_ok items" and "GetSlice p ids (items, w) = (Inr xs, items', w')"
  shows "grows items items' \<and> xs = visible items' ids"
proof -
  obtain response where r: "dc_BatchGetItems (env_data (p_env p)) (filter (\<lambda>i. items i = None) ids) w = (Inr response, w')"
    and e: "items' = fold (\<lambda>item m. m(ItemId item \<mapsto> item)) response items" "xs = visible items' ids"
    using assms(3) by (auto simp: GetSlice_def Let_def split: prod.splits sum.splits)
  have "\<forall>x\<in>set response. items (ItemId x) = None"
    using assms(1) r unfolding requested_only_def by fastforce
  then show ?thesis using store_items[OF assms(2)] e by simp
qed

lemma items_map_dom: "items_map xs i \<noteq> None \<longleftrightarrow> i \<in> ItemId ` set xs"
  unfolding items_map_def by (auto simp: map_of_eq_None_iff image_iff)

lemma GetMap_Inr:
  assumes "requested_only (p_env p)" and "item_cache_ok items" and "GetMap p ids (items, w) = (Inr m, items', w')"
  shows "grows items items' \<and> (\<forall>i. m i \<noteq> None \<longleftrightarrow> i \<in> set ids \<and> shown items' i)"
proof -
  obtain xs where xs: "GetSlice p ids (items, w) = (Inr xs, items', w')" "m = items_map xs"
    using assms(3) by (auto simp: GetMap_def io_bind_Inr)
  have g: "grows items items'" "xs = visible items' ids" using GetSlice_Inr[OF assms(1,2) xs(1)] by auto
  then show ?thesis unfolding xs(2) items_map_dom using visible_set[OF grows_ok[OF g(1)], of ids] by simp
qed

text \<open>A list of scores to be cached: all with the time of the run, all of visible items and, if \<open>d\<close> holds, no item twice.\<close>

definition cacheable :: "bool \<Rightarrow> int \<Rightarrow> ItemCache \<Rightarrow> Score list \<Rightarrow> bool" where
  "cacheable d t items scores \<longleftrightarrow> (d \<longrightarrow> distinct (map sc_Id scores)) \<and> (\<forall>x\<in>set scores. sc_Timestamp x = t \<and> shown items (sc_Id x))"

lemma cacheable_grows: "cacheable d t items xs \<Longrightarrow> grows items items' \<Longrightarrow> cacheable d t items' xs"
  unfolding cacheable_def using shown_grows by blast

lemma cacheable_weaken: "cacheable True t items xs \<Longrightarrow> cacheable d t items xs"
  by (simp add: cacheable_def)

lemma existing_cacheable:
  assumes "distinct (map sc_Id scores)" and "\<forall>i. m i \<noteq> None \<longleftrightarrow> i \<in> set (map sc_Id scores) \<and> shown items i"
  shows "cacheable True t items (existing t m scores) \<and> sc_Id ` set (existing t m scores) \<subseteq> sc_Id ` set scores"
  using assms by (auto simp: cacheable_def existing_def comp_def distinct_map_filter)

lemma add_candidates_spec:
  assumes "distinct (map sc_Id cs)" and "\<forall>x\<in>set cs. sc_Timestamp x = t" and "S = sc_Id ` set cs"
  shows "let cs' = fst (add_candidates t items (cs, S)) in
    distinct (map sc_Id cs') \<and> (\<forall>x\<in>set cs'. sc_Timestamp x = t) \<and> sc_Id ` set cs' = sc_Id ` set cs \<union> ItemId ` set items"
  using assms
proof (induction items arbitrary: cs S)
  case (Cons item items)
  show ?case
  proof (cases "ItemId item \<in> S")
    case True
    then show ?thesis using Cons.IH[OF Cons.prems] Cons.prems(3) by (auto simp: add_candidates_def)
  next
    case False
    let ?cs = "cs @ [ranked t item (Fin 0)]"
    have "distinct (map sc_Id ?cs)" "\<forall>x\<in>set ?cs. sc_Timestamp x = t" "insert (ItemId item) S = sc_Id ` set ?cs"
      using Cons.prems False by (auto simp: ranked_def)
    from Cons.IH[OF this] False show ?thesis by (simp add: add_candidates_def Let_def ranked_def)
  qed
qed (simp add: add_candidates_def)

lemma replacement_sets_spec:
  "distinct (snd (replacement_sets cfg fs)) \<and> set (snd (replacement_sets cfg fs)) = key_ItemId ` {f \<in> set fs. is_positive cfg f \<or>
     MatchFeedbackTypeExpressions (ReadFeedbackTypes (DataSource cfg)) (key_FeedbackType f) (fb_Value f)} \<and>
   set (fst (replacement_sets cfg fs)) = key_ItemId ` {f \<in> set fs. is_positive cfg f}"
proof (induction fs rule: rev_induct)
  case (snoc f fs)
  obtain a b where ab: "replacement_sets cfg fs = (a, b)" by force
  then have "replacement_sets cfg (fs @ [f]) = (if is_positive cfg f then (insert_new (key_ItemId f) a, insert_new (key_ItemId f) b)
     else if MatchFeedbackTypeExpressions (ReadFeedbackTypes (DataSource cfg)) (key_FeedbackType f) (fb_Value f)
     then (a, insert_new (key_ItemId f) b) else (a, b))"
    by (simp add: replacement_sets_def is_positive_def)
  then show ?case using snoc ab by (auto simp: insert_new_distinct)
qed (simp add: replacement_sets_def)

lemma replacement_cacheable:
  assumes "requested_only (p_env p)" and "set_iteration (p_env p)" and "item_cache_ok items" and "cacheable True t items cs"
    and "addReplacementCandidates p cs (sc_Id ` set cs) fs t (items, w) = (Inr (cs', ps, ns), items', w')"
  shows "grows items items' \<and> cacheable True t items' cs' \<and> sc_Id ` set cs' \<subseteq> sc_Id ` set cs \<union> set (snd (replacement_sets (p_Config p) fs))"
proof (cases "snd (replacement_sets (p_Config p) fs) = []")
  case True
  then show ?thesis using assms(3-5) by (auto simp: addReplacementCandidates_def grows_refl split: prod.splits)
next
  case False
  let ?ds = "snd (replacement_sets (p_Config p) fs)"
  obtain xs where xs: "GetSlice p (env_slice (p_env p) ?ds) (items, w) = (Inr xs, items', w')"
      "cs' = fst (add_candidates t xs (cs, sc_Id ` set cs))"
    using assms(5) False by (auto simp: addReplacementCandidates_def io_bind_Inr Let_def split: prod.splits)
  have g: "grows items items'" "xs = visible items' (env_slice (p_env p) ?ds)" using GetSlice_Inr[OF assms(1,3) xs(1)] by auto
  have "set (env_slice (p_env p) ?ds) = set ?ds" using assms(2) unfolding set_iteration_def by (metis set_mset_mset)
  then have ids: "ItemId ` set xs = {i \<in> set ?ds. shown items' i}" using visible_set[OF grows_ok[OF g(1)]] g(2) by simp
  have "distinct (map sc_Id cs)" "\<forall>x\<in>set cs. sc_Timestamp x = t" using assms(4) by (auto simp: cacheable_def)
  from add_candidates_spec[OF this refl, of xs] have cs': "distinct (map sc_Id cs')" "\<forall>x\<in>set cs'. sc_Timestamp x = t"
    "sc_Id ` set cs' = sc_Id ` set cs \<union> ItemId ` set xs" by (auto simp: xs(2) Let_def)
  have "shown items' (sc_Id x)" if "x \<in> set cs'" for x
  proof -
    from that cs'(3) consider "sc_Id x \<in> sc_Id ` set cs" | "sc_Id x \<in> ItemId ` set xs" by blast
    then show ?thesis
      by cases (use assms(4) cacheable_grows[OF assms(4) g(1)] ids in \<open>auto simp: cacheable_def\<close>)
  qed
  then show ?thesis using g(1) cs' ids by (auto simp: cacheable_def)
qed

lemma ranked_ids [simp]: "sc_Id (ranked t item v) = ItemId item" "sc_Timestamp (ranked t item v) = t" "sc_Score (ranked t item v) = v"
  "sc_IsHidden (ranked t item v) = False"
  by (simp_all add: ranked_def zero_Score_def)

lemma predict_all_spec:
  assumes "predict_all predictor user t items = Inr xs" and "distinct (map ItemId items)"
  shows "distinct (map sc_Id xs) \<and> sc_Id ` set xs \<subseteq> ItemId ` set items \<and> (\<forall>x\<in>set xs. sc_Timestamp x = t)"
proof (cases predictor)
  case (Predict f)
  then show ?thesis using assms by (auto simp: predict_all_def comp_def)
next
  case (BatchPredict f)
  let ?vs = "f user items"
  have xs: "xs = map (\<lambda>(item, v). ranked t item v) (zip items ?vs)" using assms(1) BatchPredict by (auto simp: predict_all_def split: if_splits)
  then have "map sc_Id xs = map ItemId (map fst (zip items ?vs))" by (simp add: comp_def case_prod_unfold)
  also have "\<dots> = take (length ?vs) (map ItemId items)" by (simp add: map_fst_zip_take take_map min_def)
  finally have "map sc_Id xs = take (length ?vs) (map ItemId items)" .
  then have "distinct (map sc_Id xs)" "sc_Id ` set xs \<subseteq> ItemId ` set items"
    using assms(2) by (simp_all flip: set_map add: set_take_subset)
  then show ?thesis unfolding xs by auto
qed

lemma SortDocuments_ids [simp]: "distinct (map sc_Id (SortDocuments xs)) = distinct (map sc_Id xs)"
  by (metis SortDocuments_mset mset_eq_imp_distinct_iff mset_map)

lemma ctr_cacheable:
  assumes "requested_only (p_env p)" and "item_cache_ok items" and "cacheable True t items cs"
    and "rankByClickTroughRate p predictor user cs t (items, w) = (Inr xs, items', w')"
  shows "grows items items' \<and> cacheable True t items' xs \<and> sc_Id ` set xs \<subseteq> sc_Id ` set cs"
proof -
  obtain its ys where r: "GetSlice p (map sc_Id cs) (items, w) = (Inr its, items', w')" "predict_all predictor user t its = Inr ys"
      "xs = SortDocuments ys" using assms(4) by (auto simp: rankByClickTroughRate_def io_bind_Inr io_lift_def simp del: io_lift_eq)
  have g: "grows items items'" "its = visible items' (map sc_Id cs)" using GetSlice_Inr[OF assms(1,2) r(1)] by auto
  have ids: "map ItemId its = filter (shown items') (map sc_Id cs)" using visible_ids[OF grows_ok[OF g(1)]] g(2) by simp
  have "distinct (map ItemId its)" using assms(3) unfolding ids cacheable_def by simp
  from predict_all_spec[OF r(2) this] have ys: "distinct (map sc_Id ys)" "sc_Id ` set ys \<subseteq> ItemId ` set its" "\<forall>x\<in>set ys. sc_Timestamp x = t"
    by auto
  have "ItemId ` set its = {i \<in> sc_Id ` set cs. shown items' i}" using arg_cong[OF ids, of set] by simp
  then show ?thesis using g(1) ys unfolding r(3) cacheable_def by auto
qed

lemma llm_cacheable:
  assumes "requested_only (p_env p)" and "item_cache_ok items" and "cacheable True t items cs"
    and "rankByLLM p ranker user fs cs t (items, w) = (Inr xs, items', w')"
  shows "grows items items' \<and> cacheable (answers_once (p_rerank p)) t items' xs \<and> sc_Id ` set xs \<subseteq> sc_Id ` set cs"
proof -
  obtain its items1 w1 m ids w2 out fi where r: "GetSlice p (map sc_Id cs) (items, w) = (Inr its, items1, w1)"
      "GetMap p ids (items1, w1) = (Inr m, items', w2)" "Rank (p_rerank p) ranker user fi its w2 = (Inr out, w')"
      "xs = map (\<lambda>x. zero_Score\<lparr>sc_Id := sc_Id x, sc_Score := sc_Score x, sc_Timestamp := t,
            sc_Categories := (case items_map its (sc_Id x) of None \<Rightarrow> [] | Some item \<Rightarrow> item_Categories item)\<rparr>) out"
    using assms(4) by (auto simp: rankByLLM_def io_bind_Inr Let_def make_cap_def split: if_splits)
  have g: "grows items items1" "its = visible items1 (map sc_Id cs)" using GetSlice_Inr[OF assms(1,2) r(1)] by auto
  have g2: "grows items1 items'" using GetMap_Inr[OF assms(1) grows_ok[OF g(1)] r(2)] by blast
  have "distinct (map ItemId its)" using assms(3) visible_ids[OF grows_ok[OF g(1)]] by (simp add: g(2) cacheable_def)
  note out = Rank_items(1)[OF r(3)] Rank_items(2)[OF r(3) _ this]
  have ids: "map sc_Id xs = map sc_Id out" "\<forall>x\<in>set xs. sc_Timestamp x = t" unfolding r(4) by auto
  have "sc_Id ` set xs \<subseteq> {i \<in> sc_Id ` set cs. shown items1 i}"
    using out(1) visible_set[OF grows_ok[OF g(1)], of "map sc_Id cs"] g(2) arg_cong[OF ids(1), of set] by simp
  then have "cacheable (answers_once (p_rerank p)) t items1 xs \<and> sc_Id ` set xs \<subseteq> sc_Id ` set cs" using out(2) ids by (auto simp: cacheable_def)
  then show ?thesis using grows_trans[OF g(1) g2] cacheable_grows[OF _ g2] by blast
qed

lemma rank_cacheable:
  assumes "requested_only (p_env p)" and "item_cache_ok items" and "cacheable True t items cs"
    and "rank_candidates p user fs cs t (items, w) = (Inr xs, items', w')"
  shows "grows items items' \<and> cacheable (reranks_once p) t items' xs \<and> sc_Id ` set xs \<subseteq> sc_Id ` set cs"
proof -
  consider (none) "xs = cs" "items' = items"
    | (ctr) predictor where "rankByClickTroughRate p predictor user cs t (items, w) = (Inr xs, items', w')"
    | (llm) ranker where "rank_Type (Ranker (p_Config p)) = ''llm''" "rankByLLM p ranker user fs cs t (items, w) = (Inr xs, items', w')"
    using assms(4) by (auto simp: rank_candidates_def rank_llm_def Let_def io_bind_Inr split: option.splits if_splits)
  then show ?thesis
  proof cases
    case none
    then show ?thesis using assms(2,3) grows_refl cacheable_weaken by blast
  next
    case ctr
    then show ?thesis using ctr_cacheable[OF assms(1-3)] cacheable_weaken by blast
  next
    case llm
    then show ?thesis using llm_cacheable[OF assms(1-3) llm(2)] by (simp add: reranks_once_def)
  qed
qed

lemma decayed_fields [simp]: "sc_Id (decayed cfg ps ns x) = sc_Id x" "sc_Timestamp (decayed cfg ps ns x) = sc_Timestamp x"
  by (simp_all add: decayed_def)

lemma decay_mset:
  "mset (applyReplacementDecay cfg xs ps ns) = mset (map (decayed cfg ps ns) xs)"
  by (auto simp: applyReplacementDecay_def Let_def decayed_def[abs_def] simp del: mset_map)

lemma decay_cacheable:
  assumes "cacheable d t items xs"
  shows "cacheable d t items (applyReplacementDecay cfg xs ps ns) \<and> sc_Id ` set (applyReplacementDecay cfg xs ps ns) = sc_Id ` set xs"
proof -
  let ?ys = "applyReplacementDecay cfg xs ps ns"
  have s: "set ?ys = decayed cfg ps ns ` set xs" using mset_eq_setD[OF decay_mset[of cfg xs ps ns]] by simp
  have "mset (map sc_Id ?ys) = mset (map sc_Id xs)"
    using arg_cong[OF decay_mset[of cfg xs ps ns], of "image_mset sc_Id"] by (simp add: multiset.map_comp comp_def)
  then have "d \<longrightarrow> distinct (map sc_Id ?ys)" using assms mset_eq_imp_distinct_iff unfolding cacheable_def by blast
  then show ?thesis using assms s by (auto simp: cacheable_def image_image)
qed

lemma collaborative_grows:
  assumes "requested_only (p_env p)" and "item_cache_ok items" and "collaborative_step p r (items, w) = (Inr b, items', w')"
  shows "grows items items'"
proof -
  have "grows items it'" if "updateCollaborativeRecommend p search u e ex (items, w) = (Inr (), it', w'')" for search u e ex it' w''
    using that GetMap_Inr[OF assms(1,2)] by (fastforce simp: updateCollaborativeRecommend_def io_bind_Inr Let_def)
  then show ?thesis using assms(2,3)
    by (auto simp: collaborative_step_def io_bind_Inr grows_refl split: if_splits option.splits prod.splits)
qed

lemma run_rec_Inr: "run_rec m r w = (Inr (x, r'), w') \<longleftrightarrow> m (r, w) = (Inr x, r', w')"
  by (cases "m (r, w)") (auto simp: run_rec_def split: sum.splits)

lemma recommend_user_steps:
  assumes "dc_GetUserFeedback (env_data (p_env p)) (UserId user) (Some (env_now (p_env p) w)) [] w = (Inr feedback, w1)"
    and "recommend_user p user (items, w) = (Inr (Some (results, digest, t)), items', w')"
    and "r = \<lparr>config = p_Config p, online = False, coldstart = (\<forall>f\<in>set feedback. \<not> is_positive (p_Config p) f), userId = UserId user,
      userFeedback = feedback, categories = [], excludeSet = key_ItemId ` set feedback\<rparr>"
  obtains items1 w2 scores r' w3 m items2 w4 cs' ps ns items3 w5 out where
    "collaborative_step p r (items, w1) = (Inr True, items1, w2)"
    "RecommendSequential (p_env p) [] 0 (rankers (p_Config p)) (r, w2) = (Inr (scores, digest), r', w3)"
    "GetMap p (map sc_Id scores) (items1, w3) = (Inr m, items2, w4)"
    "add_replacements p (existing t m scores) (userFeedback r') t (items2, w4) = (Inr (cs', ps, ns), items3, w5)"
    "rank_candidates p user (userFeedback r') cs' t (items3, w5) = (Inr out, items', w')"
    "results = decay_results (p_Config p) out ps ns"
proof -
  have "NewRecommender (p_env p) (p_Config p) False (UserId user) [] w = (Inr r, w1)"
    using assms(1) by (simp add: assms(3) NewRecommender_def io_bind_def NewRecommender_fold[where c = True, simplified] Let_def io_return_def)
  then show thesis using assms(2) that
    by (auto simp: recommend_user_def io_bind_Inr run_rec_Inr Let_def split: if_splits)
qed


section \<open>A concrete run\<close>

definition shirt :: Item where
  "shirt = \<lparr>ItemId = ''shirt'', item_IsHidden = False, item_Categories = [], item_Timestamp = 3, item_Labels = JNull, item_Comment = []\<rparr>"

definition cap_item :: Item where
  "cap_item = shirt\<lparr>ItemId := ''cap''\<rparr>"

definition shop_env :: "nat Env" where
  "shop_env = small_env\<lparr>env_data := \<lparr>dc_GetUserFeedback = (\<lambda>u t ts w. (Inr [liked ''hat''], w)),
     dc_GetLatestItems = (\<lambda>_ _ w. (Inr [shirt, cap_item], w)),
     dc_BatchGetItems = (\<lambda>ids w. (Inr (filter (\<lambda>i. ItemId i \<in> set ids) [shirt, cap_item]), w))\<rparr>\<rparr>"

text \<open>Templates that print the comment of an item, and a service that answers like the server of the tests: a request is sent as one dot
  per document, and the answer is read from the dots.\<close>

definition mock_lib :: "'w rerank_lib" where
  "mock_lib = \<lparr>gonja_FromString = (\<lambda>_. Inr (\<lambda>c. case c of QueryContext u fs \<Rightarrow> Inr (user_Comment u) | DocumentContext i \<Rightarrow> Inr (item_Comment i))),
     marshal_request = (\<lambda>req. Inr (map (\<lambda>_. CHR ''.'') (rr_Documents req))),
     unmarshal_response = (\<lambda>s. Inr (mock_rerank \<lparr>rr_Model = [], rr_Query = [], rr_TopN = 0, rr_Documents = map (\<lambda>c. [c]) s\<rparr>)),
     http_post = (\<lambda>url token body w. (Inr (200, body), w))\<rparr>"

definition shop :: "(nat, unit) Pipeline" where
  "shop = \<lparr>p_env = shop_env, p_Config = sample_config\<lparr>Ranker := (Ranker sample_config)\<lparr>rank_Type := ''llm''\<rparr>\<rparr>,
     ChatCompletionModel = ''qwen'', time_string = (\<lambda>_. []), parse_time = (\<lambda>_. Inr 0),
     MatrixFactorizationItems = None, MatrixFactorizationUsers = None, ClickThroughRateModel = None,
     p_rerank = mock_lib, dontskipColdStartUsers = False\<rparr>"

definition buyer :: User where
  "buyer = \<lparr>UserId = ''ann'', user_Labels = JNull, user_Comment = []\<rparr>"

lemma shop_promises:
  "map_iteration (p_env shop)" "set_iteration (p_env shop)" "distinct_answers (p_env shop)" "requested_only (p_env shop)"
  by (simp_all add: map_iteration_def set_iteration_def distinct_answers_def requested_only_def shop_def shop_env_def small_env_def
      shirt_def cap_item_def scored_def zero_Score_def)

lemma shop_reranks: "reranks_once shop"
  by (auto simp: reranks_once_def answers_once_def shop_def mock_lib_def mock_rerank_def comp_def distinct_map inj_on_def)

lemma mock_rank:
  assumes "NewChatReranker mock_lib cfg query doc = Inr r"
  shows "Rank mock_lib r user fs items w =
    (Inr (map (\<lambda>i. zero_Score\<lparr>sc_Id := ItemId (items ! i), sc_Score := fdiv (Fin 1) (of_int64 (int i + 1))\<rparr>) [0..<length items]), w)"
proof -
  have r: "docTemplate r (DocumentContext i) = Inr (item_Comment i)" "queryTemplate r (QueryContext u fs) = Inr (user_Comment u)" for i u fs
    using assms by (auto simp: NewChatReranker_def mock_lib_def)
  have "fold_res (\<lambda>item documents. rbind (docTemplate r (DocumentContext item)) (\<lambda>text. Inr (documents @ [text]))) items acc =
      Inr (acc @ map item_Comment items)" for acc
    by (induction items arbitrary: acc) (simp_all add: r)
  then have docs: "render_documents (docTemplate r) items = Inr (map item_Comment items)" by (simp add: render_documents_def)
  let ?resp = "map (\<lambda>i. \<lparr>rr_Index = int i, RelevanceScore = fdiv (Fin 1) (of_int64 (int i + 1))\<rparr>) [0..<length items]"
  have "rank_results items ?resp = Inr (map (\<lambda>i. zero_Score\<lparr>sc_Id := ItemId (items ! i), sc_Score := fdiv (Fin 1) (of_int64 (int i + 1))\<rparr>) [0..<length items])"
    unfolding rank_results_eq by simp
  then show ?thesis by (simp add: Rank_def Rerank_def r docs mock_lib_def mock_rerank_def io_bind_def io_lift_def del: upt_Suc)
qed

lemma shop_parts:
  "p_env shop = shop_env" "p_Config shop = sample_config\<lparr>Ranker := (Ranker sample_config)\<lparr>rank_Type := ''llm''\<rparr>\<rparr>" "p_rerank shop = mock_lib"
  "ClickThroughRateModel shop = None" "ChatCompletionModel shop = ''qwen''" "\<not> dontskipColdStartUsers shop"
  by (simp_all add: shop_def)

lemma shop_ids: "ItemId shirt = ''shirt''" "ItemId cap_item = ''cap''" "\<not> item_IsHidden shirt" "\<not> item_IsHidden cap_item" "key_ItemId (liked i) = i"
  by (simp_all add: shirt_def cap_item_def liked_def)

lemma shop_batch: "dc_BatchGetItems (env_data shop_env) ids w = (Inr (filter (\<lambda>i. ItemId i \<in> set ids) [shirt, cap_item]), w)"
  by (simp add: shop_env_def)

lemma shop_rank:
  assumes "map sc_Id cs = [''shirt'', ''cap'']" and "items = [''shirt'' \<mapsto> shirt, ''cap'' \<mapsto> cap_item]"
  shows "\<exists>xs. map sc_Id xs = [''shirt'', ''cap''] \<and> rank_candidates shop buyer [liked ''hat''] cs t (items, w) = (Inr xs, items, w)"
proof -
  obtain r where r: "NewChatReranker (mock_lib :: nat rerank_lib) (RerankerAPI (Ranker (p_Config shop))) (QueryTemplate (Ranker (p_Config shop)))
      (DocumentTemplate (Ranker (p_Config shop))) = Inr r" by (auto simp: NewChatReranker_def mock_lib_def)
  have slice: "GetSlice shop (map sc_Id cs) (items, w) = (Inr [shirt, cap_item], items, w)"
    unfolding assms by (simp add: GetSlice_def shop_parts shop_batch visible_def List.map_filter_def shop_ids)
  let ?ctx = "context_loop (is_positive (p_Config shop)) True (ContextSize (p_Config shop)) (SortFeedbacks [liked ''hat'']) []"
  have size: "ContextSize (p_Config shop) = 100" "rank_Type (Ranker (p_Config shop)) = ''llm''" by (simp_all add: shop_parts sample_config_def)
  have "map key_ItemId ?ctx = [] \<or> map key_ItemId ?ctx = [''hat'']" by (simp add: size SortFeedbacks_def sort_slice_def shop_ids)
  then have ctx: "GetMap shop (map key_ItemId ?ctx) (items, w) = (Inr (items_map []), items, w)"
    unfolding assms by (elim disjE) (simp_all add: GetMap_def GetSlice_def shop_parts shop_batch visible_def List.map_filter_def shop_ids io_bind_def io_return_def)
  have "rank_candidates shop buyer [liked ''hat''] cs t (items, w) = rankByLLM shop r buyer [liked ''hat''] cs t (items, w)"
    by (simp add: rank_candidates_def rank_llm_def shop_parts(3,4,5) size Let_def r io_bind_def io_lift_def)
  also have "\<dots> = (Inr (map (\<lambda>x. zero_Score\<lparr>sc_Id := sc_Id x, sc_Score := sc_Score x, sc_Timestamp := t,
            sc_Categories := (case items_map [shirt, cap_item] (sc_Id x) of None \<Rightarrow> [] | Some item \<Rightarrow> item_Categories item)\<rparr>)
          (map (\<lambda>i. zero_Score\<lparr>sc_Id := ItemId ([shirt, cap_item] ! i), sc_Score := fdiv (Fin 1) (of_int64 (int i + 1))\<rparr>) [0..<Suc (Suc 0)])), items, w)"
    using ctx by (simp add: rankByLLM_def io_bind_def slice make_cap_def io_return_def Let_def size on_stores_def shop_parts(3) mock_rank[OF r] del: upt_Suc)
  finally have run: "rank_candidates shop buyer [liked ''hat''] cs t (items, w) = \<dots>" .
  show ?thesis unfolding run by (intro exI conjI) (simp_all add: shop_ids upt_rec)
qed

lemma shop_run:
  "\<exists>results digest t items'. recommend_user shop buyer (Map.empty, 0) = (Inr (Some (results, digest, t)), items', 0) \<and>
     map sc_Id results = [''shirt'', ''cap'']"
proof -
  let ?r = "\<lparr>config = p_Config shop, online = False, coldstart = False, userId = ''ann'', userFeedback = [liked ''hat''], categories = [],
    excludeSet = {''hat''}\<rparr>"
  have new: "NewRecommender (p_env shop) (p_Config shop) False (UserId buyer) [] 0 = (Inr ?r, 0)"
    by (simp add: NewRecommender_def shop_parts shop_env_def small_env_def io_bind_def io_return_def sample_config_def is_positive_def expr_Match_def
        liked_def buyer_def)
  obtain scores digest r' where seq: "RecommendSequential (p_env shop) [] 0 (rankers (p_Config shop)) (?r, 0) = (Inr (scores, digest), r', 0)"
      "map sc_Id scores = [''shirt'', ''cap'']" "userFeedback r' = [liked ''hat'']"
    by (simp add: shop_parts rankers_def sample_config_def RecommendSequential_def parse_def recommendLatest_def get_rec_def put_rec_def on_world_def exclude_def
        shop_env_def small_env_def io_bind_def io_return_def shop_ids zero_Score_def)
  let ?items = "[''shirt'' \<mapsto> shirt, ''cap'' \<mapsto> cap_item]"
  have gmap: "GetMap shop (map sc_Id scores) (Map.empty, 0) = (Inr (items_map [shirt, cap_item]), ?items, 0)"
    unfolding seq(2) by (simp add: GetMap_def GetSlice_def shop_parts shop_batch visible_def List.map_filter_def shop_ids io_bind_def io_return_def)
  have "map sc_Id (existing t (items_map [shirt, cap_item]) scores) = [''shirt'', ''cap'']" for t :: int
    using seq(2) by (auto simp: existing_def items_map_def shop_ids comp_def)
  from shop_rank[OF this[of 10] refl, of 10 0] obtain xs where xs: "map sc_Id xs = [''shirt'', ''cap'']"
    "rank_candidates shop buyer [liked ''hat''] (existing 10 (items_map [shirt, cap_item]) scores) 10 (?items, 0) = (Inr xs, ?items, 0)" by (elim exE conjE)
  have cfg: "is_none (cf_Type (Collaborative (p_Config shop)))" "\<not> replacing (p_Config shop)" "env_now (p_env shop) 0 = 10"
    by (simp_all add: shop_parts sample_config_def is_none_def lower_def replacing_def shop_env_def small_env_def)
  have "recommend_user shop buyer (Map.empty, 0) = (Inr (Some (xs, digest, 10)), ?items, 0)"
    using seq(3) by (simp add: recommend_user_def io_bind_def on_stores_def clock_def cfg new shop_parts(6) IsColdStart_def collaborative_step_def io_return_def
        run_rec_def seq(1) gmap add_replacements_def xs(2) decay_results_def Let_def)
  with xs(1) show ?thesis by (intro exI conjI)
qed


section \<open>Replacement decay\<close>

text \<open>C31. Replacement decay changes no item of a recommendation, only scores: every score of a replaced positive
  item is multiplied by the positive factor, every score of a replaced read item by the read factor, and no other; if the
  recommendation holds a replaced item the result is sorted again, the best score first (as long as no score is
  NaN), and otherwise it is what the ranker returned.\<close>

theorem replacement_decay:
  "mset (applyReplacementDecay cfg results positiveItems negativeItems) = mset (map (\<lambda>x.
      if sc_Id x \<in> positiveItems then x\<lparr>sc_Score := fmul (sc_Score x) (PositiveReplacementDecay cfg)\<rparr>
      else if sc_Id x \<in> negativeItems then x\<lparr>sc_Score := fmul (sc_Score x) (ReadReplacementDecay cfg)\<rparr> else x) results) \<and>
   (if sc_Id ` set results \<inter> (positiveItems \<union> negativeItems) = {}
    then applyReplacementDecay cfg results positiveItems negativeItems = results
    else (\<exists>x\<in>set (applyReplacementDecay cfg results positiveItems negativeItems). sc_Score x = NaN) \<or>
      best_first (applyReplacementDecay cfg results positiveItems negativeItems))"
proof (intro conjI)
  let ?out = "applyReplacementDecay cfg results positiveItems negativeItems"
  have d: "decayed cfg positiveItems negativeItems = (\<lambda>x.
      if sc_Id x \<in> positiveItems then x\<lparr>sc_Score := fmul (sc_Score x) (PositiveReplacementDecay cfg)\<rparr>
      else if sc_Id x \<in> negativeItems then x\<lparr>sc_Score := fmul (sc_Score x) (ReadReplacementDecay cfg)\<rparr> else x)"
    by (simp add: decayed_def[abs_def])
  show "mset ?out = mset (map (\<lambda>x.
      if sc_Id x \<in> positiveItems then x\<lparr>sc_Score := fmul (sc_Score x) (PositiveReplacementDecay cfg)\<rparr>
      else if sc_Id x \<in> negativeItems then x\<lparr>sc_Score := fmul (sc_Score x) (ReadReplacementDecay cfg)\<rparr> else x) results)"
    unfolding decay_mset d ..
  show "if sc_Id ` set results \<inter> (positiveItems \<union> negativeItems) = {} then ?out = results
    else (\<exists>x\<in>set ?out. sc_Score x = NaN) \<or> best_first ?out"
  proof (cases "sc_Id ` set results \<inter> (positiveItems \<union> negativeItems) = {}")
    case True
    then have "map (decayed cfg positiveItems negativeItems) results = results"
      by (intro map_idI) (auto simp: decayed_def)
    moreover have "\<not> (\<exists>score\<in>set results. sc_Id score \<in> positiveItems \<union> negativeItems)" using True by blast
    ultimately show ?thesis using True by (simp add: applyReplacementDecay_def Let_def)
  next
    case False
    then have ex: "\<exists>score\<in>set results. sc_Id score \<in> positiveItems \<union> negativeItems" by blast
    then have "?out = SortDocuments (map (decayed cfg positiveItems negativeItems) results)"
      by (auto simp: applyReplacementDecay_def Let_def)
    then have "(\<exists>x\<in>set ?out. sc_Score x = NaN) \<or> best_first ?out"
      by (metis SortDocuments_best_first SortDocuments_set)
    then show ?thesis using False by simp
  qed
qed

end
