(* ===== verification/Serving.thy ===== *)
theory Serving
  imports Pipeline
begin

text \<open>
  The pipeline, the cache store and the online recommender together: the interfaces \<^verbatim>\<open>cache.Database\<close> of the
  pipeline and of the recommender are filled by the SQL store, and what the worker caches is followed to
  the next run of the worker and to the user. The world is the store and a clock.
\<close>

section \<open>The SQL store as the cache of the recommender\<close>

type_synonym world = "SQLDatabase \<times> int"

definition on_db :: "(SQLDatabase, 'a) io \<Rightarrow> (world, 'a) io" where
  "on_db m = (\<lambda>(db, now). case m db of (x, db') \<Rightarrow> (x, db', now))"

definition sql_cache_client :: "world CacheClient" where
  "sql_cache_client =
     \<lparr>cc_SearchScores = (\<lambda>c b q i j. on_db (SearchScores c b q i j)),
      cc_Get = (\<lambda>name (db, now). case Get name db of (v, db') \<Rightarrow> (v, db', now)),
      cc_Set = (\<lambda>vs. on_db (Set vs)),
      cc_AddScores = (\<lambda>c b ds. on_db (AddScores c b ds)),
      cc_DeleteScores = (\<lambda>cs p. on_db (DeleteScores cs p))\<rparr>"

definition over_sql :: "world Env \<Rightarrow> bool" where
  "over_sql env \<longleftrightarrow> env_cache env = sql_cache_client \<and> env_now env = snd"

lemma on_db_run: "m db = (x, db') \<Longrightarrow> on_db m (db, now) = (x, db', now)"
  by (simp add: on_db_def)

lemma on_db_Inr: "on_db m (db, now) = (Inr x, w') \<longleftrightarrow> (\<exists>db'. m db = (Inr x, db') \<and> w' = (db', now))"
  by (cases "m db") (auto simp: on_db_def)

section \<open>After caching\<close>

text \<open>A store whose next statements succeed and a search reads to the end.\<close>

definition stored_sorted :: "SQLDatabase \<Rightarrow> string \<Rightarrow> string \<Rightarrow> Score list" where
  "stored_sorted db c b = map from_document (sort_slice doc_greater
     (filter (\<lambda>d. doc_Collection d = c \<and> doc_Subset d = b \<and> \<not> doc_IsHidden d) (db_documents db)))"

lemma SearchScores_sorted:
  assumes "db_faults db = []" and "cache_fits db"
  shows "SearchScores c b [] 0 (- 1) db = (Inr (stored_sorted db c b), db)"
    and "0 < n \<Longrightarrow> SearchScores c b [] 0 n db = (Inr (take (nat n) (stored_sorted db c b)), db)"
proof -
  obtain res where res: "SearchScores c b [] 0 (- 1) db = (Inr res, db)" using assms(1) by (simp add: SearchScores_def sql_no_fault)
  then show "SearchScores c b [] 0 (- 1) db = (Inr (stored_sorted db c b), db)"
    using SearchScores_all[OF res assms(2)] unfolding stored_sorted_def by simp
  show "SearchScores c b [] 0 n db = (Inr (take (nat n) (stored_sorted db c b)), db)" if "0 < n"
    using assms(1) that by (simp add: SearchScores_def sql_no_fault limited_def stored_sorted_def take_map)
qed

lemma user_keys:
  assumes "user \<noteq> []"
  shows "Key [RecommendDigest, user] \<noteq> Key [RecommendUpdateTime, user]"
    "Key [LastModifyUserTime, user] \<noteq> Key [RecommendUpdateTime, user]" "Key [LastModifyUserTime, user] \<noteq> Key [RecommendDigest, user]"
  using assms by (simp_all add: Key_two)

text \<open>What is known of the store after \<open>cache_recommendation\<close>.\<close>

lemma cached_state:
  assumes "over_sql (p_env p)" and "user \<noteq> []" and "cache_good db"
    and "cache_recommendation p user results digest t (db, now) = (Inr (), db', now')"
    and "distinct (map sc_Id results)" and "\<forall>x\<in>set results. sc_Timestamp x = t \<and> \<not> sc_IsHidden x \<and> sc_Score x \<noteq> NaN"
    and "\<forall>i x. cache_view db RecommendCache user i = Some x \<longrightarrow> sc_Timestamp x < before_time db t \<and> \<not> sc_IsHidden x"
    and "db_faults db' = []" and "cache_fits db'"
  shows "mset (stored_sorted db' RecommendCache user) = mset (map (\<lambda>x. x\<lparr>sc_Timestamp := round_time db t\<rparr>) results)"
    and "best_first (stored_sorted db' RecommendCache user)"
    and "map_of (db_values db') (Key [RecommendDigest, user]) = Some digest"
    and "map_of (db_values db') (Key [RecommendUpdateTime, user]) = Some (time_string p t)"
    and "map_of (db_values db') (Key [LastModifyUserTime, user]) = map_of (db_values db) (Key [LastModifyUserTime, user])"
proof -
  let ?vs = "[cache_Time (time_string p) (Key [RecommendUpdateTime, user]) t, cache_String (Key [RecommendDigest, user]) digest]"
  obtain db1 db2 where s: "AddScores RecommendCache user results db = (Inr (), db1)"
      "DeleteScores [RecommendCache] \<lparr>cond_Subset = Some user, cond_Id = None, cond_Before = Some t\<rparr> db1 = (Inr (), db2)"
      "Set ?vs db2 = (Inr (), db')"
    using assms(1,4) by (auto simp: over_sql_def cache_recommendation_def sql_cache_client_def io_bind_Inr on_db_Inr)
  have docs: "db_documents db' = db_documents db2"
    using s(3) by (auto simp: Set_def dest!: sql_Inr split: if_splits)
  have vals: "db_values db2 = db_values db" using AddScores_Inr[OF s(1)] DeleteScores_Inr[OF s(2)] by auto
  have ts: "\<forall>x\<in>set results. sc_Timestamp x = t \<and> \<not> sc_IsHidden x" using assms(6) by blast
  have good: "cache_good db'"
  proof -
    have "cache_good db2" by (rule sqls.replace_view(1)[OF assms(3) s(1,2) assms(5) ts assms(7)])
    moreover have "round_time db' = round_time db2" using s(3) by (auto simp: Set_def dest!: sql_Inr split: if_splits)
    ultimately show ?thesis using cache_ok_exec[of db2 "CallSet ?vs"] s(3) by (simp add: cache_good_def)
  qed
  have view: "cache_view db' RecommendCache user = cache_view db2 RecommendCache user"
    by (intro ext) (simp add: cache_view_def docs)
  note search = SearchScores_sorted(1)[OF assms(8,9), of RecommendCache user]
  show res: "mset (stored_sorted db' RecommendCache user) = mset (map (\<lambda>x. x\<lparr>sc_Timestamp := round_time db t\<rparr>) results)"
    by (rule sqls.replace[OF assms(3) s(1,2) search assms(9) good view assms(5) ts assms(7)])
  have "\<forall>x\<in>set (stored_sorted db' RecommendCache user). sc_Score x \<noteq> NaN"
    using mset_eq_setD[OF res] assms(6) by auto
  then show "best_first (stored_sorted db' RecommendCache user)" using SearchScores_best_first[OF search assms(9)] by blast
  show "map_of (db_values db') (Key [RecommendDigest, user]) = Some digest"
    "map_of (db_values db') (Key [RecommendUpdateTime, user]) = Some (time_string p t)"
    "map_of (db_values db') (Key [LastModifyUserTime, user]) = map_of (db_values db) (Key [LastModifyUserTime, user])"
    using db_values_Set[OF s(3)] user_keys[OF assms(2)] vals by (auto simp: cache_Time_def cache_String_def)
qed

section \<open>The next run of the worker\<close>

definition active_time :: "('w, 'e) Pipeline \<Rightarrow> string option \<Rightarrow> int" where
  "active_time p v = (case v of None \<Rightarrow> zero_time | Some s \<Rightarrow> (case parse_time p s of Inr a \<Rightarrow> a | Inl _ \<Rightarrow> zero_time))"

definition parser_returns :: "('w, 'e) Pipeline \<Rightarrow> bool" where
  "parser_returns p \<longleftrightarrow> (\<forall>s m. parse_time p s \<noteq> Inl (Panic m))"

lemma get_time_sql:
  assumes "over_sql (p_env p)" and "db_faults db = []"
  shows "get_time p n (db, now) = (case map_of (db_values db) n of None \<Rightarrow> Inr zero_time | Some s \<Rightarrow> parse_time p s, db, now)"
  using assms by (auto simp: get_time_def over_sql_def sql_cache_client_def Get_no_fault rv_Time_def split: option.splits)

lemma get_string_sql:
  assumes "over_sql env" and "db_faults db = []"
  shows "get_string env n (db, now) = (Inr (case map_of (db_values db) n of None \<Rightarrow> [] | Some s \<Rightarrow> s), db, now)"
  using assms by (auto simp: get_string_def over_sql_def sql_cache_client_def Get_no_fault rv_String_def split: option.splits)

lemma try_active_time:
  assumes "over_sql (p_env p)" and "db_faults db = []" and "parser_returns p"
  shows "\<exists>a. io_try (get_time p n) (db, now) = (Inr a, db, now) \<and>
    (case a of None \<Rightarrow> zero_time | Some t \<Rightarrow> t) = active_time p (map_of (db_values db) n)"
  using assms(3) get_time_sql[OF assms(1,2), of n now] unfolding parser_returns_def
  by (auto simp: io_try_def active_time_def split: option.splits sum.splits go_fail.splits)

lemma out_of_date_sql:
  assumes "over_sql (p_env p)" and "db_faults db = []" and "cache_fits db" and "parser_returns p"
    and "stored_sorted db RecommendCache user \<noteq> []"
    and "map_of (db_values db) (Key [RecommendDigest, user]) = Some (config_Hash (env_md5 (p_env p)) (p_Config p))"
    and "config_Hash (env_md5 (p_env p)) (p_Config p) \<noteq> []"
    and "map_of (db_values db) (Key [RecommendUpdateTime, user]) = Some s" and "parse_time p s = Inr t"
  shows "checkRecommendCacheOutOfDate p user (db, now) = (Inr
    (t < now + int64 (- CacheExpire (p_Config p)) \<or> t \<le> active_time p (map_of (db_values db) (Key [LastModifyUserTime, user])) \<or>
     t + rank_CacheExpire (Ranker (p_Config p)) < now), db, now)"
proof -
  have search: "cc_SearchScores (env_cache (p_env p)) RecommendCache user [] 0 (- 1) (db, now) =
      (Inr (stored_sorted db RecommendCache user), db, now)"
    using SearchScores_sorted(1)[OF assms(2,3)] assms(1) by (simp add: over_sql_def sql_cache_client_def on_db_run)
  have digest: "get_string (p_env p) (Key [RecommendDigest, user]) (db, now) = (Inr (config_Hash (env_md5 (p_env p)) (p_Config p)), db, now)"
    using get_string_sql[OF assms(1,2)] assms(6) by simp
  obtain a where a: "io_try (get_time p (Key [LastModifyUserTime, user])) (db, now) = (Inr a, db, now)"
    "(case a of None \<Rightarrow> zero_time | Some t \<Rightarrow> t) = active_time p (map_of (db_values db) (Key [LastModifyUserTime, user]))"
    using try_active_time[OF assms(1,2,4)] by blast
  have upd: "get_time p (Key [RecommendUpdateTime, user]) (db, now) = (Inr t, db, now)"
    using get_time_sql[OF assms(1,2)] assms(8,9) by simp
  have clk: "clock p (db, now) = (Inr now, db, now)" using assms(1) by (simp add: clock_def over_sql_def)
  have tries: "io_try (cc_SearchScores (env_cache (p_env p)) RecommendCache user [] 0 (- 1)) (db, now) =
      (Inr (Some (stored_sorted db RecommendCache user)), db, now)"
    "io_try (get_string (p_env p) (Key [RecommendDigest, user])) (db, now) = (Inr (Some (config_Hash (env_md5 (p_env p)) (p_Config p))), db, now)"
    "io_try (get_time p (Key [RecommendUpdateTime, user])) (db, now) = (Inr (Some t), db, now)"
    using search digest upd by (simp_all add: io_try_def)
  show ?thesis using assms(5,7) a(2)
    by (auto simp: checkRecommendCacheOutOfDate_def io_bind_def tries a(1) clk io_return_def)
qed

text \<open>C17. A cached recommendation stays fresh exactly as long as it should: after the worker has cached a recommendation that is
  not empty, with the digest of the configuration, at time \<open>t\<close>, the next runs leave the user alone if and only if the
  cache has not expired, the user was last modified before \<open>t\<close>, and the ranking has not expired.\<close>

theorem fresh_until_expiry:
  assumes "over_sql (p_env p)" and "user \<noteq> []" and "cache_good db" and "parser_returns p" and "parse_time p (time_string p t) = Inr t"
    and "cache_recommendation p user results (config_Hash (env_md5 (p_env p)) (p_Config p)) t (db, now) = (Inr (), db', now)"
    and "config_Hash (env_md5 (p_env p)) (p_Config p) \<noteq> []"
    and "results \<noteq> []" and "distinct (map sc_Id results)"
    and "\<forall>x\<in>set results. sc_Timestamp x = t \<and> \<not> sc_IsHidden x \<and> sc_Score x \<noteq> NaN"
    and "\<forall>i x. cache_view db RecommendCache user i = Some x \<longrightarrow> sc_Timestamp x < before_time db t \<and> \<not> sc_IsHidden x"
    and "db_faults db' = []" and "cache_fits db'"
  shows "checkRecommendCacheOutOfDate p user (db', later) = (Inr (\<not>
    (later \<le> t - int64 (- CacheExpire (p_Config p)) \<and> active_time p (map_of (db_values db) (Key [LastModifyUserTime, user])) < t \<and>
     later \<le> t + rank_CacheExpire (Ranker (p_Config p)))), db', later)"
proof -
  note state = cached_state[OF assms(1-3,6,9-13)]
  have ne: "stored_sorted db' RecommendCache user \<noteq> []" using state(1) assms(8) by (cases results) auto
  show ?thesis
    unfolding out_of_date_sql[OF assms(1,12,13,4) ne state(3) assms(7) state(4) assms(5)] state(5) by auto
qed

section \<open>The user\<close>

lemma take_unseen_run:
  assumes "distinct (map sc_Id scores)"
  shows "\<exists>r'. take_unseen scores res (r, w) = (Inr (res @ filter (\<lambda>x. sc_Id x \<notin> excludeSet r) scores), r', w)"
  using assms
proof (induction scores arbitrary: res r)
  case (Cons x scores)
  show ?case
  proof (cases "sc_Id x \<in> excludeSet r")
    case True
    then show ?thesis using Cons.IH[of res r] Cons.prems by (auto simp: io_bind_def get_rec_def)
  next
    case False
    have "filter (\<lambda>y. sc_Id y \<notin> insert (sc_Id x) (excludeSet r)) scores = filter (\<lambda>y. sc_Id y \<notin> excludeSet r) scores"
      using Cons.prems by (intro filter_cong) (auto simp: image_iff)
    then show ?thesis
      using Cons.IH[of "res @ [x]" "r\<lparr>excludeSet := insert (sc_Id x) (excludeSet r)\<rparr>"] Cons.prems False
      by (auto simp: io_bind_def get_rec_def exclude_def put_rec_def)
  qed
qed (simp add: io_return_def)

lemma prefix_best:
  assumes "best_first xs" and "x \<in> set xs" and "sc_Id x \<notin> sc_Id ` set (take n xs)" and "y \<in> set (take n xs)"
  shows "fle (sc_Score x) (sc_Score y)"
proof -
  have "x \<in> set (take n xs) \<union> set (drop n xs)" using assms(2) by (simp only: append_take_drop_id flip: set_append)
  then have "x \<in> set (drop n xs)" using assms(3) by blast
  with sorted_take_drop[OF assms(1)[unfolded best_first_def] assms(4)] show ?thesis by blast
qed


section \<open>A concrete run\<close>

definition sql_env :: "world Env" where
  "sql_env = \<lparr>env_cache = sql_cache_client,
     env_data = \<lparr>dc_GetUserFeedback = (\<lambda>u t ts w. (Inr [liked ''hat''], w)), dc_GetLatestItems = (\<lambda>_ _ w. (Inr [], w)),
       dc_BatchGetItems = (\<lambda>_ w. (Inr [], w))\<rparr>,
     env_now = snd, env_md5 = (\<lambda>s. s), env_range = (\<lambda>m. m), env_slice = (\<lambda>xs. xs), env_pull = (\<lambda>_ _ w. (Inr [], w))\<rparr>"

definition sql_shop :: "(world, unit) Pipeline" where
  "sql_shop = \<lparr>p_env = sql_env, p_Config = sample_config, ChatCompletionModel = [], time_string = (\<lambda>t. ''noon''), parse_time = (\<lambda>_. Inr 7),
     MatrixFactorizationItems = None, MatrixFactorizationUsers = None, ClickThroughRateModel = None,
     p_rerank = mock_lib, dontskipColdStartUsers = False\<rparr>"

definition new_scores :: "Score list" where
  "new_scores = [(scored ''shoe'' 2)\<lparr>sc_Timestamp := 7\<rparr>]"

definition cached_db :: SQLDatabase where
  "cached_db = snd (Set [cache_Time (\<lambda>t. ''noon'') (Key [RecommendUpdateTime, ''ann'']) 7, cache_String (Key [RecommendDigest, ''ann'']) ''latest'']
     ((empty_cache SQLite (\<lambda>t. t) None [])\<lparr>db_documents := [to_document (\<lambda>t. t) RecommendCache ''ann'' (hd new_scores)]\<rparr>))"

lemma sql_shop_config: "p_Config sql_shop = sample_config" "p_env sql_shop = sql_env" "time_string sql_shop = (\<lambda>t. ''noon'')"
  "parse_time sql_shop = (\<lambda>_. Inr 7)" "over_sql (p_env sql_shop)" "parser_returns sql_shop"
  by (simp_all add: sql_shop_def over_sql_def sql_env_def parser_returns_def)

lemma sql_shop_hash: "config_Hash (env_md5 (p_env sql_shop)) (p_Config sql_shop) = ''latest''"
  by (simp add: sql_shop_config sql_env_def config_Hash_def MD5_def config_digests_def sample_config_def np_FullName_def cf_FullName_def)

lemma cached_db_state: "db_faults cached_db = []" "cache_fits cached_db" "cache_good (empty_cache SQLite (\<lambda>t. t) None [])"
  "cache_view (empty_cache SQLite (\<lambda>t. t) None []) c b i = None"
  by (simp_all add: cached_db_def Set_def sql_def empty_cache_def cache_fits_def cache_good_def cache_ok_def mono_def cache_view_def docs_view_def)

lemma sql_shop_caches:
  "cache_recommendation sql_shop ''ann'' new_scores ''latest'' 7 (empty_cache SQLite (\<lambda>t. t) None [], 7) = (Inr (), cached_db, 7)"
proof -
  let ?db = "empty_cache SQLite (\<lambda>t. t) None []"
  let ?db1 = "?db\<lparr>db_documents := [to_document (\<lambda>t. t) RecommendCache ''ann'' (hd new_scores)]\<rparr>"
  have a: "AddScores RecommendCache ''ann'' new_scores ?db = (Inr (), ?db1)"
    by (simp add: AddScores_def new_scores_def sql_def empty_cache_def put_document_def upsert_def)
  have d: "DeleteScores [RecommendCache] \<lparr>cond_Subset = Some ''ann'', cond_Id = None, cond_Before = Some 7\<rparr> ?db1 = (Inr (), ?db1)"
    by (simp add: DeleteScores_def io_bind_def io_lift_def cond_Check_def sql_def empty_cache_def matches_def before_time_def to_document_def new_scores_def)
  have s: "Set [cache_Time (\<lambda>t. ''noon'') (Key [RecommendUpdateTime, ''ann'']) 7, cache_String (Key [RecommendDigest, ''ann'']) ''latest''] ?db1 = (Inr (), cached_db)"
    unfolding cached_db_def by (simp add: Set_def sql_def empty_cache_def)
  show ?thesis using a d s
    by (simp add: cache_recommendation_def sql_shop_config sql_env_def sql_cache_client_def io_bind_def on_db_run)
qed

lemma new_scores_facts: "new_scores \<noteq> []" "distinct (map sc_Id new_scores)"
  "\<forall>x\<in>set new_scores. sc_Timestamp x = 7 \<and> \<not> sc_IsHidden x \<and> sc_Score x \<noteq> NaN"
  by (simp_all add: new_scores_def scored_def zero_Score_def)

theorem fresh_until_expiry_witness:
  "checkRecommendCacheOutOfDate sql_shop ''ann'' (cached_db, 8) = (Inr False, cached_db, 8)"
proof -
  let ?db = "empty_cache SQLite (\<lambda>t. t) None []"
  have old: "\<forall>i x. cache_view ?db RecommendCache ''ann'' i = Some x \<longrightarrow> sc_Timestamp x < before_time ?db 7 \<and> \<not> sc_IsHidden x"
    by (simp add: cached_db_state)
  have parse: "parse_time sql_shop (time_string sql_shop 7) = Inr 7" by (simp add: sql_shop_config)
  have user: "''ann'' \<noteq> []" by simp
  have hash: "config_Hash (env_md5 (p_env sql_shop)) (p_Config sql_shop) \<noteq> []" by (simp add: sql_shop_hash)
  from fresh_until_expiry[OF sql_shop_config(5) user cached_db_state(3) sql_shop_config(6) parse
      sql_shop_caches[folded sql_shop_hash] hash new_scores_facts old cached_db_state(1,2), of 8]
  show ?thesis by (simp add: sql_shop_config sample_config_def active_time_def empty_cache_def zero_time_def)
qed


end
