(* ===== verification/Go_Base64.thy ===== *)
theory Go_Base64
  imports Go_Prelude
begin

text \<open>
  The standard encoding of \<^verbatim>\<open>encoding/base64\<close>, with padding: what the stores use for the cursors of their pages.
  A string is its bytes. Line breaks in the input of the decoder are skipped, the unused bits of the last
  digit are not looked at, and anything else that is not a digit or the final padding is an error.
\<close>

section \<open>Digits\<close>

text \<open>The alphabet is A to Z, a to z, 0 to 9, plus and slash.\<close>

definition b64_digit :: "nat \<Rightarrow> char" where
  "b64_digit n =
     char_of (if n < 26 then n + 65 else if n < 52 then n + 71 else if n < 62 then n - 4 else if n = 62 then 43 else 47)"

definition b64_value :: "char \<Rightarrow> nat option" where
  "b64_value c =
     (let n = of_char c :: nat
      in if 65 \<le> n \<and> n \<le> 90 then Some (n - 65)
         else if 97 \<le> n \<and> n \<le> 122 then Some (n - 71)
         else if 48 \<le> n \<and> n \<le> 57 then Some (n + 4)
         else if n = 43 then Some 62 else if n = 47 then Some 63 else None)"

lemma b64_value_digit: "n < 64 \<Longrightarrow> b64_value (b64_digit n) = Some n"
  by (auto simp: b64_value_def b64_digit_def Let_def of_char_of)

text \<open>A digit is neither the padding nor a line break.\<close>

lemma b64_digit_plain:
  assumes "n < 64"
  shows "b64_digit n \<noteq> CHR ''=''" and "b64_digit n \<noteq> CHR 0x0A" and "b64_digit n \<noteq> CHR 0x0D"
  using b64_value_digit[OF assms] by (auto simp: b64_value_def)

section \<open>Encoding and decoding\<close>

fun b64_encode :: "string \<Rightarrow> string" where
  "b64_encode [] = []"
| "b64_encode [a] =
     (let x = of_char a :: nat in [b64_digit (x div 4), b64_digit (x mod 4 * 16), CHR ''='', CHR ''=''])"
| "b64_encode [a, b] =
     (let x = of_char a :: nat; y = of_char b
      in [b64_digit (x div 4), b64_digit (x mod 4 * 16 + y div 16), b64_digit (y mod 16 * 4), CHR ''=''])"
| "b64_encode (a # b # c # s) =
     (let x = of_char a :: nat; y = of_char b; z = of_char c
      in [b64_digit (x div 4), b64_digit (x mod 4 * 16 + y div 16), b64_digit (y mod 16 * 4 + z div 64), b64_digit (z mod 64)]
         @ b64_encode s)"

definition b64_corrupt :: "go_fail + 'a" where
  "b64_corrupt = Inl (Error ''illegal base64 data'')"

definition b64_digits :: "string \<Rightarrow> nat list option" where
  "b64_digits s = those (map b64_value s)"

fun b64_quanta :: "string \<Rightarrow> go_fail + string" where
  "b64_quanta [] = Inr []"
| "b64_quanta (a # b # c # d # s) =
     (if s = [] \<and> c = CHR ''='' \<and> d = CHR ''=''
      then (case b64_digits [a, b] of Some [x, y] \<Rightarrow> Inr [char_of (x * 4 + y div 16)] | _ \<Rightarrow> b64_corrupt)
      else if s = [] \<and> d = CHR ''=''
      then (case b64_digits [a, b, c] of
              Some [x, y, z] \<Rightarrow> Inr [char_of (x * 4 + y div 16), char_of (y mod 16 * 16 + z div 4)] | _ \<Rightarrow> b64_corrupt)
      else (case b64_digits [a, b, c, d] of
              Some [x, y, z, u] \<Rightarrow>
                rbind (b64_quanta s) (\<lambda>t. Inr ([char_of (x * 4 + y div 16), char_of (y mod 16 * 16 + z div 4), char_of (z mod 4 * 64 + u)] @ t))
            | _ \<Rightarrow> b64_corrupt))"
| "b64_quanta s = b64_corrupt"

definition b64_decode :: "string \<Rightarrow> go_fail + string" where
  "b64_decode s = b64_quanta (filter (\<lambda>c. c \<noteq> CHR 0x0A \<and> c \<noteq> CHR 0x0D) s)"

section \<open>Round trip\<close>

lemma b64_digits_simps [simp]:
  "b64_digits [] = Some []"
  "n < 64 \<Longrightarrow> b64_digits (b64_digit n # s) = map_option ((#) n) (b64_digits s)"
  by (auto simp: b64_digits_def b64_value_digit split: option.splits)

lemma byte_bounds:
  "of_char a div 4 < (64 :: nat)" "of_char a mod 4 * 16 < (64 :: nat)" "of_char a mod 16 * 4 < (64 :: nat)"
  "of_char a mod 4 * 16 + of_char b div 16 < (64 :: nat)" "of_char a mod 16 * 4 + of_char b div 64 < (64 :: nat)"
proof -
  have a: "of_char a < (256 :: nat)" and b: "of_char b < (256 :: nat)" by simp_all
  from a show "of_char a div 4 < (64 :: nat)" by linarith
  show "of_char a mod 4 * 16 < (64 :: nat)" "of_char a mod 16 * 4 < (64 :: nat)" by (simp_all add: mult_less_cancel2)
  have "of_char a mod 4 \<le> (3 :: nat)" "of_char a mod 16 \<le> (15 :: nat)" by simp_all
  then show "of_char a mod 4 * 16 + of_char b div 16 < (64 :: nat)" "of_char a mod 16 * 4 + of_char b div 64 < (64 :: nat)"
    using b by linarith+
qed

lemma b64_regroup:
  fixes x y z :: nat
  assumes "x < 256" and "y < 256" and "z < 256"
  shows "x div 4 * 4 + (x mod 4 * 16 + y div 16) div 16 = x"
    and "(x mod 4 * 16 + y div 16) mod 16 * 16 + (y mod 16 * 4 + z div 64) div 4 = y"
    and "(y mod 16 * 4 + z div 64) mod 4 * 64 + z mod 64 = z"
proof -
  have "x mod 4 * 16 + y div 16 = y div 16 + 16 * (x mod 4)" by simp
  then have 1: "(x mod 4 * 16 + y div 16) div 16 = x mod 4" "(x mod 4 * 16 + y div 16) mod 16 = y div 16"
    using assms(2) by (simp_all add: div_add1_eq less_mult_imp_div_less)
  have "y mod 16 * 4 + z div 64 = z div 64 + 4 * (y mod 16)" by simp
  then have 2: "(y mod 16 * 4 + z div 64) div 4 = y mod 16" "(y mod 16 * 4 + z div 64) mod 4 = z div 64"
    using assms(3) by (simp_all add: div_add1_eq less_mult_imp_div_less)
  show "x div 4 * 4 + (x mod 4 * 16 + y div 16) div 16 = x"
    "(x mod 4 * 16 + y div 16) mod 16 * 16 + (y mod 16 * 4 + z div 64) div 4 = y"
    "(y mod 16 * 4 + z div 64) mod 4 * 64 + z mod 64 = z" unfolding 1 2 by (simp_all add: div_mult_mod_eq)
qed

lemma b64_quanta_encode: "b64_quanta (b64_encode s) = Inr s"
proof (induction s rule: b64_encode.induct)
  case (2 a)
  have "of_char a < (256 :: nat)" by simp
  from b64_regroup(1)[OF this, of 0 0] show ?case by (simp add: Let_def byte_bounds)
next
  case (3 a b)
  have "of_char a < (256 :: nat)" "of_char b < (256 :: nat)" by simp_all
  from b64_regroup(1,2)[OF this, of 0] show ?case by (simp add: Let_def byte_bounds b64_digit_plain)
next
  case (4 a b c s)
  have "of_char a < (256 :: nat)" "of_char b < (256 :: nat)" "of_char c < (256 :: nat)" by simp_all
  from b64_regroup[OF this] show ?case by (simp add: Let_def byte_bounds b64_digit_plain 4)
qed simp

lemma b64_encode_plain: "c \<in> set (b64_encode s) \<Longrightarrow> c \<noteq> CHR 0x0A \<and> c \<noteq> CHR 0x0D"
  by (induction s rule: b64_encode.induct) (auto simp: Let_def b64_digit_plain byte_bounds)

lemma b64_decode_encode [simp]: "b64_decode (b64_encode s) = Inr s"
proof -
  have "filter (\<lambda>c. c \<noteq> CHR 0x0A \<and> c \<noteq> CHR 0x0D) (b64_encode s) = b64_encode s"
    by (rule filter_True) (use b64_encode_plain in blast)
  then show ?thesis by (simp add: b64_decode_def b64_quanta_encode)
qed

lemma b64_encode_eq_Nil [simp]: "b64_encode s = [] \<longleftrightarrow> s = []"
  by (induction s rule: b64_encode.induct) (auto simp: Let_def)

end
