(* ===== verification/Data_Store.thy ===== *)
theory Data_Store
  imports Sql_Base Go_Base64
begin

text \<open>
  The data store over a SQL database (\<^verbatim>\<open>storage/data/sql.go\<close>) for the drivers MySQL, Postgres and SQLite: items,
  users and feedback, their queries by cursor, by stream and by key, and the merging of feedback. A column of
  JSON text holds the document itself; \<^verbatim>\<open>null\<close> and \<^verbatim>\<open>[]\<close> both read as the empty list of categories. Instants are
  compared, so the time zone a statement converts to does not matter (SQLite compares the text of an instant: \<^verbatim>\<open>GetItems\<close> and
  \<^verbatim>\<open>GetItemStream\<close>, which pass their limit as it is, compare instants only if it is given in UTC). Identifiers are compared byte by byte, as the
  collations of the tables do (under MySQL, identifiers do not end in spaces, which its collation ignores).

  Parameters outside the repository: \<open>round_time\<close> and \<open>round_value\<close>, the precision of the driver's columns, and \<open>read_value\<close>, the number a stored value is read as;
  \<open>json_time\<close>, the JSON text of an instant in labels; \<open>estimated_rows\<close> and \<open>reltuples\<close>, the row counts the
  servers estimate. The order in which a set hands out its elements, the instant the server takes for now, and the JSON text of a cursor
  are arguments of the operations that use them.
\<close>

section \<open>Tables\<close>

record SQLItem =
  row_ItemId :: string
  row_IsHidden :: bool
  row_Categories :: json
  row_Timestamp :: int
  row_Labels :: json
  row_Comment :: string

record SQLUser =
  row_UserId :: string
  row_user_Labels :: json
  row_user_Comment :: string

record DataDatabase = sql_conn +
  tb_items :: "SQLItem list"
  tb_users :: "SQLUser list"
  tb_feedback :: "Feedback list"
  round_value :: "fl \<Rightarrow> fl"
  read_value :: "fl \<Rightarrow> fl"
  json_time :: "int \<Rightarrow> string"
  TablePrefix :: string
  estimated_rows :: "string \<Rightarrow> int"
  reltuples :: "string \<Rightarrow> rat"

type_synonym 'a data_io = "(DataDatabase, 'a) io"

definition UsersTable :: "string \<Rightarrow> string" where
  "UsersTable tp = tp @ ''users''"

definition ItemsTable :: "string \<Rightarrow> string" where
  "ItemsTable tp = tp @ ''items''"

definition FeedbackTable :: "string \<Rightarrow> string" where
  "FeedbackTable tp = tp @ ''feedback''"

text \<open>What \<^verbatim>\<open>jsonutil.Marshal\<close> writes for a value of type \<^verbatim>\<open>any\<close>: an instant becomes a string.\<close>

function marshal_any :: "(int \<Rightarrow> string) \<Rightarrow> json \<Rightarrow> json" where
  "marshal_any tx (JTime t) = JStr (tx t)"
| "marshal_any tx (JArr js) = JArr (map (marshal_any tx) js)"
| "marshal_any tx (JObj kvs) = JObj (map (\<lambda>(k, v). (k, marshal_any tx v)) kvs)"
| "marshal_any tx JNull = JNull"
| "marshal_any tx (JBool b) = JBool b"
| "marshal_any tx (JNum q) = JNum q"
| "marshal_any tx (JStr s) = JStr s"
  by pat_completeness auto
termination
proof (relation "measure (\<lambda>(_, j). size j)")
  show "((tx, v), tx, JObj kvs) \<in> measure (\<lambda>(_, j). size j)" if "kv \<in> set kvs" "(k, v) = kv"
    for tx :: "int \<Rightarrow> string" and kvs kv k v
    using that size_list_estimation'[of "(k, v)" kvs "size v" "size_prod (\<lambda>_. 0) size"] by auto
qed (auto simp: less_Suc_eq_le size_list_estimation')

definition strings_json :: "string list \<Rightarrow> json" where
  "strings_json ss = JArr (map JStr ss)"

definition NewSQLItem :: "(int \<Rightarrow> string) \<Rightarrow> Item \<Rightarrow> SQLItem" where
  "NewSQLItem tx item =
     \<lparr>row_ItemId = ItemId item, row_IsHidden = item_IsHidden item, row_Categories = strings_json (item_Categories item),
      row_Timestamp = item_Timestamp item, row_Labels = marshal_any tx (item_Labels item), row_Comment = item_Comment item\<rparr>"

definition NewSQLUser :: "(int \<Rightarrow> string) \<Rightarrow> User \<Rightarrow> SQLUser" where
  "NewSQLUser tx user =
     \<lparr>row_UserId = UserId user, row_user_Labels = marshal_any tx (user_Labels user), row_user_Comment = user_Comment user\<rparr>"

text \<open>\<^verbatim>\<open>ScanRows\<close> parses the JSON columns again.\<close>

definition scan_item :: "SQLItem \<Rightarrow> go_fail + Item" where
  "scan_item r = rbind (dec_strings (row_Categories r) []) (\<lambda>cs.
     Inr \<lparr>ItemId = row_ItemId r, item_IsHidden = row_IsHidden r, item_Categories = cs, item_Timestamp = row_Timestamp r,
          item_Labels = row_Labels r, item_Comment = row_Comment r\<rparr>)"

definition scan_user :: "SQLUser \<Rightarrow> go_fail + User" where
  "scan_user r = Inr \<lparr>UserId = row_UserId r, user_Labels = row_user_Labels r, user_Comment = row_user_Comment r\<rparr>"

text \<open>A value is read as the driver delivers it: as it is stored in double precision, but under MySQL, whose column is a single-precision
  \<^verbatim>\<open>float\<close>, through its shortest decimal text (a stored \<open>0.1\<close> is compared as the nearest single and read as the nearest double).\<close>

definition scan_feedback :: "DataDatabase \<Rightarrow> Feedback \<Rightarrow> go_fail + Feedback" where
  "scan_feedback db f = Inr (f\<lparr>fb_Value := read_value db (fb_Value f)\<rparr>)"

text \<open>\<^verbatim>\<open>for result.Next()\<close>: the rows are read one after the other and the first failure ends the call.\<close>

definition scan_rows :: "('r \<Rightarrow> go_fail + 'a) \<Rightarrow> 'r list \<Rightarrow> go_fail + 'a list" where
  "scan_rows scan rows = fold_res (\<lambda>r acc. rbind (scan r) (\<lambda>x. Inr (acc @ [x]))) rows []"

definition convertTimeZone :: "SQLDriver \<Rightarrow> int \<Rightarrow> int" where
  "convertTimeZone driver t = t"

definition Purge_data :: "unit data_io" where
  "Purge_data = io_bind (sql (\<lambda>db. (Inr (), db\<lparr>tb_items := []\<rparr>))) (\<lambda>_.
     io_bind (sql (\<lambda>db. (Inr (), db\<lparr>tb_feedback := []\<rparr>))) (\<lambda>_.
       sql (\<lambda>db. (Inr (), db\<lparr>tb_users := []\<rparr>))))"

section \<open>Items\<close>

definition put_item :: "SQLItem \<Rightarrow> SQLItem list \<Rightarrow> SQLItem list" where
  "put_item row = upsert (\<lambda>x. row_ItemId x = row_ItemId row)
     (\<lambda>x. x\<lparr>row_IsHidden := row_IsHidden row, row_Categories := row_Categories row, row_Timestamp := row_Timestamp row,
            row_Labels := row_Labels row, row_Comment := row_Comment row\<rparr>) row"

definition stored_item :: "DataDatabase \<Rightarrow> SQLItem \<Rightarrow> SQLItem" where
  "stored_item db row = row\<lparr>row_Timestamp := round_time db (row_Timestamp row)\<rparr>"

definition BatchInsertItems :: "Item list \<Rightarrow> unit data_io" where
  "BatchInsertItems items =
     (if items = [] then io_return ()
      else sql (\<lambda>db. (Inr (), db\<lparr>tb_items :=
        fold put_item (map (\<lambda>item. stored_item db (NewSQLItem (json_time db) item)) (first_rows ItemId items)) (tb_items db)\<rparr>)))"

definition BatchGetItems :: "string list \<Rightarrow> Item list data_io" where
  "BatchGetItems itemIds =
     (if itemIds = [] then io_return []
      else sql (\<lambda>db. (scan_rows scan_item (filter (\<lambda>r. row_ItemId r \<in> set itemIds) (tb_items db)), db)))"

definition DeleteItem :: "string \<Rightarrow> unit data_io" where
  "DeleteItem itemId =
     io_bind (if itemId = [] then io_fail missing_where
              else sql (\<lambda>db. (Inr (), db\<lparr>tb_items := filter (\<lambda>r. row_ItemId r \<noteq> itemId) (tb_items db)\<rparr>))) (\<lambda>_.
       sql (\<lambda>db. (Inr (), db\<lparr>tb_feedback := filter (\<lambda>f. key_ItemId f \<noteq> itemId) (tb_feedback db)\<rparr>)))"

definition not_found :: "string \<Rightarrow> string \<Rightarrow> go_fail" where
  "not_found kind key = Error (key @ '': '' @ kind @ '' not found'')"

definition data_GetItem :: "string \<Rightarrow> Item data_io" where
  "data_GetItem itemId = sql (\<lambda>db.
     (case filter (\<lambda>r. row_ItemId r = itemId) (tb_items db) of
        r # _ \<Rightarrow> scan_item r | [] \<Rightarrow> Inl (not_found ''item'' itemId), db))"

text \<open>The assignments of the patch. A patch of categories is \<^verbatim>\<open>nil\<close> or a slice; one of labels is \<^verbatim>\<open>nil\<close> or a document.\<close>

definition patch_item :: "DataDatabase \<Rightarrow> ItemPatch \<Rightarrow> SQLItem \<Rightarrow> SQLItem" where
  "patch_item db patch r = r\<lparr>
     row_IsHidden := (case ip_IsHidden patch of None \<Rightarrow> row_IsHidden r | Some b \<Rightarrow> b),
     row_Categories := (case ip_Categories patch of None \<Rightarrow> row_Categories r | Some cs \<Rightarrow> strings_json cs),
     row_Comment := (case ip_Comment patch of None \<Rightarrow> row_Comment r | Some c \<Rightarrow> c),
     row_Labels := (if ip_Labels patch = JNull then row_Labels r else marshal_any (json_time db) (ip_Labels patch)),
     row_Timestamp := (case ip_Timestamp patch of None \<Rightarrow> row_Timestamp r | Some t \<Rightarrow> round_time db t)\<rparr>"

definition ModifyItem :: "string \<Rightarrow> ItemPatch \<Rightarrow> unit data_io" where
  "ModifyItem itemId patch =
     (if ip_IsHidden patch = None \<and> ip_Categories patch = None \<and> ip_Labels patch = JNull \<and> ip_Comment patch = None \<and>
         ip_Timestamp patch = None
      then io_return ()
      else if itemId = [] then io_fail missing_where
      else sql (\<lambda>db. (Inr (), db\<lparr>tb_items := map (\<lambda>r. if row_ItemId r = itemId then patch_item db patch r else r) (tb_items db)\<rparr>)))"

text \<open>One row more than asked for is read; it becomes the cursor of the next page.\<close>

definition next_page :: "('a \<Rightarrow> string) \<Rightarrow> int \<Rightarrow> 'a list \<Rightarrow> go_fail + string \<times> 'a list" where
  "next_page key n rows =
     (if int (length rows) = int64 (n + 1)
      then rbind (slice_get rows (int (length rows) - 1)) (\<lambda>last. Inr (b64_encode (key last), take (length rows - 1) rows))
      else Inr ([], rows))"

definition opt_le :: "'k :: linorder option \<Rightarrow> 'k \<Rightarrow> bool" where
  "opt_le bound x \<longleftrightarrow> (case bound of None \<Rightarrow> True | Some b \<Rightarrow> b \<le> x)"

definition opt_ge :: "'k :: linorder option \<Rightarrow> 'k \<Rightarrow> bool" where
  "opt_ge bound x \<longleftrightarrow> (case bound of None \<Rightarrow> True | Some b \<Rightarrow> x \<le> b)"

definition GetItems :: "string \<Rightarrow> int \<Rightarrow> int option \<Rightarrow> (string \<times> Item list) data_io" where
  "GetItems cursor n timeLimit =
     io_bind (io_lift (b64_decode cursor)) (\<lambda>cursorItem.
     io_bind (sql (\<lambda>db. (scan_rows scan_item (limited 0 (int64 (n + 1)) (sort_key row_ItemId
       (filter (\<lambda>r. (cursorItem = [] \<or> cursorItem \<le> row_ItemId r) \<and> opt_le timeLimit (row_Timestamp r)) (tb_items db)))), db)))
       (\<lambda>items. io_lift (next_page ItemId n items)))"

text \<open>\<^verbatim>\<open>json_contains\<close> as the repository registers it for SQLite (\<^verbatim>\<open>storage/scheme.go\<close>); on arrays of strings the operators of
  MySQL and Postgres agree with it.\<close>

definition json_elements :: "json \<Rightarrow> go_fail + json list" where
  "json_elements j = (case j of JArr js \<Rightarrow> Inr js | JNull \<Rightarrow> Inr [] | _ \<Rightarrow> type_error)"

definition unhashable :: "json \<Rightarrow> bool" where
  "unhashable j \<longleftrightarrow> (case j of JArr _ \<Rightarrow> True | JObj _ \<Rightarrow> True | _ \<Rightarrow> False)"

fun all_elements :: "json list \<Rightarrow> json list \<Rightarrow> go_fail + bool" where
  "all_elements elements [] = Inr True"
| "all_elements elements (e # es) =
     (if unhashable e then Inl (Panic ''hash of unhashable type'')
      else if e \<in> set elements then all_elements elements es else Inr False)"

definition json_contains :: "json \<Rightarrow> json \<Rightarrow> go_fail + bool" where
  "json_contains a b = rbind (json_elements a) (\<lambda>j1. rbind (json_elements b) (\<lambda>j2.
     if list_ex unhashable j1 then Inl (Panic ''hash of unhashable type'') else all_elements j1 j2))"

definition latest_match :: "string list \<Rightarrow> SQLItem \<Rightarrow> go_fail + bool" where
  "latest_match categories r =
     (if row_IsHidden r then Inr False
      else if categories = [] then Inr True else json_contains (row_Categories r) (strings_json categories))"

definition filter_rows :: "('r \<Rightarrow> go_fail + bool) \<Rightarrow> 'r list \<Rightarrow> go_fail + 'r list" where
  "filter_rows p rows = fold_res (\<lambda>r acc. rbind (p r) (\<lambda>b. Inr (if b then acc @ [r] else acc))) rows []"

definition newer_row :: "SQLItem \<Rightarrow> SQLItem \<Rightarrow> bool" where
  "newer_row a b \<longleftrightarrow> row_Timestamp b < row_Timestamp a"

definition GetLatestItems :: "int \<Rightarrow> string list \<Rightarrow> Item list data_io" where
  "GetLatestItems n categories = sql (\<lambda>db.
     (rbind (filter_rows (latest_match categories) (tb_items db)) (\<lambda>rows.
        scan_rows scan_item (limited 0 n (sort_slice newer_row rows))), db))"

text \<open>A stream: the batches the channel delivers, and the error the other channel reports at the end. The channels only
  carry the batches from the goroutine to the reader.\<close>

type_synonym 'a stream_result = "'a list list \<times> go_fail option"

fun stream_rows :: "('r \<Rightarrow> go_fail + 'a) \<Rightarrow> int \<Rightarrow> 'r list \<Rightarrow> 'a list \<Rightarrow> 'a stream_result" where
  "stream_rows scan batchSize [] buf = (if buf \<noteq> [] then [buf] else [], None)"
| "stream_rows scan batchSize (r # rs) buf =
     (case scan r of Inl e \<Rightarrow> ([], Some e)
      | Inr x \<Rightarrow> if int (length (buf @ [x])) = batchSize
                 then (case stream_rows scan batchSize rs [] of (bs, e) \<Rightarrow> ((buf @ [x]) # bs, e))
                 else stream_rows scan batchSize rs (buf @ [x]))"

definition stream_query :: "(DataDatabase \<Rightarrow> 'r \<Rightarrow> go_fail + 'a) \<Rightarrow> int \<Rightarrow> (DataDatabase \<Rightarrow> 'r list) \<Rightarrow> DataDatabase \<Rightarrow> 'a stream_result \<times> DataDatabase" where
  "stream_query scan batchSize query db =
     (case sql (\<lambda>db. (Inr (query db), db)) db of
        (Inl e, db') \<Rightarrow> (([], Some e), db')
      | (Inr rows, db') \<Rightarrow>
          (if batchSize < 0 then ([], Some (Panic ''makeslice: cap out of range'')) else stream_rows (scan db) batchSize rows [], db'))"

definition GetItemStream :: "int \<Rightarrow> int option \<Rightarrow> DataDatabase \<Rightarrow> Item stream_result \<times> DataDatabase" where
  "GetItemStream batchSize timeLimit =
     stream_query (\<lambda>_. scan_item) batchSize (\<lambda>db. filter (\<lambda>r. opt_le timeLimit (row_Timestamp r)) (tb_items db))"

definition GetItemFeedback :: "int \<Rightarrow> string \<Rightarrow> string list \<Rightarrow> Feedback list data_io" where
  "GetItemFeedback now itemId feedbackTypes = sql (\<lambda>db.
     (scan_rows (scan_feedback db) (filter (\<lambda>f. fb_Timestamp f \<le> now \<and> key_ItemId f = itemId \<and>
        (feedbackTypes = [] \<or> key_FeedbackType f \<in> set feedbackTypes)) (tb_feedback db)), db))"

section \<open>Users\<close>

definition put_user :: "SQLUser \<Rightarrow> SQLUser list \<Rightarrow> SQLUser list" where
  "put_user row = upsert (\<lambda>x. row_UserId x = row_UserId row)
     (\<lambda>x. x\<lparr>row_user_Labels := row_user_Labels row, row_user_Comment := row_user_Comment row\<rparr>) row"

definition BatchInsertUsers :: "User list \<Rightarrow> unit data_io" where
  "BatchInsertUsers users =
     (if users = [] then io_return ()
      else sql (\<lambda>db. (Inr (), db\<lparr>tb_users :=
        fold put_user (map (NewSQLUser (json_time db)) (first_rows UserId users)) (tb_users db)\<rparr>)))"

definition DeleteUser :: "string \<Rightarrow> unit data_io" where
  "DeleteUser userId =
     io_bind (if userId = [] then io_fail missing_where
              else sql (\<lambda>db. (Inr (), db\<lparr>tb_users := filter (\<lambda>r. row_UserId r \<noteq> userId) (tb_users db)\<rparr>))) (\<lambda>_.
       sql (\<lambda>db. (Inr (), db\<lparr>tb_feedback := filter (\<lambda>f. key_UserId f \<noteq> userId) (tb_feedback db)\<rparr>)))"

definition data_GetUser :: "string \<Rightarrow> User data_io" where
  "data_GetUser userId = sql (\<lambda>db.
     (case filter (\<lambda>r. row_UserId r = userId) (tb_users db) of
        r # _ \<Rightarrow> scan_user r | [] \<Rightarrow> Inl (not_found ''user'' userId), db))"

definition patch_user :: "DataDatabase \<Rightarrow> UserPatch \<Rightarrow> SQLUser \<Rightarrow> SQLUser" where
  "patch_user db patch r = r\<lparr>
     row_user_Comment := (case up_Comment patch of None \<Rightarrow> row_user_Comment r | Some c \<Rightarrow> c),
     row_user_Labels := (if up_Labels patch = JNull then row_user_Labels r else marshal_any (json_time db) (up_Labels patch))\<rparr>"

definition ModifyUser :: "string \<Rightarrow> UserPatch \<Rightarrow> unit data_io" where
  "ModifyUser userId patch =
     (if up_Labels patch = JNull \<and> up_Comment patch = None then io_return ()
      else if userId = [] then io_fail missing_where
      else sql (\<lambda>db. (Inr (), db\<lparr>tb_users := map (\<lambda>r. if row_UserId r = userId then patch_user db patch r else r) (tb_users db)\<rparr>)))"

definition GetUsers :: "string \<Rightarrow> int \<Rightarrow> (string \<times> User list) data_io" where
  "GetUsers cursor n =
     io_bind (io_lift (b64_decode cursor)) (\<lambda>cursorUser.
     io_bind (sql (\<lambda>db. (scan_rows scan_user (limited 0 (int64 (n + 1)) (sort_key row_UserId
       (filter (\<lambda>r. cursorUser = [] \<or> cursorUser \<le> row_UserId r) (tb_users db)))), db)))
       (\<lambda>users. io_lift (next_page UserId n users)))"

definition GetUserStream :: "int \<Rightarrow> DataDatabase \<Rightarrow> User stream_result \<times> DataDatabase" where
  "GetUserStream batchSize = stream_query (\<lambda>_. scan_user) batchSize tb_users"

section \<open>Feedback\<close>

definition FeedbackTypeExpressionToSQL :: "FeedbackTypeExpression \<Rightarrow> Feedback \<Rightarrow> bool" where
  "FeedbackTypeExpressionToSQL e f =
     (case expr_type e of
        Less \<Rightarrow> key_FeedbackType f = ex_FeedbackType e \<and> fless (fb_Value f) (ex_Value e)
      | LessOrEqual \<Rightarrow> key_FeedbackType f = ex_FeedbackType e \<and> fle (fb_Value f) (ex_Value e)
      | Greater \<Rightarrow> key_FeedbackType f = ex_FeedbackType e \<and> fless (ex_Value e) (fb_Value f)
      | GreaterOrEqual \<Rightarrow> key_FeedbackType f = ex_FeedbackType e \<and> fle (ex_Value e) (fb_Value f)
      | ExprNone \<Rightarrow> key_FeedbackType f = ex_FeedbackType e)"

definition types_match :: "FeedbackTypeExpression list \<Rightarrow> Feedback \<Rightarrow> bool" where
  "types_match es f \<longleftrightarrow> es = [] \<or> list_ex (\<lambda>e. FeedbackTypeExpressionToSQL e f) es"

definition GetUserFeedback :: "string \<Rightarrow> int option \<Rightarrow> FeedbackTypeExpression list \<Rightarrow> Feedback list data_io" where
  "GetUserFeedback userId endTime feedbackTypes = sql (\<lambda>db.
     (scan_rows (scan_feedback db) (filter (\<lambda>f. opt_ge (map_option (convertTimeZone (sql_driver db)) endTime) (fb_Timestamp f) \<and>
        key_UserId f = userId \<and> types_match feedbackTypes f) (tb_feedback db)), db))"

text \<open>The users (or items) of a batch that the call does not insert itself are looked up one by one.\<close>

definition keep_known :: "(DataDatabase \<Rightarrow> string \<Rightarrow> bool) \<Rightarrow> string list \<Rightarrow> string list \<Rightarrow> string list data_io" where
  "keep_known known ids = io_fold (\<lambda>i acc.
     io_bind (sql (\<lambda>db. (Inr (known db i), db))) (\<lambda>found. io_return (if found then acc else removeAll i acc))) ids"

definition known_user :: "DataDatabase \<Rightarrow> string \<Rightarrow> bool" where
  "known_user db u \<longleftrightarrow> u \<in> row_UserId ` set (tb_users db)"

definition known_item :: "DataDatabase \<Rightarrow> string \<Rightarrow> bool" where
  "known_item db i \<longleftrightarrow> i \<in> row_ItemId ` set (tb_items db)"

definition new_user :: "string \<Rightarrow> SQLUser" where
  "new_user u = \<lparr>row_UserId = u, row_user_Labels = JNull, row_user_Comment = []\<rparr>"

definition new_item :: "string \<Rightarrow> SQLItem" where
  "new_item i = \<lparr>row_ItemId = i, row_IsHidden = False, row_Categories = JNull, row_Timestamp = zero_time, row_Labels = JNull, row_Comment = []\<rparr>"

definition insert_users :: "string list \<Rightarrow> unit data_io" where
  "insert_users us = sql (\<lambda>db. (Inr (), db\<lparr>tb_users :=
     fold (\<lambda>row. upsert (\<lambda>x. row_UserId x = row_UserId row) (\<lambda>x. x) row) (map new_user us) (tb_users db)\<rparr>))"

definition insert_items :: "string list \<Rightarrow> unit data_io" where
  "insert_items is = sql (\<lambda>db. (Inr (), db\<lparr>tb_items :=
     fold (\<lambda>row. upsert (\<lambda>x. row_ItemId x = row_ItemId row) (\<lambda>x. x) row) (map (\<lambda>i. stored_item db (new_item i)) is) (tb_items db)\<rparr>))"

definition fkey :: "'r FeedbackKey_scheme \<Rightarrow> string list" where
  "fkey f = [key_FeedbackType f, key_UserId f, key_ItemId f]"

definition feedback_rows :: "string list \<Rightarrow> string list \<Rightarrow> Feedback list \<Rightarrow> Feedback list" where
  "feedback_rows us is feedback =
     map (\<lambda>f. f\<lparr>fb_Updated := fb_Timestamp f\<rparr>)
       (first_rows fkey (filter (\<lambda>f. key_UserId f \<in> set us \<and> key_ItemId f \<in> set is) feedback))"

definition stored_feedback :: "DataDatabase \<Rightarrow> Feedback \<Rightarrow> Feedback" where
  "stored_feedback db f =
     f\<lparr>fb_Value := round_value db (fb_Value f), fb_Timestamp := round_time db (fb_Timestamp f), fb_Updated := round_time db (fb_Updated f)\<rparr>"

definition overwrite_feedback :: "Feedback \<Rightarrow> Feedback \<Rightarrow> Feedback" where
  "overwrite_feedback new old = old\<lparr>fb_Timestamp := fb_Timestamp new, fb_Updated := fb_Updated new, fb_Comment := fb_Comment new,
     fb_Value := fb_Value new\<rparr>"

definition merge_feedback :: "DataDatabase \<Rightarrow> Feedback \<Rightarrow> Feedback \<Rightarrow> Feedback" where
  "merge_feedback db new old = old\<lparr>fb_Value := round_value db (fadd (fb_Value old) (fb_Value new)),
     fb_Timestamp := min (fb_Timestamp old) (fb_Timestamp new), fb_Updated := max (fb_Updated old) (fb_Updated new),
     fb_Comment := fb_Comment new\<rparr>"

definition put_feedback :: "bool \<Rightarrow> DataDatabase \<Rightarrow> Feedback \<Rightarrow> Feedback list \<Rightarrow> Feedback list" where
  "put_feedback overwrite db row = upsert (\<lambda>x. fkey x = fkey row)
     (if overwrite then overwrite_feedback row else merge_feedback db row) row"

text \<open>\<open>slice\<close> is the order in which a set hands out its elements.\<close>

definition BatchInsertFeedback :: "(string list \<Rightarrow> string list) \<Rightarrow> Feedback list \<Rightarrow> bool \<Rightarrow> bool \<Rightarrow> bool \<Rightarrow> unit data_io" where
  "BatchInsertFeedback slice feedback insertUser insertItem overwrite =
     (if feedback = [] then io_return ()
      else
        let users = remdups (map key_UserId feedback); items = remdups (map key_ItemId feedback)
        in io_bind (if insertUser then io_bind (insert_users (slice users)) (\<lambda>_. io_return users)
                    else keep_known known_user (slice users) users) (\<lambda>us.
           io_bind (if insertItem then io_bind (insert_items (slice items)) (\<lambda>_. io_return items)
                    else keep_known known_item (slice items) items) (\<lambda>is.
           let rows = feedback_rows us is feedback
           in if rows = [] then io_return ()
              else sql (\<lambda>db. (Inr (), db\<lparr>tb_feedback :=
                fold (put_feedback overwrite db) (map (stored_feedback db) rows) (tb_feedback db)\<rparr>)))))"

text \<open>The cursor is the JSON text of a key: \<open>marshal_key\<close> and \<open>unmarshal_key\<close> are \<^verbatim>\<open>jsonutil.Marshal\<close> and \<^verbatim>\<open>Unmarshal\<close> on it. Keys are
  compared column by column.\<close>

definition GetFeedback :: "(FeedbackKey \<Rightarrow> string) \<Rightarrow> (string \<Rightarrow> go_fail + FeedbackKey) \<Rightarrow> string \<Rightarrow> int \<Rightarrow> int option \<Rightarrow> int option \<Rightarrow>
    string list \<Rightarrow> (string \<times> Feedback list) data_io" where
  "GetFeedback marshal_key unmarshal_key cursor n beginTime endTime feedbackTypes =
     io_bind (io_lift (b64_decode cursor)) (\<lambda>buf.
     io_bind (if buf = [] then io_return None else io_bind (io_lift (unmarshal_key buf)) (\<lambda>k. io_return (Some k))) (\<lambda>cursorKey.
     io_bind (sql (\<lambda>db. (scan_rows (scan_feedback db) (limited 0 (int64 (n + 1)) (sort_key fkey
       (filter (\<lambda>f. opt_le (map_option fkey cursorKey) (fkey f) \<and>
          (feedbackTypes = [] \<or> key_FeedbackType f \<in> set feedbackTypes) \<and>
          opt_le (map_option (convertTimeZone (sql_driver db)) beginTime) (fb_Timestamp f) \<and>
          opt_ge (map_option (convertTimeZone (sql_driver db)) endTime) (fb_Timestamp f)) (tb_feedback db)))), db)))
       (\<lambda>feedbacks. io_lift (next_page (\<lambda>f. marshal_key (FeedbackKey.truncate f)) n feedbacks))))"

definition scan_match :: "SQLDriver \<Rightarrow> ScanOptions \<Rightarrow> Feedback \<Rightarrow> bool" where
  "scan_match driver scan f \<longleftrightarrow> types_match (FeedbackTypes scan) f \<and>
     opt_le (map_option (convertTimeZone driver) (BeginTime scan)) (fb_Timestamp f) \<and>
     opt_ge (map_option (convertTimeZone driver) (EndTime scan)) (fb_Timestamp f) \<and>
     opt_le (BeginUserId scan) (key_UserId f) \<and> opt_ge (EndUserId scan) (key_UserId f) \<and>
     opt_le (BeginItemId scan) (key_ItemId f) \<and> opt_ge (EndItemId scan) (key_ItemId f)"

definition GetFeedbackStream :: "int \<Rightarrow> ScanOption option list \<Rightarrow> DataDatabase \<Rightarrow> Feedback stream_result \<times> DataDatabase" where
  "GetFeedbackStream batchSize scanOptions =
     (let scan = NewScanOptions scanOptions
      in stream_query scan_feedback batchSize (\<lambda>db.
           let rows = filter (scan_match (sql_driver db) scan) (tb_feedback db)
           in if OrderByItemId scan then sort_key key_ItemId rows else sort_key fkey rows))"

definition GetUserItemFeedback :: "string \<Rightarrow> string \<Rightarrow> string list \<Rightarrow> Feedback list data_io" where
  "GetUserItemFeedback userId itemId feedbackTypes = sql (\<lambda>db.
     (scan_rows (scan_feedback db) (filter (\<lambda>f. key_UserId f = userId \<and> key_ItemId f = itemId \<and>
        (feedbackTypes = [] \<or> key_FeedbackType f \<in> set feedbackTypes)) (tb_feedback db)), db))"

definition DeleteUserItemFeedback :: "string \<Rightarrow> string \<Rightarrow> string list \<Rightarrow> int data_io" where
  "DeleteUserItemFeedback userId itemId feedbackTypes = sql (\<lambda>db.
     let hit = (\<lambda>f. key_UserId f = userId \<and> key_ItemId f = itemId \<and> (feedbackTypes = [] \<or> key_FeedbackType f \<in> set feedbackTypes))
     in (Inr (int (length (filter hit (tb_feedback db)))), db\<lparr>tb_feedback := filter (\<lambda>f. \<not> hit f) (tb_feedback db)\<rparr>))"

section \<open>Counts\<close>

text \<open>MySQL and Postgres answer with the server's estimate; the conversion of a float64 to an integer truncates.\<close>

definition trunc :: "rat \<Rightarrow> int" where
  "trunc q = (if q < 0 then \<lceil>q\<rceil> else \<lfloor>q\<rfloor>)"

definition count_table :: "(string \<Rightarrow> string) \<Rightarrow> (DataDatabase \<Rightarrow> nat) \<Rightarrow> int data_io" where
  "count_table table rows = sql (\<lambda>db.
     (Inr (case sql_driver db of
             MySQL \<Rightarrow> estimated_rows db (table (TablePrefix db))
           | Postgres \<Rightarrow> max (trunc (reltuples db (table (TablePrefix db)))) 0
           | SQLite \<Rightarrow> int (rows db)), db))"

definition CountUsers :: "int data_io" where
  "CountUsers = count_table UsersTable (\<lambda>db. length (tb_users db))"

definition CountItems :: "int data_io" where
  "CountItems = count_table ItemsTable (\<lambda>db. length (tb_items db))"

definition CountFeedback :: "int data_io" where
  "CountFeedback = count_table FeedbackTable (\<lambda>db. length (tb_feedback db))"

definition empty_data :: "SQLDriver \<Rightarrow> (int \<Rightarrow> int) \<Rightarrow> (fl \<Rightarrow> fl) \<Rightarrow> (fl \<Rightarrow> fl) \<Rightarrow> bool list \<Rightarrow> DataDatabase" where
  "empty_data d rt rv rd fs = \<lparr>sql_driver = d, db_faults = fs, round_time = rt, tb_items = [], tb_users = [], tb_feedback = [],
     round_value = rv, read_value = rd, json_time = (\<lambda>_. []), TablePrefix = [], estimated_rows = (\<lambda>_. 0), reltuples = (\<lambda>_. 0)\<rparr>"

end
