(* ===== verification/Data_Properties.thy ===== *)
theory Data_Properties
  imports Data_Store
begin

text \<open>
  What holds of the data store: the keys of the tables stay unique and the JSON columns well typed through every sequence of calls, so no
  read fails to decode; feedback refers to known users and items; pages read by cursor and streams deliver every
  row once; inserted feedback merges with what is stored.
\<close>

section \<open>The tables as keyed tables\<close>

interpretation items: keyed_table row_ItemId
  "\<lambda>row x. x\<lparr>row_IsHidden := row_IsHidden row, row_Categories := row_Categories row, row_Timestamp := row_Timestamp row,
     row_Labels := row_Labels row, row_Comment := row_Comment row\<rparr>" put_item
  by unfold_locales (auto simp: put_item_def)

interpretation users: keyed_table row_UserId
  "\<lambda>row x. x\<lparr>row_user_Labels := row_user_Labels row, row_user_Comment := row_user_Comment row\<rparr>" put_user
  by unfold_locales (auto simp: put_user_def)

interpretation feedbacks: keyed_table "fkey :: Feedback \<Rightarrow> string list"
  "\<lambda>row. if overwrite then overwrite_feedback row else merge_feedback db row" "put_feedback overwrite db" for overwrite db
  by unfold_locales (auto simp: put_feedback_def fkey_def overwrite_feedback_def merge_feedback_def)

interpretation new_items: keyed_table row_ItemId "\<lambda>row x. x" "\<lambda>row. upsert (\<lambda>x. row_ItemId x = row_ItemId row) (\<lambda>x. x) row"
  by unfold_locales auto

interpretation new_users: keyed_table row_UserId "\<lambda>row x. x" "\<lambda>row. upsert (\<lambda>x. row_UserId x = row_UserId row) (\<lambda>x. x) row"
  by unfold_locales auto

section \<open>Typed tables\<close>

definition typed_strings :: "json \<Rightarrow> bool" where
  "typed_strings j \<longleftrightarrow> (case j of JArr js \<Rightarrow> list_all is_JStr js | JNull \<Rightarrow> True | _ \<Rightarrow> False)"

text \<open>A document without instants: what JSON text can express.\<close>

function json_text :: "json \<Rightarrow> bool" where
  "json_text (JTime t) = False"
| "json_text (JArr js) = (\<forall>j\<in>set js. json_text j)"
| "json_text (JObj kvs) = (\<forall>kv\<in>set kvs. json_text (snd kv))"
| "json_text JNull = True"
| "json_text (JBool b) = True"
| "json_text (JNum q) = True"
| "json_text (JStr s) = True"
  by pat_completeness auto
termination
proof (relation "measure size")
  show "(snd kv, JObj kvs) \<in> measure size" if "kv \<in> set kvs" for kvs kv
  proof -
    have "size (snd kv) \<le> size_prod (\<lambda>_. 0) size kv" by (cases kv) simp
    with size_list_estimation'[OF that, of "size (snd kv)" "size_prod (\<lambda>_. 0) size"] show ?thesis by simp
  qed
qed (auto simp: less_Suc_eq_le size_list_estimation')

lemma json_text_marshal [simp]: "json_text (marshal_any tx j)"
  by (induction tx j rule: marshal_any.induct) (auto split: prod.splits)

lemma typed_strings_json [simp]: "typed_strings (strings_json ss)" "typed_strings JNull"
  by (auto simp: typed_strings_def strings_json_def list_all_iff is_JStr_def)

definition row_typed :: "SQLItem \<Rightarrow> bool" where
  "row_typed r \<longleftrightarrow> typed_strings (row_Categories r) \<and> json_text (row_Labels r)"

definition data_ok :: "DataDatabase \<Rightarrow> bool" where
  "data_ok db \<longleftrightarrow> distinct (map row_ItemId (tb_items db)) \<and> distinct (map row_UserId (tb_users db)) \<and>
     distinct (map fkey (tb_feedback db)) \<and> (\<forall>r\<in>set (tb_items db). row_typed r) \<and>
     (\<forall>r\<in>set (tb_users db). json_text (row_user_Labels r))"

lemma data_ok_empty [simp]: "data_ok (empty_data d rt rv rd fs)"
  by (simp add: data_ok_def empty_data_def)

lemma data_ok_faults: "data_ok db \<Longrightarrow> data_ok (db\<lparr>db_faults := fs\<rparr>)"
  by (simp add: data_ok_def)

lemmas keeps_data = keeps_sql[where P = data_ok, OF _ data_ok_faults]

text \<open>The calls of the interface that change tables.\<close>

datatype data_call =
    DoInsertItems "Item list" | RemoveItem string | PatchItem string ItemPatch
  | DoInsertUsers "User list" | RemoveUser string | PatchUser string UserPatch
  | DoInsertFeedback "string list \<Rightarrow> string list" "Feedback list" bool bool bool
  | RemoveFeedback string string "string list" | PurgeAll

fun data_exec :: "data_call \<Rightarrow> DataDatabase \<Rightarrow> DataDatabase" where
  "data_exec (DoInsertItems items) db = snd (BatchInsertItems items db)"
| "data_exec (RemoveItem i) db = snd (DeleteItem i db)"
| "data_exec (PatchItem i p) db = snd (ModifyItem i p db)"
| "data_exec (DoInsertUsers users) db = snd (BatchInsertUsers users db)"
| "data_exec (RemoveUser u) db = snd (DeleteUser u db)"
| "data_exec (PatchUser u p) db = snd (ModifyUser u p db)"
| "data_exec (DoInsertFeedback slice fs iu ii ow) db = snd (BatchInsertFeedback slice fs iu ii ow db)"
| "data_exec (RemoveFeedback u i ts) db = snd (DeleteUserItemFeedback u i ts db)"
| "data_exec PurgeAll db = snd (Purge_data db)"

lemma keeps_insert_items: "keeps data_ok (BatchInsertItems xs)"
proof -
  have "\<forall>r\<in>set (fold put_item (map (\<lambda>item. stored_item db (NewSQLItem (json_time db) item)) ys) (tb_items db)). row_typed r"
    if "data_ok db" for db ys
    by (rule items.puts_Ball) (use that in \<open>auto simp: data_ok_def row_typed_def stored_item_def NewSQLItem_def\<close>)
  then show ?thesis unfolding BatchInsertItems_def
    by (auto intro!: keeps_intro keeps_data) (auto simp: data_ok_def items.distinct_puts)
qed

lemma keeps_insert_users: "keeps data_ok (BatchInsertUsers xs)"
proof -
  have "\<forall>r\<in>set (fold put_user (map (NewSQLUser (json_time db)) ys) (tb_users db)). json_text (row_user_Labels r)"
    if "data_ok db" for db ys
    by (rule users.puts_Ball) (use that in \<open>auto simp: data_ok_def NewSQLUser_def\<close>)
  then show ?thesis unfolding BatchInsertUsers_def
    by (auto intro!: keeps_intro keeps_data) (auto simp: data_ok_def users.distinct_puts)
qed

lemma keeps_delete: "keeps data_ok (DeleteItem i)" "keeps data_ok (DeleteUser u)" "keeps data_ok (DeleteUserItemFeedback u i ts)"
  "keeps data_ok Purge_data"
  by (auto simp: DeleteItem_def DeleteUser_def DeleteUserItemFeedback_def Purge_data_def Let_def data_ok_def distinct_map_filter
      intro!: keeps_intro keeps_data)

lemma map_key_if: "(\<And>r. k (g r) = k r) \<Longrightarrow> map k (map (\<lambda>r. if P r then g r else r) rows) = map k rows"
  by simp

lemma keeps_modify_item: "keeps data_ok (ModifyItem i p)"
proof -
  have typed: "row_typed r \<Longrightarrow> row_typed (patch_item db p r)" for r db
    by (auto simp: row_typed_def patch_item_def split: option.splits)
  have "data_ok (db\<lparr>tb_items := map (\<lambda>r. if row_ItemId r = i then patch_item db p r else r) (tb_items db)\<rparr>)" if "data_ok db" for db
  proof -
    have "map row_ItemId (map (\<lambda>r. if row_ItemId r = i then patch_item db p r else r) (tb_items db)) = map row_ItemId (tb_items db)"
      by (rule map_key_if) (simp add: patch_item_def)
    with that show ?thesis unfolding data_ok_def by (simp del: map_map) (use typed in blast)
  qed
  then show ?thesis unfolding ModifyItem_def by (intro keeps_intro keeps_data) simp
qed

lemma keeps_modify_user: "keeps data_ok (ModifyUser u q)"
proof -
  have "data_ok (db\<lparr>tb_users := map (\<lambda>r. if row_UserId r = u then patch_user db q r else r) (tb_users db)\<rparr>)" if "data_ok db" for db
  proof -
    have "map row_UserId (map (\<lambda>r. if row_UserId r = u then patch_user db q r else r) (tb_users db)) = map row_UserId (tb_users db)"
      by (rule map_key_if) (simp add: patch_user_def)
    with that show ?thesis unfolding data_ok_def by (simp del: map_map) (auto simp: patch_user_def)
  qed
  then show ?thesis unfolding ModifyUser_def by (intro keeps_intro keeps_data) simp
qed

lemma keeps_new_ids: "keeps data_ok (insert_users us)" "keeps data_ok (insert_items is)"
proof -
  let ?users = "\<lambda>rows. fold (\<lambda>row. upsert (\<lambda>x. row_UserId x = row_UserId row) (\<lambda>x. x) row) (map new_user us) rows"
  have "\<forall>r\<in>set (?users rows). json_text (row_user_Labels r)" if "\<forall>r\<in>set rows. json_text (row_user_Labels r)" for rows
    by (rule new_users.puts_Ball) (use that in \<open>auto simp: new_user_def\<close>)
  then show "keeps data_ok (insert_users us)" unfolding insert_users_def
    by (auto simp: data_ok_def new_users.distinct_puts intro!: keeps_data)
  let ?items = "\<lambda>db rows. fold (\<lambda>row. upsert (\<lambda>x. row_ItemId x = row_ItemId row) (\<lambda>x. x) row) (map (\<lambda>i. stored_item db (new_item i)) is) rows"
  have "\<forall>r\<in>set (?items db rows). row_typed r" if "\<forall>r\<in>set rows. row_typed r" for rows db
    by (rule new_items.puts_Ball) (use that in \<open>auto simp: row_typed_def stored_item_def new_item_def\<close>)
  then show "keeps data_ok (insert_items is)" unfolding insert_items_def
    by (auto simp: data_ok_def new_items.distinct_puts intro!: keeps_data)
qed

lemma keeps_insert_feedback: "keeps data_ok (BatchInsertFeedback slice fs iu ii ow)"
proof -
  have "keeps data_ok (keep_known known ids acc)" for known ids acc
    by (auto simp: keep_known_def intro!: keeps_intro keeps_data)
  then show ?thesis unfolding BatchInsertFeedback_def Let_def
    by (auto simp: data_ok_def feedbacks.distinct_puts intro!: keeps_intro keeps_new_ids keeps_data)
qed

lemma data_ok_exec: "data_ok db \<Longrightarrow> data_ok (data_exec c db)"
  by (cases c) (auto intro: keepsD keeps_insert_items keeps_insert_users keeps_delete keeps_modify_item keeps_modify_user keeps_insert_feedback)

lemma data_ok_calls: "data_ok db \<Longrightarrow> data_ok (fold data_exec calls db)"
  by (induction calls arbitrary: db) (auto intro: data_ok_exec)

section \<open>Reading\<close>

definition strings_of :: "json \<Rightarrow> string list" where
  "strings_of j = (case j of JArr js \<Rightarrow> map (\<lambda>x. case x of JStr s \<Rightarrow> s | _ \<Rightarrow> []) js | _ \<Rightarrow> [])"

definition item_of :: "SQLItem \<Rightarrow> Item" where
  "item_of r = \<lparr>ItemId = row_ItemId r, item_IsHidden = row_IsHidden r, item_Categories = strings_of (row_Categories r),
     item_Timestamp = row_Timestamp r, item_Labels = row_Labels r, item_Comment = row_Comment r\<rparr>"

definition user_of :: "SQLUser \<Rightarrow> User" where
  "user_of r = \<lparr>UserId = row_UserId r, user_Labels = row_user_Labels r, user_Comment = row_user_Comment r\<rparr>"

lemma ids_of [simp]: "ItemId (item_of r) = row_ItemId r" "UserId (user_of u) = row_UserId u"
  by (simp_all add: item_of_def user_of_def)

lemma fold_res_snoc:
  "\<forall>r\<in>set rows. f r = Inr (g r) \<Longrightarrow> fold_res (\<lambda>r acc. rbind (f r) (\<lambda>x. Inr (acc @ [x]))) rows acc = Inr (acc @ map g rows)"
  by (induction rows arbitrary: acc) auto

lemma scan_rows_typed: "\<forall>r\<in>set rows. scan r = Inr (g r) \<Longrightarrow> scan_rows scan rows = Inr (map g rows)"
  using fold_res_snoc[of rows scan g "[]"] by (simp add: scan_rows_def)

lemma is_JStr_iff: "is_JStr j \<longleftrightarrow> (\<exists>s. j = JStr s)"
  by (cases j) (simp_all add: is_JStr_def)

lemma dec_strings_typed: "typed_strings j \<Longrightarrow> dec_strings j old = Inr (strings_of j)"
proof (cases j)
  case (JArr js)
  assume "typed_strings j"
  then have "\<forall>x\<in>set js. dec_string x [] = Inr (case x of JStr s \<Rightarrow> s | _ \<Rightarrow> [])"
    using JArr by (force simp: typed_strings_def list_all_iff is_JStr_iff)
  then have "fold_res (\<lambda>j acc. rbind (dec_string j []) (\<lambda>x. Inr (acc @ [x]))) js [] = Inr ([] @ map (\<lambda>x. case x of JStr s \<Rightarrow> s | _ \<Rightarrow> []) js)"
    by (rule fold_res_snoc)
  then show ?thesis using JArr by (simp add: dec_each_def strings_of_def)
qed (auto simp: typed_strings_def strings_of_def)

lemma scan_item_typed: "row_typed r \<Longrightarrow> scan_item r = Inr (item_of r)"
  by (simp add: scan_item_def row_typed_def dec_strings_typed item_of_def)

lemma scan_items: "data_ok db \<Longrightarrow> set rows \<subseteq> set (tb_items db) \<Longrightarrow> scan_rows scan_item rows = Inr (map item_of rows)"
  by (rule scan_rows_typed) (auto simp: data_ok_def scan_item_typed)

lemma scan_users: "scan_rows scan_user rows = Inr (map user_of rows)"
  by (rule scan_rows_typed) (auto simp: scan_user_def user_of_def)

definition read_back :: "DataDatabase \<Rightarrow> Feedback \<Rightarrow> Feedback" where
  "read_back db f = f\<lparr>fb_Value := read_value db (fb_Value f)\<rparr>"

lemma read_back_simps [simp]:
  "key_FeedbackType (read_back db f) = key_FeedbackType f" "key_UserId (read_back db f) = key_UserId f" "key_ItemId (read_back db f) = key_ItemId f"
  "fb_Timestamp (read_back db f) = fb_Timestamp f" "fkey (read_back db f) = fkey f"
  "FeedbackKey.truncate (read_back db f) = FeedbackKey.truncate f"
  by (simp_all add: read_back_def fkey_def FeedbackKey.defs)

lemma scan_feedbacks: "scan_rows (scan_feedback db) rows = Inr (map (read_back db) rows)"
  using scan_rows_typed[of rows "scan_feedback db" "read_back db"] by (auto simp: scan_feedback_def read_back_def)

lemma filter_rows_ok: "\<forall>r\<in>set rows. p r = Inr (q r) \<Longrightarrow> filter_rows p rows = Inr (filter q rows)"
proof -
  have "\<forall>r\<in>set rows. p r = Inr (q r) \<Longrightarrow>
    fold_res (\<lambda>r acc. rbind (p r) (\<lambda>b. Inr (if b then acc @ [r] else acc))) rows acc = Inr (acc @ filter q rows)" for acc
    by (induction rows arbitrary: acc) auto
  then show "\<forall>r\<in>set rows. p r = Inr (q r) \<Longrightarrow> filter_rows p rows = Inr (filter q rows)" by (simp add: filter_rows_def)
qed

lemma all_elements_strings: "all_elements es (map JStr qs) = Inr (JStr ` set qs \<subseteq> set es)"
  by (induction qs) (auto simp: unhashable_def)

lemma json_contains_typed: "typed_strings j \<Longrightarrow> json_contains j (strings_json qs) = Inr (set qs \<subseteq> set (strings_of j))"
proof (cases j)
  case (JArr js)
  assume t: "typed_strings j"
  then have js: "\<forall>x\<in>set js. \<exists>s. x = JStr s" using JArr by (simp add: typed_strings_def list_all_iff is_JStr_iff)
  then have "\<not> list_ex unhashable js" by (auto simp: list_ex_iff unhashable_def)
  moreover have "set (strings_of j) = {s. JStr s \<in> set js}" using js JArr by (force simp: strings_of_def image_iff)
  ultimately show ?thesis using JArr all_elements_strings[of js qs]
    by (auto simp: json_contains_def json_elements_def strings_json_def)
qed (use all_elements_strings[of "[]" qs] in \<open>auto simp: json_contains_def json_elements_def strings_json_def typed_strings_def strings_of_def\<close>)

definition latest_hit :: "string list \<Rightarrow> SQLItem \<Rightarrow> bool" where
  "latest_hit cats r \<longleftrightarrow> \<not> row_IsHidden r \<and> set cats \<subseteq> set (strings_of (row_Categories r))"

lemma latest_match_typed: "row_typed r \<Longrightarrow> latest_match cats r = Inr (latest_hit cats r)"
  by (simp add: latest_match_def latest_hit_def row_typed_def json_contains_typed)

lemma stream_rows_typed:
  assumes "\<forall>r\<in>set rows. scan r = Inr (g r)"
  shows "snd (stream_rows scan b rows buf) = None \<and> concat (fst (stream_rows scan b rows buf)) = buf @ map g rows \<and>
    (\<forall>x\<in>set (fst (stream_rows scan b rows buf)). x \<noteq> []) \<and>
    (int (length buf) < b \<longrightarrow> (\<forall>x\<in>set (fst (stream_rows scan b rows buf)). int (length x) \<le> b))"
  using assms
proof (induction scan b rows buf rule: stream_rows.induct)
  case (2 scan b r rs buf)
  then have g: "scan r = Inr (g r)" by simp
  show ?case
  proof (cases "int (length (buf @ [g r])) = b")
    case True
    with 2(1)[OF g True] 2(3) g show ?thesis by (auto split: prod.splits)
  next
    case False
    with 2(2)[OF g False] 2(3) g show ?thesis by auto
  qed
qed auto

text \<open>What the reads return when no statement fails.\<close>

lemma BatchGetItems_run:
  assumes "data_ok db" and "db_faults db = []"
  shows "BatchGetItems ids db = (Inr (map item_of (filter (\<lambda>r. row_ItemId r \<in> set ids) (tb_items db))), db)"
  using assms scan_items[OF assms(1), of "filter (\<lambda>r. row_ItemId r \<in> set ids) (tb_items db)"]
  by (auto simp: BatchGetItems_def sql_no_fault io_return_def)

lemma data_GetItem_run:
  assumes "data_ok db" and "db_faults db = []"
  shows "data_GetItem i db = (case find (\<lambda>r. row_ItemId r = i) (tb_items db) of
    None \<Rightarrow> Inl (not_found ''item'' i) | Some r \<Rightarrow> Inr (item_of r), db)"
proof (cases "find (\<lambda>r. row_ItemId r = i) (tb_items db)")
  case (Some r)
  then have "row_typed r" using assms(1) by (auto simp: data_ok_def find_key_iff)
  with Some assms show ?thesis by (simp add: data_GetItem_def sql_no_fault filter_key data_ok_def scan_item_typed)
qed (use assms in \<open>simp add: data_GetItem_def sql_no_fault filter_key data_ok_def\<close>)

lemma GetLatestItems_run:
  assumes "data_ok db" and "db_faults db = []"
  shows "GetLatestItems n cats db =
    (Inr (map item_of (limited 0 n (sort_slice newer_row (filter (latest_hit cats) (tb_items db))))), db)"
proof -
  have f: "filter_rows (latest_match cats) (tb_items db) = Inr (filter (latest_hit cats) (tb_items db))"
    by (rule filter_rows_ok) (use assms(1) in \<open>auto simp: data_ok_def latest_match_typed\<close>)
  have "set (limited 0 n (sort_slice newer_row (filter (latest_hit cats) (tb_items db)))) \<subseteq> set (tb_items db)"
    by (auto simp: limited_def Let_def dest: in_set_takeD)
  from scan_items[OF assms(1) this] f show ?thesis using assms(2) by (simp add: GetLatestItems_def sql_no_fault)
qed

lemma GetUserFeedback_run:
  assumes "db_faults db = []"
  shows "GetUserFeedback u t es db =
    (Inr (map (read_back db) (filter (\<lambda>f. opt_ge t (fb_Timestamp f) \<and> key_UserId f = u \<and> types_match es f) (tb_feedback db))), db)"
proof -
  have "map_option (convertTimeZone d) t = t" for d by (cases t) (simp_all add: convertTimeZone_def)
  then show ?thesis using assms by (simp add: GetUserFeedback_def sql_no_fault scan_feedbacks)
qed

section \<open>No read fails to decode\<close>

lemma limited_subset: "set (limited i n xs) \<subseteq> set xs"
  by (auto simp: limited_def Let_def dest: in_set_takeD in_set_dropD)

lemma GetItemStream_run:
  assumes "data_ok db" and "db_faults db = []" and "0 \<le> b"
  shows "\<exists>batches. GetItemStream b tlim db = ((batches, None), db) \<and>
    concat batches = map item_of (filter (\<lambda>r. opt_le tlim (row_Timestamp r)) (tb_items db)) \<and>
    (\<forall>x\<in>set batches. x \<noteq> [] \<and> (0 < b \<longrightarrow> int (length x) \<le> b))"
proof -
  let ?rows = "filter (\<lambda>r. opt_le tlim (row_Timestamp r)) (tb_items db)"
  have "\<forall>r\<in>set ?rows. scan_item r = Inr (item_of r)" using assms(1) by (auto simp: data_ok_def scan_item_typed)
  note st = stream_rows_typed[OF this, of b "[]"]
  have "GetItemStream b tlim db = (stream_rows scan_item b ?rows [], db)"
    using assms(2,3) by (simp add: GetItemStream_def stream_query_def sql_no_fault)
  then show ?thesis using st by (intro exI[of _ "fst (stream_rows scan_item b ?rows [])"]) (auto simp: prod_eq_iff)
qed

text \<open>C18. The store is well typed. However calls follow one another and whichever statements fail, identifiers and feedback keys
  stay unique and every JSON column holds a document of the column's type. So, when its statement does not fail, no read fails to decode a
  row: \<^verbatim>\<open>BatchGetItems\<close> returns exactly the requested items that exist, each once, \<^verbatim>\<open>GetLatestItems\<close> only visible items with all
  the categories asked for, and a stream delivers all items in batches no larger than the batch size.\<close>

theorem data_store_typed:
  assumes "db = fold data_exec calls (empty_data d rt rv rd fs)"
  shows "data_ok db \<and> (db_faults db = [] \<longrightarrow>
    (\<exists>items. BatchGetItems ids db = (Inr items, db) \<and> distinct (map ItemId items) \<and>
       ItemId ` set items = set ids \<inter> row_ItemId ` set (tb_items db)) \<and>
    (\<exists>items. GetLatestItems n cats db = (Inr items, db) \<and> distinct (map ItemId items) \<and> (0 < n \<longrightarrow> int (length items) \<le> n) \<and>
       (\<forall>x\<in>set items. \<not> item_IsHidden x \<and> set cats \<subseteq> set (item_Categories x))) \<and>
    (0 \<le> b \<longrightarrow> (\<exists>batches. GetItemStream b tlim db = ((batches, None), db) \<and>
       map ItemId (concat batches) = map row_ItemId (filter (\<lambda>r. opt_le tlim (row_Timestamp r)) (tb_items db)) \<and>
       (\<forall>x\<in>set batches. x \<noteq> [] \<and> (0 < b \<longrightarrow> int (length x) \<le> b)))))"
proof (intro conjI impI)
  show ok: "data_ok db" unfolding assms by (rule data_ok_calls) simp
  assume nf: "db_faults db = []"
  have keys: "distinct (map row_ItemId (tb_items db))" using ok by (simp add: data_ok_def)
  show "\<exists>items. BatchGetItems ids db = (Inr items, db) \<and> distinct (map ItemId items) \<and>
       ItemId ` set items = set ids \<inter> row_ItemId ` set (tb_items db)"
    using BatchGetItems_run[OF ok nf, of ids] keys by (auto simp: comp_def distinct_map_filter image_image)
  let ?rows = "sort_slice newer_row (filter (latest_hit cats) (tb_items db))"
  have "mset ?rows = mset (filter (latest_hit cats) (tb_items db))" by simp
  then have "mset (map row_ItemId ?rows) = mset (map row_ItemId (filter (latest_hit cats) (tb_items db)))" by (metis mset_map)
  then have "distinct (map row_ItemId ?rows)" using distinct_map_filter[OF keys] by (metis mset_eq_imp_distinct_iff)
  then have dist: "distinct (map ItemId (map item_of (limited 0 n ?rows)))" by (auto simp: limited_def Let_def comp_def simp flip: take_map)
  have hit: "latest_hit cats r" if "r \<in> set (limited 0 n ?rows)" for r using limited_subset[of 0 n ?rows] that by auto
  have hits: "\<forall>x\<in>set (map item_of (limited 0 n ?rows)). \<not> item_IsHidden x \<and> set cats \<subseteq> set (item_Categories x)"
  proof
    fix x assume "x \<in> set (map item_of (limited 0 n ?rows))"
    then obtain r where r: "r \<in> set (limited 0 n ?rows)" "x = item_of r" by auto
    then show "\<not> item_IsHidden x \<and> set cats \<subseteq> set (item_Categories x)" using hit[OF r(1)] by (simp add: latest_hit_def item_of_def)
  qed
  have "0 < n \<longrightarrow> int (length (map item_of (limited 0 n ?rows))) \<le> n" by (auto simp: limited_def)
  with dist hits GetLatestItems_run[OF ok nf, of n cats]
  show "\<exists>items. GetLatestItems n cats db = (Inr items, db) \<and> distinct (map ItemId items) \<and> (0 < n \<longrightarrow> int (length items) \<le> n) \<and>
       (\<forall>x\<in>set items. \<not> item_IsHidden x \<and> set cats \<subseteq> set (item_Categories x))"
    by (intro exI[of _ "map item_of (limited 0 n ?rows)"]) (simp only: conj_absorb)
  assume "0 \<le> b"
  from GetItemStream_run[OF ok nf this, of tlim] obtain batches where b: "GetItemStream b tlim db = ((batches, None), db)"
    "concat batches = map item_of (filter (\<lambda>r. opt_le tlim (row_Timestamp r)) (tb_items db))"
    "\<forall>x\<in>set batches. x \<noteq> [] \<and> (0 < b \<longrightarrow> int (length x) \<le> b)" by blast
  have "map ItemId (concat batches) = map row_ItemId (filter (\<lambda>r. opt_le tlim (row_Timestamp r)) (tb_items db))"
    unfolding b(2) by simp
  with b(1,3) show "\<exists>batches. GetItemStream b tlim db = ((batches, None), db) \<and>
       map ItemId (concat batches) = map row_ItemId (filter (\<lambda>r. opt_le tlim (row_Timestamp r)) (tb_items db)) \<and>
       (\<forall>x\<in>set batches. x \<noteq> [] \<and> (0 < b \<longrightarrow> int (length x) \<le> b))" by blast
qed

definition a_shirt :: Item where
  "a_shirt = \<lparr>ItemId = ''shirt'', item_IsHidden = False, item_Categories = [''top''], item_Timestamp = 5, item_Labels = JTime 3, item_Comment = []\<rparr>"

definition shop_calls :: "data_call list" where
  "shop_calls = [DoInsertItems [a_shirt, a_shirt], PatchItem ''shirt'' \<lparr>ip_IsHidden = None, ip_Categories = Some [''top'', ''new''],
     ip_Timestamp = None, ip_Labels = JNull, ip_Comment = None\<rparr>]"

lemma shop_calls_run: "fold data_exec shop_calls (empty_data SQLite (\<lambda>t. t) (\<lambda>v. v) (\<lambda>v. v) []) =
  (empty_data SQLite (\<lambda>t. t) (\<lambda>v. v) (\<lambda>v. v) [])\<lparr>tb_items := [\<lparr>row_ItemId = ''shirt'', row_IsHidden = False,
     row_Categories = strings_json [''top'', ''new''], row_Timestamp = 5, row_Labels = JStr [], row_Comment = []\<rparr>]\<rparr>"
  by (simp add: shop_calls_def BatchInsertItems_def ModifyItem_def sql_def empty_data_def first_rows_def a_shirt_def put_item_def upsert_def
      stored_item_def NewSQLItem_def patch_item_def)

theorem data_store_typed_witness:
  "\<exists>items. GetLatestItems 3 [''new''] (fold data_exec shop_calls (empty_data SQLite (\<lambda>t. t) (\<lambda>v. v) (\<lambda>v. v) [])) =
     (Inr items, fold data_exec shop_calls (empty_data SQLite (\<lambda>t. t) (\<lambda>v. v) (\<lambda>v. v) [])) \<and> (\<forall>x\<in>set items. set [''new''] \<subseteq> set (item_Categories x))"
proof -
  let ?db = "fold data_exec shop_calls (empty_data SQLite (\<lambda>t. t) (\<lambda>v. v) (\<lambda>v. v) [])"
  have nf: "db_faults ?db = []" unfolding shop_calls_run by (simp add: empty_data_def)
  obtain items where "GetLatestItems 3 [''new''] ?db = (Inr items, ?db)" "\<forall>x\<in>set items. \<not> item_IsHidden x \<and> set [''new''] \<subseteq> set (item_Categories x)"
    using data_store_typed[OF refl, of shop_calls SQLite "\<lambda>t. t" "\<lambda>v. v" "\<lambda>v. v" "[]" "[]" 3 "[''new'']", THEN conjunct2, THEN mp, OF nf,
      THEN conjunct2, THEN conjunct1] by (elim exE conjE)
  then show ?thesis by (intro exI[of _ items]) simp
qed

section \<open>Reading page by page\<close>

text \<open>A client that follows the cursors. The fuel bounds the number of pages; running out of it is a failure.\<close>

fun read_pages :: "nat \<Rightarrow> (string \<Rightarrow> ('s, string \<times> 'a list) io) \<Rightarrow> string \<Rightarrow> ('s, 'a list) io" where
  "read_pages 0 page cursor = io_fail (Error ''still reading'')"
| "read_pages (Suc k) page cursor = io_bind (page cursor) (\<lambda>(next, xs).
     if next = [] then io_return xs else io_bind (read_pages k page next) (\<lambda>ys. io_return (xs @ ys)))"

definition page_answer :: "('a \<Rightarrow> string) \<Rightarrow> nat \<Rightarrow> 'a list \<Rightarrow> string \<times> 'a list" where
  "page_answer cursor n zs = (if n < length zs then (cursor (zs ! n), take n zs) else ([], zs))"

text \<open>The promise of a query by pages: \<open>rows s\<close> is the whole answer, a page holds its next \<open>n\<close> rows, and the cursor names the row
  after them.\<close>

locale cursor_pages =
  fixes inv :: "'s \<Rightarrow> bool"
    and rows :: "'s \<Rightarrow> 'a list"
    and cursor :: "'a \<Rightarrow> string"
    and page :: "int \<Rightarrow> string \<Rightarrow> ('s, string \<times> 'a list) io"
  assumes first_page: "inv s \<Longrightarrow> 0 < n \<Longrightarrow> int n < 2 ^ 62 \<Longrightarrow> page (int n) [] s = (Inr (page_answer cursor n (rows s)), s)"
    and next_page: "inv s \<Longrightarrow> 0 < n \<Longrightarrow> int n < 2 ^ 62 \<Longrightarrow> rows s = xs @ x # ys \<Longrightarrow> xs \<noteq> [] \<Longrightarrow>
      page (int n) (cursor x) s = (Inr (page_answer cursor n (x # ys)), s)"
    and cursor_set: "inv s \<Longrightarrow> rows s = xs @ x # ys \<Longrightarrow> xs \<noteq> [] \<Longrightarrow> cursor x \<noteq> []"
begin

lemma read_rest:
  assumes "inv s" and "0 < n" and "int n < 2 ^ 62" and "rows s = xs @ zs" and "length zs < k"
    and "page (int n) c s = (Inr (page_answer cursor n zs), s)"
  shows "read_pages k (page (int n)) c s = (Inr zs, s)"
  using assms
proof (induction k arbitrary: xs zs c)
  case (Suc k)
  show ?case
  proof (cases "n < length zs")
    case True
    let ?x = "zs ! n" and ?ys = "drop (Suc n) zs"
    have zs: "zs = take n zs @ ?x # ?ys" using True by (simp add: id_take_nth_drop[symmetric])
    then have split: "rows s = (xs @ take n zs) @ ?x # ?ys" using Suc.prems(4) by (metis append.assoc)
    have ne: "xs @ take n zs \<noteq> []" using True Suc.prems(2) by auto
    have rest: "read_pages k (page (int n)) (cursor ?x) s = (Inr (?x # ?ys), s)"
      by (rule Suc.IH[OF Suc.prems(1-3) split]) (use Suc.prems(2,5) True in simp, rule next_page[OF Suc.prems(1-3) split ne])
    have "cursor ?x \<noteq> []" by (rule cursor_set[OF Suc.prems(1) split ne])
    then show ?thesis using True rest Suc.prems(6) zs by (simp add: io_bind_def io_return_def page_answer_def)
  next
    case False
    then show ?thesis using Suc.prems(6) by (simp add: io_bind_def io_return_def page_answer_def)
  qed
qed simp

lemma read_all:
  assumes "inv s" and "0 < n" and "int n < 2 ^ 62" and "length (rows s) < k"
  shows "read_pages k (page (int n)) [] s = (Inr (rows s), s)"
  by (rule read_rest[where xs = "[]"]) (use assms first_page in auto)

end

text \<open>Rows sorted by distinct keys: those from a key on.\<close>

lemma next_page_take:
  assumes "0 < n" and "int n < 2 ^ 62"
  shows "next_page key (int n) (limited 0 (int64 (int n + 1)) zs) = Inr (page_answer (\<lambda>x. b64_encode (key x)) n zs)"
proof -
  have i: "int64 (int n + 1) = int (Suc n)" using assms(2) by simp
  show ?thesis
  proof (cases "n < length zs")
    case True
    then have "length (take (Suc n) zs) = Suc n" by simp
    then show ?thesis using True by (simp add: next_page_def limited_def page_answer_def slice_get_def i nat_add_distrib)
  next
    case False
    then show ?thesis by (simp add: next_page_def limited_def page_answer_def i)
  qed
qed

lemma sorted_from:
  fixes key :: "'r \<Rightarrow> 'k :: linorder"
  assumes "distinct (map key rows)" and "sort_key key rows = xs @ x # ys"
  shows "sort_key key (filter (\<lambda>r. key x \<le> key r) rows) = x # ys" and "xs \<noteq> [] \<Longrightarrow> \<exists>y\<in>set rows. key y < key x"
proof -
  have s: "sorted (map key (xs @ x # ys))" using assms(2) by (metis sorted_sort_key)
  have "mset (xs @ x # ys) = mset rows" using assms(2) by (metis mset_sort)
  then have m: "mset (map key (xs @ x # ys)) = mset (map key rows)" and set: "set (xs @ x # ys) = set rows"
    by (metis mset_map, metis mset_eq_setD)
  have d: "distinct (map key (xs @ x # ys))" using assms(1) m by (metis mset_eq_imp_distinct_iff)
  have less: "key y < key x" if "y \<in> set xs" for y
  proof -
    have "key y \<le> key x" using s that by (auto simp: sorted_append)
    moreover have "key y \<noteq> key x" using d that by (auto simp: image_iff)
    ultimately show ?thesis by simp
  qed
  moreover have "key x \<le> key y" if "y \<in> set ys" for y using s that by (auto simp: sorted_append)
  ultimately have "filter (\<lambda>r. key x \<le> key r) (xs @ x # ys) = x # ys" by (auto simp: filter_empty_conv not_le filter_id_conv)
  then show "sort_key key (filter (\<lambda>r. key x \<le> key r) rows) = x # ys" using assms(2) by (simp flip: filter_sort)
  show "\<exists>y\<in>set rows. key y < key x" if "xs \<noteq> []" using that less set by (cases xs) auto
qed

definition data_readable :: "DataDatabase \<Rightarrow> bool" where
  "data_readable db \<longleftrightarrow> data_ok db \<and> db_faults db = []"

definition item_rows :: "int option \<Rightarrow> DataDatabase \<Rightarrow> SQLItem list" where
  "item_rows tlim db = sort_key row_ItemId (filter (\<lambda>r. opt_le tlim (row_Timestamp r)) (tb_items db))"

lemma page_answer_map: "page_answer cursor n (map g zs) = map_prod id (map g) (page_answer (\<lambda>z. cursor (g z)) n zs)"
  by (auto simp: page_answer_def take_map)

text \<open>The law of the pages, for a query that sorts a table by a distinct key.\<close>

lemma select_page:
  fixes key :: "'r \<Rightarrow> 'k :: linorder"
  assumes "distinct (map key rows)" and "0 < n" and "int n < 2 ^ 62"
    and "(\<forall>r\<in>set rows. P r) \<and> sort_key key rows = zs \<or>
      (\<exists>xs x ys. (\<forall>r\<in>set rows. P r \<longleftrightarrow> key x \<le> key r) \<and> zs = x # ys \<and> sort_key key rows = xs @ x # ys)"
  shows "next_page ikey (int n) (map g (limited 0 (int64 (int n + 1)) (sort_key key (filter P rows)))) =
    Inr (page_answer (\<lambda>x. b64_encode (ikey x)) n (map g zs))"
proof -
  have zs: "sort_key key (filter P rows) = zs"
    using assms(4)
  proof (elim disjE exE conjE)
    fix xs x ys assume c: "\<forall>r\<in>set rows. P r \<longleftrightarrow> key x \<le> key r" "zs = x # ys" "sort_key key rows = xs @ x # ys"
    then have "filter P rows = filter (\<lambda>r. key x \<le> key r) rows" by (auto intro: filter_cong)
    then show ?thesis using sorted_from(1)[OF assms(1) c(3)] c(2) by simp
  qed (simp add: filter_id_conv)
  have "map g (limited 0 m zs) = limited 0 m (map g zs)" for m by (simp add: limited_def take_map)
  then show ?thesis unfolding zs by (simp add: next_page_take[OF assms(2,3)])
qed

text \<open>A cursor is empty or the identifier of a row that is not the first.\<close>

lemma from_cursor:
  fixes key :: "'r \<Rightarrow> string"
  assumes "distinct (map key rows)"
    and "c = [] \<and> sort_key key rows = zs \<or> (\<exists>xs x ys. c = key x \<and> zs = x # ys \<and> sort_key key rows = xs @ x # ys \<and> xs \<noteq> [])"
  shows "(\<forall>r\<in>set rows. c = [] \<or> c \<le> key r) \<and> sort_key key rows = zs \<or>
    (\<exists>xs x ys. (\<forall>r\<in>set rows. (c = [] \<or> c \<le> key r) \<longleftrightarrow> key x \<le> key r) \<and> zs = x # ys \<and> sort_key key rows = xs @ x # ys)"
  using assms(2)
proof (elim disjE exE conjE)
  fix xs x ys assume c: "c = key x" "zs = x # ys" "sort_key key rows = xs @ x # ys" "xs \<noteq> []"
  obtain y where "key y < key x" using sorted_from(2)[OF assms(1) c(3,4)] by blast
  then have "c \<noteq> []" using c(1) by auto
  with c show ?thesis by blast
qed auto

lemma GetItems_page:
  assumes "data_readable db" and "0 < n" and "int n < 2 ^ 62"
    and "c = [] \<and> item_rows tlim db = zs \<or> (\<exists>xs x ys. c = row_ItemId x \<and> zs = x # ys \<and> item_rows tlim db = xs @ x # ys \<and> xs \<noteq> [])"
  shows "GetItems (b64_encode c) (int n) tlim db = (Inr (page_answer (\<lambda>x. b64_encode (ItemId x)) n (map item_of zs)), db)"
proof -
  let ?all = "filter (\<lambda>r. opt_le tlim (row_Timestamp r)) (tb_items db)"
  let ?rows = "limited 0 (int64 (int n + 1)) (sort_key row_ItemId (filter (\<lambda>r. c = [] \<or> c \<le> row_ItemId r) ?all))"
  have ok: "data_ok db" "db_faults db = []" using assms(1) by (auto simp: data_readable_def)
  have "distinct (map row_ItemId ?all)" using ok(1) by (simp add: data_ok_def distinct_map_filter)
  from select_page[OF this assms(2,3) from_cursor[OF this assms(4)[unfolded item_rows_def]], of ItemId item_of]
  have page: "next_page ItemId (int n) (map item_of ?rows) = Inr (page_answer (\<lambda>x. b64_encode (ItemId x)) n (map item_of zs))" .
  have "scan_rows scan_item ?rows = Inr (map item_of ?rows)"
    by (rule scan_items[OF ok(1)], rule subset_trans[OF limited_subset]) auto
  then show ?thesis using page ok(2)
    by (simp add: GetItems_def io_bind_def io_lift_def sql_no_fault conj_commute)
qed

lemma map_item_split:
  assumes "map g rows = xs @ x # ys"
  shows "\<exists>as a bs. rows = as @ a # bs \<and> xs = map g as \<and> x = g a \<and> ys = map g bs"
  using assms by (auto simp: map_eq_append_conv map_eq_Cons_conv)

interpretation items_by_page: cursor_pages data_readable "\<lambda>db. map item_of (item_rows tlim db)" "\<lambda>x. b64_encode (ItemId x)"
  "\<lambda>n c. GetItems c n tlim" for tlim
proof unfold_locales
  show "GetItems [] (int n) tlim db = (Inr (page_answer (\<lambda>x. b64_encode (ItemId x)) n (map item_of (item_rows tlim db))), db)"
    if "data_readable db" "0 < n" "int n < 2 ^ 62" for db n
    using GetItems_page[OF that, of "[]" tlim] by simp
  fix db xs x ys assume db: "data_readable db" and xs: "map item_of (item_rows tlim db) = xs @ x # ys" "xs \<noteq> []"
  obtain as a bs where a: "item_rows tlim db = as @ a # bs" "xs = map item_of as" "x = item_of a" "ys = map item_of bs"
    using map_item_split[OF xs(1)] by blast
  show "GetItems (b64_encode (ItemId x)) (int n) tlim db = (Inr (page_answer (\<lambda>x. b64_encode (ItemId x)) n (x # ys)), db)"
    if "0 < n" "int n < 2 ^ 62" for n
  proof -
    have "as \<noteq> []" using a(2) xs(2) by simp
    then have "GetItems (b64_encode (row_ItemId a)) (int n) tlim db = (Inr (page_answer (\<lambda>x. b64_encode (ItemId x)) n (map item_of (a # bs))), db)"
      using a(1) by (intro GetItems_page[OF db that] disjI2) blast
    then show ?thesis using a(3,4) by simp
  qed
  have "distinct (map row_ItemId (filter (\<lambda>r. opt_le tlim (row_Timestamp r)) (tb_items db)))"
    using db by (simp add: data_readable_def data_ok_def distinct_map_filter)
  from sorted_from(2)[OF this, of as a bs] obtain y :: SQLItem where "row_ItemId y < row_ItemId a"
    using a xs(2) by (auto simp: item_rows_def)
  then show "b64_encode (ItemId x) \<noteq> []" using a(3) by auto
qed

definition user_rows :: "DataDatabase \<Rightarrow> SQLUser list" where
  "user_rows db = sort_key row_UserId (tb_users db)"

lemma GetUsers_page:
  assumes "data_readable db" and "0 < n" and "int n < 2 ^ 62"
    and "c = [] \<and> user_rows db = zs \<or> (\<exists>xs x ys. c = row_UserId x \<and> zs = x # ys \<and> user_rows db = xs @ x # ys \<and> xs \<noteq> [])"
  shows "GetUsers (b64_encode c) (int n) db = (Inr (page_answer (\<lambda>x. b64_encode (UserId x)) n (map user_of zs)), db)"
proof -
  have ok: "data_ok db" "db_faults db = []" using assms(1) by (auto simp: data_readable_def)
  have "distinct (map row_UserId (tb_users db))" using ok(1) by (simp add: data_ok_def)
  from select_page[OF this assms(2,3) from_cursor[OF this assms(4)[unfolded user_rows_def]], of UserId user_of]
  show ?thesis using ok(2) by (simp add: GetUsers_def io_bind_def io_lift_def sql_no_fault scan_users)
qed

interpretation users_by_page: cursor_pages data_readable "\<lambda>db. map user_of (user_rows db)" "\<lambda>x. b64_encode (UserId x)" "\<lambda>n c. GetUsers c n"
proof unfold_locales
  show "GetUsers [] (int n) db = (Inr (page_answer (\<lambda>x. b64_encode (UserId x)) n (map user_of (user_rows db))), db)"
    if "data_readable db" "0 < n" "int n < 2 ^ 62" for db n
    using GetUsers_page[OF that, of "[]"] by simp
  fix db xs x ys assume db: "data_readable db" and xs: "map user_of (user_rows db) = xs @ x # ys" "xs \<noteq> []"
  obtain as a bs where a: "user_rows db = as @ a # bs" "xs = map user_of as" "x = user_of a" "ys = map user_of bs"
    using map_item_split[OF xs(1)] by blast
  have as: "as \<noteq> []" using a(2) xs(2) by simp
  show "GetUsers (b64_encode (UserId x)) (int n) db = (Inr (page_answer (\<lambda>x. b64_encode (UserId x)) n (x # ys)), db)"
    if "0 < n" "int n < 2 ^ 62" for n
  proof -
    have "GetUsers (b64_encode (row_UserId a)) (int n) db = (Inr (page_answer (\<lambda>x. b64_encode (UserId x)) n (map user_of (a # bs))), db)"
      using a(1) as by (intro GetUsers_page[OF db that] disjI2) blast
    then show ?thesis using a(3,4) by simp
  qed
  have "distinct (map row_UserId (tb_users db))" using db by (simp add: data_readable_def data_ok_def)
  from sorted_from(2)[OF this, of as a bs] obtain y :: SQLUser where "row_UserId y < row_UserId a"
    using a as by (auto simp: user_rows_def)
  then show "b64_encode (UserId x) \<noteq> []" using a(3) by auto
qed

text \<open>Feedback: the cursor must be read as it was written.\<close>

definition keys_readable :: "(FeedbackKey \<Rightarrow> string) \<Rightarrow> (string \<Rightarrow> go_fail + FeedbackKey) \<Rightarrow> DataDatabase \<Rightarrow> bool" where
  "keys_readable marshal_key unmarshal_key db \<longleftrightarrow> data_readable db \<and>
     (\<forall>f\<in>set (tb_feedback db). marshal_key (FeedbackKey.truncate f) \<noteq> [] \<and>
        unmarshal_key (marshal_key (FeedbackKey.truncate f)) = Inr (FeedbackKey.truncate f))"

definition feedback_hit :: "int option \<Rightarrow> int option \<Rightarrow> string list \<Rightarrow> Feedback \<Rightarrow> bool" where
  "feedback_hit beginTime endTime types f \<longleftrightarrow> (types = [] \<or> key_FeedbackType f \<in> set types) \<and>
     opt_le beginTime (fb_Timestamp f) \<and> opt_ge endTime (fb_Timestamp f)"

definition feedback_list :: "int option \<Rightarrow> int option \<Rightarrow> string list \<Rightarrow> DataDatabase \<Rightarrow> Feedback list" where
  "feedback_list beginTime endTime types db = sort_key fkey (filter (feedback_hit beginTime endTime types) (tb_feedback db))"

lemma fkey_truncate [simp]: "fkey (FeedbackKey.truncate f) = fkey f"
  by (simp add: fkey_def FeedbackKey.truncate_def)

lemma GetFeedback_select:
  assumes "db_faults db = []" and "distinct (map fkey (tb_feedback db))" and "0 < n" and "int n < 2 ^ 62"
    and "b64_decode cursor = Inr buf" and "if buf = [] then k = None else \<exists>x. unmarshal_key buf = Inr x \<and> k = Some x"
    and "k = None \<and> feedback_list bt et types db = zs \<or>
      (\<exists>xs x ys. map_option fkey k = Some (fkey x) \<and> zs = x # ys \<and> feedback_list bt et types db = xs @ x # ys)"
  shows "GetFeedback marshal_key unmarshal_key cursor (int n) bt et types db =
    (Inr (page_answer (\<lambda>x. b64_encode (marshal_key (FeedbackKey.truncate x))) n (map (read_back db) zs)), db)"
proof -
  let ?all = "filter (feedback_hit bt et types) (tb_feedback db)"
  have tz: "map_option (convertTimeZone d) t = t" for d t by (cases t) (simp_all add: convertTimeZone_def)
  have dist: "distinct (map fkey ?all)" using assms(2) by (simp add: distinct_map_filter)
  have "(\<forall>f\<in>set ?all. opt_le (map_option fkey k) (fkey f)) \<and> sort_key fkey ?all = zs \<or>
      (\<exists>xs x ys. (\<forall>f\<in>set ?all. opt_le (map_option fkey k) (fkey f) \<longleftrightarrow> fkey x \<le> fkey f) \<and> zs = x # ys \<and> sort_key fkey ?all = xs @ x # ys)"
    using assms(7) unfolding feedback_list_def
  proof (elim disjE exE conjE)
    fix xs x ys assume "map_option fkey k = Some (fkey x)" "zs = x # ys" "sort_key fkey ?all = xs @ x # ys"
    then show ?thesis
      by - (rule disjI2, rule exI[of _ xs], rule exI[of _ x], rule exI[of _ ys], auto simp: opt_le_def)
  qed (simp add: opt_le_def)
  from select_page[OF dist assms(3,4) this, of "\<lambda>f. marshal_key (FeedbackKey.truncate f)" "read_back db"]
  have page: "next_page (\<lambda>f. marshal_key (FeedbackKey.truncate f)) (int n) (map (read_back db) (limited 0 (int64 (int n + 1))
      (sort_key fkey (filter (\<lambda>f. opt_le (map_option fkey k) (fkey f)) ?all)))) =
    Inr (page_answer (\<lambda>x. b64_encode (marshal_key (FeedbackKey.truncate x))) n (map (read_back db) zs))" by simp
  have key: "(if buf = [] then io_return None else io_bind (io_lift (unmarshal_key buf)) (\<lambda>k. io_return (Some k))) db = (Inr k, db)"
    using assms(6) by (auto simp: io_bind_def io_lift_def io_return_def split: if_splits)
  have sel: "filter (\<lambda>f. opt_le (map_option fkey k) (fkey f)) ?all = filter (\<lambda>f. opt_le (map_option fkey k) (fkey f) \<and>
          (types = [] \<or> key_FeedbackType f \<in> set types) \<and> opt_le bt (fb_Timestamp f) \<and> opt_ge et (fb_Timestamp f)) (tb_feedback db)"
    by (auto simp: feedback_hit_def intro!: filter_cong)
  show ?thesis using page key unfolding sel
    by (simp add: GetFeedback_def assms(1,5) io_bind_def io_lift_def sql_no_fault scan_feedbacks tz)
qed

interpretation feedback_by_page: cursor_pages "keys_readable marshal_key unmarshal_key"
  "\<lambda>db. map (read_back db) (feedback_list bt et types db)"
  "\<lambda>x. b64_encode (marshal_key (FeedbackKey.truncate x))" "\<lambda>n c. GetFeedback marshal_key unmarshal_key c n bt et types"
  for marshal_key unmarshal_key bt et types
proof unfold_locales
  have rd: "db_faults db = [] \<and> distinct (map fkey (tb_feedback db))" if "keys_readable marshal_key unmarshal_key db" for db
    using that by (auto simp: keys_readable_def data_readable_def data_ok_def)
  show "GetFeedback marshal_key unmarshal_key [] (int n) bt et types db =
      (Inr (page_answer (\<lambda>x. b64_encode (marshal_key (FeedbackKey.truncate x))) n (map (read_back db) (feedback_list bt et types db))), db)"
    if "keys_readable marshal_key unmarshal_key db" "0 < n" "int n < 2 ^ 62" for db n
    by (rule GetFeedback_select[where buf = "[]" and k = None]) (use rd[OF that(1)] that in \<open>auto simp: b64_decode_def\<close>)
  fix db xs x ys assume db: "keys_readable marshal_key unmarshal_key db"
    and xs: "map (read_back db) (feedback_list bt et types db) = xs @ x # ys" "xs \<noteq> []"
  obtain as a bs where a: "feedback_list bt et types db = as @ a # bs" "xs = map (read_back db) as" "x = read_back db a" "ys = map (read_back db) bs"
    using map_item_split[OF xs(1)] by blast
  have "a \<in> set (feedback_list bt et types db)" unfolding a(1) by simp
  then have "a \<in> set (tb_feedback db)" by (simp add: feedback_list_def)
  then have key: "marshal_key (FeedbackKey.truncate a) \<noteq> []" "unmarshal_key (marshal_key (FeedbackKey.truncate a)) = Inr (FeedbackKey.truncate a)"
    using db by (auto simp: keys_readable_def)
  then show "b64_encode (marshal_key (FeedbackKey.truncate x)) \<noteq> []" by (simp add: a(3))
  show "GetFeedback marshal_key unmarshal_key (b64_encode (marshal_key (FeedbackKey.truncate x))) (int n) bt et types db =
      (Inr (page_answer (\<lambda>x. b64_encode (marshal_key (FeedbackKey.truncate x))) n (x # ys)), db)" if "0 < n" "int n < 2 ^ 62" for n
  proof -
    have "GetFeedback marshal_key unmarshal_key (b64_encode (marshal_key (FeedbackKey.truncate a))) (int n) bt et types db =
        (Inr (page_answer (\<lambda>x. b64_encode (marshal_key (FeedbackKey.truncate x))) n (map (read_back db) (a # bs))), db)"
      by (rule GetFeedback_select[where buf = "marshal_key (FeedbackKey.truncate a)" and k = "Some (FeedbackKey.truncate a)"])
        (use rd[OF db] that key a(1) in auto)
    then show ?thesis by (simp add: a(3,4))
  qed
qed

lemma sorted_strict:
  fixes key :: "'r \<Rightarrow> 'k :: linorder"
  assumes "distinct (map key rows)"
  shows "sorted_wrt (<) (map key (sort_key key rows))"
proof -
  have "mset (map key (sort_key key rows)) = mset (map key rows)" by simp
  then have "distinct (map key (sort_key key rows))" using assms by (metis mset_eq_imp_distinct_iff)
  then show ?thesis by (simp add: strict_sorted_iff)
qed


definition two_rows :: DataDatabase where
  "two_rows = (empty_data SQLite (\<lambda>t. t) (\<lambda>v. v) (\<lambda>v. v) [])\<lparr>tb_items := [(new_item ''shoe''), (new_item ''hat'')],
     tb_users := [new_user ''ann''], tb_feedback :=
       [\<lparr>key_FeedbackType = ''like'', key_UserId = ''ann'', key_ItemId = ''hat'', fb_Value = Fin 1, fb_Timestamp = 3, fb_Updated = 3, fb_Comment = []\<rparr>]\<rparr>"

lemma two_rows_ok: "data_ok two_rows" "db_faults two_rows = []"
  by (simp_all add: two_rows_def data_ok_def empty_data_def new_item_def new_user_def row_typed_def)


section \<open>Inserting feedback\<close>

definition accepted :: "bool \<Rightarrow> bool \<Rightarrow> DataDatabase \<Rightarrow> Feedback \<Rightarrow> bool" where
  "accepted insertUser insertItem db f \<longleftrightarrow> (insertUser \<or> known_user db (key_UserId f)) \<and> (insertItem \<or> known_item db (key_ItemId f))"

definition feedback_at :: "DataDatabase \<Rightarrow> string list \<Rightarrow> Feedback option" where
  "feedback_at db k = find (\<lambda>f. fkey f = k) (tb_feedback db)"

definition set_order :: "(string list \<Rightarrow> string list) \<Rightarrow> bool" where
  "set_order slice \<longleftrightarrow> (\<forall>xs. set (slice xs) = set xs)"

lemma keep_known_run:
  assumes "db_faults db = []"
  shows "keep_known known ids acc db = (Inr (filter (\<lambda>i. i \<in> set ids \<longrightarrow> known db i) acc), db)"
proof (induction ids arbitrary: acc)
  case (Cons i ids)
  have "filter (\<lambda>j. j \<in> set ids \<longrightarrow> known db j) (if known db i then acc else removeAll i acc) =
      filter (\<lambda>j. j \<in> set (i # ids) \<longrightarrow> known db j) acc"
    by (induction acc) auto
  then show ?case using Cons assms by (simp add: keep_known_def io_bind_def io_return_def sql_no_fault)
qed (simp add: keep_known_def io_return_def)

lemma insert_ids_run:
  assumes "db_faults db = []"
  shows "\<exists>us. insert_users xs db = (Inr (), db\<lparr>tb_users := us\<rparr>) \<and> row_UserId ` set us = set xs \<union> row_UserId ` set (tb_users db)"
    and "\<exists>its. insert_items xs db = (Inr (), db\<lparr>tb_items := its\<rparr>) \<and> row_ItemId ` set its = set xs \<union> row_ItemId ` set (tb_items db)"
  using assms new_users.keys_puts[of "map new_user xs" "tb_users db"]
    new_items.keys_puts[of "map (\<lambda>i. stored_item db (new_item i)) xs" "tb_items db"]
  by (auto simp: insert_users_def insert_items_def sql_no_fault image_image new_user_def new_item_def stored_item_def)

lemma BatchInsertFeedback_run:
  assumes "db_faults db = []" and "set_order slice"
  shows "\<exists>us its. let db1 = db\<lparr>tb_users := us, tb_items := its\<rparr> in
    BatchInsertFeedback slice fs iu ii ow db = (Inr (), db1\<lparr>tb_feedback := fold (put_feedback ow db1) (map (stored_feedback db1)
      (map (\<lambda>f. f\<lparr>fb_Updated := fb_Timestamp f\<rparr>) (first_rows fkey (filter (accepted iu ii db) fs)))) (tb_feedback db)\<rparr>) \<and>
    row_UserId ` set us = (if iu then key_UserId ` set fs else {}) \<union> row_UserId ` set (tb_users db) \<and>
    row_ItemId ` set its = (if ii then key_ItemId ` set fs else {}) \<union> row_ItemId ` set (tb_items db)"
proof (cases "fs = []")
  case True
  then show ?thesis
    by (intro exI[of _ "tb_users db"] exI[of _ "tb_items db"]) (simp add: BatchInsertFeedback_def io_return_def first_rows_def)
next
  case False
  let ?users = "remdups (map key_UserId fs)" and ?items = "remdups (map key_ItemId fs)"
  let ?us' = "if iu then ?users else filter (known_user db) ?users"
  have slice: "set (slice xs) = set xs" for xs using assms(2) by (simp add: set_order_def)
  define m1 where "m1 = (if iu then io_bind (insert_users (slice ?users)) (\<lambda>_. io_return ?users)
        else keep_known known_user (slice ?users) ?users)"
  obtain us where us: "m1 db = (Inr ?us', db\<lparr>tb_users := us\<rparr>)"
      "row_UserId ` set us = (if iu then key_UserId ` set fs else {}) \<union> row_UserId ` set (tb_users db)"
  proof (cases iu)
    case True
    then show ?thesis using that insert_ids_run(1)[OF assms(1), of "slice ?users"] slice by (auto simp: m1_def io_bind_def io_return_def)
  next
    case no: False
    have "filter (\<lambda>i. i \<in> set (slice ?users) \<longrightarrow> known_user db i) ?users = filter (known_user db) ?users"
      by (rule filter_cong) (auto simp: slice)
    then show ?thesis using that[of "tb_users db"] no keep_known_run[OF assms(1)] by (simp add: m1_def)
  qed
  let ?db1 = "db\<lparr>tb_users := us\<rparr>"
  let ?is' = "if ii then ?items else filter (known_item db) ?items"
  have nf: "db_faults ?db1 = []" using assms(1) by simp
  define m2 where "m2 = (if ii then io_bind (insert_items (slice ?items)) (\<lambda>_. io_return ?items)
        else keep_known known_item (slice ?items) ?items)"
  obtain its where its: "m2 ?db1 = (Inr ?is', ?db1\<lparr>tb_items := its\<rparr>)"
      "row_ItemId ` set its = (if ii then key_ItemId ` set fs else {}) \<union> row_ItemId ` set (tb_items db)"
  proof (cases ii)
    case True
    then show ?thesis using that insert_ids_run(2)[OF nf, of "slice ?items"] slice by (auto simp: m1_def m2_def io_bind_def io_return_def)
  next
    case no: False
    have "filter (\<lambda>i. i \<in> set (slice ?items) \<longrightarrow> known_item ?db1 i) ?items = filter (known_item db) ?items"
      by (rule filter_cong) (auto simp: slice known_item_def)
    then show ?thesis using that[of "tb_items db"] no keep_known_run[OF nf] by (simp add: m2_def)
  qed
  have "filter (\<lambda>f. key_UserId f \<in> set ?us' \<and> key_ItemId f \<in> set ?is') fs = filter (accepted iu ii db) fs"
    by (rule filter_cong) (auto simp: accepted_def)
  then have rows: "feedback_rows ?us' ?is' fs = map (\<lambda>f. f\<lparr>fb_Updated := fb_Timestamp f\<rparr>) (first_rows fkey (filter (accepted iu ii db) fs))"
    by (simp only: feedback_rows_def)
  let ?db2 = "?db1\<lparr>tb_items := its\<rparr>"
  have b1: "io_bind m1 f db = f ?us' ?db1" for f by (rule io_bind_run) (rule us(1))
  have b2: "io_bind m2 f ?db1 = f ?is' ?db2" for f by (rule io_bind_run) (rule its(1))
  have nf2: "db_faults ?db2 = []" using assms(1) by simp
  let ?rows = "feedback_rows ?us' ?is' fs"
  have "BatchInsertFeedback slice fs iu ii ow db = (if ?rows = [] then io_return () else sql (\<lambda>db. (Inr (), db\<lparr>tb_feedback :=
                fold (put_feedback ow db) (map (stored_feedback db) ?rows) (tb_feedback db)\<rparr>))) ?db2"
    unfolding BatchInsertFeedback_def Let_def if_not_P[OF False] m1_def[symmetric] m2_def[symmetric] b1 b2 ..
  also have "\<dots> = (Inr (), ?db2\<lparr>tb_feedback := fold (put_feedback ow ?db2) (map (stored_feedback ?db2) ?rows) (tb_feedback db)\<rparr>)"
    using nf2 by (cases "?rows = []") (simp_all add: io_return_def sql_no_fault)
  finally show ?thesis unfolding rows Let_def using us(2) its(2)
    by (intro exI[of _ us] exI[of _ its]) simp
qed

text \<open>What is to be found under the key of an accepted entry \<open>f\<close> after the call, written out field by field: \<open>old\<close> is what was found before.\<close>

definition stored_now :: "bool \<Rightarrow> DataDatabase \<Rightarrow> Feedback \<Rightarrow> Feedback option \<Rightarrow> Feedback" where
  "stored_now ow db f old =
     (let v = round_value db (fb_Value f); t = round_time db (fb_Timestamp f)
      in case (if ow then None else old) of
           None \<Rightarrow> f\<lparr>fb_Value := v, fb_Timestamp := t, fb_Updated := t\<rparr>
         | Some x \<Rightarrow> f\<lparr>fb_Value := round_value db (fadd (fb_Value x) v),
             fb_Timestamp := (if fb_Timestamp x \<le> t then fb_Timestamp x else t),
             fb_Updated := (if fb_Updated x \<le> t then t else fb_Updated x)\<rparr>)"

lemma stored_now_puts:
  fixes f :: Feedback and db :: DataDatabase
  defines "new \<equiv> stored_feedback db (f\<lparr>fb_Updated := fb_Timestamp f\<rparr>)"
  shows "stored_now ow db f None = new"
    and "fkey x = fkey f \<Longrightarrow> stored_now ow db f (Some x) = (if ow then overwrite_feedback new x else merge_feedback db new x)"
  by (cases f; cases x; auto simp: new_def stored_now_def Let_def stored_feedback_def overwrite_feedback_def merge_feedback_def fkey_def
      min_def max_def)+

lemma find_map_key: "(\<And>x. k (g x) = k x) \<Longrightarrow> find (\<lambda>x. k x = c) (map g xs) = map_option g (find (\<lambda>x. k x = c) xs)"
  by (induction xs) auto

lemma find_holds: "find P xs = Some x \<Longrightarrow> P x"
  by (auto simp: find_Some_iff)

lemma find_filter: "find P (filter Q xs) = find (\<lambda>x. P x \<and> Q x) xs"
  by (induction xs) auto

lemma insert_feedback_tables:
  assumes "data_ok db" and "db_faults db = []" and "set_order slice"
    and "BatchInsertFeedback slice fs iu ii ow db = (Inr (), db')"
  shows "feedback_at db' k = (case find (\<lambda>f. fkey f = k \<and> accepted iu ii db f) fs of
      None \<Rightarrow> feedback_at db k | Some f \<Rightarrow> Some (stored_now ow db f (feedback_at db k)))"
    and "known_user db' u \<longleftrightarrow> known_user db u \<or> iu \<and> u \<in> key_UserId ` set fs"
    and "known_item db' i \<longleftrightarrow> known_item db i \<or> ii \<and> i \<in> key_ItemId ` set fs"
    and "data_ok db'" and "db_faults db' = []"
    and "fkey ` set (tb_feedback db') = fkey ` {f \<in> set fs. accepted iu ii db f} \<union> fkey ` set (tb_feedback db)"
proof -
  obtain us its where run: "db' = db\<lparr>tb_users := us, tb_items := its\<rparr>\<lparr>tb_feedback := fold (put_feedback ow (db\<lparr>tb_users := us, tb_items := its\<rparr>))
      (map (stored_feedback (db\<lparr>tb_users := us, tb_items := its\<rparr>))
      (map (\<lambda>f. f\<lparr>fb_Updated := fb_Timestamp f\<rparr>) (first_rows fkey (filter (accepted iu ii db) fs)))) (tb_feedback db)\<rparr>"
    and us: "row_UserId ` set us = (if iu then key_UserId ` set fs else {}) \<union> row_UserId ` set (tb_users db)"
    and its: "row_ItemId ` set its = (if ii then key_ItemId ` set fs else {}) \<union> row_ItemId ` set (tb_items db)"
    using BatchInsertFeedback_run[OF assms(2,3), of fs iu ii ow] assms(4) by (auto simp: Let_def)
  let ?db1 = "db\<lparr>tb_users := us, tb_items := its\<rparr>"
  let ?new = "\<lambda>f. stored_feedback db (f\<lparr>fb_Updated := fb_Timestamp f\<rparr>)"
  let ?rows = "map ?new (first_rows fkey (filter (accepted iu ii db) fs))"
  have key: "fkey (?new f) = fkey f" for f by (simp add: stored_feedback_def fkey_def)
  have same: "stored_feedback ?db1 = stored_feedback db" "put_feedback ow ?db1 = put_feedback ow db"
    by (rule ext, simp add: stored_feedback_def, rule ext, simp add: put_feedback_def merge_feedback_def[abs_def])
  have tb: "tb_feedback db' = fold (put_feedback ow db) ?rows (tb_feedback db)" using run by (simp add: same comp_def)
  have keys: "distinct (map fkey ?rows)" by (simp add: comp_def key distinct_first_rows)
  have "find (\<lambda>f. fkey f = k) ?rows = map_option ?new (find (\<lambda>f. fkey f = k \<and> accepted iu ii db f) fs)"
    by (simp only: find_map_key[of fkey ?new k, OF key] find_first_rows find_filter)
  then have at: "feedback_at db' k = (case map_option ?new (find (\<lambda>f. fkey f = k \<and> accepted iu ii db f) fs) of
      None \<Rightarrow> feedback_at db k | Some new \<Rightarrow> Some (case feedback_at db k of
        None \<Rightarrow> new | Some x \<Rightarrow> if ow then overwrite_feedback new x else merge_feedback db new x))"
    using feedbacks.find_puts[OF keys, of k ow db "tb_feedback db"] unfolding feedback_at_def tb by (simp split: option.splits)
  show "feedback_at db' k = (case find (\<lambda>f. fkey f = k \<and> accepted iu ii db f) fs of
      None \<Rightarrow> feedback_at db k | Some f \<Rightarrow> Some (stored_now ow db f (feedback_at db k)))"
  proof (cases "find (\<lambda>f. fkey f = k \<and> accepted iu ii db f) fs")
    case (Some f)
    have "fkey x = fkey f" if "feedback_at db k = Some x" for x
      using find_holds[OF that[unfolded feedback_at_def]] find_holds[OF Some] by simp
    then show ?thesis unfolding at Some by (cases "feedback_at db k") (simp_all add: stored_now_puts)
  qed (simp add: at)
  show "known_user db' u \<longleftrightarrow> known_user db u \<or> iu \<and> u \<in> key_UserId ` set fs"
    "known_item db' i \<longleftrightarrow> known_item db i \<or> ii \<and> i \<in> key_ItemId ` set fs" "db_faults db' = []"
    using run us its assms(2) by (auto simp: known_user_def known_item_def)
  show "data_ok db'" using keepsD[OF keeps_insert_feedback assms(1), of slice fs iu ii ow] assms(4) by simp
  have "fkey ` set ?rows = fkey ` set (first_rows fkey (filter (accepted iu ii db) fs))"
    unfolding set_map image_image key ..
  then show "fkey ` set (tb_feedback db') = fkey ` {f \<in> set fs. accepted iu ii db f} \<union> fkey ` set (tb_feedback db)"
    unfolding tb feedbacks.keys_puts by (simp add: first_rows_keys)
qed

text \<open>C9. What a batch of feedback does to the store. When no statement fails: the call succeeds; of several entries of the batch with one
  type, user and item the first counts; an entry of a user or item that is unknown and not to be inserted is ignored; a new entry is stored
  with the precision of the columns and its time as the time of the update; over an existing one it is written when overwriting is asked for, and otherwise the values
  are added, the earlier time and the later update kept and the new comment taken; every other entry is as before. The users and
  items of the batch are then known exactly if they were before or were to be inserted.\<close>

theorem feedback_inserted:
  assumes "data_ok db" and "db_faults db = []" and "set_order slice"
  shows "\<exists>db'. BatchInsertFeedback slice fs iu ii ow db = (Inr (), db') \<and> data_ok db' \<and>
    (\<forall>k. feedback_at db' k = (case find (\<lambda>f. fkey f = k \<and> accepted iu ii db f) fs of
       None \<Rightarrow> feedback_at db k | Some f \<Rightarrow> Some (stored_now ow db f (feedback_at db k)))) \<and>
    (\<forall>u. known_user db' u \<longleftrightarrow> known_user db u \<or> iu \<and> u \<in> key_UserId ` set fs) \<and>
    (\<forall>i. known_item db' i \<longleftrightarrow> known_item db i \<or> ii \<and> i \<in> key_ItemId ` set fs)"
proof -
  obtain db' where run: "BatchInsertFeedback slice fs iu ii ow db = (Inr (), db')"
    using BatchInsertFeedback_run[OF assms(2,3), of fs iu ii ow] by (auto simp: Let_def)
  then show ?thesis using insert_feedback_tables[OF assms run] by (intro exI[of _ db'] conjI allI)
qed

definition a_like :: "fl \<Rightarrow> int \<Rightarrow> string \<Rightarrow> Feedback" where
  "a_like v t i = \<lparr>key_FeedbackType = ''like'', key_UserId = ''ann'', key_ItemId = i, fb_Value = v, fb_Timestamp = t, fb_Updated = 0, fb_Comment = ''!''\<rparr>"

theorem feedback_inserted_witness:
  "\<exists>db'. BatchInsertFeedback (\<lambda>xs. xs) [a_like (Fin 2) 9 ''hat'', a_like (Fin 5) 1 ''gone''] False False False two_rows = (Inr (), db') \<and>
     feedback_at db' (fkey (a_like (Fin 2) 9 ''hat'')) = Some ((a_like (Fin 3) 3 ''hat'')\<lparr>fb_Updated := 9\<rparr>) \<and>
     feedback_at db' (fkey (a_like (Fin 5) 1 ''gone'')) = None"
proof -
  let ?fs = "[a_like (Fin 2) 9 ''hat'', a_like (Fin 5) 1 ''gone'']"
  have "set_order (\<lambda>xs. xs)" by (simp add: set_order_def)
  from feedback_inserted[OF two_rows_ok this, of ?fs False False False] obtain db' where
    db': "BatchInsertFeedback (\<lambda>xs. xs) ?fs False False False two_rows = (Inr (), db')"
      "\<And>k. feedback_at db' k = (case find (\<lambda>f. fkey f = k \<and> accepted False False two_rows f) ?fs of
         None \<Rightarrow> feedback_at two_rows k | Some f \<Rightarrow> Some (stored_now False two_rows f (feedback_at two_rows k)))" by auto
  have old: "feedback_at two_rows (fkey (a_like (Fin 2) 9 ''hat'')) = Some ((a_like (Fin 1) 3 ''hat'')\<lparr>fb_Updated := 3, fb_Comment := []\<rparr>)"
    "feedback_at two_rows (fkey (a_like (Fin 5) 1 ''gone'')) = None"
    by (simp_all add: feedback_at_def two_rows_def fkey_def a_like_def)
  have "rnd64 3 = Fin 3" by code_simp
  then have "feedback_at db' (fkey (a_like (Fin 2) 9 ''hat'')) = Some ((a_like (Fin 3) 3 ''hat'')\<lparr>fb_Updated := 9\<rparr>)"
    unfolding db'(2) old by (simp add: fkey_def a_like_def accepted_def known_user_def known_item_def two_rows_def new_item_def new_user_def
        stored_now_def empty_data_def)
  moreover have "feedback_at db' (fkey (a_like (Fin 5) 1 ''gone'')) = None"
    unfolding db'(2) old by (simp add: fkey_def a_like_def accepted_def known_user_def known_item_def two_rows_def new_item_def new_user_def)
  ultimately show ?thesis using db'(1) by blast
qed

section \<open>References\<close>

definition data_refs :: "DataDatabase \<Rightarrow> bool" where
  "data_refs db \<longleftrightarrow> (\<forall>f\<in>set (tb_feedback db). known_user db (key_UserId f) \<and> known_item db (key_ItemId f))"

fun call_ok :: "data_call \<Rightarrow> bool" where
  "call_ok (DoInsertFeedback slice fs iu ii ow) = set_order slice"
| "call_ok c = True"

lemma data_refs_keys:
  "data_refs db \<longleftrightarrow> (\<forall>k\<in>fkey ` set (tb_feedback db). known_user db (k ! 1) \<and> known_item db (k ! 2))"
  by (auto simp: data_refs_def fkey_def)

lemma image_key_if: "(\<And>r. k (g r) = k r) \<Longrightarrow> k ` set (map (\<lambda>r. if P r then g r else r) rows) = k ` set rows"
  unfolding set_map image_image by (rule image_cong) auto

lemma data_refs_exec:
  assumes "db_faults db = []" and "data_ok db" and "data_refs db" and "call_ok c"
  shows "db_faults (data_exec c db) = [] \<and> data_refs (data_exec c db)"
proof (cases c)
  case (DoInsertItems xs)
  then show ?thesis using assms(1,3)
    by (auto simp: BatchInsertItems_def io_return_def sql_no_fault data_refs_def known_user_def known_item_def items.keys_puts)
next
  case (DoInsertUsers xs)
  then show ?thesis using assms(1,3)
    by (auto simp: BatchInsertUsers_def io_return_def sql_no_fault data_refs_def known_user_def known_item_def users.keys_puts)
next
  case (RemoveItem i)
  then show ?thesis using assms(1,3)
    by (auto simp: DeleteItem_def io_bind_def io_fail_def sql_no_fault data_refs_def known_user_def known_item_def)
next
  case (RemoveUser u)
  then show ?thesis using assms(1,3)
    by (auto simp: DeleteUser_def io_bind_def io_fail_def sql_no_fault data_refs_def known_user_def known_item_def)
next
  case (PatchItem i p)
  have "row_ItemId ` set (map (\<lambda>r. if row_ItemId r = i then patch_item db p r else r) (tb_items db)) = row_ItemId ` set (tb_items db)"
    by (rule image_key_if) (simp add: patch_item_def)
  then show ?thesis using assms(1,3) PatchItem
    by (simp add: ModifyItem_def io_return_def io_fail_def sql_no_fault data_refs_def known_user_def known_item_def del: set_map)
next
  case (PatchUser u p)
  have "row_UserId ` set (map (\<lambda>r. if row_UserId r = u then patch_user db p r else r) (tb_users db)) = row_UserId ` set (tb_users db)"
    by (rule image_key_if) (simp add: patch_user_def)
  then show ?thesis using assms(1,3) PatchUser
    by (simp add: ModifyUser_def io_return_def io_fail_def sql_no_fault data_refs_def known_user_def known_item_def del: set_map)
next
  case (DoInsertFeedback slice fs iu ii ow)
  then have slice: "set_order slice" using assms(4) by simp
  obtain db' where run: "BatchInsertFeedback slice fs iu ii ow db = (Inr (), db')"
    using BatchInsertFeedback_run[OF assms(1) slice, of fs iu ii ow] by (auto simp: Let_def)
  note t = insert_feedback_tables[OF assms(2,1) slice run]
  have "data_refs db'" unfolding data_refs_keys t(6)
    using assms(3)[unfolded data_refs_keys] by (auto simp: t(2,3) accepted_def fkey_def)
  then show ?thesis using DoInsertFeedback run t(5) by simp
next
  case (RemoveFeedback u i ts)
  then show ?thesis using assms(1,3)
    by (auto simp: DeleteUserItemFeedback_def Let_def sql_no_fault data_refs_def known_user_def known_item_def)
next
  case PurgeAll
  then show ?thesis using assms(1) by (simp add: Purge_data_def io_bind_def sql_no_fault data_refs_def)
qed

text \<open>C19. Feedback never refers to nothing. As long as no statement fails, after every sequence of calls of the store (insertions, changes
  and deletions of items and users, insertions and deletions of feedback, purging) the user and the item of every stored feedback
  are in their tables. A failure between the two statements of \<^verbatim>\<open>DeleteItem\<close> breaks this: the item is gone and its feedback is
  kept.\<close>

theorem references_kept:
  "((\<forall>c\<in>set calls. call_ok c) \<longrightarrow> data_refs (fold data_exec calls (empty_data d rt rv rd []))) \<and>
   (\<exists>calls. (\<forall>c\<in>set calls. call_ok c) \<and> \<not> data_refs (fold data_exec calls (empty_data d rt rv rd [False, False, False, False, True])))"
proof (rule conjI)
  have "db_faults db = [] \<Longrightarrow> data_ok db \<Longrightarrow> data_refs db \<Longrightarrow> (\<forall>c\<in>set calls. call_ok c) \<Longrightarrow> data_refs (fold data_exec calls db)" for db
    by (induction calls arbitrary: db) (auto simp: data_refs_exec data_ok_exec)
  then show "(\<forall>c\<in>set calls. call_ok c) \<longrightarrow> data_refs (fold data_exec calls (empty_data d rt rv rd []))"
    by (simp add: empty_data_def data_refs_def data_ok_def)
  show "\<exists>calls. (\<forall>c\<in>set calls. call_ok c) \<and> \<not> data_refs (fold data_exec calls (empty_data d rt rv rd [False, False, False, False, True]))"
    by (intro exI[of _ "[DoInsertFeedback (\<lambda>xs. xs) [a_like (Fin 1) 1 ''hat''] True True False, RemoveItem ''hat'']"])
      (simp add: set_order_def BatchInsertFeedback_def insert_users_def insert_items_def io_bind_def io_return_def sql_def empty_data_def
        feedback_rows_def first_rows_def a_like_def upsert_def new_user_def new_item_def stored_item_def put_feedback_def stored_feedback_def
        DeleteItem_def data_refs_def known_item_def)
qed

theorem references_kept_witness:
  "data_refs (fold data_exec [DoInsertFeedback (\<lambda>xs. xs) [a_like (Fin 1) 1 ''hat''] True True False, RemoveItem ''hat''] (empty_data SQLite (\<lambda>t. t) (\<lambda>v. v) (\<lambda>v. v) []))"
proof -
  have "\<forall>c\<in>set [DoInsertFeedback (\<lambda>xs. xs) [a_like (Fin 1) 1 ''hat''] True True False, RemoveItem ''hat'']. call_ok c"
    by (simp add: set_order_def)
  then show ?thesis by (rule references_kept[THEN conjunct1, THEN mp])
qed

section \<open>Queries agree with the expressions\<close>

lemma FeedbackTypeExpressionToSQL_Match:
  "FeedbackTypeExpressionToSQL e f \<longleftrightarrow> expr_Match e (key_FeedbackType f) (fb_Value f)"
  by (auto simp: FeedbackTypeExpressionToSQL_def expr_Match_def split: ExprType.splits)

lemma filter_map_eq_iff:
  "map g (filter P xs) = filter Q (map g xs) \<longleftrightarrow> (\<forall>x\<in>set xs. P x \<longleftrightarrow> Q (g x))"
proof
  assume eq: "map g (filter P xs) = filter Q (map g xs)"
  have sub: "Q (g x)" if "x \<in> set xs" "P x" for x
  proof -
    have "g x \<in> set (filter Q (map g xs))" unfolding eq[symmetric] using that by simp
    then show ?thesis by simp
  qed
  let ?ys = "filter (Q \<circ> g) xs"
  have "filter P ?ys = filter P xs" using sub by (auto intro: filter_cong)
  moreover have "length (filter P xs) = length ?ys" using arg_cong[OF eq, of length] by (simp add: filter_map)
  ultimately have "P x" if "x \<in> set ?ys" for x using length_filter_less[OF that, of P] by force
  with sub show "\<forall>x\<in>set xs. P x \<longleftrightarrow> Q (g x)" by auto
next
  assume "\<forall>x\<in>set xs. P x \<longleftrightarrow> Q (g x)"
  then show "map g (filter P xs) = filter Q (map g xs)" unfolding filter_map
    by (intro arg_cong[where f = "map g"] filter_cong) simp_all
qed


text \<open>A MySQL store with one like whose value is the single-precision number nearest to 0.1; the driver reads it as the double 0.1.\<close>

definition mysql_rows :: DataDatabase where
  "mysql_rows = two_rows\<lparr>sql_driver := MySQL,
     round_value := (\<lambda>v. case v of Fin q \<Rightarrow> rnd32 q | _ \<Rightarrow> v),
     read_value := (\<lambda>v. if v = rnd32 (1 / 10) then rnd64 (1 / 10) else v),
     tb_feedback := [\<lparr>key_FeedbackType = ''like'', key_UserId = ''ann'', key_ItemId = ''hat'', fb_Value = rnd32 (1 / 10), fb_Timestamp = 3,
       fb_Updated = 3, fb_Comment = []\<rparr>]\<rparr>"


section \<open>Page sizes that are not positive\<close>

text \<open>With a page size of zero a non-empty table gives empty pages whose cursor stays where it is; with minus one an empty table
  makes the call panic.\<close>

theorem page_size_edge:
  assumes "data_ok db" and "db_faults db = []"
  shows "item_rows tlim db = r # rs \<Longrightarrow> GetItems [] 0 tlim db = (Inr (b64_encode (row_ItemId r), []), db)"
    and "item_rows tlim db = [] \<Longrightarrow> GetItems [] (- 1) tlim db = (Inl (Panic ''index out of range''), db)"
proof -
  let ?all = "filter (\<lambda>r. opt_le tlim (row_Timestamp r)) (tb_items db)"
  show "GetItems [] 0 tlim db = (Inr (b64_encode (row_ItemId r), []), db)" if "item_rows tlim db = r # rs"
  proof -
    have "r \<in> set (item_rows tlim db)" unfolding that by simp
    then have "r \<in> set (tb_items db)" by (simp add: item_rows_def)
    then have "scan_rows scan_item [r] = Inr [item_of r]" using scan_items[OF assms(1), of "[r]"] by simp
    then show ?thesis using that assms(2)
      by (simp add: GetItems_def b64_decode_def io_bind_def io_lift_def sql_no_fault item_rows_def limited_def next_page_def slice_get_def)
  qed
  show "GetItems [] (- 1) tlim db = (Inl (Panic ''index out of range''), db)" if "item_rows tlim db = []"
    using that assms(2)
    by (simp add: GetItems_def b64_decode_def io_bind_def io_lift_def sql_no_fault item_rows_def limited_def next_page_def slice_get_def
        scan_rows_def int64_def)
qed

end
