(* ===== verification/Shop_Stores.thy ===== *)
theory Shop_Stores
  imports Serving Data_Properties
begin

text \<open>
  The recommender over the SQL stores: the interfaces \<^verbatim>\<open>data.Database\<close> and \<^verbatim>\<open>cache.Database\<close> of \<^verbatim>\<open>logics/recommend.go\<close> are filled by the operations of
  \<^verbatim>\<open>storage/data/sql.go\<close> and \<^verbatim>\<open>storage/cache/sql.go\<close>. A world is a data store and a cache whose keys are unique, as every sequence of calls
  leaves them, and a clock. What the recommender assumes of its stores is shown here, and feedback is followed from its insertion to the recommendation.
\<close>

section \<open>Worlds\<close>

typedef shop_world = "{(db :: DataDatabase, c :: SQLDatabase, now :: int). data_ok db \<and> cache_ok c}"
  by (intro exI[of _ "(empty_data SQLite (\<lambda>t. t) (\<lambda>v. v) (\<lambda>v. v) [], empty_cache SQLite (\<lambda>t. t) None [], 0)"]) (simp add: cache_ok_def empty_cache_def)

definition data_of :: "shop_world \<Rightarrow> DataDatabase" where
  "data_of w = fst (Rep_shop_world w)"

definition cache_of :: "shop_world \<Rightarrow> SQLDatabase" where
  "cache_of w = fst (snd (Rep_shop_world w))"

definition time_of :: "shop_world \<Rightarrow> int" where
  "time_of w = snd (snd (Rep_shop_world w))"

definition mk_world :: "DataDatabase \<Rightarrow> SQLDatabase \<Rightarrow> int \<Rightarrow> shop_world" where
  "mk_world db c now = Abs_shop_world (db, c, now)"

lemma world_ok [simp]: "data_ok (data_of w)" "cache_ok (cache_of w)"
  using Rep_shop_world[of w] by (auto simp: data_of_def cache_of_def)

lemma mk_world_parts [simp]:
  assumes "data_ok db" and "cache_ok c"
  shows "data_of (mk_world db c now) = db" "cache_of (mk_world db c now) = c" "time_of (mk_world db c now) = now"
  using assms by (simp_all add: data_of_def cache_of_def time_of_def mk_world_def Abs_shop_world_inverse)

lemma mk_world_of [simp]: "mk_world (data_of w) (cache_of w) (time_of w) = w"
  by (simp add: data_of_def cache_of_def time_of_def mk_world_def Rep_shop_world_inverse)

definition on_data :: "'a data_io \<Rightarrow> (shop_world, 'a) io" where
  "on_data m w = (case m (data_of w) of (x, db') \<Rightarrow> (x, mk_world db' (cache_of w) (time_of w)))"

definition on_cache :: "'a sql_io \<Rightarrow> (shop_world, 'a) io" where
  "on_cache m w = (case m (cache_of w) of (x, c') \<Rightarrow> (x, mk_world (data_of w) c' (time_of w)))"

section \<open>The stores behind the interfaces\<close>

definition store_data_client :: "shop_world DataClient" where
  "store_data_client =
     \<lparr>dc_GetUserFeedback = (\<lambda>u t es. on_data (GetUserFeedback u t es)),
      dc_GetLatestItems = (\<lambda>n cats. on_data (GetLatestItems n cats)),
      dc_BatchGetItems = (\<lambda>ids. on_data (BatchGetItems ids))\<rparr>"

definition store_cache_client :: "shop_world CacheClient" where
  "store_cache_client =
     \<lparr>cc_SearchScores = (\<lambda>c b q i j. on_cache (SearchScores c b q i j)),
      cc_Get = (\<lambda>name w. case Get name (cache_of w) of (v, c') \<Rightarrow> (v, mk_world (data_of w) c' (time_of w))),
      cc_Set = (\<lambda>vs. on_cache (Set vs)),
      cc_AddScores = (\<lambda>c b ds. on_cache (AddScores c b ds)),
      cc_DeleteScores = (\<lambda>cs p. on_cache (DeleteScores cs p))\<rparr>"

definition over_stores :: "shop_world Env \<Rightarrow> bool" where
  "over_stores env \<longleftrightarrow> env_data env = store_data_client \<and> env_cache env = store_cache_client \<and> env_now env = time_of \<and>
     (\<forall>c u w xs w'. env_pull env c u w = (Inr xs, w') \<longrightarrow> distinct xs)"

lemma on_data_Inr: "on_data m w = (Inr x, w') \<longleftrightarrow> (\<exists>db'. m (data_of w) = (Inr x, db') \<and> w' = mk_world db' (cache_of w) (time_of w))"
  by (cases "m (data_of w)") (auto simp: on_data_def)

lemma on_cache_Inr: "on_cache m w = (Inr x, w') \<longleftrightarrow> (\<exists>c'. m (cache_of w) = (Inr x, c') \<and> w' = mk_world (data_of w) c' (time_of w))"
  by (cases "m (cache_of w)") (auto simp: on_cache_def)

lemma SearchScores_distinct:
  assumes "cache_ok c" and "SearchScores col b q lo hi c = (Inr xs, c')"
  shows "distinct (map sc_Id xs)"
proof -
  let ?hits = "filter (\<lambda>d. doc_Collection d = col \<and> doc_Subset d = b \<and> \<not> doc_IsHidden d \<and> set q \<subseteq> set (doc_Categories d)) (db_documents c)"
  let ?n = "if hi \<noteq> - 1 then hi - lo else 2 ^ 63 - 1"
  have xs: "xs = map from_document (limited lo ?n (sort_slice doc_greater ?hits))"
    using assms(2) by (auto simp: SearchScores_def dest!: sql_Inr)
  have "distinct (map doc_key ?hits)" using assms(1) by (simp add: cache_ok_def distinct_map_filter)
  then have "distinct (map doc_Id ?hits)" by (auto simp: distinct_map doc_key_def inj_on_def)
  moreover have "mset (map doc_Id (sort_slice doc_greater ?hits)) = mset (map doc_Id ?hits)" by simp
  ultimately have "distinct (map doc_Id (sort_slice doc_greater ?hits))" using mset_eq_imp_distinct_iff by blast
  then have "distinct (map doc_Id (limited lo ?n (sort_slice doc_greater ?hits)))"
    by (auto simp: limited_def Let_def distinct_drop simp flip: take_map drop_map)
  then show ?thesis unfolding xs by (simp add: comp_def from_document_def)
qed

lemma scan_rows_ids:
  assumes "scan_rows scan_item rows = Inr xs"
  shows "map ItemId xs = map row_ItemId rows"
proof -
  have step: "fold_res (\<lambda>r acc. rbind (scan_item r) (\<lambda>x. Inr (acc @ [x]))) rows acc = Inr xs \<Longrightarrow> map ItemId xs = map ItemId acc @ map row_ItemId rows" for acc
    by (induction rows arbitrary: acc) (fastforce simp: scan_item_def rbind_eq_Inr)+
  then show ?thesis using assms by (auto simp: scan_rows_def)
qed

lemma GetLatestItems_distinct:
  assumes "data_ok db" and "GetLatestItems n cats db = (Inr xs, db')"
  shows "distinct (map ItemId xs)"
proof -
  have g: "scan_rows scan_item (limited 0 n (sort_slice newer_row (filter (latest_hit cats) (tb_items db)))) = Inr xs"
  proof -
    have "filter_rows (latest_match cats) (tb_items db) = Inr (filter (latest_hit cats) (tb_items db))"
      by (rule filter_rows_ok) (use assms(1) in \<open>auto simp: data_ok_def latest_match_typed\<close>)
    then show ?thesis using assms(2) by (auto simp: GetLatestItems_def dest!: sql_Inr)
  qed
  let ?rows = "sort_slice newer_row (filter (latest_hit cats) (tb_items db))"
  have "mset (map row_ItemId ?rows) = mset (map row_ItemId (filter (latest_hit cats) (tb_items db)))" by simp
  moreover have "distinct (map row_ItemId (filter (latest_hit cats) (tb_items db)))"
    using assms(1) by (simp add: data_ok_def distinct_map_filter)
  ultimately have "distinct (map row_ItemId ?rows)" using mset_eq_imp_distinct_iff by blast
  then show ?thesis unfolding scan_rows_ids[OF g] by (auto simp: limited_def Let_def simp flip: take_map)
qed

text \<open>What the recommender assumes of its stores.\<close>

lemma over_stores_distinct: "over_stores env \<Longrightarrow> distinct_answers env"
  unfolding distinct_answers_def
  by (auto simp: over_stores_def store_data_client_def store_cache_client_def on_data_Inr on_cache_Inr dest: SearchScores_distinct[OF world_ok(2)] GetLatestItems_distinct[OF world_ok(1)])

lemma over_stores_requested: "over_stores env \<Longrightarrow> requested_only env"
  unfolding requested_only_def
proof (intro allI impI)
  fix ids w xs w' assume env: "over_stores env" and run: "dc_BatchGetItems (env_data env) ids w = (Inr xs, w')"
  show "ItemId ` set xs \<subseteq> set ids"
  proof (cases "ids = []")
    case True
    then show ?thesis using env run by (auto simp: over_stores_def store_data_client_def on_data_Inr BatchGetItems_def)
  next
    case False
    then have "scan_rows scan_item (filter (\<lambda>r. row_ItemId r \<in> set ids) (tb_items (data_of w))) = Inr xs"
      using env run by (auto simp: over_stores_def store_data_client_def on_data_Inr BatchGetItems_def dest!: sql_Inr)
    then have "set (map ItemId xs) = row_ItemId ` {r \<in> set (tb_items (data_of w)). row_ItemId r \<in> set ids}"
      by (simp only: scan_rows_ids) simp
    then show ?thesis by auto
  qed
qed

section \<open>From feedback to recommendation\<close>

lemma NewRecommender_stores:
  assumes "over_stores env" and "NewRecommender env cfg onl user cats w = (Inr r, w1)" and "db_faults (data_of w) = []"
    and "\<not> EnableReplacement (Replacement cfg) \<or> \<not> onl"
  shows "excludeSet r = key_ItemId ` {f \<in> set (tb_feedback (data_of w)). key_UserId f = user \<and> fb_Timestamp f \<le> time_of w}"
proof -
  have get: "dc_GetUserFeedback (env_data env) user (Some (env_now env w)) [] w =
      (Inr (map (read_back (data_of w)) (filter (\<lambda>f. fb_Timestamp f \<le> time_of w \<and> key_UserId f = user) (tb_feedback (data_of w)))), w)"
    using assms(1) GetUserFeedback_run[OF assms(3), of user "Some (time_of w)" "[]"]
    by (simp add: over_stores_def store_data_client_def on_data_def opt_ge_def types_match_def)
  have bind: "io_bind (dc_GetUserFeedback (env_data env) user (Some (env_now env w)) []) k w =
      k (map (read_back (data_of w)) (filter (\<lambda>f. fb_Timestamp f \<le> time_of w \<and> key_UserId f = user) (tb_feedback (data_of w)))) w" for k
    by (rule io_bind_run) (rule get)
  show ?thesis using assms(2,4) unfolding NewRecommender_def bind NewRecommender_fold
    by (auto simp: Let_def image_image)
qed

lemma stored_now_time:
  "fb_Timestamp (stored_now ow db f old) \<le> t \<longleftrightarrow>
    round_time db (fb_Timestamp f) \<le> t \<or> \<not> ow \<and> (\<exists>x. old = Some x \<and> fb_Timestamp x \<le> t)"
  by (auto simp: stored_now_def Let_def split: option.splits)


definition store_env :: "shop_world Env" where
  "store_env = \<lparr>env_cache = store_cache_client, env_data = store_data_client, env_now = time_of, env_md5 = (\<lambda>s. s), env_range = (\<lambda>m. m),
     env_slice = (\<lambda>xs. xs), env_pull = (\<lambda>_ _ w. (Inr [], w))\<rparr>"

lemma store_env_ok: "over_stores store_env" "map_iteration store_env"
  by (simp_all add: store_env_def over_stores_def map_iteration_def)

lemma latest_runs:
  assumes "db_faults (data_of w) = []" and "config r = sample_config"
  shows "\<exists>out s'. Recommend store_env 1 (r, w) = (Inr out, s')"
proof -
  obtain items where "GetLatestItems 100 (categories r) (data_of w) = (Inr items, data_of w)"
    using GetLatestItems_run[OF world_ok(1) assms(1)] by blast
  then obtain xs where latest: "recommendLatest store_env (r, w) = (Inr (xs, ''latest''), r, w)"
    using assms(2) by (simp add: recommendLatest_def io_bind_def get_rec_def on_world_def store_env_def store_data_client_def on_data_def
        io_return_def sample_config_def)
  have "parse store_env ''latest'' = Inr (recommendLatest store_env)" by (simp add: parse_def)
  with latest obtain ys dg s1 where seq: "RecommendSequential store_env [] 100 [''latest''] (r, w) = (Inr (ys, dg), s1)"
    by (cases "100 \<le> length xs")
      (auto simp: RecommendSequential_def io_bind_def exclude_def get_rec_def put_rec_def io_return_def)
  obtain y where y: "y = (if 1 \<le> int (length ys) then take 1 ys else ys)" by blast
  have "Recommend store_env 1 (r, w) = (Inr y, s1)" using seq assms(2) y
    by (auto simp: Recommend_def io_bind_def get_rec_def sample_config_def is_none_def lower_def io_return_def RecommendSequential_def)
  then show ?thesis by blast
qed

definition first_world :: shop_world where
  "first_world = mk_world two_rows (empty_cache SQLite (\<lambda>t. t) None []) 10"

lemma first_world_parts: "data_of first_world = two_rows" "time_of first_world = 10"
  unfolding first_world_def using two_rows_ok(1) by (simp_all add: cache_ok_def empty_cache_def)


end
