(* ===== verification/Non_Personalized.thy ===== *)
theory Non_Personalized
  imports Gorse_Config Go_Heap
begin

text \<open>
  The non-personalized recommender (\<^verbatim>\<open>logics/non_personalized.go\<close>): every visible item that passes the filter is scored and
  pushed into a top-k filter per category, and into the one of the empty category; at the end the filters are emptied and their
  elements merged into one score per item with the categories it is among the best of.

  The compiler and the interpreter of expressions (\<^verbatim>\<open>expr\<close>) are outside the repository: a compiled program is a function of the item and
  its feedback, and \<open>compile\<close> is a parameter. The iteration order of the two maps is a parameter of \<^verbatim>\<open>PopAll\<close>.
\<close>

section \<open>State\<close>

datatype expr_value = VFloat fl | VInt int | VBool bool | VOther

datatype expr_kind = KFloat64 | KInt | KBool | KOther

type_synonym program = "Item \<Rightarrow> Feedback list \<Rightarrow> go_fail + expr_value"

record NonPersonalizedState =
  npr_name :: string
  npr_timestamp :: int
  scoreFunc :: program
  filterFunc :: "program option"
  heapSize :: int
  heaps :: "(string, fl) TopKFilter go_map"

definition compile_filter :: "(string \<Rightarrow> go_fail + expr_kind \<times> program) \<Rightarrow> string \<Rightarrow> go_fail + program option" where
  "compile_filter compile text =
     (if text = [] then Inr None
      else rbind (compile text) (\<lambda>(kind, prog).
        if kind \<noteq> KBool then Inl (Error ''filter function must return bool'') else Inr (Some prog)))"

definition NewNonPersonalized ::
  "(string \<Rightarrow> go_fail + expr_kind \<times> program) \<Rightarrow> NonPersonalizedConfig \<Rightarrow> int \<Rightarrow> int \<Rightarrow> go_fail + NonPersonalizedState" where
  "NewNonPersonalized compile cfg n timestamp =
     rbind (compile (np_Score cfg)) (\<lambda>(kind, score).
       if kind \<noteq> KFloat64 \<and> kind \<noteq> KInt then Inl (Error ''score function must return float64'')
       else rbind (compile_filter compile (np_Filter cfg)) (\<lambda>filt.
         Inr \<lparr>npr_name = np_Name cfg, npr_timestamp = timestamp, scoreFunc = score, filterFunc = filt, heapSize = n,
              heaps = [([], NewTopKFilter n)]\<rparr>))"

section \<open>Pushing\<close>

text \<open>An error of a program is logged and the item skipped; a filter that returns no bool makes the assertion panic.\<close>

definition run_filter :: "NonPersonalizedState \<Rightarrow> Item \<Rightarrow> Feedback list \<Rightarrow> go_fail + bool" where
  "run_filter l item feedback =
     (case filterFunc l of None \<Rightarrow> Inr True
      | Some f \<Rightarrow> (case f item feedback of
            Inl (Error _) \<Rightarrow> Inr False | Inl (Panic m) \<Rightarrow> Inl (Panic m)
          | Inr (VBool b) \<Rightarrow> Inr b | Inr _ \<Rightarrow> Inl (Panic ''interface conversion'')))"

definition run_score :: "NonPersonalizedState \<Rightarrow> Item \<Rightarrow> Feedback list \<Rightarrow> go_fail + fl option" where
  "run_score l item feedback =
     (case scoreFunc l item feedback of
        Inl (Error _) \<Rightarrow> Inr None | Inl (Panic m) \<Rightarrow> Inl (Panic m)
      | Inr (VFloat x) \<Rightarrow> Inr (Some x) | Inr (VInt n) \<Rightarrow> Inr (Some (of_int64 n)) | Inr _ \<Rightarrow> Inr None)"

definition heap_of :: "NonPersonalizedState \<Rightarrow> string \<Rightarrow> (string, fl) TopKFilter" where
  "heap_of l c = (case map_of (heaps l) c of None \<Rightarrow> NewTopKFilter (heapSize l) | Some h \<Rightarrow> h)"

definition push_category :: "string \<Rightarrow> fl \<Rightarrow> string \<Rightarrow> NonPersonalizedState \<Rightarrow> go_fail + NonPersonalizedState" where
  "push_category itemId score c l =
     rbind (topk_Push fless itemId score (heap_of l c)) (\<lambda>h. Inr (l\<lparr>heaps := gput c h (heaps l)\<rparr>))"

definition np_Push :: "Item \<Rightarrow> Feedback list \<Rightarrow> NonPersonalizedState \<Rightarrow> go_fail + NonPersonalizedState" where
  "np_Push item feedback l =
     (if item_IsHidden item then Inr l
      else rbind (run_filter l item feedback) (\<lambda>pass.
        if \<not> pass then Inr l
        else rbind (run_score l item feedback) (\<lambda>result.
          case result of None \<Rightarrow> Inr l
          | Some score \<Rightarrow> fold_res (push_category (ItemId item) score) ([] # item_Categories item) l)))"

section \<open>Collecting\<close>

definition merge_elem :: "int \<Rightarrow> string \<Rightarrow> (string, fl) Elem \<Rightarrow> Score go_map \<Rightarrow> Score go_map" where
  "merge_elem timestamp category e scores =
     (case map_of scores (Value e) of
        None \<Rightarrow> gput (Value e) \<lparr>sc_Id = Value e, sc_Score = Weight e, sc_IsHidden = False, sc_Categories = [category], sc_Timestamp = timestamp\<rparr> scores
      | Some x \<Rightarrow> gput (Value e) (x\<lparr>sc_Categories := sc_Categories x @ [category]\<rparr>) scores)"

definition np_score_less :: "Score \<Rightarrow> Score \<Rightarrow> bool" where
  "np_score_less a b \<longleftrightarrow> fless (sc_Score b) (sc_Score a)"

definition pop_heap :: "int \<Rightarrow> string \<times> (string, fl) TopKFilter \<Rightarrow> Score go_map \<Rightarrow> go_fail + Score go_map" where
  "pop_heap timestamp = (\<lambda>(category, h) scores.
     rbind (topk_PopAll fless h) (\<lambda>(elems, _). Inr (fold (merge_elem timestamp category) elems scores)))"

definition np_PopAll :: "((string, fl) TopKFilter go_map \<Rightarrow> (string, fl) TopKFilter go_map) \<Rightarrow> (Score go_map \<Rightarrow> Score go_map) \<Rightarrow>
    NonPersonalizedState \<Rightarrow> go_fail + Score list" where
  "np_PopAll range_heaps range_scores l =
     rbind (fold_res (pop_heap (npr_timestamp l)) (range_heaps (heaps l)) []) (\<lambda>scores.
       Inr (sort_slice np_score_less (map snd (range_scores scores))))"

section \<open>What is pushed into each filter\<close>

definition np_elem :: "Item \<Rightarrow> fl \<Rightarrow> (string, fl) Elem" where
  "np_elem item score = \<lparr>Value = ItemId item, Weight = score\<rparr>"

text \<open>The items that reach the filters, with their scores.\<close>

definition np_accepts :: "NonPersonalizedState \<Rightarrow> Item \<times> Feedback list \<Rightarrow> (Item \<times> fl) list" where
  "np_accepts l = (\<lambda>(item, feedback).
     if item_IsHidden item \<or> run_filter l item feedback \<noteq> Inr True then []
     else (case run_score l item feedback of Inr (Some x) \<Rightarrow> [(item, x)] | _ \<Rightarrow> []))"

definition in_category :: "string \<Rightarrow> Item \<Rightarrow> bool" where
  "in_category c item \<longleftrightarrow> c = [] \<or> c \<in> set (item_Categories item)"

definition category_elems :: "string \<Rightarrow> (Item \<times> fl) list \<Rightarrow> (string, fl) Elem list" where
  "category_elems c xs = map (\<lambda>(item, x). np_elem item x) (filter (\<lambda>(item, x). in_category c item) xs)"

text \<open>Categories of an item are distinct and not empty; the programs return what their kinds say.\<close>

definition plain_item :: "Item \<Rightarrow> bool" where
  "plain_item item \<longleftrightarrow> distinct (item_Categories item) \<and> [] \<notin> set (item_Categories item)"

definition programs_return :: "NonPersonalizedState \<Rightarrow> Item \<times> Feedback list \<Rightarrow> bool" where
  "programs_return l = (\<lambda>(item, feedback). (\<exists>b. run_filter l item feedback = Inr b) \<and> (\<exists>x. run_score l item feedback = Inr x))"

definition same_np :: "NonPersonalizedState \<Rightarrow> NonPersonalizedState \<Rightarrow> bool" where
  "same_np l l' \<longleftrightarrow> l' = l\<lparr>heaps := heaps l'\<rparr>"

text \<open>Every filter is what pushing the accepted elements of its category gives.\<close>

definition np_inv :: "NonPersonalizedState \<Rightarrow> (Item \<times> fl) list \<Rightarrow> bool" where
  "np_inv l xs \<longleftrightarrow> distinct (gkeys (heaps l)) \<and> [] \<in> set (gkeys (heaps l)) \<and> (\<forall>(item, x)\<in>set xs. set (item_Categories item) \<subseteq> set (gkeys (heaps l))) \<and>
     (\<forall>c. fold_res (\<lambda>e. topk_Push fless (Value e) (Weight e)) (category_elems c xs) (NewTopKFilter (heapSize l)) = Inr (heap_of l c))"

lemma push_category_run:
  "\<exists>h. topk_Push fless i x (heap_of l c) = Inr h \<and> push_category i x c l = Inr (l\<lparr>heaps := gput c h (heaps l)\<rparr>)"
  using topk_Push_subset[of fless i x "heap_of l c"] by (auto simp: push_category_def)

lemma heap_of_put: "heap_of (l\<lparr>heaps := gput c h (heaps l)\<rparr>) c' = (if c' = c then h else heap_of l c')"
  by (simp add: heap_of_def split: option.splits)

lemma push_categories_run:
  assumes "distinct cs" and "distinct (gkeys (heaps l))"
  shows "\<exists>l'. fold_res (push_category i x) cs l = Inr l' \<and> l' = l\<lparr>heaps := heaps l'\<rparr> \<and> distinct (gkeys (heaps l')) \<and>
    set (gkeys (heaps l')) = set (gkeys (heaps l)) \<union> set cs \<and>
    (\<forall>c. (if c \<in> set cs then topk_Push fless i x (heap_of l c) = Inr (heap_of l' c) else heap_of l' c = heap_of l c))"
  using assms
proof (induction cs arbitrary: l)
  case (Cons c cs)
  obtain h where h: "topk_Push fless i x (heap_of l c) = Inr h" "push_category i x c l = Inr (l\<lparr>heaps := gput c h (heaps l)\<rparr>)"
    using push_category_run by blast
  let ?l1 = "l\<lparr>heaps := gput c h (heaps l)\<rparr>"
  have "distinct (gkeys (heaps ?l1))" using Cons.prems(2) by (simp add: distinct_gput)
  then obtain l' where l': "fold_res (push_category i x) cs ?l1 = Inr l'" "l' = ?l1\<lparr>heaps := heaps l'\<rparr>" "distinct (gkeys (heaps l'))"
      "set (gkeys (heaps l')) = set (gkeys (heaps ?l1)) \<union> set cs"
      "\<And>c'. if c' \<in> set cs then topk_Push fless i x (heap_of ?l1 c') = Inr (heap_of l' c') else heap_of l' c' = heap_of ?l1 c'"
    using Cons.IH[of ?l1] Cons.prems(1) by auto
  have keys: "set (gkeys (heaps ?l1)) = set (gkeys (heaps l)) \<union> {c}" by (auto simp: gkeys_gput)
  have "if c' \<in> set (c # cs) then topk_Push fless i x (heap_of l c') = Inr (heap_of l' c') else heap_of l' c' = heap_of l c'" for c'
    using l'(5)[of c'] h(1) Cons.prems(1) by (auto simp: heap_of_put split: if_splits)
  then show ?case using h(2) l'(1-4) keys by (intro exI[of _ l']) auto
qed auto

lemma np_accepts_heaps: "l' = l\<lparr>heaps := h\<rparr> \<Longrightarrow> np_accepts l' = np_accepts l \<and> programs_return l' = programs_return l"
  by (auto simp: np_accepts_def[abs_def] programs_return_def[abs_def] run_filter_def run_score_def)

lemma category_elems_snoc:
  "category_elems c (xs @ [(item, x)]) = category_elems c xs @ (if in_category c item then [np_elem item x] else [])"
  by (simp add: category_elems_def)

lemma np_Push_run:
  assumes "np_inv l xs" and "plain_item item" and "programs_return l (item, fb)"
  shows "\<exists>l'. np_Push item fb l = Inr l' \<and> l' = l\<lparr>heaps := heaps l'\<rparr> \<and> np_inv l' (xs @ np_accepts l (item, fb))"
proof (cases "np_accepts l (item, fb)")
  case Nil
  then have "np_Push item fb l = Inr l"
    using assms(3) by (auto simp: np_accepts_def np_Push_def programs_return_def split: if_splits option.splits)
  then show ?thesis using assms(1) Nil by (intro exI[of _ l]) simp
next
  case (Cons p ps)
  then obtain x where x: "\<not> item_IsHidden item" "run_filter l item fb = Inr True" "run_score l item fb = Inr (Some x)"
    and acc: "np_accepts l (item, fb) = [(item, x)]"
    by (auto simp: np_accepts_def split: if_splits sum.splits option.splits)
  let ?cs = "[] # item_Categories item"
  have d: "distinct ?cs" "distinct (gkeys (heaps l))" using assms(1,2) by (auto simp: plain_item_def np_inv_def)
  obtain l' where l': "fold_res (push_category (ItemId item) x) ?cs l = Inr l'" "l' = l\<lparr>heaps := heaps l'\<rparr>" "distinct (gkeys (heaps l'))"
      "set (gkeys (heaps l')) = set (gkeys (heaps l)) \<union> set ?cs"
      "\<And>c. if c \<in> set ?cs then topk_Push fless (ItemId item) x (heap_of l c) = Inr (heap_of l' c) else heap_of l' c = heap_of l c"
    using push_categories_run[OF d, of "ItemId item" x] by blast
  have size: "heapSize l' = heapSize l" using l'(2) by (metis NonPersonalizedState.select_convs(5) NonPersonalizedState.surjective NonPersonalizedState.update_convs(6))
  have heaps: "fold_res (\<lambda>e. topk_Push fless (Value e) (Weight e)) (category_elems c (xs @ [(item, x)])) (NewTopKFilter (heapSize l')) = Inr (heap_of l' c)" for c
    using assms(1) l'(5)[of c] unfolding category_elems_snoc size
    by (auto simp: np_inv_def fold_res_append in_category_def np_elem_def split: if_splits)
  have keys: "\<forall>(i, x)\<in>set (xs @ [(item, x)]). set (item_Categories i) \<subseteq> set (gkeys (heaps l'))" "[] \<in> set (gkeys (heaps l'))"
    using assms(1) unfolding l'(4) by (auto simp: np_inv_def)
  have "np_Push item fb l = Inr l'" using l'(1) x by (simp add: np_Push_def)
  moreover have "np_inv l' (xs @ [(item, x)])" unfolding np_inv_def using l'(3) keys heaps by blast
  ultimately show ?thesis using l'(2) acc by (intro exI[of _ l']) simp
qed

lemma np_pushes_run:
  assumes "np_inv l xs" and "\<forall>p\<in>set ps. programs_return l p \<and> plain_item (fst p)"
  shows "\<exists>l'. fold_res (\<lambda>(item, fb). np_Push item fb) ps l = Inr l' \<and> l' = l\<lparr>heaps := heaps l'\<rparr> \<and>
    np_inv l' (xs @ concat (map (np_accepts l) ps))"
  using assms
proof (induction ps arbitrary: l xs)
  case (Cons p ps)
  obtain item fb where p: "p = (item, fb)" by force
  obtain l1 where l1: "np_Push item fb l = Inr l1" "l1 = l\<lparr>heaps := heaps l1\<rparr>" "np_inv l1 (xs @ np_accepts l (item, fb))"
    using np_Push_run[OF Cons.prems(1)] Cons.prems(2) p by fastforce
  have same: "np_accepts l1 = np_accepts l" "programs_return l1 = programs_return l" using np_accepts_heaps[OF l1(2)] by auto
  obtain l2 where l2: "fold_res (\<lambda>(item, fb). np_Push item fb) ps l1 = Inr l2" "l2 = l1\<lparr>heaps := heaps l2\<rparr>"
      "np_inv l2 ((xs @ np_accepts l (item, fb)) @ concat (map (np_accepts l1) ps))"
    using Cons.IH[OF l1(3)] Cons.prems(2) same by auto
  have "l2 = l\<lparr>heaps := heaps l2\<rparr>" using l1(2) l2(2) by (metis NonPersonalizedState.update_convs(6) NonPersonalizedState.surjective)
  then show ?case using l1(1) l2(1,3) p same by (intro exI[of _ l2]) simp
qed (intro exI conjI, auto)

section \<open>Merging\<close>

definition np_added :: "int \<Rightarrow> string \<Rightarrow> (string, fl) Elem \<Rightarrow> Score option \<Rightarrow> Score" where
  "np_added t c e old = (case old of
      None \<Rightarrow> \<lparr>sc_Id = Value e, sc_Score = Weight e, sc_IsHidden = False, sc_Categories = [c], sc_Timestamp = t\<rparr>
    | Some x \<Rightarrow> x\<lparr>sc_Categories := sc_Categories x @ [c]\<rparr>)"

lemma merge_elem_put: "merge_elem t c e m = gput (Value e) (np_added t c e (map_of m (Value e))) m"
  by (simp add: merge_elem_def np_added_def split: option.splits)

lemma merge_elems_keys: "distinct (gkeys m) \<Longrightarrow> distinct (gkeys (fold (merge_elem t c) es m))"
  by (induction es arbitrary: m) (auto simp: merge_elem_put distinct_gput)

lemma merge_elems:
  "distinct (map Value es) \<Longrightarrow> map_of (fold (merge_elem t c) es m) i =
    (case find (\<lambda>e. Value e = i) es of None \<Rightarrow> map_of m i | Some e \<Rightarrow> Some (np_added t c e (map_of m i)))"
proof (induction es arbitrary: m)
  case (Cons e es)
  have "find (\<lambda>x. Value x = Value e) es = None" using Cons.prems by (auto simp: find_None_iff image_iff)
  then show ?case using Cons by (auto simp: merge_elem_put split: option.splits)
qed simp

definition np_entry :: "int \<Rightarrow> (string \<Rightarrow> fl) \<Rightarrow> (string \<Rightarrow> (string, fl) Elem list) \<Rightarrow> string list \<Rightarrow> string \<Rightarrow> Score" where
  "np_entry t w best cs i = \<lparr>sc_Id = i, sc_Score = w i, sc_IsHidden = False,
     sc_Categories = filter (\<lambda>c. i \<in> Value ` set (best c)) cs, sc_Timestamp = t\<rparr>"

lemma merge_categories:
  assumes "\<And>c. distinct (map Value (best c))" and "\<And>c e. e \<in> set (best c) \<Longrightarrow> Weight e = w (Value e)"
  shows "distinct (gkeys (fold (\<lambda>c. fold (merge_elem t c) (best c)) cs [])) \<and>
    map_of (fold (\<lambda>c. fold (merge_elem t c) (best c)) cs []) i =
      (if \<exists>c\<in>set cs. i \<in> Value ` set (best c) then Some (np_entry t w best cs i) else None)"
proof (induction cs arbitrary: i rule: rev_induct)
  case (snoc c cs)
  let ?m = "fold (\<lambda>c. fold (merge_elem t c) (best c)) cs []"
  have d: "distinct (gkeys (fold (merge_elem t c) (best c) ?m))" using snoc merge_elems_keys by blast
  have step: "map_of (fold (merge_elem t c) (best c) ?m) i =
      (case find (\<lambda>e. Value e = i) (best c) of None \<Rightarrow> map_of ?m i | Some e \<Rightarrow> Some (np_added t c e (map_of ?m i)))"
    by (rule merge_elems[OF assms(1)])
  have IH: "map_of ?m i = (if \<exists>c\<in>set cs. i \<in> Value ` set (best c) then Some (np_entry t w best cs i) else None)" using snoc by blast
  show ?case
  proof (cases "find (\<lambda>e. Value e = i) (best c)")
    case None
    then have "i \<notin> Value ` set (best c)" by (auto simp: find_None_iff)
    then show ?thesis using None step IH d by (simp add: np_entry_def)
  next
    case (Some e)
    then have e: "e \<in> set (best c)" "Value e = i" by (auto simp: find_Some_iff)
    then have "i \<in> Value ` set (best c)" by blast
    moreover have "np_added t c e (map_of ?m i) = np_entry t w best (cs @ [c]) i"
      using assms(2)[OF e(1)] e \<open>i \<in> Value ` set (best c)\<close> unfolding IH by (auto simp: np_added_def np_entry_def filter_empty_conv)
    ultimately show ?thesis using Some step d by simp
  qed
qed simp

section \<open>The best of every category\<close>

definition candidates :: "string \<Rightarrow> (Item \<times> fl) list \<Rightarrow> (Item \<times> fl) list" where
  "candidates c xs = filter (\<lambda>(item, x). in_category c item) xs"

definition np_best :: "int \<Rightarrow> (Item \<times> fl) list \<Rightarrow> string \<Rightarrow> (string, fl) Elem list" where
  "np_best n xs c = (case topk_run n (category_elems c xs) of Inr ys \<Rightarrow> ys | Inl _ \<Rightarrow> [])"

lemma np_best_run: "topk_run n (category_elems c xs) = Inr (np_best n xs c)"
  using topk_run_subset[of n "category_elems c xs"] by (auto simp: np_best_def)

lemma np_best_props:
  assumes "distinct (map (ItemId \<circ> fst) xs)" and "\<forall>(item, x)\<in>set xs. x \<noteq> NaN"
  shows "distinct (map Value (np_best n xs c))" and "length (np_best n xs c) = min (nat n) (length (candidates c xs))"
    and "e \<in> set (np_best n xs c) \<Longrightarrow> \<exists>(item, x)\<in>set (candidates c xs). e = np_elem item x"
    and "(item, x) \<in> set (candidates c xs) \<Longrightarrow> ItemId item \<notin> Value ` set (np_best n xs c) \<Longrightarrow> e \<in> set (np_best n xs c) \<Longrightarrow> fle x (Weight e)"
proof -
  let ?es = "category_elems c xs" and ?ys = "np_best n xs c"
  have es: "?es = map (\<lambda>(item, x). np_elem item x) (candidates c xs)" by (simp add: category_elems_def candidates_def)
  have "\<forall>e\<in>set ?es. Weight e \<noteq> NaN" using assms(2) by (auto simp: category_elems_def np_elem_def)
  from topk_run_best[OF this, of n] have ys: "mset ?ys \<subseteq># mset ?es" "length ?ys = min (nat n) (length ?es)"
      "\<And>a b. a \<in> set ?ys \<Longrightarrow> b \<in># mset ?es - mset ?ys \<Longrightarrow> fle (Weight b) (Weight a)"
    by (auto simp: np_best_run)
  have ids: "map Value ?es = map (ItemId \<circ> fst) (candidates c xs)" unfolding es by (simp add: np_elem_def case_prod_unfold comp_def)
  have "distinct (map Value ?es)" unfolding ids candidates_def using distinct_map_filter[OF assms(1)] by blast
  moreover have "mset (map Value ?ys) \<subseteq># mset (map Value ?es)" using ys(1) by (simp add: image_mset_subseteq_mono)
  ultimately show "distinct (map Value ?ys)"
    by (metis distinct_append mset_append mset_eq_imp_distinct_iff ex_mset subset_mset.le_iff_add)
  show "length ?ys = min (nat n) (length (candidates c xs))" using ys(2) by (simp add: es)
  show "\<exists>(item, x)\<in>set (candidates c xs). e = np_elem item x" if "e \<in> set ?ys"
    using mset_subset_eqD[OF ys(1), of e] that unfolding es by fastforce
  show "fle x (Weight e)" if cand: "(item, x) \<in> set (candidates c xs)" and out: "ItemId item \<notin> Value ` set ?ys" and e: "e \<in> set ?ys"
  proof -
    have "np_elem item x \<in># mset ?es" using cand unfolding es by force
    moreover have "np_elem item x \<notin> set ?ys" using out by (force simp: np_elem_def)
    ultimately have "np_elem item x \<in># mset ?es - mset ?ys" by (metis count_eq_zero_iff count_greater_zero_iff diff_zero in_diff_count set_mset_mset)
    from ys(3)[OF e this] show ?thesis by (simp add: np_elem_def)
  qed
qed

lemma pop_heaps_run:
  assumes "np_inv l xs" and "set hs \<subseteq> set (heaps l)" and "distinct (gkeys (heaps l))"
  shows "fold_res (pop_heap t) hs m = Inr (fold (\<lambda>c. fold (merge_elem t c) (np_best (heapSize l) xs c)) (map fst hs) m)"
  using assms(2)
proof (induction hs arbitrary: m)
  case (Cons ch hs)
  obtain c h where ch: "ch = (c, h)" by force
  have "map_of (heaps l) c = Some h" using Cons.prems ch assms(3) by simp
  then have h: "heap_of l c = h" by (simp add: heap_of_def)
  have "fold_res (\<lambda>e. topk_Push fless (Value e) (Weight e)) (category_elems c xs) (NewTopKFilter (heapSize l)) = Inr h"
    using assms(1) h by (auto simp: np_inv_def)
  then obtain h' where "topk_PopAll fless h = Inr (np_best (heapSize l) xs c, h')"
    using np_best_run[of "heapSize l" c xs] by (auto simp: topk_run_def res_simps)
  then show ?case using Cons ch by (simp add: pop_heap_def)
qed simp

definition np_out :: "(string \<Rightarrow> fl) \<Rightarrow> int \<Rightarrow> (Item \<times> fl) list \<Rightarrow> NonPersonalizedState \<Rightarrow> string list \<Rightarrow> Score list \<Rightarrow> bool" where
  "np_out w n xs l cs out \<longleftrightarrow> set out = np_entry (npr_timestamp l) w (np_best n xs) cs ` {i. \<exists>c\<in>set cs. i \<in> Value ` set (np_best n xs c)} \<and>
     distinct (map sc_Id out) \<and> best_first out"

lemma np_PopAll_run:
  assumes "np_inv l xs" and "distinct (map (ItemId \<circ> fst) xs)" and "\<forall>(item, x)\<in>set xs. x \<noteq> NaN"
    and "\<And>item x. (item, x) \<in> set xs \<Longrightarrow> w (ItemId item) = x"
    and "\<forall>m. mset (rh m) = mset m" and "\<forall>m. mset (rs m) = mset m"
  shows "\<exists>out. np_PopAll rh rs l = Inr out \<and> np_out w (heapSize l) xs l (gkeys (rh (heaps l))) out"
proof -
  let ?best = "np_best (heapSize l) xs" and ?t = "npr_timestamp l" and ?cs = "gkeys (rh (heaps l))"
  let ?m = "fold (\<lambda>c. fold (merge_elem ?t c) (?best c)) ?cs []"
  have keys: "distinct (gkeys (heaps l))" using assms(1) by (simp add: np_inv_def)
  have "set (rh (heaps l)) \<subseteq> set (heaps l)" using assms(5) by (metis mset_eq_setD subset_refl)
  note pop = pop_heaps_run[OF assms(1) this keys, of ?t "[]"]
  have wt: "Weight e = w (Value e)" if "e \<in> set (?best c)" for e c
    using np_best_props(3)[OF assms(2,3) that] assms(4) by (auto simp: np_elem_def candidates_def)
  have merged: "distinct (gkeys ?m) \<and> map_of ?m i = (if \<exists>c\<in>set ?cs. i \<in> Value ` set (?best c) then Some (np_entry ?t w ?best ?cs i) else None)" for i
    by (rule merge_categories) (rule np_best_props(1)[OF assms(2,3)], erule wt)
  have dist: "distinct (gkeys ?m)" using merged by blast
  have range: "mset (rs ?m) = mset ?m" using assms(6) by blast
  let ?out = "sort_slice np_score_less (map snd (rs ?m))"
  have entry: "x = np_entry ?t w ?best ?cs i \<and> (\<exists>c\<in>set ?cs. i \<in> Value ` set (?best c))" if "(i, x) \<in> set ?m" for i x
  proof -
    have "map_of ?m i = Some x" using map_of_is_SomeI[OF dist that] .
    then show ?thesis using conjunct2[OF merged[of i]] by (simp split: if_splits)
  qed
  have "sc_Id x = i" if "(i, x) \<in> set ?m" for i x using conjunct1[OF entry[OF that]] by (simp add: np_entry_def)
  then have ids: "map sc_Id (map snd ?m) = gkeys ?m" by auto
  have "mset (map sc_Id ?out) = mset (gkeys ?m)"
    unfolding ids[symmetric] mset_map mset_sort_slice range ..
  then have d: "distinct (map sc_Id ?out)" using dist mset_eq_imp_distinct_iff by blast
  have "set ?out = snd ` set ?m" using mset_eq_setD[OF range] by simp
  also have "\<dots> = np_entry ?t w ?best ?cs ` {i. \<exists>c\<in>set ?cs. i \<in> Value ` set (?best c)}"
  proof
    show "snd ` set ?m \<subseteq> np_entry ?t w ?best ?cs ` {i. \<exists>c\<in>set ?cs. i \<in> Value ` set (?best c)}" using entry by force
    show "np_entry ?t w ?best ?cs ` {i. \<exists>c\<in>set ?cs. i \<in> Value ` set (?best c)} \<subseteq> snd ` set ?m"
    proof
      fix x assume "x \<in> np_entry ?t w ?best ?cs ` {i. \<exists>c\<in>set ?cs. i \<in> Value ` set (?best c)}"
      then obtain i where i: "x = np_entry ?t w ?best ?cs i" "\<exists>c\<in>set ?cs. i \<in> Value ` set (?best c)" by blast
      then have "map_of ?m i = Some x" using merged[of i] by simp
      then show "x \<in> snd ` set ?m" by (force dest: map_of_SomeD)
    qed
  qed
  finally have set: "set ?out = np_entry ?t w ?best ?cs ` {i. \<exists>c\<in>set ?cs. i \<in> Value ` set (?best c)}" .
  have "sc_Score x \<noteq> NaN" if x: "x \<in> set ?out" for x
  proof -
    obtain i c where i: "x = np_entry ?t w ?best ?cs i" "i \<in> Value ` set (?best c)" using x unfolding set by blast
    then obtain e where e: "e \<in> set (?best c)" "i = Value e" by blast
    obtain item y where y: "(item, y) \<in> set xs" "e = np_elem item y"
      using np_best_props(3)[OF assms(2,3) e(1)] by (auto simp: candidates_def)
    then show ?thesis using i(1) e wt[OF e(1)] assms(3) by (auto simp: np_entry_def np_elem_def)
  qed
  then have "best_first (SortDocuments (map snd (rs ?m)))" by (intro SortDocuments_best_first) simp
  moreover have "?out = SortDocuments (map snd (rs ?m))"
    by (simp add: SortDocuments_def np_score_less_def[abs_def] score_greater_def[abs_def])
  ultimately have "best_first ?out" by simp
  with pop set d show ?thesis by (simp add: np_PopAll_def np_out_def)
qed

lemma accepted_ids: "map (ItemId \<circ> fst) (concat (map (np_accepts l) ps)) = map (ItemId \<circ> fst) (filter (\<lambda>p. np_accepts l p \<noteq> []) ps)"
proof (induction ps)
  case (Cons p ps)
  have "np_accepts l p \<noteq> [] \<Longrightarrow> map (ItemId \<circ> fst) (np_accepts l p) = [ItemId (fst p)]"
    by (auto simp: np_accepts_def split: prod.splits sum.splits option.splits if_splits)
  then show ?case using Cons by (simp add: comp_def)
qed simp

text \<open>C20. The non-personalized recommender keeps the best of every category. After any items with distinct identifiers (categories distinct and not
  empty, scores that are numbers) have been pushed, \<^verbatim>\<open>PopAll\<close> returns without panicking, whatever the iteration order of its maps: no item twice,
  best scores first, every entry an accepted item with its score and the time of the run; and for every category, the empty one meaning all items,
  the entries listed under it are the at most \<open>n\<close> best accepted items of the category.\<close>

theorem non_personalized_best:
  assumes "NewNonPersonalized compile cfg n t = Inr l0"
    and "\<forall>p\<in>set ps. programs_return l0 p \<and> plain_item (fst p)" and "distinct (map (ItemId \<circ> fst) ps)"
    and "xs = concat (map (np_accepts l0) ps)" and "\<forall>(item, x)\<in>set xs. x \<noteq> NaN"
    and "\<forall>m. mset (rh m) = mset m" and "\<forall>m. mset (rs m) = mset m"
  shows "\<exists>l out. fold_res (\<lambda>(item, fb). np_Push item fb) ps l0 = Inr l \<and> np_PopAll rh rs l = Inr out \<and>
    distinct (map sc_Id out) \<and> best_first out \<and>
    (\<forall>y\<in>set out. sc_Timestamp y = t \<and> (\<exists>(item, x)\<in>set xs. sc_Id y = ItemId item \<and> sc_Score y = x)) \<and>
    (\<forall>c. let chosen = filter (\<lambda>y. c \<in> set (sc_Categories y)) out in
       length chosen = min (nat n) (length (candidates c xs)) \<and>
       sc_Id ` set chosen \<subseteq> (ItemId \<circ> fst) ` set (candidates c xs) \<and>
       (\<forall>(item, x)\<in>set (candidates c xs). ItemId item \<notin> sc_Id ` set chosen \<longrightarrow> (\<forall>y\<in>set chosen. fle x (sc_Score y))))"
proof -
  have l0: "np_inv l0 []" "heapSize l0 = n" "npr_timestamp l0 = t"
    using assms(1) by (auto simp: NewNonPersonalized_def res_simps np_inv_def category_elems_def heap_of_def split: if_splits)
  obtain l where l: "fold_res (\<lambda>(item, fb). np_Push item fb) ps l0 = Inr l" "l = l0\<lparr>heaps := heaps l\<rparr>" "np_inv l xs"
    using np_pushes_run[OF l0(1) assms(2)] assms(4) by auto
  have same: "heapSize l = n" "npr_timestamp l = t"
    using arg_cong[OF l(2), of heapSize] arg_cong[OF l(2), of npr_timestamp] l0(2,3) by simp_all
  have dist: "distinct (map (ItemId \<circ> fst) xs)" unfolding assms(4) accepted_ids by (rule distinct_map_filter[OF assms(3)])
  define w where "w i = the (map_of (map (\<lambda>(item, x). (ItemId item, x)) xs) i)" for i
  have "distinct (map fst (map (\<lambda>(item, x). (ItemId item, x)) xs))" using dist by (simp add: comp_def case_prod_unfold)
  note lookup = map_of_is_SomeI[OF this]
  have w: "w (ItemId item) = x" if "(item, x) \<in> set xs" for item x
  proof -
    have "(ItemId item, x) \<in> set (map (\<lambda>(item, x). (ItemId item, x)) xs)" using that by force
    from lookup[OF this] show ?thesis by (simp add: w_def)
  qed
  obtain out where out: "np_PopAll rh rs l = Inr out" "np_out w n xs l (gkeys (rh (heaps l))) out"
    using np_PopAll_run[OF l(3) dist assms(5), of w rh rs] w assms(6,7) same(1) by auto
  let ?cs = "gkeys (rh (heaps l))" and ?best = "np_best n xs"
  note best = np_best_props[OF dist assms(5), where n = n]
  have out': "set out = np_entry t w ?best ?cs ` {i. \<exists>c\<in>set ?cs. i \<in> Value ` set (?best c)}" "distinct (map sc_Id out)" "best_first out"
    using out(2) same(2) by (auto simp: np_out_def)
  have known: "c \<in> set ?cs" if "?best c \<noteq> []" for c
  proof -
    have "candidates c xs \<noteq> []" using best(2)[where c = c] that by auto
    then obtain item x where "(item, x) \<in> set xs" "in_category c item" by (auto simp: candidates_def filter_empty_conv)
    then have "c \<in> set (gkeys (heaps l))" using l(3) by (auto simp: np_inv_def in_category_def)
    then show ?thesis using assms(6) by (metis list.set_map mset_eq_setD)
  qed
  have chosen: "sc_Id ` set (filter (\<lambda>y. c \<in> set (sc_Categories y)) out) = Value ` set (?best c)" for c
    using known[of c] unfolding set_filter out'(1) by (force simp: np_entry_def image_iff)
  show ?thesis
  proof (intro exI[of _ l] exI[of _ out] conjI ballI allI)
    fix y assume "y \<in> set out"
    then obtain i c where i: "y = np_entry t w ?best ?cs i" "i \<in> Value ` set (?best c)" unfolding out'(1) by blast
    then obtain e where e: "e \<in> set (?best c)" "i = Value e" by blast
    then obtain item x where x: "(item, x) \<in> set xs" "e = np_elem item x" using best(3)[OF e(1)] by (auto simp: candidates_def)
    show "sc_Timestamp y = t" using i(1) by (simp add: np_entry_def)
    show "\<exists>(item, x)\<in>set xs. sc_Id y = ItemId item \<and> sc_Score y = x"
      using x i(1) e(2) w[OF x(1)] by (intro bexI[of _ "(item, x)"]) (auto simp: np_entry_def np_elem_def)
  next
    fix c
    let ?ch = "filter (\<lambda>y. c \<in> set (sc_Categories y)) out"
    have "length ?ch = card (sc_Id ` set ?ch)"
      using distinct_map_filter[OF out'(2), of "\<lambda>y. c \<in> set (sc_Categories y)"] by (metis distinct_card length_map list.set_map)
    also have "\<dots> = length (?best c)" unfolding chosen using best(1)[where c = c] by (metis distinct_card length_map list.set_map)
    finally have len: "length ?ch = min (nat n) (length (candidates c xs))" using best(2) by simp
    have sub: "sc_Id ` set ?ch \<subseteq> (ItemId \<circ> fst) ` set (candidates c xs)"
      unfolding chosen using best(3)[where c = c] by (force simp: np_elem_def)
    have "fle x (sc_Score y)" if "(item, x) \<in> set (candidates c xs)" "ItemId item \<notin> sc_Id ` set ?ch" "y \<in> set ?ch" for item x y
    proof -
      have "sc_Id y \<in> Value ` set (?best c)" using that(3) chosen[of c] by blast
      then obtain e where e: "e \<in> set (?best c)" "Value e = sc_Id y" by force
      have "fle x (Weight e)" using best(4)[OF that(1) _ e(1)] that(2) unfolding chosen by blast
      moreover obtain i z where i: "(i, z) \<in> set xs" "e = np_elem i z" using best(3)[OF e(1)] by (auto simp: candidates_def)
      moreover have "sc_Score y = w (sc_Id y)" using that(3) out'(1) by (auto simp: np_entry_def)
      ultimately show ?thesis using e(2) w[OF i(1)] by (simp add: np_elem_def)
    qed
    then show "let chosen = ?ch in length chosen = min (nat n) (length (candidates c xs)) \<and>
       sc_Id ` set chosen \<subseteq> (ItemId \<circ> fst) ` set (candidates c xs) \<and>
       (\<forall>(item, x)\<in>set (candidates c xs). ItemId item \<notin> sc_Id ` set chosen \<longrightarrow> (\<forall>y\<in>set chosen. fle x (sc_Score y)))"
      using len sub by (auto simp: Let_def)
  qed (use l(1) out(1) out'(2,3) in auto)
qed

definition count_feedback :: "string \<Rightarrow> go_fail + expr_kind \<times> program" where
  "count_feedback text = Inr (KInt, \<lambda>item feedback. Inr (VInt (int (length feedback))))"

definition np_hat :: Item where
  "np_hat = \<lparr>ItemId = ''hat'', item_IsHidden = False, item_Categories = [''head''], item_Timestamp = 0, item_Labels = JNull, item_Comment = []\<rparr>"

definition np_shoe :: Item where
  "np_shoe = \<lparr>ItemId = ''shoe'', item_IsHidden = False, item_Categories = [''foot''], item_Timestamp = 0, item_Labels = JNull, item_Comment = []\<rparr>"

definition np_config :: NonPersonalizedConfig where
  "np_config = \<lparr>np_Name = ''popular'', np_Score = ''len(feedback)'', np_Filter = []\<rparr>"

theorem non_personalized_best_witness:
  "\<exists>l0 l out. NewNonPersonalized count_feedback np_config 1 5 = Inr l0 \<and>
     fold_res (\<lambda>(item, fb). np_Push item fb) [(np_hat, []), (np_shoe, [])] l0 = Inr l \<and> np_PopAll (\<lambda>m. m) rev l = Inr out \<and>
     length (filter (\<lambda>y. [] \<in> set (sc_Categories y)) out) = 1"
proof -
  let ?ps = "[(np_hat, []), (np_shoe, [])] :: (Item \<times> Feedback list) list"
  obtain l0 where l0: "NewNonPersonalized count_feedback np_config 1 5 = Inr l0" "filterFunc l0 = None"
      "scoreFunc l0 = (\<lambda>item feedback. Inr (VInt (int (length feedback))))"
    by (simp add: NewNonPersonalized_def count_feedback_def np_config_def compile_filter_def)
  have run: "run_filter l0 i fb = Inr True" "run_score l0 i fb = Inr (Some (of_int64 (int (length fb))))" for i fb
    using l0 by (simp_all add: run_filter_def run_score_def)
  have 1: "\<forall>p\<in>set ?ps. programs_return l0 p \<and> plain_item (fst p)" "distinct (map (ItemId \<circ> fst) ?ps)"
    by (auto simp: programs_return_def run plain_item_def np_hat_def np_shoe_def)
  have xs: "concat (map (np_accepts l0) ?ps) = [(np_hat, of_int64 0), (np_shoe, of_int64 0)]"
    by (simp add: np_accepts_def run np_hat_def np_shoe_def)
  have "of_int64 0 = Fin 0" by code_simp
  then have 2: "\<forall>(item, x)\<in>set (concat (map (np_accepts l0) ?ps)). x \<noteq> NaN" unfolding xs by simp
  obtain l out where "fold_res (\<lambda>(item, fb). np_Push item fb) ?ps l0 = Inr l" "np_PopAll (\<lambda>m. m) rev l = Inr out"
    "let chosen = filter (\<lambda>y. [] \<in> set (sc_Categories y)) out in length chosen = min (nat 1) (length (candidates [] (concat (map (np_accepts l0) ?ps))))"
    using non_personalized_best[OF l0(1) 1 refl 2, of "\<lambda>m. m" rev] by (auto simp: Let_def)
  moreover have "length (candidates [] (concat (map (np_accepts l0) ?ps))) = 2" unfolding xs by (simp add: candidates_def in_category_def)
  ultimately show ?thesis using l0(1) by (intro exI[of _ l0] exI[of _ l] exI[of _ out]) (simp add: Let_def)
qed

end
