(* ===== verification/Go_Random.thy ===== *)
theory Go_Random
  imports Go_Prelude
begin

text \<open>
  Sampling without replacement (\<^verbatim>\<open>Sample\<close> and \<^verbatim>\<open>SampleInt32\<close> of \<^verbatim>\<open>common/util/random.go\<close>). The generator of
  \<^verbatim>\<open>math/rand\<close> is a state and a draw from it: \<^verbatim>\<open>Intn(n)\<close> is \<open>draw n\<close>, which returns a number below \<open>n\<close> and
  the next state. The rejection loop ends when the generator is fair, that is, when every number below \<open>n\<close>
  is drawn again sooner or later; an endless loop is the value \<open>None\<close>.
\<close>

section \<open>\<^verbatim>\<open>common/util/random.go\<close>\<close>

type_synonym 'g rand = "int \<Rightarrow> 'g \<Rightarrow> int \<times> 'g"

text \<open>The computed value, a panic, or no answer.\<close>

type_synonym 'a run = "(go_fail + 'a) option"

definition run_bind :: "'a run \<Rightarrow> ('a \<Rightarrow> 'b run) \<Rightarrow> 'b run" where
  "run_bind m f = (case m of None \<Rightarrow> None | Some (Inl e) \<Rightarrow> Some (Inl e) | Some (Inr x) \<Rightarrow> f x)"

lemma run_bind_simps [simp]:
  "run_bind None f = None"
  "run_bind (Some (Inl e)) f = Some (Inl e)"
  "run_bind (Some (Inr x)) f = f x"
  by (simp_all add: run_bind_def)

definition Intn :: "'g rand \<Rightarrow> int \<Rightarrow> 'g \<Rightarrow> go_fail + int \<times> 'g" where
  "Intn draw n g = (if n \<le> 0 then Inl (Panic ''invalid argument to Intn'') else Inr (draw n g))"

text \<open>The two samplers differ in the width of their integers: \<open>wrap\<close> is the conversion to it.\<close>

definition sample_all :: "int \<Rightarrow> int \<Rightarrow> int set \<Rightarrow> int list" where
  "sample_all low high excludeSet =
     fst (fold (\<lambda>i (sampled, ex). if i \<notin> ex then (sampled @ [i], insert i ex) else (sampled, ex))
       [low..high - 1] ([], excludeSet))"

partial_function (option) sample_loop ::
  "(int \<Rightarrow> int) \<Rightarrow> 'g rand \<Rightarrow> int \<Rightarrow> int \<Rightarrow> int \<Rightarrow> int list \<Rightarrow> int set \<Rightarrow> 'g \<Rightarrow> (int list \<times> 'g) option" where
  "sample_loop wrap draw low intervalLength n sampled excludeSet g =
     (if int (length sampled) < n
      then let (r, g') = draw intervalLength g;
               v = wrap (r + low)
           in if v \<notin> excludeSet
              then sample_loop wrap draw low intervalLength n (sampled @ [v]) (insert v excludeSet) g'
              else sample_loop wrap draw low intervalLength n sampled excludeSet g'
      else Some (sampled, g))"

definition sample_from ::
  "(int \<Rightarrow> int) \<Rightarrow> 'g rand \<Rightarrow> int \<Rightarrow> int \<Rightarrow> int \<Rightarrow> int set list \<Rightarrow> 'g \<Rightarrow> (int list \<times> 'g) run" where
  "sample_from wrap draw low high n exclude g =
     (let intervalLength = wrap (high - low);
          excludeSet = fold (\<lambda>s ex. ex \<union> s) exclude {}
      in if n < 0 then Some (Inl (Panic ''makeslice: cap out of range''))
         else if intervalLength - int (card excludeSet) \<le> n
         then Some (Inr (sample_all low high excludeSet, g))
         else if 0 < n \<and> intervalLength \<le> 0 then Some (Inl (Panic ''invalid argument to Intn''))
         else map_option Inr (sample_loop wrap draw low intervalLength n [] excludeSet g))"

definition Sample :: "'g rand \<Rightarrow> int \<Rightarrow> int \<Rightarrow> int \<Rightarrow> int set list \<Rightarrow> 'g \<Rightarrow> (int list \<times> 'g) run" where
  "Sample draw = sample_from int64 draw"

definition SampleInt32 :: "'g rand \<Rightarrow> int \<Rightarrow> int \<Rightarrow> int \<Rightarrow> int set list \<Rightarrow> 'g \<Rightarrow> (int list \<times> 'g) run" where
  "SampleInt32 draw = sample_from int32 draw"

section \<open>What a generator promises\<close>

definition draws_below :: "'g rand \<Rightarrow> bool" where
  "draws_below draw \<longleftrightarrow> (\<forall>n g. 0 < n \<longrightarrow> 0 \<le> fst (draw n g) \<and> fst (draw n g) < n)"

definition draws_all :: "'g rand \<Rightarrow> bool" where
  "draws_all draw \<longleftrightarrow> (\<forall>n g v. 0 \<le> v \<longrightarrow> v < n \<longrightarrow> (\<exists>k. fst (draw n (((\<lambda>h. snd (draw n h)) ^^ k) g)) = v))"

text \<open>A generator that counts.\<close>

definition counting :: "int rand" where
  "counting n g = (g mod n, g + 1)"

lemma counting_draws_below: "draws_below counting"
  by (simp add: draws_below_def counting_def)

lemma counting_steps: "((\<lambda>h. snd (counting n h)) ^^ k) g = g + int k"
  by (induction k) (simp_all add: counting_def)

lemma counting_draws_all: "draws_all counting"
proof (unfold draws_all_def, intro allI impI)
  fix n g v :: int
  assume v: "0 \<le> v" "v < n"
  let ?k = "nat ((v - g) mod n)"
  have "int ?k = (v - g) mod n" using v by simp
  then have "(g + int ?k) mod n = v mod n" by (simp add: mod_simps)
  then have "fst (counting n (((\<lambda>h. snd (counting n h)) ^^ ?k) g)) = v"
    unfolding counting_steps using v by (simp add: counting_def)
  then show "\<exists>k. fst (counting n (((\<lambda>h. snd (counting n h)) ^^ k) g)) = v" ..
qed

section \<open>Correctness of the samplers\<close>

definition between :: "int \<Rightarrow> int \<Rightarrow> int set" where
  "between low high = {low..<high}"

lemma fold_union: "fold (\<lambda>s ex. ex \<union> s) exclude A = A \<union> \<Union>(set exclude)"
  by (induction exclude arbitrary: A) auto

lemma sample_all_fold:
  "distinct is' \<Longrightarrow> fst (fold (\<lambda>i (sampled, ex). if i \<notin> ex then (sampled @ [i], insert i ex) else (sampled, ex))
     is' (s, ex)) = s @ filter (\<lambda>i. i \<notin> ex) is'"
proof (induction is' arbitrary: s ex)
  case (Cons i is')
  then have "filter (\<lambda>j. j \<notin> insert i ex) is' = filter (\<lambda>j. j \<notin> ex) is'"
    by (intro filter_cong) auto
  then show ?case using Cons by simp
qed simp

lemma sample_all_eq: "sample_all low high ex = filter (\<lambda>i. i \<notin> ex) [low..high - 1]"
  by (simp add: sample_all_def sample_all_fold)

text \<open>What the loop keeps: the sample is fresh, without repetition and in range.\<close>

definition sampled_ok :: "int \<Rightarrow> int \<Rightarrow> int set \<Rightarrow> int list \<Rightarrow> bool" where
  "sampled_ok low high ex s \<longleftrightarrow> distinct s \<and> set s \<subseteq> between low high - ex"

lemma sampled_ok_all: "sampled_ok low high ex (sample_all low high ex)"
  by (auto simp: sampled_ok_def sample_all_eq between_def)

lemma card_between [simp]: "card (between low high) = nat (high - low)" "finite (between low high)"
  by (simp_all add: between_def)

text \<open>A state from which the next fresh value comes after finitely many draws.\<close>

lemma next_fresh:
  assumes "draws_all draw" "0 \<le> w" "w < l" "P w"
  shows "\<exists>k. P (fst (draw l (((\<lambda>h. snd (draw l h)) ^^ k) g))) \<and>
    (\<forall>j<k. \<not> P (fst (draw l (((\<lambda>h. snd (draw l h)) ^^ j) g))))"
proof -
  obtain k where "fst (draw l (((\<lambda>h. snd (draw l h)) ^^ k) g)) = w"
    using assms unfolding draws_all_def by blast
  then have "\<exists>k. P (fst (draw l (((\<lambda>h. snd (draw l h)) ^^ k) g)))" using assms(4) by metis
  then show ?thesis using exists_least_iff[of "\<lambda>k. P (fst (draw l (((\<lambda>h. snd (draw l h)) ^^ k) g)))"] by blast
qed

lemma sample_loop_reject:
  assumes "int (length s) < n"
    and "\<forall>j<k. wrap (fst (draw l (((\<lambda>h. snd (draw l h)) ^^ j) g)) + low) \<in> ex"
  shows "sample_loop wrap draw low l n s ex g = sample_loop wrap draw low l n s ex (((\<lambda>h. snd (draw l h)) ^^ k) g)"
  using assms(2)
proof (induction k arbitrary: g)
  case (Suc k)
  obtain r g' where d: "draw l g = (r, g')" by (cases "draw l g") auto
  have r: "wrap (r + low) \<in> ex" using Suc.prems[rule_format, of 0] d by simp
  have "sample_loop wrap draw low l n s ex g = sample_loop wrap draw low l n s ex g'"
    by (subst sample_loop.simps) (use assms(1) d r in \<open>simp add: Let_def\<close>)
  also have "\<dots> = sample_loop wrap draw low l n s ex (((\<lambda>h. snd (draw l h)) ^^ k) g')"
  proof (rule Suc.IH, intro allI impI)
    fix j assume "j < k"
    then show "wrap (fst (draw l (((\<lambda>h. snd (draw l h)) ^^ j) g')) + low) \<in> ex"
      using Suc.prems[rule_format, of "Suc j"] d by (simp add: funpow_Suc_right del: funpow.simps(2))
  qed
  finally show ?case using d by (simp add: funpow_Suc_right del: funpow.simps(2))
qed simp

lemma sample_loop_returns:
  assumes draw: "draws_all draw" "draws_below draw"
    and wrap: "\<And>v. low \<le> v \<Longrightarrow> v < low + l \<Longrightarrow> wrap v = v"
    and "finite ex" "set s \<subseteq> ex" "distinct s" "set s \<subseteq> between low (low + l)"
    and "n \<le> l - int (card (ex - set s))" "int (length s) \<le> n"
  shows "\<exists>s' g'. sample_loop wrap draw low l n s ex g = Some (s', g') \<and> int (length s') = n \<and>
    distinct s' \<and> set s' \<subseteq> between low (low + l) - (ex - set s)"
  using assms(4-)
proof (induction "nat n - length s" arbitrary: s ex g)
  case 0
  then have "\<not> int (length s) < n" by linarith
  moreover from this have "int (length s) = n" using 0 by linarith
  ultimately show ?case using 0 by (subst sample_loop.simps) auto
next
  case (Suc m)
  have less: "int (length s) < n" using Suc.hyps(2) by linarith
  have "card ex = card (ex - set s) + length s"
    using Suc.prems(1,2,3) card_mono[OF Suc.prems(1,2)] by (simp add: card_Diff_subset distinct_card)
  then have "card ex < card (between low (low + l))" using less Suc.prems(5) by simp
  then obtain w where w: "w \<in> between low (low + l)" "w \<notin> ex"
    using card_mono[OF Suc.prems(1)] by (metis linorder_not_le subsetI)
  then have "0 \<le> w - low" "w - low < l" "wrap (w - low + low) \<notin> ex"
    using wrap by (auto simp: between_def)
  from next_fresh[where P = "\<lambda>r. wrap (r + low) \<notin> ex", OF draw(1) this, of g] obtain k where
    k: "wrap (fst (draw l (((\<lambda>h. snd (draw l h)) ^^ k) g)) + low) \<notin> ex"
       "\<forall>j<k. wrap (fst (draw l (((\<lambda>h. snd (draw l h)) ^^ j) g)) + low) \<in> ex" by blast
  let ?g = "((\<lambda>h. snd (draw l h)) ^^ k) g"
  obtain r g' where d: "draw l ?g = (r, g')" by (cases "draw l ?g") auto
  have r: "0 \<le> r" "r < l" using draw(2) d \<open>w - low < l\<close> \<open>0 \<le> w - low\<close> unfolding draws_below_def
    by (metis fst_conv order_le_less_trans)+
  then have v: "wrap (r + low) = r + low" "r + low \<notin> ex" "r + low \<in> between low (low + l)"
    using wrap[of "r + low"] k(1) d by (auto simp: between_def)
  have step: "sample_loop wrap draw low l n s ex g =
      sample_loop wrap draw low l n (s @ [r + low]) (insert (r + low) ex) g'"
    unfolding sample_loop_reject[where wrap = wrap and draw = draw and l = l and low = low and g = g and k = k, OF less k(2)]
    by (subst sample_loop.simps) (use less d v in \<open>simp add: Let_def\<close>)
  have rest: "insert (r + low) ex - set (s @ [r + low]) = ex - set s" using v(2) by auto
  have "\<exists>s' g''. sample_loop wrap draw low l n (s @ [r + low]) (insert (r + low) ex) g' = Some (s', g'') \<and>
      int (length s') = n \<and> distinct s' \<and>
      set s' \<subseteq> between low (low + l) - (insert (r + low) ex - set (s @ [r + low]))"
    by (rule Suc.hyps(1)) (use Suc.prems Suc.hyps(2) less v rest in auto)
  then show ?case unfolding step rest .
qed

lemma sample_from_returns:
  assumes "draws_all draw" "draws_below draw"
    and wrap: "\<And>v. low \<le> v \<Longrightarrow> v < high \<Longrightarrow> wrap v = v" "wrap (high - low) = high - low"
    and "low \<le> high" "0 \<le> n" "\<forall>ex\<in>set exclude. finite ex"
  shows "\<exists>s g'. sample_from wrap draw low high n exclude g = Some (Inr (s, g')) \<and>
    sampled_ok low high (\<Union>(set exclude)) s \<and>
    (if high - low - int (card (\<Union>(set exclude))) \<le> n then set s = between low high - \<Union>(set exclude) else int (length s) = n)"
proof -
  let ?ex = "\<Union>(set exclude)"
  have ex: "fold (\<lambda>s ex. ex \<union> s) exclude {} = ?ex" by (simp add: fold_union)
  show ?thesis
  proof (cases "high - low - int (card ?ex) \<le> n")
    case True
    then have "sample_from wrap draw low high n exclude g = Some (Inr (sample_all low high ?ex, g))"
      using assms(6) ex wrap(2) by (simp add: sample_from_def)
    then show ?thesis using True by (auto simp: sampled_ok_all) (auto simp: sample_all_eq between_def)
  next
    case False
    then have pos: "0 < high - low" using assms(6) by linarith
    have l: "low + (high - low) = high" by simp
    have fin: "finite ?ex" using assms(7) by auto
    from sample_loop_returns[OF assms(1,2) _ this, of low "high - low" wrap "[]" n g] wrap(1) False assms(6)
    obtain s g' where "sample_loop wrap draw low (high - low) n [] ?ex g = Some (s, g')" "int (length s) = n"
      "distinct s" "set s \<subseteq> between low high - ?ex" by auto
    moreover from this have "sample_from wrap draw low high n exclude g = Some (Inr (s, g'))"
      using assms(6) ex wrap(2) False pos by (simp add: sample_from_def)
    ultimately show ?thesis using False by (auto simp: sampled_ok_def)
  qed
qed

lemma SampleInt32_returns:
  assumes "draws_all draw" "draws_below draw" "0 \<le> high" "high < 2 ^ 31" "0 \<le> n" "\<forall>ex\<in>set exclude. finite ex"
  shows "\<exists>s g'. SampleInt32 draw 0 high n exclude g = Some (Inr (s, g')) \<and>
    sampled_ok 0 high (\<Union>(set exclude)) s \<and>
    (if high - int (card (\<Union>(set exclude))) \<le> n then set s = between 0 high - \<Union>(set exclude) else int (length s) = n)"
proof -
  have "int32 v = v" if "0 \<le> v" "v < high" for v using that assms(4) by simp
  moreover have "int32 (high - 0) = high - 0" using assms(3,4) by simp
  ultimately show ?thesis
    using sample_from_returns[OF assms(1,2), of 0 high int32 n exclude g] assms(3,5,6)
    unfolding SampleInt32_def by simp
qed

end
