(* ===== verification/Recommend_Dataset.thy ===== *)
theory Recommend_Dataset
  imports Dict_Index Gorse_Data Go_Random
begin

text \<open>
  The data set the models are trained on (\<^verbatim>\<open>dataset/dataset.go\<close>): users, items and positive feedback with
  dense numbers, the labels turned into numbers, the splits into a training and a test set, the sampling
  of negatives, and the loader of the benchmark files.

  A row of \<open>ds_userFeedback\<close> holds the items of one user, a row of \<open>ds_itemFeedback\<close> the users of one item.
  The order of an object's fields stands for Go's order of iteration over a map. The interning of strings
  (\<^verbatim>\<open>strutil.Pool.Align\<close>) and the logarithm are parameters; a file is what \<^verbatim>\<open>os.Open\<close> and the line scanner
  return.
\<close>

section \<open>Labels\<close>

text \<open>A processed label: texts are replaced by their numbers, lists of numbers by \<^verbatim>\<open>float32\<close> vectors, and
  anything else stays.\<close>

datatype label =
  LId int | LIds "int list" | LFloats "fl list" | LObj "(string \<times> label) list" | LSame json

definition NewLabels :: FreqDict where
  "NewLabels = NewFreqDict"

definition number_label :: "string \<Rightarrow> string \<Rightarrow> FreqDict \<Rightarrow> go_fail + int \<times> FreqDict" where
  "number_label parent s values = fd_Add (parent @ '':'' @ s) values"

fun number_labels :: "string \<Rightarrow> json list \<Rightarrow> FreqDict \<Rightarrow> go_fail + int list \<times> FreqDict" where
  "number_labels parent (JStr s # js) values =
     rbind (number_label parent s values) (\<lambda>(i, values').
     rbind (number_labels parent js values') (\<lambda>(is', values''). Inr (i # is', values'')))"
| "number_labels parent js values = Inr ([], values)"

fun float32_of :: "json \<Rightarrow> fl" where
  "float32_of (JNum q) = rnd32 q"
| "float32_of _ = Fin 0"

function processLabels :: "(string \<Rightarrow> string) \<Rightarrow> json \<Rightarrow> string \<Rightarrow> FreqDict \<Rightarrow> go_fail + label \<times> FreqDict"
  and process_fields ::
    "(string \<Rightarrow> string) \<Rightarrow> (string \<times> json) list \<Rightarrow> string \<Rightarrow> label go_map \<Rightarrow> FreqDict \<Rightarrow> go_fail + label go_map \<times> FreqDict" where
  "processLabels Align (JObj typed) parent values =
     rbind (process_fields Align typed parent [] values) (\<lambda>(ob, values'). Inr (LObj ob, values'))"
| "processLabels Align (JArr typed) parent values =
     (if list_all is_JNum typed then Inr (LFloats (map float32_of typed), values)
      else if list_all is_JStr typed
      then rbind (number_labels parent typed values) (\<lambda>(is', values'). Inr (LIds is', values'))
      else Inr (LSame (JArr typed), values))"
| "processLabels Align (JStr typed) parent values =
     rbind (number_label parent typed values) (\<lambda>(i, values'). Inr (LId i, values'))"
| "processLabels Align JNull parent values = Inr (LSame JNull, values)"
| "processLabels Align (JBool b) parent values = Inr (LSame (JBool b), values)"
| "processLabels Align (JNum q) parent values = Inr (LSame (JNum q), values)"
| "processLabels Align (JTime t) parent values = Inr (LSame (JTime t), values)"
| "process_fields Align [] parent ob values = Inr (ob, values)"
| "process_fields Align ((k, v) # typed) parent ob values =
     rbind (processLabels Align v (parent @ ''.'' @ k) values) (\<lambda>(l, values').
     process_fields Align typed parent (gput (Align k) l ob) values')"
  by pat_completeness auto
termination
  by (relation "measure (\<lambda>x. case x of Inl (_, j, _, _) \<Rightarrow> 2 * size j | Inr (_, kvs, _, _, _) \<Rightarrow> 2 * size_list (size_prod (\<lambda>_. 0) size) kvs + 1)") auto

section \<open>The data set\<close>

record dataset_User =
  du_UserId :: string
  du_Labels :: label
  du_Comment :: string

record dataset_Item =
  di_ItemId :: string
  di_IsHidden :: bool
  di_Categories :: "string list"
  di_Timestamp :: int
  di_Labels :: label
  di_Comment :: string

record Dataset =
  ds_timestamp :: int
  ds_users :: "dataset_User list"
  ds_items :: "dataset_Item list"
  ds_userLabels :: FreqDict
  ds_itemLabels :: FreqDict
  ds_userFeedback :: "int list list"
  ds_itemFeedback :: "int list list"
  ds_timestamps :: "int list list"
  ds_negatives :: "int list list"
  ds_userDict :: FreqDict
  ds_itemDict :: FreqDict
  ds_numFeedback :: int
  ds_categories :: "string \<rightharpoonup> int"

definition NewDataset :: "int \<Rightarrow> int \<Rightarrow> int \<Rightarrow> go_fail + Dataset" where
  "NewDataset timestamp userCount itemCount =
     (if userCount < 0 \<or> itemCount < 0 then Inl (Panic ''makeslice: cap out of range'')
      else Inr \<lparr>ds_timestamp = timestamp, ds_users = [], ds_items = [], ds_userLabels = NewLabels,
        ds_itemLabels = NewLabels, ds_userFeedback = replicate (nat userCount) [],
        ds_itemFeedback = replicate (nat itemCount) [], ds_timestamps = replicate (nat userCount) [],
        ds_negatives = [], ds_userDict = NewFreqDict, ds_itemDict = NewFreqDict, ds_numFeedback = 0,
        ds_categories = Map.empty\<rparr>)"

definition ds_CountFeedback :: "Dataset \<Rightarrow> int" where
  "ds_CountFeedback d = ds_numFeedback d"

definition ds_CountUsers :: "Dataset \<Rightarrow> int" where
  "ds_CountUsers d = int (length (ds_users d))"

definition ds_CountItems :: "Dataset \<Rightarrow> int" where
  "ds_CountItems d = int (length (ds_items d))"

definition grow_rows :: "nat \<Rightarrow> 'a list list \<Rightarrow> 'a list list" where
  "grow_rows n rows = (if length rows < n then rows @ [[]] else rows)"

definition ds_AddUser :: "(string \<Rightarrow> string) \<Rightarrow> User \<Rightarrow> Dataset \<Rightarrow> go_fail + Dataset" where
  "ds_AddUser Align user d =
     rbind (processLabels Align (user_Labels user) [] (ds_userLabels d)) (\<lambda>(l, values).
       let users = ds_users d @ [\<lparr>du_UserId = UserId user, du_Labels = l, du_Comment = user_Comment user\<rparr>]
       in Inr (d\<lparr>ds_users := users, ds_userLabels := values,
            ds_userDict := snd (fd_AddNoCount (UserId user) (ds_userDict d)),
            ds_userFeedback := grow_rows (length users) (ds_userFeedback d),
            ds_timestamps := grow_rows (length users) (ds_timestamps d)\<rparr>))"

definition count_category :: "string \<Rightarrow> (string \<rightharpoonup> int) \<Rightarrow> (string \<rightharpoonup> int)" where
  "count_category category m = m(category \<mapsto> int64 ((case m category of None \<Rightarrow> 0 | Some n \<Rightarrow> n) + 1))"

definition ds_AddItem :: "(string \<Rightarrow> string) \<Rightarrow> Item \<Rightarrow> Dataset \<Rightarrow> go_fail + Dataset" where
  "ds_AddItem Align item d =
     rbind (processLabels Align (item_Labels item) [] (ds_itemLabels d)) (\<lambda>(l, values).
       let items = ds_items d @ [\<lparr>di_ItemId = ItemId item, di_IsHidden = item_IsHidden item,
             di_Categories = item_Categories item, di_Timestamp = item_Timestamp item, di_Labels = l,
             di_Comment = item_Comment item\<rparr>]
       in Inr (d\<lparr>ds_items := items, ds_itemLabels := values,
            ds_itemDict := snd (fd_AddNoCount (ItemId item) (ds_itemDict d)),
            ds_itemFeedback := grow_rows (length items) (ds_itemFeedback d),
            ds_categories := fold count_category (item_Categories item) (ds_categories d)\<rparr>))"

text \<open>\<open>rows[i] = append(rows[i], v)\<close>.\<close>

definition row_append :: "int \<Rightarrow> 'a \<Rightarrow> 'a list list \<Rightarrow> go_fail + 'a list list" where
  "row_append i v rows = rbind (slice_get rows i) (\<lambda>row. slice_set rows i (row @ [v]))"

definition record_feedback :: "int \<times> int \<times> int \<Rightarrow> Dataset \<Rightarrow> go_fail + Dataset" where
  "record_feedback e d =
     (case e of (userIndex, itemIndex, timestamp) \<Rightarrow>
        rbind (row_append userIndex itemIndex (ds_userFeedback d)) (\<lambda>uf.
        rbind (row_append itemIndex userIndex (ds_itemFeedback d)) (\<lambda>itf.
        rbind (row_append userIndex timestamp (ds_timestamps d)) (\<lambda>ts.
        Inr (d\<lparr>ds_userFeedback := uf, ds_itemFeedback := itf, ds_timestamps := ts,
               ds_numFeedback := int64 (ds_numFeedback d + 1)\<rparr>)))))"

definition AddFeedback :: "string \<Rightarrow> string \<Rightarrow> int \<Rightarrow> Dataset \<Rightarrow> go_fail + Dataset" where
  "AddFeedback userId itemId timestamp d =
     rbind (fd_Add userId (ds_userDict d)) (\<lambda>(userIndex, userDict).
     rbind (fd_Add itemId (ds_itemDict d)) (\<lambda>(itemIndex, itemDict).
     record_feedback (userIndex, itemIndex, timestamp) (d\<lparr>ds_userDict := userDict, ds_itemDict := itemDict\<rparr>)))"

section \<open>Inverse document frequencies\<close>

definition of_int32 :: "int \<Rightarrow> fl" where
  "of_int32 n = rnd32 (of_int n)"

text \<open>\<^verbatim>\<open>float32\<close> division of the two counts; the divisor zero is the positive zero.\<close>

fun fdiv32 :: "fl \<Rightarrow> fl \<Rightarrow> fl" where
  "fdiv32 (Fin a) (Fin b) = (if b = 0 then (if a = 0 then NaN else fsign_inf (0 < a)) else rnd32 (a / b))"
| "fdiv32 a b = fdiv a b"

text \<open>The builtin \<^verbatim>\<open>max\<close>: a NaN wins.\<close>

definition fmax :: "fl \<Rightarrow> fl \<Rightarrow> fl" where
  "fmax a b = (if a = NaN \<or> b = NaN then NaN else if fless a b then b else a)"

definition idf_of :: "(fl \<Rightarrow> fl) \<Rightarrow> int \<Rightarrow> FreqDict \<Rightarrow> go_fail + fl list" where
  "idf_of Log n dict =
     fold_res (\<lambda>i idf. rbind (fd_Freq dict i) (\<lambda>f.
        Inr (idf @ [fmax (Log (fdiv32 (of_int32 n) (of_int32 f))) (rnd32 (1 / 1000))])))
      [0..fd_Count dict - 1] []"

definition GetUserIDF :: "(fl \<Rightarrow> fl) \<Rightarrow> Dataset \<Rightarrow> go_fail + fl list" where
  "GetUserIDF Log d = idf_of Log (ds_CountItems d) (ds_userDict d)"

definition GetItemIDF :: "(fl \<Rightarrow> fl) \<Rightarrow> Dataset \<Rightarrow> go_fail + fl list" where
  "GetItemIDF Log d = idf_of Log (ds_CountUsers d) (ds_itemDict d)"

definition GetUserColumnValuesIDF :: "(fl \<Rightarrow> fl) \<Rightarrow> Dataset \<Rightarrow> go_fail + fl list" where
  "GetUserColumnValuesIDF Log d = idf_of Log (ds_CountUsers d) (ds_userLabels d)"

definition GetItemColumnValuesIDF :: "(fl \<Rightarrow> fl) \<Rightarrow> Dataset \<Rightarrow> go_fail + fl list" where
  "GetItemColumnValuesIDF Log d = idf_of Log (ds_CountItems d) (ds_itemLabels d)"

section \<open>Splits\<close>

text \<open>The label tables of a split, which no operation of \<^verbatim>\<open>CFSplit\<close> reads, are nil in Go and empty here.\<close>

definition empty_split :: "Dataset \<Rightarrow> Dataset" where
  "empty_split d =
     \<lparr>ds_timestamp = zero_time, ds_users = ds_users d, ds_items = ds_items d, ds_userLabels = NewLabels,
      ds_itemLabels = NewLabels, ds_userFeedback = replicate (length (ds_users d)) [],
      ds_itemFeedback = replicate (length (ds_items d)) [], ds_timestamps = replicate (length (ds_users d)) [],
      ds_negatives = [], ds_userDict = ds_userDict d, ds_itemDict = ds_itemDict d, ds_numFeedback = 0,
      ds_categories = Map.empty\<rparr>"

text \<open>One entry of a user's row, by its position.\<close>

definition row_entry :: "Dataset \<Rightarrow> int \<Rightarrow> int \<Rightarrow> go_fail + int \<times> int \<times> int" where
  "row_entry d u i =
     rbind (slice_get (ds_userFeedback d) u) (\<lambda>row. rbind (slice_get row i) (\<lambda>item.
     rbind (slice_get (ds_timestamps d) u) (\<lambda>ts. rbind (slice_get ts i) (\<lambda>t. Inr (u, item, t)))))"

definition copy_entry :: "Dataset \<Rightarrow> int \<Rightarrow> int \<Rightarrow> Dataset \<Rightarrow> go_fail + Dataset" where
  "copy_entry d u i target = rbind (row_entry d u i) (\<lambda>e. record_feedback e target)"

text \<open>One user leaves one entry, drawn at random, to the test set and the others to the training set.\<close>

definition leave_one_out :: "'g rand \<Rightarrow> Dataset \<Rightarrow> int \<Rightarrow> (Dataset \<times> Dataset) \<times> 'g \<Rightarrow> go_fail + (Dataset \<times> Dataset) \<times> 'g" where
  "leave_one_out draw d u st =
     (case st of ((train, test), g) \<Rightarrow>
        rbind (slice_get (ds_userFeedback d) u) (\<lambda>row.
        if row = [] then Inr st
        else rbind (Intn draw (int (length row)) g) (\<lambda>(k, g').
             rbind (copy_entry d u k test) (\<lambda>test'.
             rbind (fold_res (\<lambda>i tr. if i \<noteq> k then copy_entry d u i tr else Inr tr) [0..int (length row) - 1] train) (\<lambda>train'.
             Inr ((train', test'), g'))))))"

definition keep_user :: "Dataset \<Rightarrow> int \<Rightarrow> Dataset \<Rightarrow> go_fail + Dataset" where
  "keep_user d u train =
     rbind (slice_get (ds_userFeedback d) u) (\<lambda>row. fold_res (copy_entry d u) [0..int (length row) - 1] train)"

definition SplitCF :: "'g rand \<Rightarrow> (int \<Rightarrow> 'g) \<Rightarrow> int \<Rightarrow> int \<Rightarrow> Dataset \<Rightarrow> (Dataset \<times> Dataset) run" where
  "SplitCF draw NewRandomGenerator numTestUsers seed d =
     (let start = (empty_split d, empty_split d);
          rng = NewRandomGenerator seed
      in if ds_CountUsers d \<le> numTestUsers \<or> numTestUsers \<le> 0
         then Some (rbind (fold_res (leave_one_out draw d) [0..int32 (ds_CountUsers d) - 1] (start, rng))
                (\<lambda>(sets, _). Inr sets))
         else run_bind (SampleInt32 draw 0 (int32 (ds_CountUsers d)) numTestUsers [] rng) (\<lambda>(testUsers, g).
              Some (rbind (fold_res (leave_one_out draw d) testUsers (start, g)) (\<lambda>((train, test), _).
                    rbind (fold_res (\<lambda>u tr. if u \<notin> set testUsers then keep_user d u tr else Inr tr)
                             [0..int32 (ds_CountUsers d) - 1] train) (\<lambda>train'. Inr (train', test))))))"

text \<open>The latest entry of every user is the test, the next \<open>shots\<close> ones the training set.\<close>

definition latest_first :: "int list \<Rightarrow> int list" where
  "latest_first ts = sort_slice (\<lambda>i j. ts ! nat j < ts ! nat i) [0..int (length ts) - 1]"

definition split_latest_user :: "Dataset \<Rightarrow> int \<Rightarrow> int \<Rightarrow> Dataset \<times> Dataset \<Rightarrow> go_fail + Dataset \<times> Dataset" where
  "split_latest_user d shots u st =
     (case st of (train, test) \<Rightarrow>
        rbind (slice_get (ds_userFeedback d) u) (\<lambda>row.
        if row = [] then Inr st
        else rbind (slice_get (ds_timestamps d) u) (\<lambda>ts.
             if length ts < length row then Inl (Panic ''index out of range'')
             else let idxs = latest_first (take (length row) ts)
                  in rbind (copy_entry d u (hd idxs) test) (\<lambda>test'.
                     rbind (fold_res (copy_entry d u) (take (nat shots) (tl idxs)) train) (\<lambda>train'.
                     Inr (train', test'))))))"

definition SplitLatest :: "int \<Rightarrow> Dataset \<Rightarrow> go_fail + Dataset \<times> Dataset" where
  "SplitLatest shots d =
     fold_res (split_latest_user d shots) [0..int32 (ds_CountUsers d) - 1] (empty_split d, empty_split d)"

section \<open>Negatives\<close>

definition user_row :: "Dataset \<Rightarrow> int \<Rightarrow> go_fail + int list" where
  "user_row d u = slice_get (ds_userFeedback d) u"

fun sample_negatives ::
  "'g rand \<Rightarrow> Dataset \<Rightarrow> Dataset \<Rightarrow> int \<Rightarrow> int list \<Rightarrow> int list list \<Rightarrow> 'g \<Rightarrow> int list list run" where
  "sample_negatives draw d excludeSet numCandidates [] negatives g = Some (Inr negatives)"
| "sample_negatives draw d excludeSet numCandidates (u # us) negatives g =
     run_bind (Some (user_row d u)) (\<lambda>s1. run_bind (Some (user_row excludeSet u)) (\<lambda>s2.
     run_bind (SampleInt32 draw 0 (int32 (ds_CountItems d)) numCandidates [set s1, set s2] g) (\<lambda>(s, g').
     run_bind (Some (slice_set negatives u s)) (\<lambda>negatives'.
     sample_negatives draw d excludeSet numCandidates us negatives' g'))))"

definition SampleUserNegatives ::
  "'g rand \<Rightarrow> (int \<Rightarrow> 'g) \<Rightarrow> Dataset \<Rightarrow> int \<Rightarrow> Dataset \<Rightarrow> (int list list \<times> Dataset) run" where
  "SampleUserNegatives draw NewRandomGenerator excludeSet numCandidates d =
     (if ds_negatives d = []
      then run_bind (sample_negatives draw d excludeSet numCandidates [0..ds_CountUsers d - 1]
               (replicate (length (ds_users d)) []) (NewRandomGenerator 0))
             (\<lambda>negatives. Some (Inr (negatives, d\<lparr>ds_negatives := negatives\<rparr>)))
      else Some (Inr (ds_negatives d, d)))"

section \<open>Benchmark files\<close>

fun split_on :: "char \<Rightarrow> string \<Rightarrow> string list" where
  "split_on sep [] = [[]]"
| "split_on sep (c # cs) =
     (if c = sep then [] # split_on sep cs
      else case split_on sep cs of [] \<Rightarrow> [[c]] | f # fs \<Rightarrow> (c # f) # fs)"

text \<open>What \<^verbatim>\<open>os.Open\<close> and the line scanner give: an error, or the lines and the scanner's final error.\<close>

type_synonym file_lines = "go_fail + string list \<times> go_fail option"

definition blank_user :: "int \<Rightarrow> User" where
  "blank_user i = \<lparr>UserId = FormatInt i, user_Labels = JNull, user_Comment = []\<rparr>"

definition blank_item :: "int \<Rightarrow> Item" where
  "blank_item i = \<lparr>ItemId = FormatInt i, item_IsHidden = False, item_Categories = [],
     item_Timestamp = zero_time, item_Labels = JNull, item_Comment = []\<rparr>"

definition parse_id :: "string \<Rightarrow> go_fail + int" where
  "parse_id s = (case ParseInt32 s of None \<Rightarrow> Inl (Error ''strconv.ParseInt'') | Some n \<Rightarrow> Inr n)"

text \<open>The counter of the two inner loops is below \<^verbatim>\<open>math.MaxInt32\<close>, where it would wrap around.\<close>

definition load_train_line :: "(string \<Rightarrow> string) \<Rightarrow> string \<Rightarrow> Dataset \<Rightarrow> go_fail + Dataset" where
  "load_train_line Align line d =
     (let fs = split_on (CHR 0x09) line
      in rbind (slice_get fs 0) (\<lambda>f0. rbind (parse_id f0) (\<lambda>userId.
         rbind (fold_res (\<lambda>i. ds_AddUser Align (blank_user i)) [fd_Count (ds_userDict d)..userId] d) (\<lambda>d1.
         rbind (slice_get fs 1) (\<lambda>f1. rbind (parse_id f1) (\<lambda>itemId.
         rbind (fold_res (\<lambda>i. ds_AddItem Align (blank_item i)) [fd_Count (ds_itemDict d1)..itemId] d1) (\<lambda>d2.
         AddFeedback f0 f1 zero_time d2)))))))"

definition scanner_Err :: "go_fail option \<Rightarrow> 'a \<Rightarrow> go_fail + 'a" where
  "scanner_Err err x = (case err of Some e \<Rightarrow> Inl e | None \<Rightarrow> Inr x)"

definition loadTrain :: "(string \<Rightarrow> string) \<Rightarrow> int \<Rightarrow> file_lines \<Rightarrow> go_fail + Dataset" where
  "loadTrain Align now path =
     rbind (NewDataset now 0 0) (\<lambda>dataset. rbind path (\<lambda>(ls, err).
     rbind (fold_res (load_train_line Align) ls dataset) (scanner_Err err)))"

fun add_negatives :: "string list \<Rightarrow> FreqDict \<Rightarrow> go_fail + int list \<times> FreqDict" where
  "add_negatives [] dict = Inr ([], dict)"
| "add_negatives (n # ns) dict =
     rbind (fd_Add n dict) (\<lambda>(i, dict'). rbind (add_negatives ns dict') (\<lambda>(is', dict''). Inr (i # is', dict'')))"

definition load_test_line :: "string \<Rightarrow> Dataset \<Rightarrow> go_fail + Dataset" where
  "load_test_line line d =
     (let fs = split_on (CHR 0x09) line; positive = hd fs; negatives = tl fs
      in if positive = [] then Inl (Panic ''index out of range'')
         else if hd positive \<noteq> CHR ''('' \<or> last positive \<noteq> CHR '')'' then Inl (Error ''wrong foramt'')
         else let gs = split_on (CHR '','') (butlast (tl positive))
              in rbind (slice_get gs 0) (\<lambda>f0. rbind (slice_get gs 1) (\<lambda>f1.
                 rbind (AddFeedback f0 f1 zero_time d) (\<lambda>d1.
                 case atoi f0 of None \<Rightarrow> Inl (Error ''strconv.Atoi'')
                 | Some userId \<Rightarrow>
                     rbind (slice_get (ds_negatives d1) userId) (\<lambda>_.
                     rbind (add_negatives negatives (ds_itemDict d1)) (\<lambda>(ns, dict).
                     rbind (slice_set (ds_negatives d1) userId ns) (\<lambda>rows.
                     Inr (d1\<lparr>ds_itemDict := dict, ds_negatives := rows\<rparr>))))))))"

definition loadTest :: "Dataset \<Rightarrow> file_lines \<Rightarrow> go_fail + Dataset" where
  "loadTest dataset path =
     rbind path (\<lambda>(ls, err). rbind (fold_res load_test_line ls dataset) (scanner_Err err))"

text \<open>The test set shares the dictionaries of the training set: what \<open>loadTest\<close> adds to them shows in both.\<close>

definition LoadDataFromBuiltIn ::
  "(string \<Rightarrow> string) \<Rightarrow> int \<Rightarrow> go_fail + file_lines \<times> file_lines \<Rightarrow> go_fail + Dataset \<times> Dataset" where
  "LoadDataFromBuiltIn Align now located =
     rbind located (\<lambda>(trainFilePath, testFilePath).
     rbind (loadTrain Align now trainFilePath) (\<lambda>train.
     rbind (NewDataset (ds_timestamp train) 0 0) (\<lambda>blank.
       let n = length (ds_userFeedback train);
           test = blank\<lparr>ds_users := ds_users train, ds_items := ds_items train,
             ds_userDict := ds_userDict train, ds_itemDict := ds_itemDict train,
             ds_userFeedback := replicate n [], ds_itemFeedback := replicate (length (ds_itemFeedback train)) [],
             ds_timestamps := replicate n [], ds_negatives := replicate n []\<rparr>
       in rbind (loadTest test testFilePath) (\<lambda>test'.
          Inr (train\<lparr>ds_userDict := ds_userDict test', ds_itemDict := ds_itemDict test'\<rparr>, test')))))"


end
