(* ===== verification/Dataset_Split.thy ===== *)
theory Dataset_Split
  imports Recommend_Dataset
begin

text \<open>
  What the data set of \<^verbatim>\<open>Recommend_Dataset\<close> promises: the rows after a sequence of additions, the two splits,
  and the sampled negatives. The rows of a data set are described by the list of its feedback entries
  (user number, item number, time): \<open>with_entries\<close> adds a list of entries to all rows at once, and every loop
  of the source is shown to be one such addition.
\<close>

section \<open>Loops over lists\<close>

lemma fold_res_map: "fold_res f (map g xs) s = fold_res (\<lambda>x. f (g x)) xs s"
  by (induction xs arbitrary: s) (auto simp: rbind_def split: sum.splits)

lemma fold_res_filter:
  "fold_res (\<lambda>x s. if P x then f x s else Inr s) xs s = fold_res f (filter P xs) s"
  by (induction xs arbitrary: s) (auto simp: rbind_def split: sum.splits)

lemma fold_res_cong: "(\<And>x s. x \<in> set xs \<Longrightarrow> f x s = g x s) \<Longrightarrow> fold_res f xs s = fold_res g xs s"
  by (induction xs arbitrary: s) (auto simp: rbind_def split: sum.splits)

lemma upto_int: "[0..int n - 1] = map int [0..<n]"
proof (induction n)
  case (Suc n)
  have "[0..int n] = [0..int n - 1] @ [int n]" by (rule upto_rec2) simp
  then show ?case using Suc by simp
qed simp

definition drop_at :: "nat \<Rightarrow> 'a list \<Rightarrow> 'a list" where
  "drop_at k xs = take k xs @ drop (Suc k) xs"

lemma nth_filter_neq:
  assumes "k < length xs"
  shows "map (\<lambda>i. xs ! i) (filter (\<lambda>i. i \<noteq> k) [0..<length xs]) = drop_at k xs"
proof -
  have "[0..<length xs] = [0..<k] @ k # [Suc k..<length xs]"
    using assms by (metis le_add_same_cancel1 less_imp_le_nat upt_add_eq_append upt_conv_Cons add_0 bot_nat_0.extremum le_Suc_ex)
  then have "filter (\<lambda>i. i \<noteq> k) [0..<length xs] = [0..<k] @ [Suc k..<length xs]"
    by (simp add: filter_id_conv)
  moreover have "map (\<lambda>i. xs ! i) [0..<k] = take k xs" "map (\<lambda>i. xs ! i) [Suc k..<length xs] = drop (Suc k) xs"
    using assms by (simp_all add: list_eq_iff_nth_eq)
  ultimately show ?thesis by (simp add: drop_at_def)
qed

lemma map_drop_at: "map f (drop_at k xs) = drop_at k (map f xs)"
  by (simp add: drop_at_def take_map drop_map)

lemma length_drop_at: "k < length xs \<Longrightarrow> length (drop_at k xs) = length xs - 1"
  by (simp add: drop_at_def)

lemma set_drop_at: "set (drop_at k xs) \<subseteq> set xs"
  by (auto simp: drop_at_def dest: in_set_takeD in_set_dropD)

section \<open>Entries\<close>

type_synonym entry = "int \<times> int \<times> int"

definition of_user :: "int \<Rightarrow> entry list \<Rightarrow> entry list" where
  "of_user u es = filter (\<lambda>e. fst e = u) es"

definition of_item :: "int \<Rightarrow> entry list \<Rightarrow> entry list" where
  "of_item i es = filter (\<lambda>e. fst (snd e) = i) es"

abbreviation entry_item :: "entry \<Rightarrow> int" where "entry_item e \<equiv> fst (snd e)"
abbreviation entry_time :: "entry \<Rightarrow> int" where "entry_time e \<equiv> snd (snd e)"

definition entry_ok :: "nat \<Rightarrow> nat \<Rightarrow> entry \<Rightarrow> bool" where
  "entry_ok nu ni e \<longleftrightarrow> 0 \<le> fst e \<and> fst e < int nu \<and> 0 \<le> entry_item e \<and> entry_item e < int ni"

lemma of_user_simps [simp]:
  "of_user u [] = []" "of_user u (e # es) = (if fst e = u then e # of_user u es else of_user u es)"
  "of_user u (es @ fs) = of_user u es @ of_user u fs"
  by (simp_all add: of_user_def)

lemma of_item_simps [simp]:
  "of_item i [] = []" "of_item i (e # es) = (if entry_item e = i then e # of_item i es else of_item i es)"
  "of_item i (es @ fs) = of_item i es @ of_item i fs"
  by (simp_all add: of_item_def)

definition add_rows :: "(int \<Rightarrow> 'a list) \<Rightarrow> 'a list list \<Rightarrow> 'a list list" where
  "add_rows f rows = map (\<lambda>i. rows ! i @ f (int i)) [0..<length rows]"

lemma length_add_rows [simp]: "length (add_rows f rows) = length rows"
  by (simp add: add_rows_def)

lemma nth_add_rows [simp]: "i < length rows \<Longrightarrow> add_rows f rows ! i = rows ! i @ f (int i)"
  by (simp add: add_rows_def)

lemma add_rows_Nil [simp]: "add_rows (\<lambda>i. []) rows = rows"
  by (rule nth_equalityI) simp_all

lemma add_rows_add_rows: "add_rows g (add_rows f rows) = add_rows (\<lambda>i. f i @ g i) rows"
  by (rule nth_equalityI) simp_all

definition with_entries :: "entry list \<Rightarrow> Dataset \<Rightarrow> Dataset" where
  "with_entries es d = d\<lparr>
     ds_userFeedback := add_rows (\<lambda>u. map entry_item (of_user u es)) (ds_userFeedback d),
     ds_itemFeedback := add_rows (\<lambda>i. map fst (of_item i es)) (ds_itemFeedback d),
     ds_timestamps := add_rows (\<lambda>u. map entry_time (of_user u es)) (ds_timestamps d),
     ds_numFeedback := ds_numFeedback d + int (length es)\<rparr>"

lemma with_entries_fields [simp]:
  "ds_userFeedback (with_entries es d) = add_rows (\<lambda>u. map entry_item (of_user u es)) (ds_userFeedback d)"
  "ds_itemFeedback (with_entries es d) = add_rows (\<lambda>i. map fst (of_item i es)) (ds_itemFeedback d)"
  "ds_timestamps (with_entries es d) = add_rows (\<lambda>u. map entry_time (of_user u es)) (ds_timestamps d)"
  "ds_numFeedback (with_entries es d) = ds_numFeedback d + int (length es)"
  "ds_users (with_entries es d) = ds_users d" "ds_items (with_entries es d) = ds_items d"
  "ds_userDict (with_entries es d) = ds_userDict d" "ds_itemDict (with_entries es d) = ds_itemDict d"
  by (simp_all add: with_entries_def)

lemma with_entries_append: "with_entries fs (with_entries es d) = with_entries (es @ fs) d"
  by (simp add: with_entries_def add_rows_add_rows add.assoc)

lemma with_entries_Nil [simp]: "with_entries [] d = d"
  by (simp add: with_entries_def)

lemma row_append_ok:
  assumes "0 \<le> i" "i < int (length rows)"
  shows "row_append i v rows = Inr (add_rows (\<lambda>j. if i = j then [v] else []) rows)"
proof -
  have "rows[nat i := rows ! nat i @ [v]] = add_rows (\<lambda>j. if i = j then [v] else []) rows"
    using assms by (intro nth_equalityI) (auto simp: nth_list_update)
  then show ?thesis using assms by (simp add: row_append_def slice_get_def slice_set_def)
qed

text \<open>A data set with room for the entries: recording them never panics.\<close>

definition has_room :: "entry list \<Rightarrow> Dataset \<Rightarrow> bool" where
  "has_room es d \<longleftrightarrow> (\<forall>e\<in>set es. entry_ok (length (ds_userFeedback d)) (length (ds_itemFeedback d)) e) \<and>
     length (ds_timestamps d) = length (ds_userFeedback d) \<and>
     0 \<le> ds_numFeedback d \<and> ds_numFeedback d + int (length es) < 2 ^ 63"

lemma record_one: "has_room [e] d \<Longrightarrow> record_feedback e d = Inr (with_entries [e] d)"
  by (cases e) (auto simp: has_room_def entry_ok_def record_feedback_def row_append_ok with_entries_def
      if_distrib[of "map _"] cong: if_cong)

lemma record_all: "has_room es d \<Longrightarrow> fold_res record_feedback es d = Inr (with_entries es d)"
proof (induction es arbitrary: d)
  case (Cons e es)
  have "has_room [e] d" "has_room es (with_entries [e] d)" using Cons.prems by (auto simp: has_room_def)
  then show ?case using Cons.IH by (simp add: record_one with_entries_append)
qed simp

text \<open>The rows by user and the rows by item hold the same pairs.\<close>

definition transposed :: "Dataset \<Rightarrow> bool" where
  "transposed d \<longleftrightarrow> (\<forall>u<length (ds_userFeedback d). \<forall>i<length (ds_itemFeedback d).
     count_list (ds_userFeedback d ! u) (int i) = count_list (ds_itemFeedback d ! i) (int u))"

lemma transposed_with_entries: "transposed d \<Longrightarrow> transposed (with_entries es d)"
proof -
  have "count_list (map entry_item (of_user u es)) i = count_list (map fst (of_item i es)) u" for u i
    by (induction es) auto
  then show "transposed d \<Longrightarrow> transposed (with_entries es d)" by (simp add: transposed_def count_list_append)
qed

lemma entries_by_user:
  "(\<And>e. e \<in> set es \<Longrightarrow> 0 \<le> fst e \<and> fst e < int n) \<Longrightarrow> (\<Sum>u<n. length (of_user (int u) es)) = length es"
proof (induction es)
  case (Cons e es)
  have e: "nat (fst e) < n" "0 \<le> fst e" using Cons.prems[of e] by auto
  have "(\<Sum>u<n. length (of_user (int u) (e # es))) =
      (\<Sum>u<n. length (of_user (int u) es) + (if u = nat (fst e) then 1 else 0))"
    using e(2) by (intro sum.cong) auto
  also have "\<dots> = length es + 1" using Cons e by (simp add: sum.distrib)
  finally show ?case by simp
qed simp

section \<open>Leave one out\<close>

definition ds_wf :: "Dataset \<Rightarrow> bool" where
  "ds_wf d \<longleftrightarrow> length (ds_users d) < 2 ^ 31 \<and> length (ds_users d) \<le> length (ds_userFeedback d) \<and>
     length (ds_timestamps d) = length (ds_userFeedback d) \<and>
     (\<forall>u<length (ds_users d). length (ds_timestamps d ! u) = length (ds_userFeedback d ! u) \<and>
        (\<forall>i\<in>set (ds_userFeedback d ! u). 0 \<le> i \<and> i < ds_CountItems d)) \<and>
     ds_numFeedback d = (\<Sum>u<length (ds_users d). int (length (ds_userFeedback d ! u))) \<and> ds_numFeedback d < 2 ^ 63"

definition entries_of :: "Dataset \<Rightarrow> nat \<Rightarrow> entry list" where
  "entries_of d u = map (\<lambda>i. (int u, ds_userFeedback d ! u ! i, ds_timestamps d ! u ! i))
     [0..<length (ds_userFeedback d ! u)]"

lemma length_entries_of [simp]: "length (entries_of d u) = length (ds_userFeedback d ! u)"
  by (simp add: entries_of_def)

lemma entries_of_rows:
  assumes "ds_wf d" "u < length (ds_users d)"
  shows "map entry_item (entries_of d u) = ds_userFeedback d ! u" "map entry_time (entries_of d u) = ds_timestamps d ! u"
  using assms by (auto simp: entries_of_def ds_wf_def intro!: nth_equalityI)

lemma entries_of_ok:
  assumes "ds_wf d" "u < length (ds_users d)" "e \<in> set (entries_of d u)"
  shows "fst e = int u" "entry_ok (length (ds_users d)) (length (ds_items d)) e"
  using assms by (auto simp: entries_of_def ds_wf_def entry_ok_def ds_CountItems_def)

lemma row_entry_ok:
  assumes "ds_wf d" "u < length (ds_users d)" "i < length (ds_userFeedback d ! u)"
  shows "row_entry d (int u) (int i) = Inr (entries_of d u ! i)"
  using assms by (simp add: row_entry_def ds_wf_def entries_of_def)

lemma copy_entries:
  assumes "ds_wf d" "u < length (ds_users d)" "\<And>i. i \<in> set idxs \<Longrightarrow> i < length (ds_userFeedback d ! u)"
  shows "fold_res (copy_entry d (int u)) (map int idxs) target =
    fold_res record_feedback (map (\<lambda>i. entries_of d u ! i) idxs) target"
  unfolding fold_res_map
  by (rule fold_res_cong) (simp add: copy_entry_def row_entry_ok[OF assms(1,2)] assms(3))

lemma user_slice:
  "ds_wf d \<Longrightarrow> u < length (ds_users d) \<Longrightarrow> slice_get (ds_userFeedback d) (int u) = Inr (ds_userFeedback d ! u)"
  by (simp add: ds_wf_def)

text \<open>A user with feedback gives one entry to the test set and the rest to the training set.\<close>

lemma leave_one_out_step:
  assumes "ds_wf d" "u < length (ds_users d)" "draws_below draw" "ds_userFeedback d ! u \<noteq> []"
    and "\<And>k. k < length (entries_of d u) \<Longrightarrow> has_room [entries_of d u ! k] test"
    and "\<And>k. k < length (entries_of d u) \<Longrightarrow> has_room (drop_at k (entries_of d u)) train"
  shows "\<exists>k g'. k < length (entries_of d u) \<and> leave_one_out draw d (int u) ((train, test), g) =
    Inr ((with_entries (drop_at k (entries_of d u)) train, with_entries [entries_of d u ! k] test), g')"
proof -
  let ?n = "length (ds_userFeedback d ! u)"
  obtain r g' where r: "draw (int ?n) g = (r, g')" by (cases "draw (int ?n) g") auto
  have "0 \<le> r \<and> r < int ?n" using assms(3,4) r unfolding draws_below_def by (metis fst_conv length_greater_0_conv of_nat_0_less_iff)
  then obtain k where k: "r = int k" "k < ?n" by (metis nonneg_int_cases of_nat_less_iff)
  have "copy_entry d (int u) (int k) test = Inr (with_entries [entries_of d u ! k] test)"
    using assms(5)[of k] k(2) by (simp add: copy_entry_def row_entry_ok[OF assms(1,2)] record_one)
  moreover have "fold_res (\<lambda>i tr. if i \<noteq> int k then copy_entry d (int u) i tr else Inr tr) [0..int ?n - 1] train =
      Inr (with_entries (drop_at k (entries_of d u)) train)"
  proof -
    have "filter (\<lambda>i. i \<noteq> int k) [0..int ?n - 1] = map int (filter (\<lambda>i. i \<noteq> k) [0..<?n])"
      by (simp add: upto_int filter_map comp_def)
    then show ?thesis using copy_entries[OF assms(1,2), of "filter (\<lambda>i. i \<noteq> k) [0..<?n]" train]
        nth_filter_neq[of k "entries_of d u"] k(2) record_all[OF assms(6)[of k]]
      by (simp add: fold_res_filter)
  qed
  ultimately show ?thesis using k r assms(4) user_slice[OF assms(1,2)]
    by (intro exI[of _ k] exI[of _ g']) (simp add: leave_one_out_def Intn_def)
qed

text \<open>The entries of the two sets after the users \<open>us\<close> have left one out.\<close>

definition held_out :: "Dataset \<Rightarrow> nat \<Rightarrow> entry list \<Rightarrow> entry list \<Rightarrow> bool" where
  "held_out d u train test \<longleftrightarrow> (\<exists>k<length (entries_of d u).
     of_user (int u) train = drop_at k (entries_of d u) \<and> of_user (int u) test = [entries_of d u ! k])"

definition left_out :: "Dataset \<Rightarrow> nat list \<Rightarrow> entry list \<Rightarrow> entry list \<Rightarrow> bool" where
  "left_out d us train test \<longleftrightarrow>
     (\<forall>e\<in>set (train @ test). entry_ok (length (ds_users d)) (length (ds_items d)) e) \<and>
     (\<forall>u. if u \<in> set us \<and> ds_userFeedback d ! u \<noteq> [] then held_out d u train test
          else of_user (int u) train = [] \<and> of_user (int u) test = [])"

lemma of_user_entries: "(\<And>e. e \<in> set es \<Longrightarrow> fst e = v) \<Longrightarrow> of_user u es = (if u = v then es else [])"
  by (induction es) auto

lemma of_user_empty: "of_user v es = [] \<longleftrightarrow> (\<forall>e\<in>set es. fst e \<noteq> v)"
  by (auto simp: of_user_def filter_empty_conv)

lemma left_out_Cons:
  assumes "ds_wf d" "u < length (ds_users d)" "u \<notin> set us" "left_out d us E1 E2" "k < length (entries_of d u)"
  shows "left_out d (u # us) (drop_at k (entries_of d u) @ E1) (entries_of d u ! k # E2)"
proof -
  have s: "set (drop_at k (entries_of d u)) \<subseteq> set (entries_of d u)" by (rule set_drop_at)
  have 1: "of_user v (drop_at k (entries_of d u)) = (if v = int u then drop_at k (entries_of d u) else [])" for v
    using s entries_of_ok(1)[OF assms(1,2)] by (intro of_user_entries) blast
  have f: "fst (entries_of d u ! k) = int u" using entries_of_ok(1)[OF assms(1,2)] assms(5) nth_mem by blast
  have u: "of_user (int u) E1 = []" "of_user (int u) E2 = []"
    using assms(3,4) by (auto simp: left_out_def split: if_splits)
  have ne: "ds_userFeedback d ! u \<noteq> []" using assms(5) by auto
  have "\<forall>e\<in>set ((drop_at k (entries_of d u) @ E1) @ entries_of d u ! k # E2). entry_ok (length (ds_users d)) (length (ds_items d)) e"
    using assms(4) s entries_of_ok(2)[OF assms(1,2)] nth_mem[OF assms(5)] by (auto simp: left_out_def)
  moreover have "if v \<in> set (u # us) \<and> ds_userFeedback d ! v \<noteq> []
      then held_out d v (drop_at k (entries_of d u) @ E1) (entries_of d u ! k # E2)
      else of_user (int v) (drop_at k (entries_of d u) @ E1) = [] \<and> of_user (int v) (entries_of d u ! k # E2) = []" for v
  proof (cases "v = u")
    case True
    then show ?thesis using 1 f u ne assms(5) by (auto simp: held_out_def)
  next
    case False
    have "if v \<in> set us \<and> ds_userFeedback d ! v \<noteq> [] then held_out d v E1 E2
        else of_user (int v) E1 = [] \<and> of_user (int v) E2 = []"
      using assms(4) unfolding left_out_def by blast
    then show ?thesis using 1 f False
      by (cases "v \<in> set us \<and> ds_userFeedback d ! v \<noteq> []") (simp_all add: held_out_def)
  qed
  ultimately show ?thesis unfolding left_out_def by blast
qed


lemma ds_wf_row_bound: "ds_wf d \<Longrightarrow> u < length (ds_users d) \<Longrightarrow> int (length (ds_userFeedback d ! u)) \<le> ds_numFeedback d"
  unfolding ds_wf_def
  by (metis (no_types, lifting) finite_lessThan lessThan_iff member_le_sum of_nat_0_le_iff)

text \<open>The number of entries of the users still to come.\<close>

definition entries_left :: "Dataset \<Rightarrow> nat list \<Rightarrow> int" where
  "entries_left d us = (\<Sum>u\<leftarrow>us. int (length (ds_userFeedback d ! u)))"

definition split_room :: "Dataset \<Rightarrow> nat list \<Rightarrow> Dataset \<Rightarrow> bool" where
  "split_room d us s \<longleftrightarrow> length (ds_userFeedback s) = length (ds_users d) \<and>
     length (ds_itemFeedback s) = length (ds_items d) \<and> length (ds_timestamps s) = length (ds_users d) \<and>
     0 \<le> ds_numFeedback s \<and> ds_numFeedback s + entries_left d us < 2 ^ 63"

lemma entries_left_simps [simp]:
  "entries_left d [] = 0" "entries_left d (u # us) = int (length (ds_userFeedback d ! u)) + entries_left d us"
  by (simp_all add: entries_left_def)

lemma entries_left_nonneg: "0 \<le> entries_left d us"
  by (induction us) simp_all

lemma split_room_has_room:
  assumes "ds_wf d" "u < length (ds_users d)" "split_room d (u # us) s" "set es \<subseteq> set (entries_of d u)"
    and "length es \<le> length (entries_of d u)"
  shows "has_room es s"
  using assms(3-5) entries_of_ok(2)[OF assms(1,2)] entries_left_nonneg[of d us]
  by (auto simp: has_room_def split_room_def)

lemma split_room_step:
  assumes "split_room d (u # us) s" "length es \<le> length (entries_of d u)"
  shows "split_room d us (with_entries es s)"
  using assms by (simp add: split_room_def)

lemma leave_one_out_all:
  assumes "ds_wf d" "draws_below draw" "distinct us" "\<And>u. u \<in> set us \<Longrightarrow> u < length (ds_users d)"
    and "split_room d us train" "split_room d us test"
  shows "\<exists>E1 E2 g'. fold_res (leave_one_out draw d) (map int us) ((train, test), g) =
      Inr ((with_entries E1 train, with_entries E2 test), g') \<and> left_out d us E1 E2"
  using assms(3-)
proof (induction us arbitrary: train test g)
  case Nil
  then show ?case by (intro exI[of _ "[]"] exI[of _ g]) (simp add: left_out_def)
next
  case (Cons u us)
  have u: "u < length (ds_users d)" using Cons.prems(2) by simp
  have us: "distinct us" "\<And>u. u \<in> set us \<Longrightarrow> u < length (ds_users d)" using Cons.prems(1,2) by auto
  show ?case
  proof (cases "ds_userFeedback d ! u = []")
    case True
    then have st: "leave_one_out draw d (int u) ((train, test), g) = Inr ((train, test), g)"
      using user_slice[OF assms(1) u] by (simp add: leave_one_out_def)
    have "split_room d us train" "split_room d us test"
      using split_room_step[OF Cons.prems(3), of "[]"] split_room_step[OF Cons.prems(4), of "[]"] by simp_all
    from Cons.IH[OF us this, of g] obtain E1 E2 g' where
      E: "fold_res (leave_one_out draw d) (map int us) ((train, test), g) = Inr ((with_entries E1 train, with_entries E2 test), g')"
      "left_out d us E1 E2" by blast
    have "left_out d (u # us) E1 E2" using E(2) True by (auto simp: left_out_def split: if_splits)
    then show ?thesis using E(1) st by auto
  next
    case False
    note room = split_room_has_room[OF assms(1) u]
    obtain k g1 where k: "k < length (entries_of d u)" and st: "leave_one_out draw d (int u) ((train, test), g) =
        Inr ((with_entries (drop_at k (entries_of d u)) train, with_entries [entries_of d u ! k] test), g1)"
      using leave_one_out_step[OF assms(1) u assms(2) False, of test train g]
        room[OF Cons.prems(4)] room[OF Cons.prems(3)] set_drop_at length_drop_at nth_mem
      by (metis (no_types, lifting) diff_le_self empty_set insert_subset length_Cons length_greater_0_conv
          length_entries_of list.set(2) list.size(3) One_nat_def Suc_leI False empty_subsetI)
    have "split_room d us (with_entries (drop_at k (entries_of d u)) train)" "split_room d us (with_entries [entries_of d u ! k] test)"
      using split_room_step[OF Cons.prems(3)] split_room_step[OF Cons.prems(4)] k by (simp_all add: length_drop_at Suc_leI)
    from Cons.IH[OF us this, of g1] obtain E1 E2 g' where
      E: "fold_res (leave_one_out draw d) (map int us)
        ((with_entries (drop_at k (entries_of d u)) train, with_entries [entries_of d u ! k] test), g1) =
        Inr ((with_entries E1 (with_entries (drop_at k (entries_of d u)) train),
          with_entries E2 (with_entries [entries_of d u ! k] test)), g')" "left_out d us E1 E2" by blast
    have "left_out d (u # us) (drop_at k (entries_of d u) @ E1) (entries_of d u ! k # E2)"
      using left_out_Cons[OF assms(1) u _ E(2) k] Cons.prems(1) by simp
    then show ?thesis using E(1) st
      by (intro exI[of _ "drop_at k (entries_of d u) @ E1"] exI[of _ "entries_of d u ! k # E2"] exI[of _ g'])
        (simp add: with_entries_append)
  qed
qed

lemma keep_users:
  assumes "ds_wf d" "\<And>u. u \<in> set us \<Longrightarrow> u < length (ds_users d)" "split_room d us train"
  shows "fold_res (keep_user d) (map int us) train = Inr (with_entries (concat (map (entries_of d) us)) train)"
  using assms(2-)
proof (induction us arbitrary: train)
  case (Cons u us)
  have u: "u < length (ds_users d)" using Cons.prems(1) by simp
  have "keep_user d (int u) train = Inr (with_entries (entries_of d u) train)"
    using copy_entries[OF assms(1) u, of "[0..<length (ds_userFeedback d ! u)]" train] user_slice[OF assms(1) u]
      record_all[OF split_room_has_room[OF assms(1) u Cons.prems(2), of "entries_of d u"]]
      map_nth[of "entries_of d u"]
    by (simp add: keep_user_def upto_int)
  moreover have "split_room d us (with_entries (entries_of d u) train)"
    using split_room_step[OF Cons.prems(2)] by simp
  ultimately show ?case using Cons by (simp add: with_entries_append)
qed simp

lemma of_user_concat:
  assumes "\<And>u e. u \<in> set us \<Longrightarrow> e \<in> set (f u) \<Longrightarrow> fst e = int u" "distinct us"
  shows "of_user (int v) (concat (map f us)) = (if v \<in> set us then f v else [])"
  using assms
proof (induction us)
  case (Cons u us)
  have "of_user (int v) (f u) = (if int v = int u then f u else [])"
    using Cons.prems(1) by (intro of_user_entries) simp
  then show ?case using Cons by auto
qed simp

text \<open>What a split is: every tested user with feedback leaves exactly one entry to the test set, the training
  set keeps the others in their order, and both sets are consistent.\<close>

definition leaves_one :: "Dataset \<Rightarrow> Dataset \<Rightarrow> Dataset \<Rightarrow> nat \<Rightarrow> bool" where
  "leaves_one d train test u \<longleftrightarrow> (\<exists>k<length (ds_userFeedback d ! u).
     ds_userFeedback test ! u = [ds_userFeedback d ! u ! k] \<and> ds_timestamps test ! u = [ds_timestamps d ! u ! k] \<and>
     ds_userFeedback train ! u = drop_at k (ds_userFeedback d ! u) \<and>
     ds_timestamps train ! u = drop_at k (ds_timestamps d ! u))"

definition keeps_all :: "Dataset \<Rightarrow> Dataset \<Rightarrow> Dataset \<Rightarrow> nat \<Rightarrow> bool" where
  "keeps_all d train test u \<longleftrightarrow>
     ds_userFeedback test ! u = [] \<and> ds_timestamps test ! u = [] \<and>
     ds_userFeedback train ! u = ds_userFeedback d ! u \<and> ds_timestamps train ! u = ds_timestamps d ! u"

definition splits_off :: "Dataset \<Rightarrow> nat set \<Rightarrow> Dataset \<Rightarrow> Dataset \<Rightarrow> bool" where
  "splits_off d T train test \<longleftrightarrow>
     (\<forall>u<length (ds_users d). if u \<in> T \<and> ds_userFeedback d ! u \<noteq> [] then leaves_one d train test u else keeps_all d train test u) \<and>
     transposed train \<and> transposed test \<and> ds_CountFeedback train + ds_CountFeedback test = ds_CountFeedback d"

lemma empty_split_fields [simp]:
  "ds_userFeedback (empty_split d) = replicate (length (ds_users d)) []"
  "ds_itemFeedback (empty_split d) = replicate (length (ds_items d)) []"
  "ds_timestamps (empty_split d) = replicate (length (ds_users d)) []"
  "ds_numFeedback (empty_split d) = 0"
  by (simp_all add: empty_split_def)

lemma transposed_empty [simp]: "transposed (empty_split d)"
  by (simp add: transposed_def)

lemma split_room_empty:
  assumes "ds_wf d" "distinct us" "\<And>u. u \<in> set us \<Longrightarrow> u < length (ds_users d)"
  shows "split_room d us (empty_split d)"
proof -
  have "entries_left d us = (\<Sum>u\<in>set us. int (length (ds_userFeedback d ! u)))"
    using assms(2) by (simp add: entries_left_def sum_list_distinct_conv_sum_set)
  also have "\<dots> \<le> (\<Sum>u<length (ds_users d). int (length (ds_userFeedback d ! u)))"
    using assms(3) by (intro sum_mono2) auto
  finally show ?thesis using assms(1) by (simp add: split_room_def ds_wf_def)
qed

lemma left_outE:
  assumes "left_out d us E1 E2"
  obtains k where "u \<in> set us" "k < length (entries_of d u)" "of_user (int u) E1 = drop_at k (entries_of d u)"
      "of_user (int u) E2 = [entries_of d u ! k]" "ds_userFeedback d ! u \<noteq> []"
    | "\<not> (u \<in> set us \<and> ds_userFeedback d ! u \<noteq> [])" "of_user (int u) E1 = []" "of_user (int u) E2 = []"
proof -
  have "if u \<in> set us \<and> ds_userFeedback d ! u \<noteq> [] then held_out d u E1 E2
      else of_user (int u) E1 = [] \<and> of_user (int u) E2 = []" using assms unfolding left_out_def by blast
  then show ?thesis using that by (auto simp: held_out_def split: if_splits)
qed

text \<open>The entries of the training set: those the tested users leave, and all of the others.\<close>

definition train_entries :: "Dataset \<Rightarrow> entry list \<Rightarrow> nat list \<Rightarrow> entry list" where
  "train_entries d E1 vs = E1 @ concat (map (entries_of d) vs)"

lemma train_entries_of_user:
  assumes "ds_wf d" "distinct vs" "set vs = {..<length (ds_users d)} - set us" "u < length (ds_users d)"
  shows "of_user (int u) (train_entries d E1 vs) = of_user (int u) E1 @ (if u \<in> set us then [] else entries_of d u)"
  using of_user_concat[OF _ assms(2), of "entries_of d" u] entries_of_ok(1)[OF assms(1)] assms(3,4) by (auto simp: train_entries_def)

lemma split_rows:
  assumes wf: "ds_wf d" and out: "left_out d us E1 E2"
    and vs: "distinct vs" "set vs = {..<length (ds_users d)} - set us" and u: "u < length (ds_users d)"
  defines "train \<equiv> with_entries (train_entries d E1 vs) (empty_split d)" and "test \<equiv> with_entries E2 (empty_split d)"
  shows "if u \<in> set us \<and> ds_userFeedback d ! u \<noteq> [] then leaves_one d train test u else keeps_all d train test u"
proof (cases rule: left_outE[OF out, of u])
  case (1 k)
  have "entry_item (entries_of d u ! k) = ds_userFeedback d ! u ! k" "entry_time (entries_of d u ! k) = ds_timestamps d ! u ! k"
    using 1(2) by (simp_all add: entries_of_def)
  then show ?thesis using 1 u train_entries_of_user[OF wf vs u] entries_of_rows[OF wf u]
    by (auto simp: leaves_one_def map_drop_at train_def test_def)
next
  case 2
  have "entries_of d u = []" if "u \<in> set us" using that 2(1) by (simp add: entries_of_def)
  then show ?thesis using 2 u train_entries_of_user[OF wf vs u] entries_of_rows[OF wf u]
    by (auto simp: keeps_all_def train_def test_def)
qed

lemma split_count:
  assumes wf: "ds_wf d" and out: "left_out d us E1 E2"
    and vs: "distinct vs" "set vs = {..<length (ds_users d)} - set us"
  shows "int (length (train_entries d E1 vs)) + int (length E2) = ds_numFeedback d"
proof -
  let ?n = "length (ds_users d)" and ?E = "train_entries d E1 vs"
  have in1: "0 \<le> fst e \<and> fst e < int ?n" if e: "e \<in> set ?E" for e
  proof (cases "e \<in> set E1")
    case True
    then show ?thesis using out by (auto simp: left_out_def entry_ok_def)
  next
    case False
    then obtain u where "u \<in> set vs" "e \<in> set (entries_of d u)" using e by (auto simp: train_entries_def)
    then show ?thesis using entries_of_ok(2)[OF wf, of u e] vs(2) by (simp add: entry_ok_def)
  qed
  have in2: "0 \<le> fst e \<and> fst e < int ?n" if "e \<in> set E2" for e
    using that out by (auto simp: left_out_def entry_ok_def)
  have "length (of_user (int u) ?E) + length (of_user (int u) E2) = length (ds_userFeedback d ! u)" if u: "u < ?n" for u
    using train_entries_of_user[OF wf vs u, of E1] by (cases rule: left_outE[OF out, of u]) (auto simp: length_drop_at)
  then have "(\<Sum>u<?n. length (of_user (int u) ?E)) + (\<Sum>u<?n. length (of_user (int u) E2)) = (\<Sum>u<?n. length (ds_userFeedback d ! u))"
    by (simp add: sum.distrib[symmetric])
  then have "length ?E + length E2 = (\<Sum>u<?n. length (ds_userFeedback d ! u))"
    using entries_by_user[of ?E ?n, OF in1] entries_by_user[of E2 ?n, OF in2] by simp
  then show ?thesis using wf unfolding ds_wf_def by (metis of_nat_add of_nat_sum)
qed

lemma splits_off_entries:
  assumes "ds_wf d" "left_out d us E1 E2" "distinct vs" "set vs = {..<length (ds_users d)} - set us"
  shows "splits_off d (set us) (with_entries (train_entries d E1 vs) (empty_split d)) (with_entries E2 (empty_split d))"
  using split_rows[OF assms] split_count[OF assms]
  by (simp add: splits_off_def transposed_with_entries ds_CountFeedback_def)

lemma split_all_users:
  assumes wf: "ds_wf d" and draw: "draws_below draw"
  defines "n \<equiv> length (ds_users d)"
  shows "\<exists>train test g'. fold_res (leave_one_out draw d) [0..int n - 1] ((empty_split d, empty_split d), g) =
    Inr ((train, test), g') \<and> splits_off d {..<n} train test"
proof -
  have us: "distinct [0..<n]" "\<And>u. u \<in> set [0..<n] \<Longrightarrow> u < length (ds_users d)" by (auto simp: n_def)
  from leave_one_out_all[OF wf draw us split_room_empty[OF wf us] split_room_empty[OF wf us], of g]
  obtain E1 E2 g' where E: "fold_res (leave_one_out draw d) (map int [0..<n]) ((empty_split d, empty_split d), g) =
      Inr ((with_entries E1 (empty_split d), with_entries E2 (empty_split d)), g')" "left_out d [0..<n] E1 E2" by blast
  then show ?thesis using splits_off_entries[OF wf E(2), of "[]"]
    by (simp add: train_entries_def lessThan_atLeast0 upto_int n_def)
qed

lemma split_room_rest:
  assumes "ds_wf d" "left_out d us E1 E2" "distinct vs" "set vs = {..<length (ds_users d)} - set us"
  shows "split_room d vs (with_entries E1 (empty_split d))"
proof -
  have "entries_left d vs = int (length (concat (map (entries_of d) vs)))" by (induction vs) simp_all
  then show ?thesis using split_count[OF assms] assms(1) by (simp add: split_room_def train_entries_def ds_wf_def)
qed

lemma split_some_users:
  assumes wf: "ds_wf d" and draw: "draws_below draw" and us: "distinct us" "\<And>u. u \<in> set us \<Longrightarrow> u < length (ds_users d)"
  shows "\<exists>train train' test g'. fold_res (leave_one_out draw d) (map int us) ((empty_split d, empty_split d), g) = Inr ((train, test), g') \<and>
    fold_res (\<lambda>u tr. if u \<notin> set (map int us) then keep_user d u tr else Inr tr) [0..ds_CountUsers d - 1] train = Inr train' \<and>
    splits_off d (set us) train' test"
proof -
  from leave_one_out_all[OF wf draw us split_room_empty[OF wf us] split_room_empty[OF wf us], of g]
  obtain E1 E2 g' where E: "fold_res (leave_one_out draw d) (map int us) ((empty_split d, empty_split d), g) =
      Inr ((with_entries E1 (empty_split d), with_entries E2 (empty_split d)), g')" "left_out d us E1 E2" by blast
  let ?vs = "filter (\<lambda>u. u \<notin> set us) [0..<length (ds_users d)]"
  have vs: "distinct ?vs" "set ?vs = {..<length (ds_users d)} - set us" by auto
  have "filter (\<lambda>u. u \<notin> set (map int us)) [0..ds_CountUsers d - 1] = map int ?vs"
    by (auto simp: ds_CountUsers_def upto_int filter_map comp_def intro: filter_cong)
  then have "fold_res (\<lambda>u tr. if u \<notin> set (map int us) then keep_user d u tr else Inr tr) [0..ds_CountUsers d - 1]
      (with_entries E1 (empty_split d)) = Inr (with_entries (train_entries d E1 ?vs) (empty_split d))"
    using keep_users[OF wf _ split_room_rest[OF wf E(2) vs]] vs(2)
    by (simp add: fold_res_filter with_entries_append train_entries_def)
  then show ?thesis using E(1) splits_off_entries[OF wf E(2) vs] by blast
qed

text \<open>C11. The split of \<^verbatim>\<open>SplitCF\<close>: with a generator that draws in range and reaches every number it returns, and the
  tested users (all of them, or as many as asked for) each leave exactly one entry, drawn from their row, to
  the test set; everything else is in the training set, in order, nothing is lost or counted twice, and in
  both sets the rows by user and by item agree.\<close>

theorem split_cf_leave_one_out:
  assumes wf: "ds_wf d" and draw: "draws_below draw" "draws_all draw"
  shows "\<exists>train test T. SplitCF draw NewRandomGenerator numTestUsers seed d = Some (Inr (train, test)) \<and>
    T \<subseteq> {..<length (ds_users d)} \<and>
    card T = (if numTestUsers \<le> 0 then length (ds_users d) else min (nat numTestUsers) (length (ds_users d))) \<and>
    splits_off d T train test"
proof (cases "ds_CountUsers d \<le> numTestUsers \<or> numTestUsers \<le> 0")
  case True
  have n: "int32 (ds_CountUsers d) = int (length (ds_users d))" using wf by (simp add: ds_wf_def ds_CountUsers_def)
  obtain train test g' where s: "fold_res (leave_one_out draw d) [0..int (length (ds_users d)) - 1]
      ((empty_split d, empty_split d), NewRandomGenerator seed) = Inr ((train, test), g')"
      "splits_off d {..<length (ds_users d)} train test"
    using split_all_users[OF wf draw(1)] by blast
  then have "SplitCF draw NewRandomGenerator numTestUsers seed d = Some (Inr (train, test))"
    using True by (simp add: SplitCF_def Let_def n)
  then show ?thesis using s(2) True
    by (intro exI[of _ train] exI[of _ test] exI[of _ "{..<length (ds_users d)}"]) (auto simp: ds_CountUsers_def)
next
  case False
  have n: "int32 (ds_CountUsers d) = ds_CountUsers d" using wf by (simp add: ds_wf_def ds_CountUsers_def)
  obtain s g where s: "SampleInt32 draw 0 (ds_CountUsers d) numTestUsers [] (NewRandomGenerator seed) = Some (Inr (s, g))"
      "sampled_ok 0 (ds_CountUsers d) {} s" "int (length s) = numTestUsers"
    using SampleInt32_returns[OF draw(2,1), of "ds_CountUsers d" numTestUsers "[]" "NewRandomGenerator seed"] False wf
    by (auto simp: ds_wf_def ds_CountUsers_def)
  obtain us where s_us: "s = map int us" using s(2)
    by (intro that[of "map nat s"]) (auto simp: sampled_ok_def between_def intro!: map_idI[symmetric])
  have us: "distinct us" "\<And>u. u \<in> set us \<Longrightarrow> u < length (ds_users d)"
    using s(2) s_us by (auto simp: sampled_ok_def distinct_map between_def ds_CountUsers_def)
  obtain train train' test g' where f: "fold_res (leave_one_out draw d) s ((empty_split d, empty_split d), g) = Inr ((train, test), g')"
    "fold_res (\<lambda>u tr. if u \<notin> set s then keep_user d u tr else Inr tr) [0..ds_CountUsers d - 1] train = Inr train'"
    "splits_off d (set us) train' test"
    using split_some_users[OF wf draw(1) us, of g] unfolding s_us by blast
  then have "SplitCF draw NewRandomGenerator numTestUsers seed d = Some (Inr (train', test))"
    using False s(1) n by (simp add: SplitCF_def)
  moreover have "card (set us) = nat numTestUsers" using us(1) s(3) s_us by (simp add: distinct_card)
  ultimately show ?thesis using f(3) us(2) False
    by (intro exI[of _ train'] exI[of _ test] exI[of _ "set us"]) (auto simp: ds_CountUsers_def)
qed

section \<open>The latest feedback\<close>

definition latest_order :: "Dataset \<Rightarrow> nat \<Rightarrow> nat list" where
  "latest_order d u = map nat (latest_first (ds_timestamps d ! u))"

lemma latest_order:
  "distinct (latest_order d u)" "set (latest_order d u) = {..<length (ds_timestamps d ! u)}"
  "map int (latest_order d u) = latest_first (ds_timestamps d ! u)"
  "sorted_wrt (\<lambda>i j. ds_timestamps d ! u ! j \<le> ds_timestamps d ! u ! i) (latest_order d u)"
proof -
  let ?ts = "ds_timestamps d ! u"
  have s: "set (latest_first ?ts) = {0..int (length ?ts) - 1}" "distinct (latest_first ?ts)"
    by (simp_all add: latest_first_def)
  show "distinct (latest_order d u)" using s by (auto simp: latest_order_def distinct_map inj_on_def)
  show "set (latest_order d u) = {..<length ?ts}"
    using s(1) by (auto simp: latest_order_def image_iff) (metis atLeastAtMost_iff nat_int of_nat_0_le_iff zle_diff1_eq of_nat_less_iff)
  show "map int (latest_order d u) = latest_first ?ts"
    using s(1) by (auto simp: latest_order_def intro!: map_idI)
  have "sorted_wrt (\<lambda>i j. \<not> ?ts ! nat i < ?ts ! nat j) (latest_first ?ts)"
    unfolding latest_first_def by (rule sort_slice_ordered) (auto simp: weak_order_on_def)
  then show "sorted_wrt (\<lambda>i j. ?ts ! j \<le> ?ts ! i) (latest_order d u)"
    by (simp add: latest_order_def sorted_wrt_map not_less)
qed

definition latest_test :: "Dataset \<Rightarrow> nat \<Rightarrow> entry list" where
  "latest_test d u = map (\<lambda>i. entries_of d u ! i) (take 1 (latest_order d u))"

definition latest_train :: "int \<Rightarrow> Dataset \<Rightarrow> nat \<Rightarrow> entry list" where
  "latest_train shots d u = map (\<lambda>i. entries_of d u ! i) (take (nat shots) (drop 1 (latest_order d u)))"

lemma latest_entries:
  assumes "ds_wf d" "u < length (ds_users d)"
  shows "set (latest_test d u) \<subseteq> set (entries_of d u)" "set (latest_train shots d u) \<subseteq> set (entries_of d u)"
    "length (latest_test d u) \<le> length (entries_of d u)" "length (latest_train shots d u) \<le> length (entries_of d u)"
proof -
  have l: "length (ds_timestamps d ! u) = length (entries_of d u)" using assms by (simp add: ds_wf_def)
  have len: "length (latest_order d u) = length (entries_of d u)"
    using l distinct_card[OF latest_order(1), of d u] latest_order(2)[of d u] by simp
  have "set (take a (drop b (latest_order d u))) \<subseteq> {..<length (entries_of d u)}" for a b
    using latest_order(2)[of d u] l set_take_subset set_drop_subset by (metis subset_trans)
  note sub = this[of "nat shots" 1] this[of 1 0]
  show "set (latest_train shots d u) \<subseteq> set (entries_of d u)" using sub(1) by (auto simp: latest_train_def)
  show "set (latest_test d u) \<subseteq> set (entries_of d u)" using sub(2) by (auto simp: latest_test_def)
  show "length (latest_test d u) \<le> length (entries_of d u)" "length (latest_train shots d u) \<le> length (entries_of d u)"
    using len by (simp_all add: latest_test_def latest_train_def)
qed

lemma split_latest_step:
  assumes "ds_wf d" "u < length (ds_users d)" "split_room d (u # us) train" "split_room d (u # us) test"
  shows "split_latest_user d shots (int u) (train, test) =
    Inr (with_entries (latest_train shots d u) train, with_entries (latest_test d u) test)"
proof (cases "ds_userFeedback d ! u = []")
  case True
  then have "latest_order d u = []"
    using latest_order(2)[of d u] assms(1,2) by (simp add: ds_wf_def)
  then show ?thesis using True user_slice[OF assms(1,2)]
    by (simp add: split_latest_user_def latest_train_def latest_test_def)
next
  case False
  let ?ts = "ds_timestamps d ! u"
  have ts: "slice_get (ds_timestamps d) (int u) = Inr ?ts" and l: "length ?ts = length (ds_userFeedback d ! u)"
    using assms(1,2) by (simp_all add: ds_wf_def)
  have all: "i < length (ds_userFeedback d ! u)" if "i \<in> set (latest_order d u)" for i
    using that latest_order(2)[of d u] l by simp
  then obtain i rest where i: "latest_order d u = i # rest"
    using False l latest_order(2)[of d u] by (cases "latest_order d u") auto
  then have ord: "latest_first ?ts = int i # map int rest" using latest_order(3)[of d u] by simp
  have tk: "j < length (ds_userFeedback d ! u)" if "j \<in> set (take (nat shots) rest)" for j
    using that all i by (auto dest: in_set_takeD)
  note room = split_room_has_room[OF assms(1,2)] and sub = latest_entries[OF assms(1,2)]
  have t: "latest_test d u = [entries_of d u ! i]" using i by (simp add: latest_test_def)
  have "copy_entry d (int u) (int i) test = Inr (with_entries (latest_test d u) test)"
    using room[OF assms(4) sub(1,3)] all i by (simp add: copy_entry_def row_entry_ok[OF assms(1,2)] record_one t)
  moreover have "fold_res (copy_entry d (int u)) (take (nat shots) (map int rest)) train =
      Inr (with_entries (latest_train shots d u) train)"
    using copy_entries[OF assms(1,2) tk, where target = train] record_all[OF room[OF assms(3) sub(2,4), of shots]] i
    by (simp add: latest_train_def take_map)
  ultimately show ?thesis using False user_slice[OF assms(1,2)] ts l ord
    by (simp add: split_latest_user_def Let_def)
qed

lemma split_latest_all:
  assumes "ds_wf d" "\<And>u. u \<in> set us \<Longrightarrow> u < length (ds_users d)" "split_room d us train" "split_room d us test"
  shows "fold_res (split_latest_user d shots) (map int us) (train, test) =
    Inr (with_entries (concat (map (latest_train shots d) us)) train, with_entries (concat (map (latest_test d) us)) test)"
  using assms(2-)
proof (induction us arbitrary: train test)
  case (Cons u us)
  have u: "u < length (ds_users d)" using Cons.prems(1) by simp
  have "split_room d us (with_entries (latest_train shots d u) train)" "split_room d us (with_entries (latest_test d u) test)"
    using split_room_step[OF Cons.prems(2)] split_room_step[OF Cons.prems(3)] latest_entries(3,4)[OF assms(1) u] by blast+
  then show ?case using Cons split_latest_step[OF assms(1) u Cons.prems(2,3)] by (simp add: with_entries_append)
qed simp

text \<open>The order in which a user's feedback is taken: from the latest to the earliest.\<close>

definition takes_latest :: "int \<Rightarrow> Dataset \<Rightarrow> Dataset \<Rightarrow> Dataset \<Rightarrow> nat \<Rightarrow> bool" where
  "takes_latest shots d train test u \<longleftrightarrow> (\<exists>first rest.
     distinct (first # rest) \<and> set (first # rest) = {..<length (ds_userFeedback d ! u)} \<and>
     sorted_wrt (\<lambda>i j. ds_timestamps d ! u ! j \<le> ds_timestamps d ! u ! i) (first # rest) \<and>
     ds_userFeedback test ! u = [ds_userFeedback d ! u ! first] \<and> ds_timestamps test ! u = [ds_timestamps d ! u ! first] \<and>
     ds_userFeedback train ! u = map (\<lambda>i. ds_userFeedback d ! u ! i) (take (nat shots) rest) \<and>
     ds_timestamps train ! u = map (\<lambda>i. ds_timestamps d ! u ! i) (take (nat shots) rest))"

lemma takes_latest_rows:
  assumes wf: "ds_wf d" and u: "u < length (ds_users d)" and ne: "ds_userFeedback d ! u \<noteq> []"
    and rows: "ds_userFeedback test ! u = map entry_item (latest_test d u)" "ds_timestamps test ! u = map entry_time (latest_test d u)"
      "ds_userFeedback train ! u = map entry_item (latest_train shots d u)" "ds_timestamps train ! u = map entry_time (latest_train shots d u)"
  shows "takes_latest shots d train test u"
proof -
  have l: "length (ds_timestamps d ! u) = length (ds_userFeedback d ! u)" using wf u by (simp add: ds_wf_def)
  then obtain i rest where i: "latest_order d u = i # rest"
    using ne latest_order(2)[of d u] by (cases "latest_order d u") auto
  have e: "entry_item (entries_of d u ! j) = ds_userFeedback d ! u ! j" "entry_time (entries_of d u ! j) = ds_timestamps d ! u ! j"
    if "j \<in> set (i # rest)" for j
  proof -
    have "j < length (ds_userFeedback d ! u)" using that latest_order(2)[of d u, unfolded i l] by blast
    then show "entry_item (entries_of d u ! j) = ds_userFeedback d ! u ! j" "entry_time (entries_of d u ! j) = ds_timestamps d ! u ! j"
      by (simp_all add: entries_of_def)
  qed
  have r: "j \<in> set (i # rest)" if "j \<in> set (take (nat shots) rest)" for j using that by (auto dest: in_set_takeD)
  have "ds_userFeedback train ! u = map (\<lambda>i. ds_userFeedback d ! u ! i) (take (nat shots) rest)"
    "ds_timestamps train ! u = map (\<lambda>i. ds_timestamps d ! u ! i) (take (nat shots) rest)"
    using rows(3,4) e r by (simp_all add: latest_train_def i)
  moreover have "ds_userFeedback test ! u = [ds_userFeedback d ! u ! i]" "ds_timestamps test ! u = [ds_timestamps d ! u ! i]"
    using rows(1,2) e[of i] by (simp_all add: latest_test_def i)
  ultimately show ?thesis unfolding takes_latest_def
    using latest_order(1,2,4)[of d u, unfolded i l] by blast
qed

lemma takes_latest_times:
  assumes "takes_latest shots d train test u"
  shows "(\<forall>t\<in>set (ds_timestamps train ! u). t \<le> hd (ds_timestamps test ! u)) \<and>
    length (ds_userFeedback train ! u) = min (nat shots) (length (ds_userFeedback d ! u) - 1)"
proof -
  from assms obtain i rest where i: "distinct (i # rest)" "set (i # rest) = {..<length (ds_userFeedback d ! u)}"
     "sorted_wrt (\<lambda>i j. ds_timestamps d ! u ! j \<le> ds_timestamps d ! u ! i) (i # rest)"
     "ds_timestamps test ! u = [ds_timestamps d ! u ! i]"
     "ds_userFeedback train ! u = map (\<lambda>i. ds_userFeedback d ! u ! i) (take (nat shots) rest)"
     "ds_timestamps train ! u = map (\<lambda>i. ds_timestamps d ! u ! i) (take (nat shots) rest)"
    unfolding takes_latest_def by blast
  have "length (i # rest) = length (ds_userFeedback d ! u)" using distinct_card[OF i(1)] i(2) by simp
  then show ?thesis using i(3-6) by (auto dest: in_set_takeD)
qed

lemma split_latest_rows:
  assumes "ds_wf d" "u < length (ds_users d)"
  defines "rows f \<equiv> with_entries (concat (map f [0..<length (ds_users d)])) (empty_split d)"
  shows "ds_userFeedback (rows (latest_test d)) ! u = map entry_item (latest_test d u)"
    "ds_timestamps (rows (latest_test d)) ! u = map entry_time (latest_test d u)"
    "ds_userFeedback (rows (latest_train shots d)) ! u = map entry_item (latest_train shots d u)"
    "ds_timestamps (rows (latest_train shots d)) ! u = map entry_time (latest_train shots d u)"
proof -
  have f: "fst e = int v" if "v \<in> set [0..<length (ds_users d)]" "e \<in> set (latest_test d v) \<union> set (latest_train shots d v)" for v e
  proof -
    have v: "v < length (ds_users d)" using that(1) by simp
    have "e \<in> set (entries_of d v)" using that(2) latest_entries(1,2)[OF assms(1) v] by blast
    then show ?thesis by (rule entries_of_ok(1)[OF assms(1) v])
  qed
  then show "ds_userFeedback (rows (latest_test d)) ! u = map entry_item (latest_test d u)"
    "ds_timestamps (rows (latest_test d)) ! u = map entry_time (latest_test d u)"
    "ds_userFeedback (rows (latest_train shots d)) ! u = map entry_item (latest_train shots d u)"
    "ds_timestamps (rows (latest_train shots d)) ! u = map entry_time (latest_train shots d u)"
    using assms(2) of_user_concat[of "[0..<length (ds_users d)]" "latest_test d" u]
      of_user_concat[of "[0..<length (ds_users d)]" "latest_train shots d" u]
    by (simp_all add: rows_def)
qed

text \<open>C24. \<^verbatim>\<open>SplitLatest\<close> leaks nothing of the future: it returns for every well-formed data set, the test entry of a
  user is one of the latest, the training entries are the next \<open>shots\<close> latest ones, so that no training entry
  is later than the test entry, and both sets have rows by user and by item that agree.\<close>

theorem split_latest_no_leak:
  assumes "ds_wf d"
  shows "\<exists>train test. SplitLatest shots d = Inr (train, test) \<and> transposed train \<and> transposed test \<and>
    (\<forall>u<length (ds_users d). ds_userFeedback d ! u \<noteq> [] \<longrightarrow> takes_latest shots d train test u \<and>
       (\<forall>t\<in>set (ds_timestamps train ! u). t \<le> hd (ds_timestamps test ! u)) \<and>
       length (ds_userFeedback train ! u) = min (nat shots) (length (ds_userFeedback d ! u) - 1)) \<and>
    (\<forall>u<length (ds_users d). ds_userFeedback d ! u = [] \<longrightarrow> ds_userFeedback train ! u = [] \<and> ds_userFeedback test ! u = [])"
proof -
  let ?us = "[0..<length (ds_users d)]"
  define train where "train = with_entries (concat (map (latest_train shots d) ?us)) (empty_split d)"
  define test where "test = with_entries (concat (map (latest_test d) ?us)) (empty_split d)"
  note rows = split_latest_rows(1,2)[OF assms, folded test_def] split_latest_rows(3,4)[where shots = shots, OF assms, folded train_def]
  have us: "distinct ?us" "\<And>u. u \<in> set ?us \<Longrightarrow> u < length (ds_users d)" by auto
  have "[0..int32 (ds_CountUsers d) - 1] = map int ?us"
    using assms upto_int[of "length (ds_users d)"] by (simp add: ds_wf_def ds_CountUsers_def)
  then have split: "SplitLatest shots d = Inr (train, test)"
    using split_latest_all[OF assms us(2) split_room_empty[OF assms us] split_room_empty[OF assms us], of shots]
    by (simp add: SplitLatest_def train_def test_def)
  have main: "takes_latest shots d train test u" if "u < length (ds_users d)" "ds_userFeedback d ! u \<noteq> []" for u
    by (rule takes_latest_rows[OF assms that]) (simp_all only: rows[OF that(1)])
  have none: "ds_userFeedback train ! u = [] \<and> ds_userFeedback test ! u = []"
    if "u < length (ds_users d)" "ds_userFeedback d ! u = []" for u
    using rows[OF that(1)] latest_entries(3,4)[OF assms that(1)] that(2) by (simp add: entries_of_def)
  have tr: "transposed train" "transposed test" by (simp_all add: train_def test_def transposed_with_entries)
  show ?thesis
    by (rule exI[of _ train], rule exI[of _ test]) (use split tr main takes_latest_times[of shots d train test] none in blast)
qed
section \<open>Labels\<close>

text \<open>Every number in a processed label stands for a label value.\<close>

function label_ok :: "nat \<Rightarrow> label \<Rightarrow> bool" where
  "label_ok n (LId i) \<longleftrightarrow> 0 \<le> i \<and> i < int n"
| "label_ok n (LIds is') \<longleftrightarrow> (\<forall>i\<in>set is'. 0 \<le> i \<and> i < int n)"
| "label_ok n (LFloats fs) \<longleftrightarrow> True"
| "label_ok n (LObj ob) \<longleftrightarrow> (\<forall>kl\<in>set ob. label_ok n (snd kl))"
| "label_ok n (LSame j) \<longleftrightarrow> True"
  by pat_completeness auto
termination
proof (relation "measure (\<lambda>(n, l). size l)", goal_cases)
  case (2 n ob kl)
  then have "size_prod (\<lambda>_. 0) size kl \<le> size_list (size_prod (\<lambda>_. 0) size) ob" by (simp add: size_list_estimation')
  then show ?case by (cases kl) simp
qed simp

lemma set_gput: "set (gput k v m) \<subseteq> insert (k, v) (set m)"
  by (induction k v m rule: gput.induct) auto

lemma label_ok_mono: "label_ok n l \<Longrightarrow> n \<le> m \<Longrightarrow> label_ok m l"
  by (induction n l rule: label_ok.induct) force+

definition labels_grow :: "nat \<Rightarrow> FreqDict \<Rightarrow> FreqDict \<Rightarrow> bool" where
  "labels_grow n v v' \<longleftrightarrow> fd_inv v' \<and> length (is v) \<le> length (is v') \<and> length (is v') \<le> length (is v) + n"

lemma labels_grow_trans: "labels_grow n v v' \<Longrightarrow> labels_grow m v' v'' \<Longrightarrow> labels_grow (n + m) v v''"
  by (simp add: labels_grow_def)

lemma labels_grow_mono: "labels_grow n v v' \<Longrightarrow> n \<le> m \<Longrightarrow> labels_grow m v v'"
  by (simp add: labels_grow_def)

lemma number_label_grows:
  assumes "fd_inv v" "length (is v) + 1 < 2 ^ 31"
  shows "\<exists>i v'. number_label parent s v = Inr (i, v') \<and> labels_grow 1 v v' \<and> 0 \<le> i \<and> i < int (length (is v'))"
proof -
  let ?x = "parent @ '':'' @ s"
  obtain v' where v: "fd_Add ?x v = Inr (fd_Id v' ?x, v')" "fd_inv v'" "is v' = insert_new ?x (is v)"
    using fd_Add_eq[OF assms, of ?x] by blast
  moreover have "0 \<le> fd_Id v' ?x \<and> fd_Id v' ?x < int (length (is v'))"
    using fd.number_range[OF v(2), of ?x] v(3) by simp
  ultimately show ?thesis using length_insert_new[of "is v" ?x]
    by (simp add: number_label_def labels_grow_def)
qed

lemma number_labels_grow:
  "fd_inv v \<Longrightarrow> length (is v) + length js < 2 ^ 31 \<Longrightarrow> list_all is_JStr js \<Longrightarrow>
   \<exists>is' v'. number_labels parent js v = Inr (is', v') \<and> labels_grow (length js) v v' \<and> (\<forall>i\<in>set is'. 0 \<le> i \<and> i < int (length (is v')))"
proof (induction js arbitrary: v)
  case (Cons j js)
  obtain s where j: "j = JStr s" using Cons.prems(3) by (cases j) (simp_all add: is_JStr_def)
  obtain i v' where a: "number_label parent s v = Inr (i, v')" "labels_grow 1 v v'" "0 \<le> i" "i < int (length (is v'))"
    using number_label_grows[OF Cons.prems(1), of parent s] Cons.prems(2) by auto
  obtain is' v'' where b: "number_labels parent js v' = Inr (is', v'')" "labels_grow (length js) v' v''"
    "\<forall>i\<in>set is'. 0 \<le> i \<and> i < int (length (is v''))"
    using Cons.IH[of v'] Cons.prems(2,3) a(2) by (auto simp: labels_grow_def)
  then show ?case using a j labels_grow_trans[OF a(2) b(2)] by (auto simp: labels_grow_def)
qed (simp add: labels_grow_def)

text \<open>Processing labels never fails, and its numbers are in range.\<close>

lemma processLabels_ok:
  "fd_inv v \<Longrightarrow> length (is v) + Suc (size j) < 2 ^ 31 \<Longrightarrow>
   \<exists>l v'. processLabels Align j parent v = Inr (l, v') \<and> labels_grow (Suc (size j)) v v' \<and> label_ok (length (is v')) l"
  "fd_inv v \<Longrightarrow> length (is v) + size_list (size_prod (\<lambda>_. 0) size) kvs < 2 ^ 31 \<Longrightarrow> (\<forall>kl\<in>set ob. label_ok (length (is v)) (snd kl)) \<Longrightarrow>
   \<exists>ob' v'. process_fields Align kvs parent ob v = Inr (ob', v') \<and>
     labels_grow (size_list (size_prod (\<lambda>_. 0) size) kvs) v v' \<and> (\<forall>kl\<in>set ob'. label_ok (length (is v')) (snd kl))"
proof (induction Align j parent v and Align kvs parent ob v rule: processLabels_process_fields.induct)
  case (1 Align typed parent v)
  then show ?case by (fastforce simp: labels_grow_def)
next
  case (2 Align typed parent v)
  have l: "length typed \<le> size_list size typed" by (induction typed) auto
  show ?case
  proof (cases "list_all is_JStr typed \<and> \<not> list_all is_JNum typed")
    case True
    then show ?thesis using number_labels_grow[of v typed parent] 2 l by (force simp: labels_grow_def)
  next
    case False
    then show ?thesis using 2 by (auto simp: labels_grow_def)
  qed
next
  case (3 Align s parent v)
  then show ?case using number_label_grows[of v parent s] by (auto simp: labels_grow_def)
next
  case (9 Align k j kvs parent ob v)
  let ?n = "size_list (size_prod (\<lambda>_. 0) size) kvs"
  obtain l v1 where 1: "processLabels Align j (parent @ ''.'' @ k) v = Inr (l, v1)" "labels_grow (Suc (size j)) v v1"
    "label_ok (length (is v1)) l" using 9(1)[OF 9(3)] 9(4) by auto
  have "\<forall>kl\<in>set (gput (Align k) l ob). label_ok (length (is v1)) (snd kl)"
    using 1(2,3) 9(5) label_ok_mono set_gput[of "Align k" l ob] by (fastforce simp: labels_grow_def)
  then obtain ob' v2 where 2: "process_fields Align kvs parent (gput (Align k) l ob) v1 = Inr (ob', v2)"
    "labels_grow ?n v1 v2" "\<forall>kl\<in>set ob'. label_ok (length (is v2)) (snd kl)"
    using 9(2)[of v1 l] 1(1,2) 9(4) by (auto simp: labels_grow_def)
  then show ?case using 1 labels_grow_mono[OF labels_grow_trans[OF 1(2) 2(2)]] by simp
qed (simp_all add: labels_grow_def)

section \<open>Building a data set\<close>

datatype dataset_op = Add_User User | Add_Item Item | Add_Feedback string string int

fun dataset_step :: "(string \<Rightarrow> string) \<Rightarrow> dataset_op \<Rightarrow> Dataset \<Rightarrow> go_fail + Dataset" where
  "dataset_step Align (Add_User user) d = ds_AddUser Align user d"
| "dataset_step Align (Add_Item item) d = ds_AddItem Align item d"
| "dataset_step Align (Add_Feedback u i t) d = AddFeedback u i t d"

definition build_dataset :: "(string \<Rightarrow> string) \<Rightarrow> int \<Rightarrow> int \<Rightarrow> int \<Rightarrow> dataset_op list \<Rightarrow> go_fail + Dataset" where
  "build_dataset Align now nu ni ops = rbind (NewDataset now nu ni) (fold_res (dataset_step Align) ops)"

text \<open>Users and items are new, and feedback is between a user and an item that are there.\<close>

fun ops_ok :: "string list \<Rightarrow> string list \<Rightarrow> dataset_op list \<Rightarrow> bool" where
  "ops_ok us its [] \<longleftrightarrow> True"
| "ops_ok us its (Add_User user # ops) \<longleftrightarrow> UserId user \<notin> set us \<and> ops_ok (us @ [UserId user]) its ops"
| "ops_ok us its (Add_Item item # ops) \<longleftrightarrow> ItemId item \<notin> set its \<and> ops_ok us (its @ [ItemId item]) ops"
| "ops_ok us its (Add_Feedback u i t # ops) \<longleftrightarrow> u \<in> set us \<and> i \<in> set its \<and> ops_ok us its ops"

fun op_size :: "dataset_op \<Rightarrow> nat" where
  "op_size (Add_User user) = Suc (size (user_Labels user))"
| "op_size (Add_Item item) = Suc (size (item_Labels item))"
| "op_size (Add_Feedback u i t) = 1"

fun op_users :: "dataset_op list \<Rightarrow> string list" where
  "op_users [] = []"
| "op_users (Add_User user # ops) = UserId user # op_users ops"
| "op_users (_ # ops) = op_users ops"

fun op_items :: "dataset_op list \<Rightarrow> string list" where
  "op_items [] = []"
| "op_items (Add_Item item # ops) = ItemId item # op_items ops"
| "op_items (_ # ops) = op_items ops"

fun op_entries :: "string list \<Rightarrow> string list \<Rightarrow> dataset_op list \<Rightarrow> entry list" where
  "op_entries us its [] = []"
| "op_entries us its (Add_Feedback u i t # ops) = (int (pos u us), int (pos i its), t) # op_entries us its ops"
| "op_entries us its (_ # ops) = op_entries us its ops"

text \<open>A data set holds users, items and entries.\<close>

definition dict_holds :: "FreqDict \<Rightarrow> string list \<Rightarrow> (int \<Rightarrow> nat) \<Rightarrow> bool" where
  "dict_holds dict names freq \<longleftrightarrow> fd_inv dict \<and> is dict = names \<and> (\<forall>k<length names. cnt dict ! k = int (freq (int k)))"

definition rows_hold :: "nat \<Rightarrow> (int \<Rightarrow> 'a list) \<Rightarrow> 'a list list \<Rightarrow> bool" where
  "rows_hold n row rows \<longleftrightarrow> n \<le> length rows \<and> (\<forall>k<length rows. rows ! k = row (int k))"

definition ds_holds :: "string list \<Rightarrow> string list \<Rightarrow> entry list \<Rightarrow> Dataset \<Rightarrow> bool" where
  "ds_holds us its es d \<longleftrightarrow>
     map du_UserId (ds_users d) = us \<and> map di_ItemId (ds_items d) = its \<and>
     dict_holds (ds_userDict d) us (\<lambda>k. length (of_user k es)) \<and>
     dict_holds (ds_itemDict d) its (\<lambda>k. length (of_item k es)) \<and>
     (\<forall>e\<in>set es. entry_ok (length us) (length its) e) \<and>
     rows_hold (length us) (\<lambda>k. map entry_item (of_user k es)) (ds_userFeedback d) \<and>
     rows_hold (length its) (\<lambda>k. map fst (of_item k es)) (ds_itemFeedback d) \<and>
     rows_hold (length us) (\<lambda>k. map entry_time (of_user k es)) (ds_timestamps d) \<and>
     length (ds_timestamps d) = length (ds_userFeedback d) \<and>
     ds_numFeedback d = int (length es)"

definition label_room :: "nat \<Rightarrow> Dataset \<Rightarrow> bool" where
  "label_room n d \<longleftrightarrow> fd_inv (ds_userLabels d) \<and> fd_inv (ds_itemLabels d) \<and>
     length (is (ds_userLabels d)) + n < 2 ^ 31 \<and> length (is (ds_itemLabels d)) + n < 2 ^ 31"

lemma dict_holds_new:
  assumes "dict_holds dict names freq" "x \<notin> set names" "length names + 1 < 2 ^ 31" "freq (int (length names)) = 0"
  shows "dict_holds (snd (fd_AddNoCount x dict)) (names @ [x]) freq"
proof -
  have inv: "fd_inv dict" "is dict = names" using assms(1) by (simp_all add: dict_holds_def)
  have l: "length (cnt dict) = length names" using inv by (simp add: fd_inv_def)
  have "is (snd (fd_AddNoCount x dict)) = names @ [x]"
    using fd.names_add[OF inv(1), of x] inv(2) assms(2,3) by (simp add: insert_new_def)
  moreover have "cnt (snd (fd_AddNoCount x dict)) = cnt dict @ [0]"
    using fd_AddNoCount_cnt[OF inv(1), of x] inv(2) assms(2) by simp
  ultimately show ?thesis using fd_inv_AddNoCount[OF inv(1)] inv(2) assms l
    by (auto simp: dict_holds_def nth_append less_Suc_eq)
qed

lemma dict_holds_Add:
  assumes "dict_holds dict names freq" "x \<in> set names" "length names + 1 < 2 ^ 31" "freq (int (pos x names)) + 1 < 2 ^ 31"
    and "\<And>k. freq' k = freq k + (if k = int (pos x names) then 1 else 0)"
  shows "\<exists>dict'. fd_Add x dict = Inr (int (pos x names), dict') \<and> dict_holds dict' names freq'"
proof -
  have inv: "fd_inv dict" "is dict = names" using assms(1) by (simp_all add: dict_holds_def)
  obtain dict' where d: "fd_Add x dict = Inr (fd_Id dict' x, dict')" "fd_inv dict'" "is dict' = insert_new x (is dict)"
    "cnt dict' = (let cs = cnt (snd (fd_AddNoCount x dict)); i = pos x (is dict') in cs[i := int32 (cs ! i + 1)])"
    using fd_Add_eq[OF inv(1)] assms(3) inv(2) by blast
  have n: "is dict' = names" using d(3) inv(2) assms(2) by (simp add: insert_new_def)
  have l: "length (cnt dict) = length names" using inv by (simp add: fd_inv_def)
  have p: "pos x names < length names" by (rule pos_less[OF assms(2)])
  have "cnt dict ! pos x names = int (freq (int (pos x names)))" using assms(1) p by (simp add: dict_holds_def)
  then have "cnt dict' = (cnt dict)[pos x names := int (freq (int (pos x names))) + 1]"
    using d(4) fd_AddNoCount_cnt[OF inv(1), of x] inv(2) assms(2,4) n by (simp add: Let_def)
  then have "dict_holds dict' names freq'"
    using assms(1,5) d(2) n l by (auto simp: dict_holds_def nth_list_update)
  moreover have "fd_Id dict' x = int (pos x names)" using fd.number_eq[OF d(2), of x] n assms(2) by simp
  ultimately show ?thesis using d(1) by simp
qed

lemma rows_hold_grow:
  "rows_hold n row rows \<Longrightarrow> row (int n) = [] \<Longrightarrow> rows_hold (Suc n) row (grow_rows (Suc n) rows)"
  by (auto simp: rows_hold_def grow_rows_def nth_append less_Suc_eq dest: order_antisym)

lemma length_grow_rows: "length rows = length rows' \<Longrightarrow> length (grow_rows n rows) = length (grow_rows n rows')"
  by (simp add: grow_rows_def)

lemma no_entries_yet:
  assumes "ds_holds us its es d"
  shows "of_user (int (length us)) es = []" "of_item (int (length its)) es = []"
  using assms by (auto simp: ds_holds_def entry_ok_def of_user_def of_item_def filter_empty_conv)

lemma entry_ok_mono: "entry_ok nu ni e \<Longrightarrow> nu \<le> nu' \<Longrightarrow> ni \<le> ni' \<Longrightarrow> entry_ok nu' ni' e"
  by (simp add: entry_ok_def)

lemma holds_AddUser:
  assumes h: "ds_holds us its es d" and "UserId user \<notin> set us" "length us + 1 < 2 ^ 31"
    and r: "label_room (Suc (size (user_Labels user)) + n) d"
  shows "\<exists>d'. ds_AddUser Align user d = Inr d' \<and> ds_holds (us @ [UserId user]) its es d' \<and> label_room n d'"
proof -
  obtain l v where p: "processLabels Align (user_Labels user) [] (ds_userLabels d) = Inr (l, v)"
    "labels_grow (Suc (size (user_Labels user))) (ds_userLabels d) v"
    using processLabels_ok(1)[of "ds_userLabels d" "user_Labels user" Align "[]"] r by (auto simp: label_room_def)
  have len: "length (ds_users d) = length us" using h by (auto simp: ds_holds_def)
  define d' where "d' = d\<lparr>ds_users := ds_users d @ [\<lparr>du_UserId = UserId user, du_Labels = l, du_Comment = user_Comment user\<rparr>],
    ds_userLabels := v, ds_userDict := snd (fd_AddNoCount (UserId user) (ds_userDict d)),
    ds_userFeedback := grow_rows (Suc (length us)) (ds_userFeedback d),
    ds_timestamps := grow_rows (Suc (length us)) (ds_timestamps d)\<rparr>"
  note new = no_entries_yet(1)[OF h]
  have "dict_holds (snd (fd_AddNoCount (UserId user) (ds_userDict d))) (us @ [UserId user]) (\<lambda>k. length (of_user k es))"
    using h assms(2,3) new by (intro dict_holds_new) (auto simp: ds_holds_def)
  moreover have "rows_hold (Suc (length us)) (\<lambda>k. map entry_item (of_user k es)) (grow_rows (Suc (length us)) (ds_userFeedback d))"
    "rows_hold (Suc (length us)) (\<lambda>k. map entry_time (of_user k es)) (grow_rows (Suc (length us)) (ds_timestamps d))"
    using h new by (auto simp: ds_holds_def intro!: rows_hold_grow)
  moreover have "\<forall>e\<in>set es. entry_ok (Suc (length us)) (length its) e"
    using h entry_ok_mono by (metis ds_holds_def le_Suc_eq order_refl)
  moreover have "length (grow_rows (Suc (length us)) (ds_timestamps d)) = length (grow_rows (Suc (length us)) (ds_userFeedback d))"
    using h by (intro length_grow_rows) (simp add: ds_holds_def)
  ultimately have "ds_holds (us @ [UserId user]) its es d'"
    unfolding ds_holds_def using h[unfolded ds_holds_def] by (simp add: d'_def)
  moreover have "ds_AddUser Align user d = Inr d'" using p(1) len by (simp add: ds_AddUser_def Let_def d'_def)
  moreover have "label_room n d'" using p(2) r by (simp add: label_room_def labels_grow_def d'_def)
  ultimately show ?thesis by blast
qed

lemma holds_AddItem:
  assumes h: "ds_holds us its es d" and "ItemId item \<notin> set its" "length its + 1 < 2 ^ 31"
    and r: "label_room (Suc (size (item_Labels item)) + n) d"
  shows "\<exists>d'. ds_AddItem Align item d = Inr d' \<and> ds_holds us (its @ [ItemId item]) es d' \<and> label_room n d'"
proof -
  obtain l v where p: "processLabels Align (item_Labels item) [] (ds_itemLabels d) = Inr (l, v)"
    "labels_grow (Suc (size (item_Labels item))) (ds_itemLabels d) v"
    using processLabels_ok(1)[of "ds_itemLabels d" "item_Labels item" Align "[]"] r by (auto simp: label_room_def)
  have len: "length (ds_items d) = length its" using h by (auto simp: ds_holds_def)
  define d' where "d' = d\<lparr>ds_items := ds_items d @ [\<lparr>di_ItemId = ItemId item, di_IsHidden = item_IsHidden item,
      di_Categories = item_Categories item, di_Timestamp = item_Timestamp item, di_Labels = l, di_Comment = item_Comment item\<rparr>],
    ds_itemLabels := v, ds_itemDict := snd (fd_AddNoCount (ItemId item) (ds_itemDict d)),
    ds_itemFeedback := grow_rows (Suc (length its)) (ds_itemFeedback d),
    ds_categories := fold count_category (item_Categories item) (ds_categories d)\<rparr>"
  note new = no_entries_yet(2)[OF h]
  have "dict_holds (snd (fd_AddNoCount (ItemId item) (ds_itemDict d))) (its @ [ItemId item]) (\<lambda>k. length (of_item k es))"
    using h assms(2,3) new by (intro dict_holds_new) (auto simp: ds_holds_def)
  moreover have "rows_hold (Suc (length its)) (\<lambda>k. map fst (of_item k es)) (grow_rows (Suc (length its)) (ds_itemFeedback d))"
    using h new by (auto simp: ds_holds_def intro!: rows_hold_grow)
  moreover have "\<forall>e\<in>set es. entry_ok (length us) (Suc (length its)) e"
    using h entry_ok_mono by (metis ds_holds_def le_Suc_eq order_refl)
  ultimately have "ds_holds us (its @ [ItemId item]) es d'"
    unfolding ds_holds_def using h[unfolded ds_holds_def] by (simp add: d'_def)
  moreover have "ds_AddItem Align item d = Inr d'" using p(1) len by (simp add: ds_AddItem_def Let_def d'_def)
  moreover have "label_room n d'" using p(2) r by (simp add: label_room_def labels_grow_def d'_def)
  ultimately show ?thesis by blast
qed

lemma length_of_user_le: "length (of_user k es) \<le> length es" "length (of_item k es) \<le> length es"
  by (simp_all add: of_user_def of_item_def)

lemma rows_hold_add: "rows_hold n row rows \<Longrightarrow> rows_hold n (\<lambda>k. row k @ f k) (add_rows f rows)"
  by (simp add: rows_hold_def)

lemma ds_holds_add:
  assumes h: "ds_holds us its es d" and e: "entry_ok (length us) (length its) e"
    and dicts: "dict_holds ud us (\<lambda>k. length (of_user k (es @ [e])))" "dict_holds idt its (\<lambda>k. length (of_item k (es @ [e])))"
  shows "ds_holds us its (es @ [e]) (with_entries [e] (d\<lparr>ds_userDict := ud, ds_itemDict := idt\<rparr>))"
proof -
  have "rows_hold (length us) (\<lambda>k. map entry_item (of_user k es)) (ds_userFeedback d)"
     "rows_hold (length its) (\<lambda>k. map fst (of_item k es)) (ds_itemFeedback d)"
     "rows_hold (length us) (\<lambda>k. map entry_time (of_user k es)) (ds_timestamps d)"
    using h by (simp_all add: ds_holds_def)
  note rows = rows_hold_add[OF this(1)] rows_hold_add[OF this(2)] rows_hold_add[OF this(3)]
  show ?thesis unfolding ds_holds_def of_user_simps(3) of_item_simps(3) map_append with_entries_fields
    by (intro conjI) (use h e dicts rows in \<open>simp_all add: ds_holds_def\<close>)
qed

lemma holds_AddFeedback:
  assumes h: "ds_holds us its es d" and ui: "u \<in> set us" "i \<in> set its"
    and l: "length us + 1 < 2 ^ 31" "length its + 1 < 2 ^ 31" "length es + 1 < 2 ^ 31" and r: "label_room (Suc n) d"
  shows "\<exists>d'. AddFeedback u i t d = Inr d' \<and> ds_holds us its (es @ [(int (pos u us), int (pos i its), t)]) d' \<and> label_room n d'"
proof -
  let ?e = "(int (pos u us), int (pos i its), t)"
  have e: "entry_ok (length us) (length its) ?e" using ui by (simp add: pos_less entry_ok_def)
  have hu: "dict_holds (ds_userDict d) us (\<lambda>k. length (of_user k es))"
    and hi: "dict_holds (ds_itemDict d) its (\<lambda>k. length (of_item k es))" using h by (simp_all add: ds_holds_def)
  have cu: "length (of_user k (es @ [?e])) = length (of_user k es) + (if k = int (pos u us) then 1 else 0)"
    and ci: "length (of_item k (es @ [?e])) = length (of_item k es) + (if k = int (pos i its) then 1 else 0)" for k by simp_all
  have lu: "length (of_user k es) + 1 < 2 ^ 31" and li: "length (of_item k es) + 1 < 2 ^ 31" for k
    using l(3) length_of_user_le[of k es] by simp_all
  obtain ud where ud: "fd_Add u (ds_userDict d) = Inr (int (pos u us), ud)" "dict_holds ud us (\<lambda>k. length (of_user k (es @ [?e])))"
    using dict_holds_Add[OF hu ui(1) l(1) lu cu] by blast
  obtain idt where idt: "fd_Add i (ds_itemDict d) = Inr (int (pos i its), idt)" "dict_holds idt its (\<lambda>k. length (of_item k (es @ [?e])))"
    using dict_holds_Add[OF hi ui(2) l(2) li ci] by blast
  let ?d = "d\<lparr>ds_userDict := ud, ds_itemDict := idt\<rparr>"
  have room: "has_room [?e] ?d" using h e l(3) by (auto simp: has_room_def ds_holds_def rows_hold_def intro: entry_ok_mono)
  then have "AddFeedback u i t d = Inr (with_entries [?e] ?d)"
    using ud(1) idt(1) record_one[OF room] by (simp add: AddFeedback_def)
  moreover have "label_room n (with_entries [?e] ?d)" using r by (simp add: label_room_def with_entries_def)
  ultimately show ?thesis using ds_holds_add[OF h e ud(2) idt(2)] by blast
qed

lemma build_holds:
  assumes "ds_holds us its es d" "ops_ok us its ops" "label_room (sum_list (map op_size ops)) d"
    and "length us + length ops < 2 ^ 31" "length its + length ops < 2 ^ 31" "length es + length ops < 2 ^ 31"
  shows "\<exists>d'. fold_res (dataset_step Align) ops d = Inr d' \<and>
    ds_holds (us @ op_users ops) (its @ op_items ops) (es @ op_entries (us @ op_users ops) (its @ op_items ops) ops) d'"
  using assms
proof (induction ops arbitrary: us its es d)
  case (Cons op ops)
  show ?case
  proof (cases op)
    case (Add_User user)
    then obtain d1 where d1: "ds_AddUser Align user d = Inr d1" "ds_holds (us @ [UserId user]) its es d1"
      "label_room (sum_list (map op_size ops)) d1"
      using holds_AddUser[OF Cons.prems(1), of user "sum_list (map op_size ops)" Align] Cons.prems(2-) by auto
    then show ?thesis using Cons.IH[OF d1(2) _ d1(3)] Cons.prems(2-) Add_User by simp
  next
    case (Add_Item item)
    then obtain d1 where d1: "ds_AddItem Align item d = Inr d1" "ds_holds us (its @ [ItemId item]) es d1"
      "label_room (sum_list (map op_size ops)) d1"
      using holds_AddItem[OF Cons.prems(1), of item "sum_list (map op_size ops)" Align] Cons.prems(2-) by auto
    then show ?thesis using Cons.IH[OF d1(2) _ d1(3)] Cons.prems(2-) Add_Item by simp
  next
    case (Add_Feedback u i t)
    then have ui: "u \<in> set us" "i \<in> set its" using Cons.prems(2) by simp_all
    from holds_AddFeedback[OF Cons.prems(1) this, of "sum_list (map op_size ops)" t] Cons.prems(3-) Add_Feedback
    obtain d1 where d1: "AddFeedback u i t d = Inr d1" "ds_holds us its (es @ [(int (pos u us), int (pos i its), t)]) d1"
      "label_room (sum_list (map op_size ops)) d1" by auto
    then show ?thesis using Cons.IH[OF d1(2) _ d1(3)] Cons.prems(2-) Add_Feedback ui by (simp add: pos_append)
  qed
qed simp

lemma count_transposed: "count_list (map entry_item (of_user u es)) i = count_list (map fst (of_item i es)) u"
  by (induction es) auto

lemma ds_holds_transposed: "ds_holds us its es d \<Longrightarrow> transposed d"
  by (simp add: ds_holds_def rows_hold_def transposed_def count_transposed)

lemma ds_holds_wf:
  assumes h: "ds_holds us its es d" and "length us < 2 ^ 31" "length es < 2 ^ 31"
  shows "ds_wf d"
proof -
  note h' = h[unfolded ds_holds_def]
  have len: "length (ds_users d) = length us" "length (ds_items d) = length its" using h' by auto
  have uf: "ds_userFeedback d ! k = map entry_item (of_user (int k) es)" if "k < length us" for k
    using h' that by (simp add: rows_hold_def)
  have ts: "ds_timestamps d ! k = map entry_time (of_user (int k) es)" if "k < length us" for k
    using h' that by (simp add: rows_hold_def)
  have ok: "0 \<le> fst e \<and> fst e < int (length us) \<and> 0 \<le> entry_item e \<and> entry_item e < ds_CountItems d" if "e \<in> set es" for e
    using h' that len(2) by (auto simp: entry_ok_def ds_CountItems_def)
  have "(\<Sum>u<length us. int (length (ds_userFeedback d ! u))) = int (\<Sum>u<length us. length (of_user (int u) es))"
    by (simp add: uf)
  also have "\<dots> = ds_numFeedback d" using entries_by_user[of es "length us"] ok h' by simp
  finally have "ds_numFeedback d = (\<Sum>u<length us. int (length (ds_userFeedback d ! u)))" ..
  moreover have "\<forall>k<length us. \<forall>i\<in>set (ds_userFeedback d ! k). 0 \<le> i \<and> i < ds_CountItems d"
    using uf ok by (auto simp: of_user_def)
  ultimately show ?thesis using h' assms(2,3) len(1) uf ts by (simp add: ds_wf_def rows_hold_def)
qed

text \<open>C25. Building a data set. For any sequence of additions in which users and items are new and feedback is between
  users and items already added, no addition panics, and in the result the row of a user holds the items of
  the feedback of that user in the order in which it was added, with its times, the row of an item holds its
  users, the frequency of a name is the number of its feedback, and the data set is well-formed.\<close>

theorem dataset_built:
  assumes "ops_ok [] [] ops" and "sum_list (map op_size ops) < 2 ^ 31" and "0 \<le> userCount" "0 \<le> itemCount"
  defines "us \<equiv> op_users ops" and "its \<equiv> op_items ops"
  shows "\<exists>d. build_dataset Align now userCount itemCount ops = Inr d \<and> ds_holds us its (op_entries us its ops) d \<and>
    ds_wf d \<and> transposed d"
proof -
  obtain d0 where d0: "NewDataset now userCount itemCount = Inr d0" "ds_holds [] [] [] d0" "label_room (sum_list (map op_size ops)) d0"
    using assms(2-4) by (simp add: NewDataset_def ds_holds_def dict_holds_def rows_hold_def NewFreqDict_def label_room_def
        NewLabels_def fd_inv_def fd_ToIndex_def idx_inv_def)
  have one: "length ops \<le> sum_list (map op_size ops)"
  proof (induction ops)
    case (Cons op ops)
    then show ?case by (cases op) simp_all
  qed simp
  then have l: "length ops < 2 ^ 31" using assms(2) by linarith
  from build_holds[OF d0(2) assms(1) d0(3), of Align] l obtain d where
    d: "fold_res (dataset_step Align) ops d0 = Inr d" "ds_holds us its (op_entries us its ops) d" by (auto simp: us_def its_def)
  have "length us \<le> length ops" unfolding us_def by (induction ops rule: op_users.induct) simp_all
  moreover have "length (op_entries us its ops) \<le> length ops" by (induction us its ops rule: op_entries.induct) simp_all
  ultimately have "ds_wf d" using ds_holds_wf[OF d(2)] l by simp
  then show ?thesis using d d0(1) ds_holds_transposed[OF d(2)] by (simp add: build_dataset_def)
qed

definition sample_ops :: "dataset_op list" where
  "sample_ops =
     [Add_User \<lparr>UserId = ''ann'', user_Labels = JObj [(''city'', JStr ''Rome'')], user_Comment = []\<rparr>,
      Add_User \<lparr>UserId = ''bob'', user_Labels = JNull, user_Comment = []\<rparr>,
      Add_Item \<lparr>ItemId = ''hat'', item_IsHidden = False, item_Categories = [''cap''], item_Timestamp = 0,
        item_Labels = JArr [JStr ''wool'', JStr ''red''], item_Comment = []\<rparr>,
      Add_Item \<lparr>ItemId = ''bag'', item_IsHidden = False, item_Categories = [], item_Timestamp = 0,
        item_Labels = JArr [JNum 1], item_Comment = []\<rparr>,
      Add_Feedback ''ann'' ''bag'' 5, Add_Feedback ''bob'' ''bag'' 7, Add_Feedback ''ann'' ''hat'' 9]"

lemma sample_ops_ok: "ops_ok [] [] sample_ops" "sum_list (map op_size sample_ops) < 2 ^ 31"
  by (simp_all add: sample_ops_def)

theorem dataset_built_witness:
  "\<exists>d. build_dataset (\<lambda>s. s) 0 2 1 sample_ops = Inr d \<and>
     ds_holds [''ann'', ''bob''] [''hat'', ''bag''] [(0, 1, 5), (1, 1, 7), (0, 0, 9)] d \<and> ds_wf d \<and> transposed d"
  using dataset_built[of sample_ops 2 1 "\<lambda>s. s" 0, OF sample_ops_ok] by (simp add: sample_ops_def pos_def)

definition sample_dataset :: Dataset where
  "sample_dataset =
     \<lparr>ds_timestamp = 0, ds_users = map (\<lambda>s. \<lparr>du_UserId = s, du_Labels = LSame JNull, du_Comment = []\<rparr>) [''ann'', ''bob''],
      ds_items = map (\<lambda>s. \<lparr>di_ItemId = s, di_IsHidden = False, di_Categories = [], di_Timestamp = 0,
        di_Labels = LSame JNull, di_Comment = []\<rparr>) [''hat'', ''bag'', ''tie''],
      ds_userLabels = NewLabels, ds_itemLabels = NewLabels, ds_userFeedback = [[1, 0], [1]],
      ds_itemFeedback = [[0], [0, 1], []], ds_timestamps = [[5, 9], [7]], ds_negatives = [], ds_userDict = NewFreqDict,
      ds_itemDict = NewFreqDict, ds_numFeedback = 3, ds_categories = Map.empty\<rparr>"

lemma sample_dataset_fields:
  "length (ds_users sample_dataset) = 2" "ds_CountItems sample_dataset = 3" "ds_userFeedback sample_dataset = [[1, 0], [1]]"
  "ds_timestamps sample_dataset = [[5, 9], [7]]" "ds_negatives sample_dataset = []" "ds_numFeedback sample_dataset = 3"
  by (simp_all add: sample_dataset_def ds_CountItems_def)

lemma less_two: "(u :: nat) < 2 \<longleftrightarrow> u = 0 \<or> u = 1"
  by auto

lemma sample_dataset_wf: "ds_wf sample_dataset"
  by (auto simp: ds_wf_def sample_dataset_fields less_two lessThan_nat_numeral lessThan_Suc)

theorem split_cf_leave_one_out_witness:
  "\<exists>train test T. SplitCF counting (\<lambda>seed. seed) 1 0 sample_dataset = Some (Inr (train, test)) \<and> T \<subseteq> {..<2} \<and> card T = 1 \<and>
     splits_off sample_dataset T train test"
  using split_cf_leave_one_out[OF sample_dataset_wf counting_draws_below counting_draws_all, of "\<lambda>seed. seed" 1 0]
  by (simp add: sample_dataset_fields)

theorem split_latest_no_leak_witness:
  "\<exists>train test. SplitLatest 1 sample_dataset = Inr (train, test) \<and> transposed train \<and> transposed test \<and>
     takes_latest 1 sample_dataset train test 0 \<and> length (ds_userFeedback train ! 0) = 1"
  using split_latest_no_leak[OF sample_dataset_wf, of 1] by (auto simp: sample_dataset_fields)

section \<open>Negatives\<close>

definition negatives_of :: "int \<Rightarrow> Dataset \<Rightarrow> Dataset \<Rightarrow> nat \<Rightarrow> int list \<Rightarrow> bool" where
  "negatives_of n d ex u s \<longleftrightarrow>
     (let seen = set (ds_userFeedback d ! u) \<union> set (ds_userFeedback ex ! u)
      in distinct s \<and> set s \<subseteq> {0..<ds_CountItems d} - seen \<and>
         (if ds_CountItems d - int (card seen) \<le> n then set s = {0..<ds_CountItems d} - seen else int (length s) = n))"

lemma sample_negatives_returns:
  assumes draw: "draws_all draw" "draws_below draw" and n: "0 \<le> n" and items: "ds_CountItems d < 2 ^ 31"
    and us: "\<And>u. u \<in> set us \<Longrightarrow> u < length (ds_userFeedback d) \<and> u < length (ds_userFeedback ex) \<and> u < length neg" and "distinct us"
  shows "\<exists>neg'. sample_negatives draw d ex n (map int us) neg g = Some (Inr neg') \<and> length neg' = length neg \<and>
    (\<forall>u. if u \<in> set us then negatives_of n d ex u (neg' ! u) else neg' ! u = neg ! u)"
  using us \<open>distinct us\<close>
proof (induction us arbitrary: neg g)
  case (Cons u us)
  let ?seen = "[set (ds_userFeedback d ! u), set (ds_userFeedback ex ! u)]"
  have u: "u < length (ds_userFeedback d)" "u < length (ds_userFeedback ex)" "u < length neg" using Cons.prems(1) by simp_all
  have i32: "int32 (ds_CountItems d) = ds_CountItems d" using items by (simp add: ds_CountItems_def)
  obtain s g' where s: "SampleInt32 draw 0 (ds_CountItems d) n ?seen g = Some (Inr (s, g'))" "negatives_of n d ex u s"
    using SampleInt32_returns[OF draw, of "ds_CountItems d" n ?seen g] n items
    by (auto simp: negatives_of_def Let_def sampled_ok_def between_def ds_CountItems_def)
  have "\<And>v. v \<in> set us \<Longrightarrow> v < length (ds_userFeedback d) \<and> v < length (ds_userFeedback ex) \<and> v < length (neg[u := s])"
    using Cons.prems(1) by simp
  from Cons.IH[OF this, of g'] Cons.prems(2) obtain neg' where neg': "sample_negatives draw d ex n (map int us) (neg[u := s]) g' = Some (Inr neg')"
    "length neg' = length neg" "\<And>v. if v \<in> set us then negatives_of n d ex v (neg' ! v) else neg' ! v = neg[u := s] ! v"
    by auto
  have "if v \<in> set (u # us) then negatives_of n d ex v (neg' ! v) else neg' ! v = neg ! v" for v
    using neg'(3)[of v] s(2) u(3) Cons.prems(2) by (cases "v = u") (auto split: if_splits)
  then show ?case using neg'(1,2) s(1) u i32 by (simp add: user_row_def)
qed simp

text \<open>C26. Sampling negatives. With a fair generator \<^verbatim>\<open>SampleUserNegatives\<close> returns for every number of candidates; the
  negatives of a user are distinct items that the user has in neither set, as many as asked for or else all
  there are, and a second call returns the same rows without drawing again.\<close>

theorem negatives_sampled:
  assumes "ds_wf d" "ds_wf ex" "length (ds_users d) \<le> length (ds_userFeedback ex)" "ds_CountItems d < 2 ^ 31"
    and "ds_negatives d = []" "0 \<le> numCandidates" "draws_below draw" "draws_all draw"
  shows "\<exists>neg. SampleUserNegatives draw NewRandomGenerator ex numCandidates d = Some (Inr (neg, d\<lparr>ds_negatives := neg\<rparr>)) \<and>
    length neg = length (ds_users d) \<and>
    (\<forall>u<length (ds_users d). negatives_of numCandidates d ex u (neg ! u)) \<and>
    (ds_users d \<noteq> [] \<longrightarrow>
       SampleUserNegatives draw NewRandomGenerator ex numCandidates (d\<lparr>ds_negatives := neg\<rparr>) = Some (Inr (neg, d\<lparr>ds_negatives := neg\<rparr>)))"
proof -
  let ?us = "[0..<length (ds_users d)]"
  have "\<exists>neg. sample_negatives draw d ex numCandidates (map int ?us) (replicate (length (ds_users d)) []) (NewRandomGenerator 0) = Some (Inr neg) \<and>
      length neg = length (replicate (length (ds_users d)) ([] :: int list)) \<and>
      (\<forall>u. if u \<in> set ?us then negatives_of numCandidates d ex u (neg ! u) else neg ! u = replicate (length (ds_users d)) [] ! u)"
    by (rule sample_negatives_returns) (use assms in \<open>auto simp: ds_wf_def\<close>)
  then obtain neg where neg: "sample_negatives draw d ex numCandidates (map int ?us) (replicate (length (ds_users d)) []) (NewRandomGenerator 0) = Some (Inr neg)"
    "length neg = length (ds_users d)" "\<forall>u<length (ds_users d). negatives_of numCandidates d ex u (neg ! u)" by force
  then show ?thesis using assms(5) by (auto simp: SampleUserNegatives_def ds_CountUsers_def upto_int)
qed

lemma distinct_singleton_list: "distinct xs \<Longrightarrow> set xs = {x} \<Longrightarrow> xs = [x]"
  by (cases xs) (auto simp: subset_singleton_iff)

theorem negatives_sampled_witness:
  "\<exists>neg. SampleUserNegatives counting (\<lambda>seed. seed) sample_dataset 1 sample_dataset = Some (Inr (neg, sample_dataset\<lparr>ds_negatives := neg\<rparr>)) \<and>
     neg ! 0 = [2] \<and> (neg ! 1 = [0] \<or> neg ! 1 = [2])"
proof -
  have wf: "length (ds_users sample_dataset) \<le> length (ds_userFeedback sample_dataset)" "ds_CountItems sample_dataset < 2 ^ 31"
    "ds_negatives sample_dataset = []" by (simp_all add: sample_dataset_fields)
  obtain neg where neg: "SampleUserNegatives counting (\<lambda>seed. seed) sample_dataset 1 sample_dataset = Some (Inr (neg, sample_dataset\<lparr>ds_negatives := neg\<rparr>))"
    "\<forall>u<2. negatives_of 1 sample_dataset sample_dataset u (neg ! u)"
    using negatives_sampled[OF sample_dataset_wf sample_dataset_wf wf, of 1 counting "\<lambda>seed. seed"]
      counting_draws_below counting_draws_all by (auto simp: sample_dataset_fields)
  have three: "{0..<3} = {0, 1, 2 :: int}" by auto
  have "negatives_of 1 sample_dataset sample_dataset 0 (neg ! 0)" "negatives_of 1 sample_dataset sample_dataset 1 (neg ! 1)"
    using neg(2) by simp_all
  then have "distinct (neg ! 0)" "set (neg ! 0) = {2}" "length (neg ! 1) = 1" "set (neg ! 1) \<subseteq> {0, 2}"
    by (auto simp: negatives_of_def sample_dataset_fields three)
  then have "neg ! 0 = [2]" "neg ! 1 = [0] \<or> neg ! 1 = [2]"
    by (metis distinct_singleton_list, auto simp: length_Suc_conv)
  then show ?thesis using neg(1) by blast
qed

end
