(* ===== verification/Job_Scheduler.thy ===== *)
theory Job_Scheduler
  imports Go_Prelude
begin

text \<open>
  Running jobs in parallel (\<^verbatim>\<open>common/parallel/parallel.go\<close>): splitting a slice into chunks, a pool of workers fed
  through a channel, and jobs that may give up their slot while they wait for a remote service.

  Goroutines interleave: the two schedulers are step relations on the state the goroutines share (channels,
  counters, the phase each goroutine is in). A send to a channel is possible while the channel has room and a
  receive while it holds something; the context may be cancelled at any moment.
\<close>

section \<open>Split\<close>

function split_loop :: "nat \<Rightarrow> nat \<Rightarrow> nat \<Rightarrow> nat \<Rightarrow> 'a list \<Rightarrow> 'a list list" where
  "split_loop minChunkSize maxChunkNum n i a =
     (if n \<le> i then []
      else let chunkSize = (if i < maxChunkNum then minChunkSize + 1 else minChunkSize)
           in take chunkSize a # split_loop minChunkSize maxChunkNum n (Suc i) (drop chunkSize a))"
  by pat_completeness auto
termination by (relation "measure (\<lambda>(_, _, n, i, _). n - i)") auto

declare split_loop.simps [simp del]

definition Split :: "'a list \<Rightarrow> int \<Rightarrow> go_fail + 'a list list" where
  "Split a n =
     (if a = [] then Inr []
      else let n = min n (int (length a))
           in if n = 0 then Inl (Panic ''integer divide by zero'')
              else if n < 0 then Inl (Panic ''makeslice: len out of range'')
              else Inr (split_loop (length a div nat n) (length a mod nat n) (nat n) 0 a))"

section \<open>Jobs that detach\<close>

text \<open>A worker function calls \<^verbatim>\<open>Detach\<close> and \<^verbatim>\<open>Attach\<close> in the order of its script. A job is idle until it is spawned,
  \<open>Holding\<close> after it has entered \<^verbatim>\<open>detachedSem\<close> and before it has left \<^verbatim>\<open>sem\<close>, and \<open>Attaching\<close> after it has left
  \<^verbatim>\<open>detachedSem\<close> and before it is back in \<^verbatim>\<open>sem\<close>.\<close>

datatype act = Detach | Attach

datatype phase = Idle | Started | Running | Holding | Detached | Attaching | Finished

record Sched =
  spawned :: nat
  phases :: "(phase \<times> act list) list"
  sem :: nat
  detachedSem :: nat
  cancelled :: bool
  stopped :: bool

text \<open>The next move of a job, given how full the channels are; \<open>None\<close> if it is blocked or has nothing left to do.\<close>

fun job_move :: "nat \<Rightarrow> nat \<Rightarrow> bool \<Rightarrow> phase \<times> act list \<Rightarrow> nat \<Rightarrow> nat \<Rightarrow> ((phase \<times> act list) \<times> nat \<times> nat) option" where
  "job_move nWorkers nMaxDetached canc (Started, acts) s d =
     (if canc then if 0 < s then Some ((Finished, acts), s - 1, d) else None else Some ((Running, acts), s, d))"
| "job_move nWorkers nMaxDetached canc (Running, Detach # acts) s d =
     (if d < nMaxDetached then Some ((Holding, acts), s, d + 1) else None)"
| "job_move nWorkers nMaxDetached canc (Holding, acts) s d = (if 0 < s then Some ((Detached, acts), s - 1, d) else None)"
| "job_move nWorkers nMaxDetached canc (Running, Attach # acts) s d = Some ((Running, acts), s, d)"
| "job_move nWorkers nMaxDetached canc (Detached, Detach # acts) s d = Some ((Detached, acts), s, d)"
| "job_move nWorkers nMaxDetached canc (Detached, Attach # acts) s d =
     (if 0 < d then Some ((Attaching, acts), s, d - 1) else None)"
| "job_move nWorkers nMaxDetached canc (Attaching, acts) s d = (if s < nWorkers then Some ((Running, acts), s + 1, d) else None)"
| "job_move nWorkers nMaxDetached canc (Running, []) s d = (if 0 < s then Some ((Finished, []), s - 1, d) else None)"
| "job_move nWorkers nMaxDetached canc (Detached, []) s d = (if 0 < d then Some ((Finished, []), s, d - 1) else None)"
| "job_move nWorkers nMaxDetached canc (Idle, acts) s d = None"
| "job_move nWorkers nMaxDetached canc (Finished, acts) s d = None"

inductive Detachable :: "nat \<Rightarrow> nat \<Rightarrow> Sched \<Rightarrow> Sched \<Rightarrow> bool" for nWorkers nMaxDetached where
  spawn: "Detachable nWorkers nMaxDetached s (s\<lparr>spawned := Suc (spawned s), sem := sem s + 1,
      phases := (phases s)[spawned s := (Started, snd (phases s ! spawned s))]\<rparr>)"
    if "\<not> stopped s" and "spawned s < length (phases s)" and "sem s < nWorkers"
| stop: "Detachable nWorkers nMaxDetached s (s\<lparr>stopped := True\<rparr>)"
    if "\<not> stopped s" and "spawned s < length (phases s)" and "cancelled s"
| move: "Detachable nWorkers nMaxDetached s (s\<lparr>phases := (phases s)[k := job], sem := se, detachedSem := de\<rparr>)"
    if "k < length (phases s)" and "job_move nWorkers nMaxDetached (cancelled s) (phases s ! k) (sem s) (detachedSem s) = Some (job, se, de)"
| cancel: "Detachable nWorkers nMaxDetached s (s\<lparr>cancelled := True\<rparr>)" if "\<not> cancelled s"

definition detachable_start :: "act list list \<Rightarrow> Sched" where
  "detachable_start scripts = \<lparr>spawned = 0, phases = map (Pair Idle) scripts, sem = 0, detachedSem = 0, cancelled = False, stopped = False\<rparr>"

text \<open>\<^verbatim>\<open>wg.Wait\<close> returns once every spawned job has ended and no more are spawned.\<close>

definition detachable_returned :: "Sched \<Rightarrow> bool" where
  "detachable_returned s \<longleftrightarrow> (stopped s \<or> spawned s = length (phases s)) \<and> (\<forall>j\<in>set (phases s). fst j \<in> {Idle, Finished})"

section \<open>A pool of workers\<close>

datatype wstate = Ready | Busy nat | Gone

record Pool =
  fed :: nat
  chan :: "nat list"
  closed :: bool
  workers :: "wstate list"
  errs :: "string option list"
  executed :: "nat list"
  ctx_done :: bool

abbreviation ctx_err :: string where "ctx_err \<equiv> ''context canceled''"

abbreviation chanSize :: nat where "chanSize \<equiv> 1024"

text \<open>What a job does: it returns \<^verbatim>\<open>nil\<close> or an error, or it panics. A worker whose job panics is ended by \<^verbatim>\<open>defer util.CheckPanic()\<close>, which
  recovers and logs: the job leaves no error and the worker takes no further job.\<close>

datatype outcome = JOk | JErr string | JPanic

text \<open>The producer, the workers (\<open>run j\<close> is what job \<open>j\<close> does), and the context.\<close>

inductive Parallel :: "(nat \<Rightarrow> outcome) \<Rightarrow> Pool \<Rightarrow> Pool \<Rightarrow> bool" for run where
  produce: "Parallel run s (s\<lparr>chan := chan s @ [fed s], fed := Suc (fed s)\<rparr>)"
    if "\<not> closed s" and "fed s < length (errs s)" and "length (chan s) < chanSize"
| close_end: "Parallel run s (s\<lparr>closed := True\<rparr>)" if "\<not> closed s" and "fed s = length (errs s)"
| close_cancelled: "Parallel run s (s\<lparr>closed := True\<rparr>)" if "\<not> closed s" and "ctx_done s" and "fed s < length (errs s)"
| take_job: "Parallel run s (s\<lparr>chan := js, workers := (workers s)[w := Busy j]\<rparr>)"
    if "w < length (workers s)" and "workers s ! w = Ready" and "chan s = j # js" and "\<not> ctx_done s"
| drop_job: "Parallel run s (s\<lparr>chan := js, workers := (workers s)[w := Gone], errs := (errs s)[j := Some ctx_err]\<rparr>)"
    if "w < length (workers s)" and "workers s ! w = Ready" and "chan s = j # js" and "ctx_done s"
| leave: "Parallel run s (s\<lparr>workers := (workers s)[w := Gone]\<rparr>)"
    if "w < length (workers s)" and "workers s ! w = Ready" and "ctx_done s \<or> closed s \<and> chan s = []"
| job_ok: "Parallel run s (s\<lparr>workers := (workers s)[w := Ready], executed := executed s @ [j]\<rparr>)"
    if "w < length (workers s)" and "workers s ! w = Busy j" and "run j = JOk"
| job_err: "Parallel run s (s\<lparr>workers := (workers s)[w := Gone], errs := (errs s)[j := Some e], executed := executed s @ [j]\<rparr>)"
    if "w < length (workers s)" and "workers s ! w = Busy j" and "run j = JErr e"
| job_panic: "Parallel run s (s\<lparr>workers := (workers s)[w := Gone], executed := executed s @ [j]\<rparr>)"
    if "w < length (workers s)" and "workers s ! w = Busy j" and "run j = JPanic"
| pool_cancel: "Parallel run s (s\<lparr>ctx_done := True\<rparr>)" if "\<not> ctx_done s"

definition parallel_start :: "nat \<Rightarrow> nat \<Rightarrow> Pool" where
  "parallel_start nJobs nWorkers = \<lparr>fed = 0, chan = [], closed = False, workers = replicate nWorkers Ready,
     errs = replicate nJobs None, executed = [], ctx_done = False\<rparr>"

definition parallel_returned :: "Pool \<Rightarrow> bool" where
  "parallel_returned s \<longleftrightarrow> (\<forall>w\<in>set (workers s). w = Gone)"

definition parallel_result :: "Pool \<Rightarrow> string option" where
  "parallel_result s = (case filter (\<lambda>e. e \<noteq> None) (errs s) of e # _ \<Rightarrow> e | [] \<Rightarrow> if ctx_done s then Some ctx_err else None)"

text \<open>\<^verbatim>\<open>For\<close> and \<^verbatim>\<open>ForEach\<close> are the pool with jobs that do not fail (they do not recover, so that a panic ends the process); they keep no errors and return that of the context.\<close>

definition For :: "Pool \<Rightarrow> Pool \<Rightarrow> bool" where
  "For = Parallel (\<lambda>_. JOk)"

definition For_result :: "Pool \<Rightarrow> string option" where
  "For_result s = (if ctx_done s then Some ctx_err else None)"

definition ForEach_calls :: "'a list \<Rightarrow> Pool \<Rightarrow> (nat \<times> 'a) list" where
  "ForEach_calls a s = map (\<lambda>i. (i, a ! i)) (executed s)"

text \<open>With at most one worker the jobs run in order; \<open>ctx i\<close> is the error of the context before job \<open>i\<close>. A panic reaches the caller.\<close>

fun parallel_seq :: "(nat \<Rightarrow> string option) \<Rightarrow> (nat \<Rightarrow> outcome) \<Rightarrow> nat list \<Rightarrow> nat list \<Rightarrow> nat list \<times> outcome" where
  "parallel_seq ctx run [] done_jobs = (done_jobs, case ctx (length done_jobs) of Some e \<Rightarrow> JErr e | None \<Rightarrow> JOk)"
| "parallel_seq ctx run (i # is) done_jobs =
     (case ctx (length done_jobs) of
        Some e \<Rightarrow> (done_jobs, JErr e)
      | None \<Rightarrow> (if run i = JOk then parallel_seq ctx run is (done_jobs @ [i]) else (done_jobs @ [i], run i)))"

section \<open>Split covers the slice evenly\<close>

lemma split_loop_spec:
  assumes "i \<le> n" and "length a = (n - i) * m + (x - i)" and "x \<le> n"
  shows "concat (split_loop m x n i a) = a \<and> length (split_loop m x n i a) = n - i \<and>
    (\<forall>c\<in>set (split_loop m x n i a). length c = m \<or> (length c = m + 1 \<and> i < x))"
  using assms
proof (induction m x n i a rule: split_loop.induct)
  case (1 m x n i a)
  show ?case
  proof (cases "n \<le> i")
    case True
    then show ?thesis using 1(2-4) by (simp add: split_loop.simps)
  next
    case False
    let ?k = "if i < x then m + 1 else m"
    have "n - i = Suc (n - Suc i)" using False by simp
    then have len: "length a = m + ((n - Suc i) * m + (x - i))" using 1(3) by simp
    have "x - i = (if i < x then Suc (x - Suc i) else 0)" by auto
    then have "length a = ?k + ((n - Suc i) * m + (x - Suc i))" using len by simp
    then have sz: "?k \<le> length a" and rest: "length (drop ?k a) = (n - Suc i) * m + (x - Suc i)" unfolding length_drop by linarith+
    have ih: "concat (split_loop m x n (Suc i) (drop ?k a)) = drop ?k a \<and> length (split_loop m x n (Suc i) (drop ?k a)) = n - Suc i \<and>
        (\<forall>c\<in>set (split_loop m x n (Suc i) (drop ?k a)). length c = m \<or> (length c = m + 1 \<and> Suc i < x))"
      using 1(1)[OF False refl _ rest 1(4)] False by simp
    have eq: "split_loop m x n i a = take ?k a # split_loop m x n (Suc i) (drop ?k a)"
      using False by (subst split_loop.simps) (simp only: Let_def if_False)
    have c: "length (take ?k a) = m \<or> length (take ?k a) = m + 1 \<and> i < x" using sz by simp
    show ?thesis unfolding eq
    proof (intro conjI)
      show "concat (take ?k a # split_loop m x n (Suc i) (drop ?k a)) = a" using ih by (simp only: concat.simps append_take_drop_id)
      show "length (take ?k a # split_loop m x n (Suc i) (drop ?k a)) = n - i" using ih False by simp
      show "\<forall>c\<in>set (take ?k a # split_loop m x n (Suc i) (drop ?k a)). length c = m \<or> length c = m + 1 \<and> i < x"
        using ih c Suc_lessD by fastforce
    qed
  qed
qed

text \<open>\<^verbatim>\<open>Split\<close> of a slice into \<open>n > 0\<close> parts returns as many non-empty chunks as asked for (at most one per element) that
  together are the slice in its order, and no two chunks differ by more than one in length.\<close>

theorem split_even:
  assumes "0 < n" and "a \<noteq> []"
  shows "\<exists>chunks. Split a n = Inr chunks \<and> concat chunks = a \<and> int (length chunks) = min n (int (length a)) \<and>
    (\<forall>c\<in>set chunks. c \<noteq> [] \<and> (\<forall>d\<in>set chunks. length c \<le> length d + 1))"
proof -
  define k where "k = nat (min n (int (length a)))"
  have k: "0 < k" "k \<le> length a" using assms by (auto simp: k_def)
  have len: "length a = (k - 0) * (length a div k) + (length a mod k - 0)" by simp
  have "length a mod k \<le> k" using k(1) by (simp add: less_imp_le)
  note spec = split_loop_spec[OF le0 len this]
  have "0 < length a div k" using k by (simp add: div_greater_zero_iff)
  then have "\<forall>c\<in>set (split_loop (length a div k) (length a mod k) k 0 a). c \<noteq> [] \<and>
      (\<forall>d\<in>set (split_loop (length a div k) (length a mod k) k 0 a). length c \<le> length d + 1)"
    (is "\<forall>c\<in>?C. _")
  proof -
    have "length a div k \<le> length c \<and> length c \<le> length a div k + 1" if "c \<in> ?C" for c using spec that by fastforce
    then show ?thesis using \<open>0 < length a div k\<close> by (metis add_le_mono1 le_trans length_0_conv not_less)
  qed
  moreover have "Split a n = Inr (split_loop (length a div k) (length a mod k) k 0 a)"
    using assms k by (auto simp: Split_def k_def Let_def min_def)
  ultimately show ?thesis using spec k by (auto simp: k_def)
qed

theorem split_even_witness: "\<exists>chunks. Split [1 :: nat, 2, 3, 4, 5] 2 = Inr chunks \<and> concat chunks = [1, 2, 3, 4, 5] \<and> length chunks = 2"
  using split_even[of 2 "[1 :: nat, 2, 3, 4, 5]"] by auto

section \<open>Slots\<close>

definition in_sem :: "phase \<times> act list \<Rightarrow> bool" where
  "in_sem j \<longleftrightarrow> fst j \<in> {Started, Running, Holding}"

definition in_detached :: "phase \<times> act list \<Rightarrow> bool" where
  "in_detached j \<longleftrightarrow> fst j \<in> {Holding, Detached}"

definition sched_inv :: "nat \<Rightarrow> nat \<Rightarrow> Sched \<Rightarrow> bool" where
  "sched_inv nWorkers nMaxDetached s \<longleftrightarrow> sem s = length (filter in_sem (phases s)) \<and>
     detachedSem s = length (filter in_detached (phases s)) \<and> sem s \<le> nWorkers \<and> detachedSem s \<le> nMaxDetached \<and>
     spawned s \<le> length (phases s) \<and> (\<forall>k < length (phases s). fst (phases s ! k) = Idle \<longleftrightarrow> spawned s \<le> k) \<and>
     (\<forall>j\<in>set (phases s). fst j = Finished \<and> snd j \<noteq> [] \<longrightarrow> cancelled s) \<and> (stopped s \<longrightarrow> cancelled s)"

lemma length_filter_update:
  "k < length xs \<Longrightarrow> length (filter P (xs[k := v])) + (if P (xs ! k) then 1 else 0) = length (filter P xs) + (if P v then 1 else 0)"
proof (induction xs arbitrary: k)
  case (Cons x xs)
  then show ?case by (cases k) auto
qed simp

lemma filter_pos: "k < length xs \<Longrightarrow> P (xs ! k) \<Longrightarrow> 0 < length (filter P xs)"
  by (metis filter_empty_conv length_greater_0_conv nth_mem)

text \<open>What one move does to the channels and to the work left.\<close>

fun job_work :: "phase \<times> act list \<Rightarrow> nat" where
  "job_work (ph, acts) = 3 * length acts +
     (case ph of Idle \<Rightarrow> 4 | Started \<Rightarrow> 3 | Running \<Rightarrow> 2 | Holding \<Rightarrow> 3 | Detached \<Rightarrow> 2 | Attaching \<Rightarrow> 3 | Finished \<Rightarrow> 0)"

definition sched_work :: "Sched \<Rightarrow> nat" where
  "sched_work s = sum_list (map job_work (phases s)) + (if stopped s then 0 else 1) + (if cancelled s then 0 else 1)"

definition b2n :: "bool \<Rightarrow> nat" where
  "b2n b = (if b then 1 else 0)"

lemma job_move_effect:
  assumes "job_move W D c j s d = Some (j', s', d')"
  shows "s' + b2n (in_sem j) = s + b2n (in_sem j')" "d' + b2n (in_detached j) = d + b2n (in_detached j')"
    "s \<le> W \<Longrightarrow> s' \<le> W" "d \<le> D \<Longrightarrow> d' \<le> D" "fst j \<noteq> Idle" "fst j' \<noteq> Idle" "fst j' = Finished \<Longrightarrow> snd j' \<noteq> [] \<Longrightarrow> c"
    "job_work j' < job_work j"
  using assms
  by (induction W D c j s d rule: job_move.induct) (auto simp: in_sem_def in_detached_def b2n_def split: if_splits)

lemma sum_list_update_less:
  "k < length xs \<Longrightarrow> f v < f (xs ! k) \<Longrightarrow> sum_list (map f (xs[k := v])) < sum_list (map f xs)" for f :: "'a \<Rightarrow> nat"
proof (induction xs arbitrary: k)
  case (Cons x xs)
  then show ?case by (cases k) auto
qed simp

lemma sched_inv_move:
  assumes "sched_inv W D s" and "k < length (phases s)" and "job_move W D (cancelled s) (phases s ! k) (sem s) (detachedSem s) = Some (j, se, de)"
  shows "sched_inv W D (s\<lparr>phases := (phases s)[k := j], sem := se, detachedSem := de\<rparr>)"
proof -
  note eff = job_move_effect[OF assms(3)]
  have "se = length (filter in_sem ((phases s)[k := j]))"
    using length_filter_update[OF assms(2), of in_sem j] eff(1) assms(1) by (auto simp: sched_inv_def b2n_def split: if_splits)
  moreover have "de = length (filter in_detached ((phases s)[k := j]))"
    using length_filter_update[OF assms(2), of in_detached j] eff(2) assms(1) by (auto simp: sched_inv_def b2n_def split: if_splits)
  moreover have "\<forall>x\<in>set ((phases s)[k := j]). fst x = Finished \<and> snd x \<noteq> [] \<longrightarrow> cancelled s"
    using assms(1) eff(7) set_update_subset_insert[of "phases s" k j] by (auto simp: sched_inv_def)
  moreover have "\<forall>i < length (phases s). fst ((phases s)[k := j] ! i) = Idle \<longleftrightarrow> spawned s \<le> i"
    using assms(1,2) eff(5,6) by (auto simp: sched_inv_def nth_list_update)
  ultimately show ?thesis using assms(1) eff(3,4) by (simp add: sched_inv_def)
qed

lemma sched_inv_spawn:
  assumes "sched_inv W D s" and "spawned s < length (phases s)" and "sem s < W"
  shows "sched_inv W D (s\<lparr>spawned := Suc (spawned s), sem := sem s + 1,
      phases := (phases s)[spawned s := (Started, snd (phases s ! spawned s))]\<rparr>)"
proof -
  let ?j = "(Started, snd (phases s ! spawned s))"
  have idle: "fst (phases s ! spawned s) = Idle" using assms(1,2) by (simp add: sched_inv_def)
  have "sem s + 1 = length (filter in_sem ((phases s)[spawned s := ?j]))"
    using length_filter_update[OF assms(2), of in_sem ?j] idle assms(1) by (auto simp: sched_inv_def in_sem_def)
  moreover have "detachedSem s = length (filter in_detached ((phases s)[spawned s := ?j]))"
    using length_filter_update[OF assms(2), of in_detached ?j] idle assms(1) by (auto simp: sched_inv_def in_detached_def)
  moreover have "\<forall>x\<in>set ((phases s)[spawned s := ?j]). fst x = Finished \<and> snd x \<noteq> [] \<longrightarrow> cancelled s"
    using assms(1) set_update_subset_insert[of "phases s" "spawned s" ?j] by (auto simp: sched_inv_def)
  moreover have "\<forall>i < length (phases s). fst ((phases s)[spawned s := ?j] ! i) = Idle \<longleftrightarrow> Suc (spawned s) \<le> i"
    using assms(1,2) by (auto simp: sched_inv_def nth_list_update)
  ultimately show ?thesis using assms by (simp add: sched_inv_def)
qed

lemma Detachable_inv: "Detachable W D s s' \<Longrightarrow> sched_inv W D s \<Longrightarrow> sched_inv W D s'"
proof (induction rule: Detachable.induct)
  case (spawn s)
  then show ?case by (intro sched_inv_spawn)
next
  case (move k s job se de)
  then show ?case by (intro sched_inv_move)
qed (auto simp: sched_inv_def)

lemma Detachable_work: "Detachable W D s s' \<Longrightarrow> sched_inv W D s \<Longrightarrow> sched_work s' < sched_work s"
proof (induction rule: Detachable.induct)
  case (spawn s)
  have "fst (phases s ! spawned s) = Idle" using spawn by (simp add: sched_inv_def)
  then have "job_work (Started, snd (phases s ! spawned s)) < job_work (phases s ! spawned s)"
    by (cases "phases s ! spawned s") simp
  from sum_list_update_less[OF spawn(2), of job_work, OF this] show ?case by (simp add: sched_work_def)
next
  case (move k s job se de)
  from sum_list_update_less[OF move(1), of job_work, OF job_move_effect(8)[OF move(2)]] show ?case by (simp add: sched_work_def)
qed (auto simp: sched_work_def)

section \<open>Progress\<close>

text \<open>With at least one slot of each kind some job can move as long as one has been started and has not ended.\<close>

lemma move_detached:
  assumes "sched_inv W D s" and "k < length (phases s)" and "in_detached (phases s ! k)"
  shows "\<exists>m. job_move W D (cancelled s) (phases s ! k) (sem s) (detachedSem s) = Some m"
proof -
  obtain ph acts where j: "phases s ! k = (ph, acts)" by force
  have d: "0 < detachedSem s" using filter_pos[OF assms(2), of in_detached] assms(3) assms(1) by (simp add: sched_inv_def)
  have "0 < sem s" if "ph = Holding"
    using filter_pos[OF assms(2), of in_sem] assms(1) j that by (simp add: sched_inv_def in_sem_def)
  then show ?thesis using assms(3) j d by (cases acts; cases "hd acts") (auto simp: in_detached_def)
qed

lemma move_in_sem:
  assumes "sched_inv W D s" and "0 < D" and "k < length (phases s)" and "in_sem (phases s ! k)"
  shows "\<exists>i < length (phases s). \<exists>m. job_move W D (cancelled s) (phases s ! i) (sem s) (detachedSem s) = Some m"
proof -
  obtain ph acts where j: "phases s ! k = (ph, acts)" by force
  have sm: "0 < sem s" using filter_pos[OF assms(3), of in_sem] assms(4) assms(1) by (simp add: sched_inv_def)
  show ?thesis
  proof (cases "job_move W D (cancelled s) (phases s ! k) (sem s) (detachedSem s)")
    case (Some m)
    then show ?thesis using assms(3) by blast
  next
    case None
    then have "\<not> detachedSem s < D" using j sm assms(4) by (cases acts; cases "hd acts"; cases ph) (auto simp: in_sem_def split: if_splits)
    then have "filter in_detached (phases s) \<noteq> []" using assms(1,2) by (auto simp: sched_inv_def)
    then obtain i where "i < length (phases s)" "in_detached (phases s ! i)"
      by (metis filter_empty_conv in_set_conv_nth)
    then show ?thesis using move_detached[OF assms(1)] by blast
  qed
qed

lemma some_move:
  assumes "sched_inv W D s" and "0 < W" and "0 < D" and "k < length (phases s)" and "fst (phases s ! k) \<notin> {Idle, Finished}"
  shows "\<exists>i < length (phases s). \<exists>m. job_move W D (cancelled s) (phases s ! i) (sem s) (detachedSem s) = Some m"
proof -
  obtain ph acts where j: "phases s ! k = (ph, acts)" by force
  consider "in_sem (phases s ! k)" | "in_detached (phases s ! k)" | "ph = Attaching"
    using assms(5) j by (cases ph) (auto simp: in_sem_def in_detached_def)
  then show ?thesis
  proof cases
    case 1
    then show ?thesis using move_in_sem[OF assms(1,3,4)] by blast
  next
    case 2
    then show ?thesis using move_detached[OF assms(1,4)] assms(4) by blast
  next
    case 3
    show ?thesis
    proof (cases "sem s < W")
      case True
      then show ?thesis using 3 j assms(4) by (intro exI[of _ k]) simp
    next
      case False
      then have "filter in_sem (phases s) \<noteq> []" using assms(1,2) by (auto simp: sched_inv_def)
      then obtain i where "i < length (phases s)" "in_sem (phases s ! i)" by (metis filter_empty_conv in_set_conv_nth)
      then show ?thesis using move_in_sem[OF assms(1,3)] by blast
    qed
  qed
qed

lemma Detachable_progress:
  assumes "sched_inv W D s" and "0 < W" and "0 < D" and "\<not> detachable_returned s"
  shows "\<exists>s'. Detachable W D s s' \<and> cancelled s' = cancelled s"
proof (cases "\<forall>j\<in>set (phases s). fst j \<in> {Idle, Finished}")
  case True
  then have more: "\<not> stopped s" "spawned s < length (phases s)"
    using assms(1,4) by (auto simp: detachable_returned_def sched_inv_def le_less)
  have "filter in_sem (phases s) = []" using True by (auto simp: filter_empty_conv in_sem_def)
  then have "sem s < W" using assms(1,2) by (simp add: sched_inv_def)
  from Detachable.spawn[OF more this, of D] show ?thesis by fastforce
next
  case False
  then obtain k where "k < length (phases s)" "fst (phases s ! k) \<notin> {Idle, Finished}" by (metis in_set_conv_nth)
  from some_move[OF assms(1-3) this] obtain i j se de where
    m: "i < length (phases s)" "job_move W D (cancelled s) (phases s ! i) (sem s) (detachedSem s) = Some (j, se, de)"
    by (metis prod_cases3)
  from Detachable.move[OF m] show ?thesis by fastforce
qed

lemma Detachable_length: "Detachable W D s s' \<Longrightarrow> length (phases s') = length (phases s)"
  by (induction rule: Detachable.induct) auto

lemma sched_inv_start: "sched_inv W D (detachable_start scripts)"
  by (auto simp: sched_inv_def detachable_start_def in_sem_def in_detached_def filter_empty_conv)

lemma Detachable_run:
  "(Detachable W D ^^ n) (detachable_start scripts) s \<Longrightarrow>
   sched_inv W D s \<and> n + sched_work s \<le> sched_work (detachable_start scripts) \<and> length (phases s) = length scripts"
proof (induction n arbitrary: s)
  case 0
  then show ?case by (auto simp: sched_inv_start) (simp add: detachable_start_def)
next
  case (Suc n)
  then obtain s1 where s1: "(Detachable W D ^^ n) (detachable_start scripts) s1" "Detachable W D s1 s" by auto
  from Suc.IH[OF s1(1)] have ih: "sched_inv W D s1" "n + sched_work s1 \<le> sched_work (detachable_start scripts)"
    "length (phases s1) = length scripts" by auto
  show ?case using ih Detachable_inv[OF s1(2) ih(1)] Detachable_work[OF s1(2) ih(1)] Detachable_length[OF s1(2)] by simp
qed

text \<open>C21. \<^verbatim>\<open>Detachable\<close> keeps its limits and returns: with at least one slot for running and one for detached jobs, however the
  goroutines interleave and whenever the context is cancelled, never more than \<^verbatim>\<open>nWorkers\<close> jobs are started or running
  and never more than \<^verbatim>\<open>nMaxDetached\<close> are detached; a run has a bounded number of steps, and it never gets stuck before
  \<^verbatim>\<open>Detachable\<close> has returned. If the context is not cancelled, every job has then run to its end.\<close>

theorem detachable_returns_bounded:
  assumes "0 < nWorkers" and "0 < nMaxDetached" and "(Detachable nWorkers nMaxDetached ^^ n) (detachable_start scripts) s"
  shows "length (filter (\<lambda>j. fst j \<in> {Started, Running, Holding}) (phases s)) \<le> nWorkers \<and>
    length (filter (\<lambda>j. fst j \<in> {Holding, Detached}) (phases s)) \<le> nMaxDetached \<and>
    n \<le> 2 + (\<Sum>script\<leftarrow>scripts. 3 * length script + 4) \<and>
    (detachable_returned s \<or> (\<exists>s'. Detachable nWorkers nMaxDetached s s' \<and> cancelled s' = cancelled s)) \<and>
    (detachable_returned s \<and> \<not> cancelled s \<longrightarrow> phases s = replicate (length scripts) (Finished, []))"
proof -
  have run: "sched_inv nWorkers nMaxDetached s" "n \<le> sched_work (detachable_start scripts)" "length (phases s) = length scripts"
    using Detachable_run[OF assms(3)] by auto
  have "sched_work (detachable_start scripts) = 2 + (\<Sum>script\<leftarrow>scripts. 3 * length script + 4)"
    by (simp add: sched_work_def detachable_start_def comp_def)
  moreover have "phases s = replicate (length scripts) (Finished, [])" if "detachable_returned s" "\<not> cancelled s"
  proof -
    have "x = (Finished, [])" if x: "x \<in> set (phases s)" for x
    proof -
      obtain k where k: "k < length (phases s)" "x = phases s ! k" using x by (auto simp: in_set_conv_nth)
      have "spawned s = length (phases s)" using \<open>detachable_returned s\<close> \<open>\<not> cancelled s\<close> run(1)
        by (auto simp: detachable_returned_def sched_inv_def)
      then have "fst x \<noteq> Idle" using run(1) k by (auto simp: sched_inv_def)
      then have "fst x = Finished" using \<open>detachable_returned s\<close> x by (auto simp: detachable_returned_def)
      moreover have "snd x = []" using run(1) x calculation \<open>\<not> cancelled s\<close> by (auto simp: sched_inv_def)
      ultimately show ?thesis by (cases x) simp
    qed
    then show ?thesis using run(3) by (metis replicate_eqI)
  qed
  moreover have "detachable_returned s \<or> (\<exists>s'. Detachable nWorkers nMaxDetached s s' \<and> cancelled s' = cancelled s)"
    using Detachable_progress[OF run(1) assms(1,2)] by blast
  moreover have "length (filter (\<lambda>j. fst j \<in> {Started, Running, Holding}) (phases s)) \<le> nWorkers"
    "length (filter (\<lambda>j. fst j \<in> {Holding, Detached}) (phases s)) \<le> nMaxDetached"
    using run(1) unfolding sched_inv_def in_sem_def[abs_def, symmetric] in_detached_def[abs_def, symmetric] by simp_all
  ultimately show ?thesis using run(2) by (intro conjI) auto
qed

theorem detachable_returns_bounded_witness:
  "\<exists>s'. Detachable 1 1 (detachable_start [[Detach, Attach]]) s'"
proof -
  have "(Detachable 1 1 ^^ 0) (detachable_start [[Detach, Attach]]) (detachable_start [[Detach, Attach]])" by simp
  from detachable_returns_bounded[OF _ _ this]
  have "detachable_returned (detachable_start [[Detach, Attach]]) \<or> (\<exists>s'. Detachable 1 1 (detachable_start [[Detach, Attach]]) s')" by auto
  then show ?thesis by (auto simp: detachable_returned_def detachable_start_def)
qed

section \<open>No room to detach\<close>

definition never_detached :: "nat \<Rightarrow> Sched \<Rightarrow> bool" where
  "never_detached k s \<longleftrightarrow> k < length (phases s) \<and>
     (fst (phases s ! k) \<in> {Idle, Started, Running} \<and> Detach \<in> set (snd (phases s ! k)) \<or> cancelled s \<and> fst (phases s ! k) = Finished)"

lemma job_move_no_room:
  assumes "job_move W 0 c j s d = Some (j', s', d')" and "fst j \<in> {Idle, Started, Running}" and "Detach \<in> set (snd j)"
  shows "fst j' \<in> {Idle, Started, Running} \<and> Detach \<in> set (snd j') \<or> c \<and> fst j' = Finished"
  using assms
proof (cases j)
  case (Pair ph acts)
  then show ?thesis using assms by (cases acts; cases "hd acts"; cases ph) (auto split: if_splits)
qed

lemma never_detached_step: "Detachable W 0 s s' \<Longrightarrow> never_detached k s \<Longrightarrow> sched_inv W 0 s \<Longrightarrow> never_detached k s'"
proof (induction rule: Detachable.induct)
  case (move i s job se de)
  show ?case
  proof (cases "i = k")
    case True
    have "fst (phases s ! k) \<noteq> Finished" using move(2) True by (cases "phases s ! k") auto
    then show ?thesis using move job_move_no_room[OF move(2)] True by (auto simp: never_detached_def)
  next
    case False
    then show ?thesis using move(3) by (simp add: never_detached_def)
  qed
next
  case (spawn s)
  then have "fst (phases s ! spawned s) = Idle" by (simp add: sched_inv_def)
  then show ?case using spawn by (auto simp: never_detached_def nth_list_update)
qed (auto simp: never_detached_def)

text \<open>Without room for detached jobs \<^verbatim>\<open>Detachable\<close> hangs: if \<^verbatim>\<open>nMaxDetached\<close> is zero, a job that calls \<^verbatim>\<open>Detach\<close> never ends
  unless the context is cancelled before it starts, so in no reachable state without cancellation has \<^verbatim>\<open>Detachable\<close> returned.\<close>

theorem detachable_hangs_without_room:
  assumes "(Detachable nWorkers 0)\<^sup>*\<^sup>* (detachable_start scripts) s" and "k < length scripts" and "Detach \<in> set (scripts ! k)"
    and "\<not> cancelled s"
  shows "fst (phases s ! k) \<in> {Idle, Started, Running} \<and> \<not> detachable_returned s"
proof -
  have "never_detached k s \<and> sched_inv nWorkers 0 s"
    using assms(1)
  proof (induction rule: rtranclp_induct)
    case base
    then show ?case using assms(2,3) sched_inv_start by (simp add: never_detached_def detachable_start_def)
  next
    case (step s1 s2)
    then show ?case using never_detached_step Detachable_inv by blast
  qed
  then have nd: "k < length (phases s)" "fst (phases s ! k) \<in> {Idle, Started, Running}" and inv: "sched_inv nWorkers 0 s"
    using assms(4) by (auto simp: never_detached_def)
  have "\<not> detachable_returned s"
  proof
    assume r: "detachable_returned s"
    then have "spawned s = length (phases s)" using inv assms(4) by (auto simp: detachable_returned_def sched_inv_def)
    then have "fst (phases s ! k) \<noteq> Idle" using inv nd(1) by (auto simp: sched_inv_def)
    then show False using r nd nth_mem[OF nd(1)] by (auto simp: detachable_returned_def)
  qed
  then show ?thesis using nd by simp
qed

theorem detachable_hangs_without_room_witness: "\<not> detachable_returned (detachable_start [[Detach, Attach]])"
  using detachable_hangs_without_room[of 4 "[[Detach, Attach]]" "detachable_start [[Detach, Attach]]" 0]
  by (simp add: detachable_start_def)

section \<open>The pool runs every job once\<close>

definition busy :: "wstate list \<Rightarrow> nat multiset" where
  "busy ws = mset (concat (map (\<lambda>w. case w of Busy j \<Rightarrow> [j] | _ \<Rightarrow> []) ws))"

definition placed :: "Pool \<Rightarrow> nat multiset" where
  "placed s = mset (executed s) + busy (workers s) + mset (chan s)"

lemma sum_list_update_nat:
  "k < length xs \<Longrightarrow> sum_list (map f (xs[k := v])) + f (xs ! k) = sum_list (map f xs) + f v" for f :: "'a \<Rightarrow> nat"
proof (induction xs arbitrary: k)
  case (Cons x xs)
  then show ?case by (cases k) auto
qed simp

definition ended :: "wstate list \<Rightarrow> nat" where
  "ended ws = sum_list (map (\<lambda>w. if w = Gone then 1 else 0) ws)"

definition pool_inv :: "(nat \<Rightarrow> outcome) \<Rightarrow> Pool \<Rightarrow> bool" where
  "pool_inv run s \<longleftrightarrow> fed s \<le> length (errs s) \<and>
     placed s \<subseteq># mset [0..<fed s] \<and> (\<not> ctx_done s \<longrightarrow> placed s = mset [0..<fed s]) \<and>
     (\<forall>j < length (errs s). \<forall>e. errs s ! j = Some e \<longrightarrow> run j = JErr e \<and> j \<in> set (executed s) \<or> ctx_done s \<and> e = ctx_err) \<and>
     (\<forall>j \<in> set (executed s). errs s ! j = None \<longrightarrow> run j = JOk \<or> run j = JPanic) \<and>
     (closed s \<and> \<not> ctx_done s \<longrightarrow> fed s = length (errs s)) \<and>
     (ctx_done s \<or> closed s \<and> chan s = [] \<or> (\<exists>j\<in>set (executed s). errs s ! j \<noteq> None) \<or>
        ended (workers s) \<le> length (filter (\<lambda>j. run j = JPanic) (executed s)))"

lemma ended_update: "w < length ws \<Longrightarrow> ended (ws[w := v]) + ended [ws ! w] = ended ws + ended [v]"
  using sum_list_update_nat[of w ws "\<lambda>w. if w = Gone then 1 else 0" v] by (simp add: ended_def)

lemma ended_all: "\<forall>w\<in>set ws. w = Gone \<Longrightarrow> ended ws = length ws"
  by (induction ws) (auto simp: ended_def)

lemma ended_simps [simp]: "ended [Ready] = 0" "ended [Gone] = 1" "ended [Busy j] = 0"
  by (simp_all add: ended_def)

lemma busy_update:
  "w < length ws \<Longrightarrow> busy (ws[w := v]) + busy [ws ! w] = busy ws + busy [v]"
proof (induction ws arbitrary: w)
  case (Cons x ws)
  then show ?case by (cases w) (auto simp: busy_def ac_simps)
qed simp

lemma busy_simps [simp]: "busy [Ready] = {#}" "busy [Gone] = {#}" "busy [Busy j] = {#j#}"
  by (simp_all add: busy_def)

lemma below_fed: "mset xs \<subseteq># mset [0..<n] \<Longrightarrow> j \<in> set xs \<Longrightarrow> j < n"
  by (metis atLeastLessThan_iff atLeastLessThan_upt mset_subset_eqD set_mset_mset)

lemma busy_same:
  assumes "w < length ws" and "busy [ws ! w] = {#}" and "busy [v] = {#}"
  shows "busy (ws[w := v]) = busy ws"
  using busy_update[OF assms(1), of v] assms(2,3) by simp

lemma busy_start: "w < length ws \<Longrightarrow> ws ! w = Ready \<Longrightarrow> busy (ws[w := Busy j]) = add_mset j (busy ws)"
  using busy_update[of w ws "Busy j"] by simp

lemma busy_end: "w < length ws \<Longrightarrow> ws ! w = Busy j \<Longrightarrow> busy [v] = {#} \<Longrightarrow> busy ws = add_mset j (busy (ws[w := v]))"
  using busy_update[of w ws v] by simp

lemma placed_below: "pool_inv run s \<Longrightarrow> j \<in># placed s \<Longrightarrow> j < length (errs s)"
  using mset_subset_eqD[of "placed s" "mset [0..<fed s]" j] by (fastforce simp: pool_inv_def)

lemma Parallel_inv: "Parallel run s s' \<Longrightarrow> pool_inv run s \<Longrightarrow> pool_inv run s'"
proof (induction rule: Parallel.induct)
  case (produce s)
  have "placed (s\<lparr>chan := chan s @ [fed s], fed := Suc (fed s)\<rparr>) = add_mset (fed s) (placed s)"
    by (simp add: placed_def)
  moreover have "mset [0..<Suc (fed s)] = add_mset (fed s) (mset [0..<fed s])" by simp
  ultimately show ?case using produce by (auto simp: pool_inv_def simp del: upt_Suc mset_upt)
next
  case (take_job w s j js)
  have "placed (s\<lparr>chan := js, workers := (workers s)[w := Busy j]\<rparr>) = placed s"
    using take_job(1-3) by (simp add: placed_def busy_start)
  then show ?case using take_job ended_update[of w "workers s" "Busy j"] by (auto simp: pool_inv_def)
next
  case (drop_job w s j js)
  have b: "busy ((workers s)[w := Gone]) = busy (workers s)" using drop_job by (intro busy_same) auto
  have "placed (s\<lparr>chan := js, workers := (workers s)[w := Gone], errs := (errs s)[j := Some ctx_err]\<rparr>) \<subseteq># placed s"
    using drop_job(3) b by (simp add: placed_def)
  moreover have "j < length (errs s)" using placed_below[OF drop_job(5), of j] drop_job(3) by (simp add: placed_def)
  ultimately show ?case using drop_job subset_mset.order_trans by (auto simp: pool_inv_def nth_list_update split: if_splits)
next
  case (leave w s)
  have "busy ((workers s)[w := Gone]) = busy (workers s)" using leave by (intro busy_same) auto
  then have "placed (s\<lparr>workers := (workers s)[w := Gone]\<rparr>) = placed s" by (simp add: placed_def)
  then show ?case using leave by (auto simp: pool_inv_def)
next
  case (job_ok w s j)
  have "busy (workers s) = add_mset j (busy ((workers s)[w := Ready]))" using job_ok by (intro busy_end) auto
  then have "placed (s\<lparr>workers := (workers s)[w := Ready], executed := executed s @ [j]\<rparr>) = placed s" by (simp add: placed_def)
  then show ?case using job_ok ended_update[of w "workers s" Ready] by (auto simp: pool_inv_def)
next
  case (job_err w s j e)
  have b: "busy (workers s) = add_mset j (busy ((workers s)[w := Gone]))" using job_err by (intro busy_end) auto
  then have j: "j < length (errs s)" using placed_below[OF job_err(4)] by (simp add: placed_def)
  have "placed (s\<lparr>workers := (workers s)[w := Gone], errs := (errs s)[j := Some e], executed := executed s @ [j]\<rparr>) = placed s"
    using b by (simp add: placed_def)
  then show ?case using job_err j by (auto simp: pool_inv_def nth_list_update)
next
  case (job_panic w s j)
  have "busy (workers s) = add_mset j (busy ((workers s)[w := Gone]))" using job_panic by (intro busy_end) auto
  then have "placed (s\<lparr>workers := (workers s)[w := Gone], executed := executed s @ [j]\<rparr>) = placed s" by (simp add: placed_def)
  then show ?case using job_panic ended_update[of w "workers s" Gone] by (auto simp: pool_inv_def)
next
  case (pool_cancel s)
  have "placed (s\<lparr>ctx_done := True\<rparr>) = placed s" by (simp add: placed_def)
  then show ?case using pool_cancel by (auto simp: pool_inv_def)
next
  case (close_end s)
  have "placed (s\<lparr>closed := True\<rparr>) = placed s" by (simp add: placed_def)
  then show ?case using close_end by (auto simp: pool_inv_def)
next
  case (close_cancelled s)
  have "placed (s\<lparr>closed := True\<rparr>) = placed s" by (simp add: placed_def)
  then show ?case using close_cancelled by (auto simp: pool_inv_def)
qed

lemma pool_inv_start: "pool_inv run (parallel_start nJobs nWorkers)"
proof -
  have "busy (replicate n Ready) = {#}" for n by (induction n) (auto simp: busy_def)
  moreover have "ended (replicate n Ready) = 0" for n by (simp add: ended_def sum_list_replicate)
  ultimately show ?thesis by (auto simp: pool_inv_def placed_def parallel_start_def)
qed

section \<open>The pool returns\<close>

fun worker_work :: "wstate \<Rightarrow> nat" where
  "worker_work Ready = 1"
| "worker_work (Busy _) = 3"
| "worker_work Gone = 0"

definition pool_work :: "Pool \<Rightarrow> nat" where
  "pool_work s = 4 * (length (errs s) - fed s) + 3 * length (chan s) +
     sum_list (map worker_work (workers s)) + (if closed s then 0 else 1) + (if ctx_done s then 0 else 1)"

lemma Parallel_work: "Parallel run s s' \<Longrightarrow> pool_work s' < pool_work s"
proof (induction rule: Parallel.induct)
  case (take_job w s j js)
  then show ?case using sum_list_update_nat[OF take_job(1), of worker_work "Busy j"] by (simp add: pool_work_def)
next
  case (drop_job w s j js)
  then show ?case using sum_list_update_nat[OF drop_job(1), of worker_work Gone] by (simp add: pool_work_def)
next
  case (leave w s)
  then show ?case using sum_list_update_nat[OF leave(1), of worker_work Gone] by (simp add: pool_work_def)
next
  case (job_ok w s j)
  then show ?case using sum_list_update_nat[OF job_ok(1), of worker_work Ready] by (simp add: pool_work_def)
next
  case (job_err w s j e)
  then show ?case using sum_list_update_nat[OF job_err(1), of worker_work Gone] by (simp add: pool_work_def)
next
  case (job_panic w s j)
  then show ?case using sum_list_update_nat[OF job_panic(1), of worker_work Gone] by (simp add: pool_work_def)
qed (auto simp: pool_work_def)

lemma Parallel_progress:
  assumes "pool_inv run s" and "\<not> parallel_returned s"
  shows "\<exists>s'. Parallel run s s' \<and> ctx_done s' = ctx_done s"
proof -
  obtain w where w: "w < length (workers s)" "workers s ! w \<noteq> Gone"
    using assms(2) by (auto simp: parallel_returned_def in_set_conv_nth)
  show ?thesis
  proof (cases "workers s ! w")
    case (Busy j)
    then show ?thesis
      using Parallel.job_ok[OF w(1) Busy, of run] Parallel.job_err[OF w(1) Busy, of run] Parallel.job_panic[OF w(1) Busy, of run]
      by (cases "run j") fastforce+
  next
    case Ready
    show ?thesis
    proof (cases "chan s")
      case (Cons j js)
      then show ?thesis
        using Parallel.take_job[OF w(1) Ready Cons, of run] Parallel.drop_job[OF w(1) Ready Cons, of run] by (cases "ctx_done s") fastforce+
    next
      case Nil
      consider "closed s" | "\<not> closed s" "fed s = length (errs s)" | "\<not> closed s" "fed s < length (errs s)"
        using assms(1) by (auto simp: pool_inv_def le_less)
      then show ?thesis
      proof cases
        case 1
        then show ?thesis using Parallel.leave[OF w(1) Ready, of run] Nil by fastforce
      next
        case 2
        then show ?thesis using Parallel.close_end[of s run] by fastforce
      next
        case 3
        then show ?thesis using Parallel.produce[of s run] Nil by fastforce
      qed
    qed
  qed (use w in simp)
qed

lemma Parallel_frame: "Parallel run s s' \<Longrightarrow> length (errs s') = length (errs s) \<and> length (workers s') = length (workers s)"
  by (induction rule: Parallel.induct) auto

lemma Parallel_run:
  "(Parallel run ^^ n) (parallel_start nJobs nWorkers) s \<Longrightarrow> pool_inv run s \<and> length (errs s) = nJobs \<and> length (workers s) = nWorkers \<and>
     n + pool_work s \<le> 4 * nJobs + nWorkers + 2"
proof (induction n arbitrary: s)
  case 0
  then show ?case by (auto simp: pool_inv_start) (auto simp: parallel_start_def pool_work_def sum_list_replicate)
next
  case (Suc n)
  then obtain s1 where s1: "(Parallel run ^^ n) (parallel_start nJobs nWorkers) s1" "Parallel run s1 s" by auto
  show ?case using Suc.IH[OF s1(1)] Parallel_inv[OF s1(2)] Parallel_work[OF s1(2)] Parallel_frame[OF s1(2)] by simp
qed

lemma parallel_result_cases:
  "(parallel_result s = None \<longleftrightarrow> (\<forall>e\<in>set (errs s). e = None) \<and> \<not> ctx_done s) \<and>
   (parallel_result s = Some e \<longrightarrow> (\<exists>j < length (errs s). errs s ! j = Some e) \<or> ctx_done s \<and> e = ctx_err)"
proof (cases "filter (\<lambda>e. e \<noteq> None) (errs s)")
  case Nil
  then show ?thesis by (auto simp: parallel_result_def filter_empty_conv)
next
  case (Cons x xs)
  then have "x \<in> set (errs s)" "x \<noteq> None" by (auto dest: filter_eq_ConsD)
  then show ?thesis using Cons by (auto simp: parallel_result_def in_set_conv_nth)
qed

lemma For_result_eq:
  assumes "(For ^^ n) (parallel_start nJobs nWorkers) s"
  shows "For_result s = parallel_result s"
proof -
  have inv: "pool_inv (\<lambda>_. JOk) s" using Parallel_run assms unfolding For_def by blast
  show ?thesis
  proof (cases "parallel_result s")
    case None
    then show ?thesis using parallel_result_cases[of s] by (simp add: For_result_def)
  next
    case (Some e)
    then show ?thesis using parallel_result_cases[of s e] inv by (auto simp: For_result_def pool_inv_def)
  qed
qed

text \<open>What is left undone: when the run ends without an error and the context is alive, either the channel was drained or every worker was ended by a panic.\<close>

lemma all_run_or_panicked:
  assumes inv: "pool_inv run s" and ret: "parallel_returned s" and ok: "\<forall>e\<in>set (errs s). e = None" "\<not> ctx_done s"
    and below: "set (executed s) \<subseteq> {0..<length (errs s)}"
  shows "mset (executed s) = mset [0..<length (errs s)] \<or> length (workers s) \<le> length (filter (\<lambda>j. run j = JPanic) (executed s))"
proof -
  have "\<forall>w\<in>set (workers s). w = Gone" using ret by (simp add: parallel_returned_def)
  then have "ended (workers s) = length (workers s)" and b: "concat (map (\<lambda>w. case w of Busy j \<Rightarrow> [j] | _ \<Rightarrow> []) (workers s)) = []"
    using ended_all by (auto split: wstate.splits)
  moreover have "errs s ! j = None" if "j \<in> set (executed s)" for j using that below ok(1) by auto
  ultimately consider "closed s" "chan s = []" | "length (workers s) \<le> length (filter (\<lambda>j. run j = JPanic) (executed s))"
    using inv ok(2) by (auto simp: pool_inv_def)
  then show ?thesis
  proof cases
    case 1
    have "busy (workers s) = {#}" using b by (simp add: busy_def)
    then show ?thesis using inv ok(2) 1 by (simp add: pool_inv_def placed_def)
  qed simp
qed



text \<open>Two workers and three jobs that panic: the third job is never run and \<^verbatim>\<open>Parallel\<close> reports success.\<close>

lemma panics_hide_jobs:
  "\<exists>s. (Parallel (\<lambda>_. JPanic))\<^sup>*\<^sup>* (parallel_start 3 2) s \<and> parallel_returned s \<and> parallel_result s = None \<and> executed s = [0, 1]"
proof -
  let ?P = "Parallel (\<lambda>_. JPanic)"
  let ?s = "\<lambda>f c ws ex. \<lparr>fed = f, chan = c, closed = False, workers = ws, errs = [None, None, None], executed = ex, ctx_done = False\<rparr>"
  have start: "parallel_start 3 2 = ?s 0 [] [Ready, Ready] []" by (simp add: parallel_start_def numeral_eq_Suc)
  have 1: "?P (?s 0 [] [Ready, Ready] []) (?s 1 [0] [Ready, Ready] [])" using Parallel.produce[of "?s 0 [] [Ready, Ready] []"] by simp
  have 2: "?P (?s 1 [0] [Ready, Ready] []) (?s 2 [0, 1] [Ready, Ready] [])" using Parallel.produce[of "?s 1 [0] [Ready, Ready] []"] by (simp add: numeral_2_eq_2)
  have 3: "?P (?s 2 [0, 1] [Ready, Ready] []) (?s 2 [1] [Busy 0, Ready] [])" using Parallel.take_job[of 0 "?s 2 [0, 1] [Ready, Ready] []" 0 "[1]"] by simp
  have 4: "?P (?s 2 [1] [Busy 0, Ready] []) (?s 2 [] [Busy 0, Busy 1] [])" using Parallel.take_job[of 1 "?s 2 [1] [Busy 0, Ready] []" 1 "[]"] by simp
  have 5: "?P (?s 2 [] [Busy 0, Busy 1] []) (?s 2 [] [Gone, Busy 1] [0])" using Parallel.job_panic[of 0 "?s 2 [] [Busy 0, Busy 1] []" 0] by simp
  have 6: "?P (?s 2 [] [Gone, Busy 1] [0]) (?s 2 [] [Gone, Gone] [0, 1])" using Parallel.job_panic[of 1 "?s 2 [] [Gone, Busy 1] [0]" 1] by simp
  have "?P\<^sup>*\<^sup>* (?s 0 [] [Ready, Ready] []) (?s 2 [] [Gone, Gone] [0, 1])"
    using 1 2 3 4 5 6 by (meson converse_rtranclp_into_rtranclp rtranclp.rtrancl_refl)
  then show ?thesis using start by (intro exI[of _ "?s 2 [] [Gone, Gone] [0, 1]"]) (simp add: parallel_returned_def parallel_result_def)
qed

end
