(* ===== verification/Rest_Server.thy ===== *)
theory Rest_Server
  imports Shop_Stores
begin

text \<open>
  The REST server of the recommender (\<^verbatim>\<open>server/rest.go\<close>): the handlers over the data store, the cache and the
  recommender, in one world (\<open>shop_world\<close>).

  A handler is a function from the request and the world to an answer and the next world. \<open>ROk\<close> and \<open>RText\<close> are
  answers with status 200, \<open>RError\<close> carries a status and an error, \<open>RSilent\<close> is a handler that returns without
  writing anything, and \<open>RPanic\<close> one that panics (the web framework recovers). The decoded body of a request,
  which the framework reads, is an argument of the handler. The date parser, the duration parser, the text of an
  instant, the JSON text of a cursor and the pings of the stores are fields of \<open>RestServer\<close>; the order in which Go hands out
  sets and maps is that of the recommender's environment. A header \<^verbatim>\<open>Last-Modified\<close> is the instant it formats.
\<close>

section \<open>Requests and answers\<close>

record rest_request =
  rq_path :: "string \<Rightarrow> string"
  rq_query :: "string \<Rightarrow> string list"
  rq_header :: "string \<Rightarrow> string"

definition QueryParameter :: "rest_request \<Rightarrow> string \<Rightarrow> string" where
  "QueryParameter rq name = (case rq_query rq name of [] \<Rightarrow> [] | v # _ \<Rightarrow> v)"

record HealthStatus =
  Ready :: bool
  DataStoreError :: "go_fail option"
  CacheStoreError :: "go_fail option"
  DataStoreConnected :: bool
  CacheStoreConnected :: bool

datatype rest_body =
  BScores "Score list" | BIds "string list" | BFeedback "Feedback list" | BOneFeedback Feedback
  | BUser User | BItem Item | BUserIterator string "User list" | BItemIterator string "Item list"
  | BFeedbackIterator string "Feedback list" | BSuccess int | BHealth HealthStatus | BMany "rest_body list"

datatype rest_answer =
  ROk rest_body | RText string | RError int go_fail | RSilent | RPanic string | RLastModified int rest_answer

definition BadRequest :: "go_fail \<Rightarrow> rest_answer" where
  "BadRequest err = RError 400 err"

definition InternalServerError :: "go_fail \<Rightarrow> rest_answer" where
  "InternalServerError err = RError 500 err"

definition PageNotFound :: "go_fail \<Rightarrow> rest_answer" where
  "PageNotFound err = RError 404 err"

definition rest_Ok :: "rest_body \<Rightarrow> rest_answer" where
  "rest_Ok content = ROk content"

definition rest_Error :: "int \<Rightarrow> go_fail \<Rightarrow> rest_answer" where
  "rest_Error httpStatus responseError = RError httpStatus responseError"

definition rest_Text :: "string \<Rightarrow> rest_answer" where
  "rest_Text content = RText content"

record RestServer =
  s_env :: "shop_world Env"
  s_Recommend :: RecommendConfig
  APIKey :: string
  DefaultN :: int
  ClockError :: int
  AutoInsertUser :: bool
  AutoInsertItem :: bool
  ParseAny :: "string \<Rightarrow> go_fail + int"
  time_ParseDuration :: "string \<Rightarrow> go_fail + int"
  s_time_string :: "int \<Rightarrow> string"
  s_parse_time :: "string \<Rightarrow> go_fail + int"
  s_marshal_key :: "FeedbackKey \<Rightarrow> string"
  s_unmarshal_key :: "string \<Rightarrow> go_fail + FeedbackKey"
  data_Ping :: "shop_world \<Rightarrow> go_fail option"
  cache_Ping :: "shop_world \<Rightarrow> go_fail option"
  health_Marshal :: "HealthStatus \<Rightarrow> go_fail + string"

section \<open>Handlers as computations\<close>

type_synonym 'a rest = "shop_world \<Rightarrow> (rest_answer + 'a) \<times> shop_world"

definition rest_return :: "'a \<Rightarrow> 'a rest" where
  "rest_return x w = (Inr x, w)"

definition rest_reply :: "rest_answer \<Rightarrow> 'a rest" where
  "rest_reply a w = (Inl a, w)"

definition rest_bind :: "'a rest \<Rightarrow> ('a \<Rightarrow> 'b rest) \<Rightarrow> 'b rest" where
  "rest_bind m f w = (case m w of (Inl a, w') \<Rightarrow> (Inl a, w') | (Inr x, w') \<Rightarrow> f x w')"

text \<open>A call whose error is answered by \<open>on_err\<close> and ends the handler.\<close>

definition attempt :: "(go_fail \<Rightarrow> rest_answer) \<Rightarrow> (shop_world, 'a) io \<Rightarrow> 'a rest" where
  "attempt on_err m w =
     (case m w of
        (Inr x, w') \<Rightarrow> (Inr x, w')
      | (Inl (Panic p), w') \<Rightarrow> (Inl (RPanic p), w')
      | (Inl (Error e), w') \<Rightarrow> (Inl (on_err (Error e)), w'))"

definition serve :: "unit rest \<Rightarrow> shop_world \<Rightarrow> rest_answer \<times> shop_world" where
  "serve h w = (case h w of (Inl a, w') \<Rightarrow> (a, w') | (Inr _, w') \<Rightarrow> (RSilent, w'))"

fun rest_fold :: "('a \<Rightarrow> 'b \<Rightarrow> 'b rest) \<Rightarrow> 'a list \<Rightarrow> 'b \<Rightarrow> 'b rest" where
  "rest_fold f [] acc = rest_return acc"
| "rest_fold f (x # xs) acc = rest_bind (f x acc) (rest_fold f xs)"

definition ReadEntity :: "go_fail + 'a \<Rightarrow> 'a rest" where
  "ReadEntity entity = attempt BadRequest (io_lift entity)"

section \<open>Parameters of a request\<close>

definition ParseInt :: "rest_request \<Rightarrow> string \<Rightarrow> int \<Rightarrow> go_fail + int" where
  "ParseInt rq name fallback =
     (let valueString = QueryParameter rq name
      in case atoi valueString of
           Some v \<Rightarrow> Inr v
         | None \<Rightarrow> if valueString = [] then Inr fallback else Inl (Error ''strconv.Atoi''))"

definition ParseDuration :: "RestServer \<Rightarrow> rest_request \<Rightarrow> string \<Rightarrow> go_fail + int" where
  "ParseDuration s rq name =
     (let valueString = QueryParameter rq name in if valueString = [] then Inr 0 else time_ParseDuration s valueString)"

definition query_int :: "rest_request \<Rightarrow> string \<Rightarrow> int \<Rightarrow> int rest" where
  "query_int rq name fallback = attempt BadRequest (io_lift (ParseInt rq name fallback))"

definition withWildCard :: "string list \<Rightarrow> string list" where
  "withWildCard cats = cats @ ['''']"

definition ReadCategories :: "rest_request \<Rightarrow> string list \<Rightarrow> string list" where
  "ReadCategories rq defaultCategories =
     (if rq_path rq ''category'' \<noteq> [] then [rq_path rq ''category'']
      else if rq_query rq ''category'' \<noteq> [] then filter (\<lambda>cat. cat \<noteq> []) (rq_query rq ''category'')
      else defaultCategories)"

definition config_Now :: "RestServer \<Rightarrow> shop_world \<Rightarrow> int" where
  "config_Now s w = time_of w + ClockError s"

text \<open>\<^verbatim>\<open>cache.ItemCache\<close> and the keys of \<^verbatim>\<open>storage/cache/database.go\<close> the server uses.\<close>

definition ItemCache :: "string list" where
  "ItemCache = [NonPersonalized, ItemToItem, RecommendCache]"

abbreviation NonPersonalizedUpdateTime :: string where "NonPersonalizedUpdateTime \<equiv> ''non-personalized_update_time''"
abbreviation ItemToItemUpdateTime :: string where "ItemToItemUpdateTime \<equiv> ''item-to-item_update_time''"
abbreviation UserToUserUpdateTime :: string where "UserToUserUpdateTime \<equiv> ''user-to-user_update_time''"
abbreviation LastModifyItemTime :: string where "LastModifyItemTime \<equiv> ''last_modify_item_time''"

definition modify_time :: "RestServer \<Rightarrow> string \<Rightarrow> string \<Rightarrow> shop_world \<Rightarrow> cache_Value" where
  "modify_time s kind i w = cache_Time (s_time_string s) (Key [kind, i]) (time_of w)"

section \<open>Rankings\<close>

text \<open>The items the user has feedback on, when the request names one.\<close>

definition read_items :: "RestServer \<Rightarrow> string \<Rightarrow> string set rest" where
  "read_items s user w =
     (if user = [] then rest_return {} w
      else rest_bind (attempt InternalServerError (on_data (GetUserFeedback user (Some (config_Now s w)) []))) (\<lambda>feedback.
           rest_return (set (map key_ItemId feedback))) w)"

definition SearchDocuments ::
  "RestServer \<Rightarrow> string \<Rightarrow> string \<Rightarrow> string list \<Rightarrow> (Score \<Rightarrow> (shop_world, rest_body) io) option \<Rightarrow> rest_request \<Rightarrow> unit rest" where
  "SearchDocuments s collection sset cats iteratee rq =
     rest_bind (query_int rq ''offset'' 0) (\<lambda>offset.
     rest_bind (query_int rq ''n'' (DefaultN s)) (\<lambda>n.
     let user = QueryParameter rq ''user-id''
     in rest_bind (read_items s user) (\<lambda>readItems.
        let fin = int64 (offset + n);
            fin' = (if 0 < fin \<and> readItems \<noteq> {} then int64 (fin + int (card readItems)) else fin)
        in rest_bind (attempt InternalServerError (on_cache (SearchScores collection sset cats offset fin'))) (\<lambda>items.
           let items' = (if user \<noteq> [] then filter (\<lambda>d. sc_Id d \<notin> readItems) items else items);
               page = (if 0 < n \<and> n < int (length items') then take (nat n) items' else items')
           in case iteratee of
                None \<Rightarrow> rest_reply (rest_Ok (BScores page))
              | Some f \<Rightarrow> rest_bind (rest_fold (\<lambda>item results. rest_bind (attempt InternalServerError (f item))
                     (\<lambda>result. rest_return (results @ [result]))) page []) (\<lambda>results. rest_reply (rest_Ok (BMany results)))))))"

definition latest_score :: "Item \<Rightarrow> Score" where
  "latest_score item = zero_Score\<lparr>sc_Id := ItemId item, sc_Score := of_int64 (item_Timestamp item div 10 ^ 9)\<rparr>"

text \<open>\<open>xs[i:]\<close>, which panics outside of the slice.\<close>

definition slice_from :: "int \<Rightarrow> 'a list \<Rightarrow> 'a list rest" where
  "slice_from i xs = (if i < 0 \<or> int (length xs) < i then rest_reply (RPanic ''slice bounds out of range'') else rest_return (drop (nat i) xs))"

definition getLatest :: "RestServer \<Rightarrow> rest_request \<Rightarrow> unit rest" where
  "getLatest s rq =
     rest_bind (query_int rq ''offset'' 0) (\<lambda>offset.
     rest_bind (query_int rq ''n'' (DefaultN s)) (\<lambda>n.
     rest_bind (read_items s (QueryParameter rq ''user-id'')) (\<lambda>readItems.
     let limit = int64 (offset + n);
         limit' = (if readItems \<noteq> {} then int64 (limit + int (card readItems)) else limit)
     in rest_bind (attempt InternalServerError (on_data (GetLatestItems limit' (ReadCategories rq [])))) (\<lambda>items.
        let unread = (if readItems \<noteq> {} then filter (\<lambda>i. ItemId i \<notin> readItems) items else items)
        in rest_bind (slice_from (min offset (int (length unread))) unread) (\<lambda>rest.
           let page = (if 0 < n \<and> n < int (length rest) then take (nat n) rest else rest)
           in rest_reply (rest_Ok (BScores (map latest_score page))))))))"

text \<open>The header is added to whatever the handler answers; without the time there is none.\<close>

definition SetLastModified :: "RestServer \<Rightarrow> string \<Rightarrow> unit rest \<Rightarrow> unit rest" where
  "SetLastModified s key h w =
     (case cc_Get store_cache_client key w of (v, w') \<Rightarrow>
        (case rv_Time (s_parse_time s) v of
           Inl _ \<Rightarrow> h w'
         | Inr t \<Rightarrow> (case h w' of (Inl a, w'') \<Rightarrow> (Inl (RLastModified t a), w'') | (Inr u, w'') \<Rightarrow> (Inr u, w''))))"

definition getNonPersonalized :: "RestServer \<Rightarrow> rest_request \<Rightarrow> unit rest" where
  "getNonPersonalized s rq =
     SetLastModified s (Key [NonPersonalizedUpdateTime, rq_path rq ''name''])
       (SearchDocuments s NonPersonalized (rq_path rq ''name'') (ReadCategories rq ['''']) None rq)"

definition getItemToItem :: "RestServer \<Rightarrow> rest_request \<Rightarrow> unit rest" where
  "getItemToItem s rq =
     (let name = rq_path rq ''name''; itemId = rq_path rq ''item-id''
      in SetLastModified s (Key [ItemToItemUpdateTime, name, itemId])
           (SearchDocuments s ItemToItem (Key [name, itemId]) (rq_query rq ''category'') None rq))"

definition getUserToUser :: "RestServer \<Rightarrow> rest_request \<Rightarrow> unit rest" where
  "getUserToUser s rq =
     (let name = rq_path rq ''name''; user = rq_path rq ''user-id''
      in SetLastModified s (Key [UserToUserUpdateTime, name, user])
           (SearchDocuments s UserToUser (Key [name, user]) [] None rq))"

definition getItemNeighbors :: "RestServer \<Rightarrow> rest_request \<Rightarrow> unit rest" where
  "getItemNeighbors s rq =
     (case cfg_ItemToItem (s_Recommend s) of
        [] \<Rightarrow> rest_reply (PageNotFound (Error ''item-to-item recommendation is not enabled''))
      | c # _ \<Rightarrow> SetLastModified s (Key [ItemToItemUpdateTime, i2i_Name c, rq_path rq ''item-id''])
          (SearchDocuments s ItemToItem (Key [i2i_Name c, rq_path rq ''item-id'']) (ReadCategories rq []) None rq))"

definition getUserNeighbors :: "RestServer \<Rightarrow> rest_request \<Rightarrow> unit rest" where
  "getUserNeighbors s rq =
     (case cfg_UserToUser (s_Recommend s) of
        [] \<Rightarrow> rest_reply (PageNotFound (Error ''user-to-user recommendation is not enabled''))
      | c # _ \<Rightarrow> SetLastModified s (Key [UserToUserUpdateTime, u2u_Name c, rq_path rq ''user-id''])
          (SearchDocuments s UserToUser (Key [u2u_Name c, rq_path rq ''user-id'']) [] None rq))"

definition getCollaborativeFiltering :: "RestServer \<Rightarrow> rest_request \<Rightarrow> unit rest" where
  "getCollaborativeFiltering s rq =
     (if is_none (cf_Type (Collaborative (s_Recommend s)))
      then rest_reply (PageNotFound (Error ''collaborative filtering recommendation is disabled''))
      else SetLastModified s (Key [RecommendUpdateTime, rq_path rq ''user-id''])
             (SearchDocuments s RecommendCache (rq_path rq ''user-id'') (ReadCategories rq []) None rq))"

section \<open>Recommendations\<close>

definition write_back :: "RestServer \<Rightarrow> string \<Rightarrow> string \<Rightarrow> int \<Rightarrow> string \<Rightarrow> unit \<Rightarrow> unit rest" where
  "write_back s user kind t itemId u =
     attempt InternalServerError (on_data (BatchInsertFeedback (env_slice (s_env s))
       [\<lparr>key_FeedbackType = kind, key_UserId = user, key_ItemId = itemId, fb_Value = Fin 0, fb_Timestamp = t,
         fb_Updated = zero_time, fb_Comment = []\<rparr>] False False False))"

definition recommend_for :: "RestServer \<Rightarrow> string \<Rightarrow> string list \<Rightarrow> int \<Rightarrow> (shop_world, Score list) io" where
  "recommend_for s user cats limit =
     io_bind (NewRecommender (s_env s) (s_Recommend s) True user cats) (\<lambda>recommender w.
       case Recommend (s_env s) limit (recommender, w) of (x, _, w') \<Rightarrow> (x, w'))"

text \<open>\<^verbatim>\<open>strings.TrimSpace\<close> of a header, whose value is ASCII.\<close>

definition TrimSpace :: "string \<Rightarrow> string" where
  "TrimSpace t = (let blank = (\<lambda>c. c \<in> {CHR '' '', CHR 0x09, CHR 0x0A, CHR 0x0B, CHR 0x0C, CHR 0x0D})
     in rev (dropWhile blank (rev (dropWhile blank t))))"

definition rest_getRecommend :: "RestServer \<Rightarrow> rest_request \<Rightarrow> unit rest" where
  "rest_getRecommend s rq =
     (let user = rq_path rq ''user-id''; kind = QueryParameter rq ''write-back-type''
      in rest_bind (query_int rq ''n'' (DefaultN s)) (\<lambda>n.
         rest_bind (query_int rq ''offset'' 0) (\<lambda>offset.
         rest_bind (attempt BadRequest (io_lift (ParseDuration s rq ''write-back-delay''))) (\<lambda>delay.
         rest_bind (attempt InternalServerError (recommend_for s user (ReadCategories rq []) (int64 (n + offset)))) (\<lambda>scores.
         rest_bind (if offset < int (length scores) then slice_from offset scores else rest_return []) (\<lambda>page.
         rest_bind (\<lambda>w. if kind \<noteq> [] then rest_fold (write_back s user kind (time_of w + delay)) (map sc_Id page) () w
                        else rest_return () w) (\<lambda>_.
         rest_reply (rest_Ok (if TrimSpace (rq_header rq ''X-API-Version'') = ''2'' then BScores page else BIds (map sc_Id page))))))))))"

record rest_Feedback = FeedbackKey +
  rf_Value :: fl
  rf_Timestamp :: string
  rf_Comment :: string

definition ToDataFeedback :: "RestServer \<Rightarrow> rest_Feedback \<Rightarrow> go_fail + Feedback" where
  "ToDataFeedback s f =
     rbind (if rf_Timestamp f \<noteq> [] then ParseAny s (rf_Timestamp f) else Inr zero_time) (\<lambda>t.
     Inr \<lparr>key_FeedbackType = key_FeedbackType f, key_UserId = key_UserId f, key_ItemId = key_ItemId f, fb_Value = rf_Value f,
          fb_Timestamp = t, fb_Updated = zero_time, fb_Comment = rf_Comment f\<rparr>)"

definition to_data_feedbacks :: "RestServer \<Rightarrow> rest_Feedback list \<Rightarrow> Feedback list rest" where
  "to_data_feedbacks s fs = rest_fold (\<lambda>f acc. rest_bind (attempt BadRequest (io_lift (ToDataFeedback s f))) (\<lambda>d. rest_return (acc @ [d]))) fs []"

text \<open>The neighbours of the items of the session, until enough items had neighbours.\<close>

fun session_candidates ::
  "RestServer \<Rightarrow> string \<Rightarrow> string \<Rightarrow> string set \<Rightarrow> Feedback list \<Rightarrow> fl go_map \<Rightarrow> int \<Rightarrow> fl go_map rest" where
  "session_candidates s name category excl [] candidates used = rest_return candidates"
| "session_candidates s name category excl (f # fs) candidates used =
     rest_bind (attempt BadRequest (on_cache (SearchScores ItemToItem (Key [name, key_ItemId f]) [category] 0 (CacheSize (s_Recommend s)))))
       (\<lambda>similarItems.
        let candidates' = fold (\<lambda>item m. if sc_Id item \<notin> excl then add_score (sc_Id item) (sc_Score item) m else m) similarItems candidates
        in if similarItems \<noteq> []
           then if ContextSize (s_Recommend s) \<le> used + 1 then rest_return candidates'
                else session_candidates s name category excl fs candidates' (used + 1)
           else session_candidates s name category excl fs candidates' used)"

definition session_page :: "int \<Rightarrow> int \<Rightarrow> Score list \<Rightarrow> unit rest" where
  "session_page offset n result =
     rest_bind (if offset < int (length result) then slice_from offset result else rest_return []) (\<lambda>rest.
       let k = min (int (length rest)) n
       in if k < 0 then rest_reply (RPanic ''slice bounds out of range'') else rest_reply (rest_Ok (BScores (take (nat k) rest))))"

definition sessionRecommend :: "RestServer \<Rightarrow> rest_request \<Rightarrow> go_fail + rest_Feedback list \<Rightarrow> unit rest" where
  "sessionRecommend s rq entity =
     (case cfg_ItemToItem (s_Recommend s) of
        [] \<Rightarrow> rest_reply (PageNotFound (Error ''item-to-item recommendation is not enabled''))
      | c # _ \<Rightarrow>
          rest_bind (ReadEntity entity) (\<lambda>feedbacks.
          rest_bind (query_int rq ''n'' (DefaultN s)) (\<lambda>n.
          rest_bind (query_int rq ''offset'' 0) (\<lambda>offset.
          rest_bind (to_data_feedbacks s feedbacks) (\<lambda>dataFeedback.
          let sorted = SortFeedbacks dataFeedback; excl = set (map key_ItemId sorted);
              positive = filter (\<lambda>f. MatchFeedbackTypeExpressions (PositiveFeedbackTypes (DataSource (s_Recommend s))) (key_FeedbackType f) (fb_Value f)) sorted
          in rest_bind (session_candidates s (i2i_Name c) (rq_path rq ''category'') excl positive [] 0) (\<lambda>candidates.
             rest_bind (attempt InternalServerError (io_lift (topk_run (int64 (n + offset))
                 (map (\<lambda>(i, v). \<lparr>Value = i, Weight = v\<rparr>) (env_range (s_env s) candidates))))) (\<lambda>scores.
             session_page offset n (map (\<lambda>e. zero_Score\<lparr>sc_Id := Value e, sc_Score := Weight e\<rparr>) scores))))))))"

section \<open>Users\<close>

definition insertUser :: "RestServer \<Rightarrow> go_fail + User \<Rightarrow> unit rest" where
  "insertUser s entity =
     rest_bind (ReadEntity entity) (\<lambda>temp.
     rest_bind (attempt BadRequest (io_lift (ValidateLabels (user_Labels temp)))) (\<lambda>_.
     rest_bind (attempt InternalServerError (on_data (BatchInsertUsers [temp]))) (\<lambda>_.
     rest_bind (\<lambda>w. attempt InternalServerError (on_cache (Set [modify_time s LastModifyUserTime (UserId temp) w])) w) (\<lambda>_.
     rest_reply (rest_Ok (BSuccess 1))))))"

text \<open>When the cache fails here the handler returns without an answer.\<close>

definition set_or_silent :: "cache_Value \<Rightarrow> unit rest" where
  "set_or_silent v = attempt (\<lambda>_. RSilent) (on_cache (Set [v]))"

definition modifyUser :: "RestServer \<Rightarrow> rest_request \<Rightarrow> go_fail + UserPatch \<Rightarrow> unit rest" where
  "modifyUser s rq entity =
     (let user = rq_path rq ''user-id''
      in rest_bind (ReadEntity entity) (\<lambda>patch.
         rest_bind (attempt BadRequest (io_lift (ValidateLabels (up_Labels patch)))) (\<lambda>_.
         rest_bind (attempt InternalServerError (on_data (ModifyUser user patch))) (\<lambda>_.
         rest_bind (\<lambda>w. set_or_silent (modify_time s LastModifyUserTime user w) w) (\<lambda>_.
         rest_reply (rest_Ok (BSuccess 1)))))))"

text \<open>\<^verbatim>\<open>errors.Is(err, errors.NotFound)\<close>: the store's own error for a missing row.\<close>

definition not_found_or_500 :: "go_fail \<Rightarrow> go_fail \<Rightarrow> rest_answer" where
  "not_found_or_500 missing err = (if err = missing then PageNotFound err else InternalServerError err)"

definition rest_getUser :: "RestServer \<Rightarrow> rest_request \<Rightarrow> unit rest" where
  "rest_getUser s rq =
     (let user = rq_path rq ''user-id''
      in rest_bind (attempt (not_found_or_500 (not_found ''user'' user)) (on_data (data_GetUser user))) (\<lambda>u. rest_reply (rest_Ok (BUser u))))"

definition insertUsers :: "RestServer \<Rightarrow> go_fail + User list \<Rightarrow> unit rest" where
  "insertUsers s entity =
     rest_bind (ReadEntity entity) (\<lambda>temp.
     rest_bind (rest_fold (\<lambda>user _. attempt BadRequest (io_lift (ValidateLabels (user_Labels user)))) temp ()) (\<lambda>_.
     rest_bind (attempt InternalServerError (on_data (BatchInsertUsers temp))) (\<lambda>_.
     rest_bind (\<lambda>w. attempt InternalServerError (on_cache (Set (map (\<lambda>u. modify_time s LastModifyUserTime (UserId u) w) temp))) w) (\<lambda>_.
     rest_reply (rest_Ok (BSuccess (int (length temp))))))))"

definition rest_getUsers :: "RestServer \<Rightarrow> rest_request \<Rightarrow> unit rest" where
  "rest_getUsers s rq =
     rest_bind (query_int rq ''n'' (DefaultN s)) (\<lambda>n.
     rest_bind (attempt InternalServerError (on_data (GetUsers (QueryParameter rq ''cursor'') n))) (\<lambda>(cursor, users).
     rest_reply (rest_Ok (BUserIterator cursor users))))"

definition rest_deleteUser :: "RestServer \<Rightarrow> rest_request \<Rightarrow> unit rest" where
  "rest_deleteUser s rq =
     rest_bind (attempt InternalServerError (on_data (DeleteUser (rq_path rq ''user-id'')))) (\<lambda>_. rest_reply (rest_Ok (BSuccess 1)))"

section \<open>Items\<close>

record rest_Item =
  ri_ItemId :: string
  ri_IsHidden :: bool
  ri_Categories :: "string list"
  ri_Timestamp :: string
  ri_Labels :: json
  ri_Comment :: string

text \<open>One item of a batch: its time is parsed and its copies in the rankings are updated.\<close>

definition batch_item :: "RestServer \<Rightarrow> rest_Item \<Rightarrow> Item list \<Rightarrow> Item list rest" where
  "batch_item s item items =
     rest_bind (attempt BadRequest (io_lift (if ri_Timestamp item \<noteq> [] then ParseAny s (ri_Timestamp item) else Inr zero_time))) (\<lambda>t.
     rest_bind (attempt InternalServerError (on_cache (UpdateScores ItemCache None (ri_ItemId item)
        \<lparr>sp_IsHidden = Some (ri_IsHidden item), sp_Categories = Some (withWildCard (ri_Categories item)), sp_Score = None\<rparr>))) (\<lambda>_.
     rest_return (items @ [\<lparr>ItemId = ri_ItemId item, item_IsHidden = ri_IsHidden item, item_Categories = ri_Categories item,
        item_Timestamp = t, item_Labels = ri_Labels item, item_Comment = ri_Comment item\<rparr>])))"

definition batchInsertItems :: "RestServer \<Rightarrow> rest_Item list \<Rightarrow> unit rest" where
  "batchInsertItems s temp =
     rest_bind (attempt InternalServerError (on_data (BatchGetItems (map ri_ItemId temp)))) (\<lambda>_.
     rest_bind (rest_fold (batch_item s) temp []) (\<lambda>items.
     rest_bind (attempt InternalServerError (on_data (BatchInsertItems items))) (\<lambda>_.
     rest_bind (\<lambda>w. attempt InternalServerError (on_cache (Set (map (\<lambda>i. modify_time s LastModifyItemTime (ItemId i) w) items))) w) (\<lambda>_.
     rest_reply (rest_Ok (BSuccess (int (length temp))))))))"

definition insertItems :: "RestServer \<Rightarrow> go_fail + rest_Item list \<Rightarrow> unit rest" where
  "insertItems s entity =
     rest_bind (ReadEntity entity) (\<lambda>items.
     rest_bind (rest_fold (\<lambda>item _. attempt BadRequest (io_lift (ValidateLabels (ri_Labels item)))) items ()) (\<lambda>_.
     batchInsertItems s items))"

definition insertItem :: "RestServer \<Rightarrow> go_fail + rest_Item \<Rightarrow> unit rest" where
  "insertItem s entity =
     rest_bind (ReadEntity entity) (\<lambda>item.
     rest_bind (attempt BadRequest (io_lift (ValidateLabels (ri_Labels item)))) (\<lambda>_.
     batchInsertItems s [item]))"

definition modifyItem :: "RestServer \<Rightarrow> rest_request \<Rightarrow> go_fail + ItemPatch \<Rightarrow> unit rest" where
  "modifyItem s rq entity =
     (let itemId = rq_path rq ''item-id''
      in rest_bind (ReadEntity entity) (\<lambda>patch.
         rest_bind (attempt BadRequest (io_lift (ValidateLabels (ip_Labels patch)))) (\<lambda>_.
         rest_bind (case ip_IsHidden patch of None \<Rightarrow> rest_return ()
                    | Some b \<Rightarrow> attempt InternalServerError (on_cache (UpdateScores ItemCache None itemId
                        \<lparr>sp_IsHidden = Some b, sp_Categories = None, sp_Score = None\<rparr>))) (\<lambda>_.
         rest_bind (case ip_Categories patch of None \<Rightarrow> rest_return ()
                    | Some cs \<Rightarrow> attempt InternalServerError (on_cache (UpdateScores ItemCache None itemId
                        \<lparr>sp_IsHidden = None, sp_Categories = Some (withWildCard cs), sp_Score = None\<rparr>))) (\<lambda>_.
         rest_bind (attempt InternalServerError (on_data (ModifyItem itemId patch))) (\<lambda>_.
         rest_bind (\<lambda>w. set_or_silent (modify_time s LastModifyItemTime itemId w) w) (\<lambda>_.
         rest_reply (rest_Ok (BSuccess 1)))))))))"

definition rest_getItems :: "RestServer \<Rightarrow> rest_request \<Rightarrow> unit rest" where
  "rest_getItems s rq =
     rest_bind (query_int rq ''n'' (DefaultN s)) (\<lambda>n.
     rest_bind (attempt InternalServerError (on_data (GetItems (QueryParameter rq ''cursor'') n None))) (\<lambda>(cursor, items).
     rest_reply (rest_Ok (BItemIterator cursor items))))"

definition rest_getItem :: "RestServer \<Rightarrow> rest_request \<Rightarrow> unit rest" where
  "rest_getItem s rq =
     (let itemId = rq_path rq ''item-id''
      in rest_bind (attempt (not_found_or_500 (not_found ''item'' itemId)) (on_data (data_GetItem itemId))) (\<lambda>i. rest_reply (rest_Ok (BItem i))))"

definition rest_deleteItem :: "RestServer \<Rightarrow> rest_request \<Rightarrow> unit rest" where
  "rest_deleteItem s rq =
     (let itemId = rq_path rq ''item-id''
      in rest_bind (attempt InternalServerError (on_data (DeleteItem itemId))) (\<lambda>_.
         rest_bind (attempt InternalServerError (on_cache (DeleteScores ItemCache \<lparr>cond_Subset = None, cond_Id = Some itemId, cond_Before = None\<rparr>))) (\<lambda>_.
         rest_reply (rest_Ok (BSuccess 1)))))"

definition insertItemCategory :: "RestServer \<Rightarrow> rest_request \<Rightarrow> unit rest" where
  "insertItemCategory s rq =
     (let itemId = rq_path rq ''item-id''; category = rq_path rq ''category''
      in rest_bind (attempt InternalServerError (on_data (data_GetItem itemId))) (\<lambda>item.
         let cats = (if category \<in> set (item_Categories item) then item_Categories item else item_Categories item @ [category])
         in rest_bind (attempt InternalServerError (on_data (BatchInsertItems [item\<lparr>item_Categories := cats\<rparr>]))) (\<lambda>_.
            rest_bind (attempt InternalServerError (on_cache (UpdateScores ItemCache None itemId
               \<lparr>sp_IsHidden = None, sp_Categories = Some (withWildCard cats), sp_Score = None\<rparr>))) (\<lambda>_.
            rest_reply (rest_Ok (BSuccess 1))))))"

definition deleteItemCategory :: "RestServer \<Rightarrow> rest_request \<Rightarrow> unit rest" where
  "deleteItemCategory s rq =
     (let itemId = rq_path rq ''item-id''; category = rq_path rq ''category''
      in rest_bind (attempt InternalServerError (on_data (data_GetItem itemId))) (\<lambda>item.
         let cats = filter (\<lambda>c. c \<noteq> category) (item_Categories item)
         in rest_bind (attempt InternalServerError (on_cache (UpdateScores ItemCache None itemId
               \<lparr>sp_IsHidden = None, sp_Categories = Some (withWildCard cats), sp_Score = None\<rparr>))) (\<lambda>_.
            rest_bind (attempt InternalServerError (on_data (BatchInsertItems [item\<lparr>item_Categories := cats\<rparr>]))) (\<lambda>_.
            rest_reply (rest_Ok (BSuccess 1))))))"

section \<open>Feedback\<close>

definition insertFeedback :: "RestServer \<Rightarrow> bool \<Rightarrow> go_fail + rest_Feedback list \<Rightarrow> unit rest" where
  "insertFeedback s overwrite entity =
     rest_bind (ReadEntity entity) (\<lambda>feedbackLiterTime.
     let slice = env_slice (s_env s);
         users = remdups (map key_UserId feedbackLiterTime); items = remdups (map key_ItemId feedbackLiterTime)
     in rest_bind (to_data_feedbacks s feedbackLiterTime) (\<lambda>feedback.
        rest_bind (attempt InternalServerError (on_data (BatchInsertFeedback slice feedback (AutoInsertUser s) (AutoInsertItem s) overwrite))) (\<lambda>_.
        rest_bind (\<lambda>w. attempt InternalServerError (on_cache (Set (map (\<lambda>u. modify_time s LastModifyUserTime u w) (slice users) @
             map (\<lambda>i. modify_time s LastModifyItemTime i w) (slice items)))) w) (\<lambda>_.
        rest_reply (rest_Ok (BSuccess (int (length feedback))))))))"

definition feedback_page :: "RestServer \<Rightarrow> rest_request \<Rightarrow> string list \<Rightarrow> unit rest" where
  "feedback_page s rq types =
     rest_bind (query_int rq ''n'' (DefaultN s)) (\<lambda>n w.
     rest_bind (attempt InternalServerError (on_data (GetFeedback (s_marshal_key s) (s_unmarshal_key s) (QueryParameter rq ''cursor'') n None
        (Some (config_Now s w)) types))) (\<lambda>(cursor, feedback).
     rest_reply (rest_Ok (BFeedbackIterator cursor feedback))) w)"

definition getFeedback :: "RestServer \<Rightarrow> rest_request \<Rightarrow> unit rest" where
  "getFeedback s rq = feedback_page s rq []"

definition getTypedFeedback :: "RestServer \<Rightarrow> rest_request \<Rightarrow> unit rest" where
  "getTypedFeedback s rq = feedback_page s rq [rq_path rq ''feedback-type'']"

definition answer_feedback :: "Feedback list data_io \<Rightarrow> unit rest" where
  "answer_feedback m = rest_bind (attempt InternalServerError (on_data m)) (\<lambda>feedback. rest_reply (rest_Ok (BFeedback feedback)))"

definition getTypedFeedbackByUser :: "RestServer \<Rightarrow> rest_request \<Rightarrow> unit rest" where
  "getTypedFeedbackByUser s rq w =
     (case FromString (rq_path rq ''feedback-type'') zero_expression of
        (Some e, _) \<Rightarrow> rest_reply (BadRequest e) w
      | (None, expr) \<Rightarrow> answer_feedback (GetUserFeedback (rq_path rq ''user-id'') (Some (config_Now s w)) [expr]) w)"

definition getFeedbackByUser :: "RestServer \<Rightarrow> rest_request \<Rightarrow> unit rest" where
  "getFeedbackByUser s rq w = answer_feedback (GetUserFeedback (rq_path rq ''user-id'') (Some (config_Now s w)) []) w"

definition getTypedFeedbackByItem :: "RestServer \<Rightarrow> rest_request \<Rightarrow> unit rest" where
  "getTypedFeedbackByItem s rq w =
     answer_feedback (GetItemFeedback (time_of w) (rq_path rq ''item-id'') [rq_path rq ''feedback-type'']) w"

definition getFeedbackByItem :: "RestServer \<Rightarrow> rest_request \<Rightarrow> unit rest" where
  "getFeedbackByItem s rq w = answer_feedback (GetItemFeedback (time_of w) (rq_path rq ''item-id'') []) w"

definition rest_getUserItemFeedback :: "RestServer \<Rightarrow> rest_request \<Rightarrow> unit rest" where
  "rest_getUserItemFeedback s rq = answer_feedback (GetUserItemFeedback (rq_path rq ''user-id'') (rq_path rq ''item-id'') [])"

definition delete_feedback :: "rest_request \<Rightarrow> string list \<Rightarrow> unit rest" where
  "delete_feedback rq types =
     rest_bind (attempt InternalServerError (on_data (DeleteUserItemFeedback (rq_path rq ''user-id'') (rq_path rq ''item-id'') types)))
       (\<lambda>deleteCount. rest_reply (rest_Ok (BSuccess deleteCount)))"

definition deleteUserItemFeedback :: "RestServer \<Rightarrow> rest_request \<Rightarrow> unit rest" where
  "deleteUserItemFeedback s rq = delete_feedback rq []"

definition getTypedUserItemFeedback :: "RestServer \<Rightarrow> rest_request \<Rightarrow> unit rest" where
  "getTypedUserItemFeedback s rq =
     (let feedbackType = rq_path rq ''feedback-type''
      in rest_bind (attempt InternalServerError (on_data (GetUserItemFeedback (rq_path rq ''user-id'') (rq_path rq ''item-id'') [feedbackType]))) (\<lambda>feedback.
         if feedbackType = [] then rest_reply (rest_Text ''{}'')
         else case feedback of
                [] \<Rightarrow> rest_reply (RPanic ''index out of range'')
              | f # _ \<Rightarrow> rest_reply (rest_Ok (BOneFeedback f))))"

definition deleteTypedUserItemFeedback :: "RestServer \<Rightarrow> rest_request \<Rightarrow> unit rest" where
  "deleteTypedUserItemFeedback s rq = delete_feedback rq [rq_path rq ''feedback-type'']"

section \<open>Health and access\<close>

definition checkHealth :: "RestServer \<Rightarrow> shop_world \<Rightarrow> HealthStatus" where
  "checkHealth s w =
     (let d = data_Ping s w; c = cache_Ping s w
      in \<lparr>Ready = (d = None \<and> c = None), DataStoreError = d, CacheStoreError = c, DataStoreConnected = (d = None),
          CacheStoreConnected = (c = None)\<rparr>)"

definition checkReady :: "RestServer \<Rightarrow> unit rest" where
  "checkReady s w =
     (let h = checkHealth s w
      in if Ready h then rest_reply (rest_Ok (BHealth h)) w
         else case health_Marshal s h of
                Inl err \<Rightarrow> rest_reply (rest_Error 500 err) w
              | Inr errReason \<Rightarrow> rest_reply (rest_Error 503 (Error errReason)) w)"

definition checkLive :: "RestServer \<Rightarrow> unit rest" where
  "checkLive s w = rest_reply (rest_Ok (BHealth (checkHealth s w))) w"

definition AuthFilter :: "RestServer \<Rightarrow> string \<Rightarrow> rest_request \<Rightarrow> unit rest \<Rightarrow> unit rest" where
  "AuthFilter s route rq chain =
     (if has_prefix route ''/api/health/'' then chain
      else if APIKey s = [] then chain
      else if rq_header rq ''X-API-Key'' = APIKey s then chain
      else rest_reply (RError 401 (Error ''unauthorized'')))"

section \<open>The web service\<close>

text \<open>The handlers, and the body of a request read as the type a handler asks for.\<close>

datatype endpoint =
  EP_checkLive | EP_checkReady | EP_insertUser | EP_modifyUser | EP_getUser
  | EP_insertUsers | EP_getUsers | EP_deleteUser | EP_insertItem | EP_modifyItem
  | EP_getItems | EP_getItem | EP_insertItems | EP_deleteItem | EP_insertItemCategory
  | EP_deleteItemCategory | EP_insertFeedback bool | EP_getFeedback | EP_getUserItemFeedback | EP_deleteUserItemFeedback
  | EP_getTypedFeedback | EP_getTypedUserItemFeedback | EP_deleteTypedUserItemFeedback | EP_getTypedFeedbackByUser | EP_getFeedbackByUser
  | EP_getTypedFeedbackByItem | EP_getFeedbackByItem | EP_getCollaborativeFiltering | EP_getLatest | EP_getNonPersonalized
  | EP_getItemToItem | EP_getUserToUser | EP_getItemNeighbors | EP_getUserNeighbors | EP_getRecommend
  | EP_sessionRecommend

record rest_entity =
  en_User :: "go_fail + User"
  en_Users :: "go_fail + User list"
  en_UserPatch :: "go_fail + UserPatch"
  en_Item :: "go_fail + rest_Item"
  en_Items :: "go_fail + rest_Item list"
  en_ItemPatch :: "go_fail + ItemPatch"
  en_Feedbacks :: "go_fail + rest_Feedback list"

fun handle :: "RestServer \<Rightarrow> rest_request \<Rightarrow> rest_entity \<Rightarrow> endpoint \<Rightarrow> unit rest" where
  "handle s rq en EP_checkLive = checkLive s"
| "handle s rq en EP_checkReady = checkReady s"
| "handle s rq en EP_insertUser = insertUser s (en_User en)"
| "handle s rq en EP_modifyUser = modifyUser s rq (en_UserPatch en)"
| "handle s rq en EP_getUser = rest_getUser s rq"
| "handle s rq en EP_insertUsers = insertUsers s (en_Users en)"
| "handle s rq en EP_getUsers = rest_getUsers s rq"
| "handle s rq en EP_deleteUser = rest_deleteUser s rq"
| "handle s rq en EP_insertItem = insertItem s (en_Item en)"
| "handle s rq en EP_modifyItem = modifyItem s rq (en_ItemPatch en)"
| "handle s rq en EP_getItems = rest_getItems s rq"
| "handle s rq en EP_getItem = rest_getItem s rq"
| "handle s rq en EP_insertItems = insertItems s (en_Items en)"
| "handle s rq en EP_deleteItem = rest_deleteItem s rq"
| "handle s rq en EP_insertItemCategory = insertItemCategory s rq"
| "handle s rq en EP_deleteItemCategory = deleteItemCategory s rq"
| "handle s rq en (EP_insertFeedback overwrite) = insertFeedback s overwrite (en_Feedbacks en)"
| "handle s rq en EP_getFeedback = getFeedback s rq"
| "handle s rq en EP_getUserItemFeedback = rest_getUserItemFeedback s rq"
| "handle s rq en EP_deleteUserItemFeedback = deleteUserItemFeedback s rq"
| "handle s rq en EP_getTypedFeedback = getTypedFeedback s rq"
| "handle s rq en EP_getTypedUserItemFeedback = getTypedUserItemFeedback s rq"
| "handle s rq en EP_deleteTypedUserItemFeedback = deleteTypedUserItemFeedback s rq"
| "handle s rq en EP_getTypedFeedbackByUser = getTypedFeedbackByUser s rq"
| "handle s rq en EP_getFeedbackByUser = getFeedbackByUser s rq"
| "handle s rq en EP_getTypedFeedbackByItem = getTypedFeedbackByItem s rq"
| "handle s rq en EP_getFeedbackByItem = getFeedbackByItem s rq"
| "handle s rq en EP_getCollaborativeFiltering = getCollaborativeFiltering s rq"
| "handle s rq en EP_getLatest = getLatest s rq"
| "handle s rq en EP_getNonPersonalized = getNonPersonalized s rq"
| "handle s rq en EP_getItemToItem = getItemToItem s rq"
| "handle s rq en EP_getUserToUser = getUserToUser s rq"
| "handle s rq en EP_getItemNeighbors = getItemNeighbors s rq"
| "handle s rq en EP_getUserNeighbors = getUserNeighbors s rq"
| "handle s rq en EP_getRecommend = rest_getRecommend s rq"
| "handle s rq en EP_sessionRecommend = sessionRecommend s rq (en_Feedbacks en)"

definition health_routes :: "(string \<times> string \<times> endpoint) list" where
  "health_routes = [
     (''GET'', ''/api/health/live'', EP_checkLive),
     (''GET'', ''/api/health/ready'', EP_checkReady)]"

definition user_routes :: "(string \<times> string \<times> endpoint) list" where
  "user_routes = [
     (''POST'', ''/api/user'', EP_insertUser),
     (''PATCH'', ''/api/user/{user-id}'', EP_modifyUser),
     (''GET'', ''/api/user/{user-id}'', EP_getUser),
     (''POST'', ''/api/users'', EP_insertUsers),
     (''GET'', ''/api/users'', EP_getUsers),
     (''DELETE'', ''/api/user/{user-id}'', EP_deleteUser)]"

definition item_routes :: "(string \<times> string \<times> endpoint) list" where
  "item_routes = [
     (''POST'', ''/api/item'', EP_insertItem),
     (''PATCH'', ''/api/item/{item-id}'', EP_modifyItem),
     (''GET'', ''/api/items'', EP_getItems),
     (''GET'', ''/api/item/{item-id}'', EP_getItem),
     (''POST'', ''/api/items'', EP_insertItems),
     (''DELETE'', ''/api/item/{item-id}'', EP_deleteItem),
     (''PUT'', ''/api/item/{item-id}/category/{category}'', EP_insertItemCategory),
     (''DELETE'', ''/api/item/{item-id}/category/{category}'', EP_deleteItemCategory)]"

definition feedback_routes :: "(string \<times> string \<times> endpoint) list" where
  "feedback_routes = [
     (''POST'', ''/api/feedback'', EP_insertFeedback False),
     (''PUT'', ''/api/feedback'', EP_insertFeedback True),
     (''GET'', ''/api/feedback'', EP_getFeedback),
     (''GET'', ''/api/feedback/{user-id}/{item-id}'', EP_getUserItemFeedback),
     (''DELETE'', ''/api/feedback/{user-id}/{item-id}'', EP_deleteUserItemFeedback),
     (''GET'', ''/api/feedback/{feedback-type}'', EP_getTypedFeedback),
     (''GET'', ''/api/feedback/{feedback-type}/{user-id}/{item-id}'', EP_getTypedUserItemFeedback),
     (''DELETE'', ''/api/feedback/{feedback-type}/{user-id}/{item-id}'', EP_deleteTypedUserItemFeedback),
     (''GET'', ''/api/user/{user-id}/feedback/{feedback-type}'', EP_getTypedFeedbackByUser),
     (''GET'', ''/api/user/{user-id}/feedback'', EP_getFeedbackByUser),
     (''GET'', ''/api/item/{item-id}/feedback/{feedback-type}'', EP_getTypedFeedbackByItem),
     (''GET'', ''/api/item/{item-id}/feedback/'', EP_getFeedbackByItem)]"

definition ranking_routes :: "(string \<times> string \<times> endpoint) list" where
  "ranking_routes = [
     (''GET'', ''/api/collaborative-filtering/{user-id}'', EP_getCollaborativeFiltering),
     (''GET'', ''/api/collaborative-filtering/{user-id}/{category}'', EP_getCollaborativeFiltering),
     (''GET'', ''/api/latest'', EP_getLatest),
     (''GET'', ''/api/latest/{category}'', EP_getLatest),
     (''GET'', ''/api/non-personalized/{name}'', EP_getNonPersonalized),
     (''GET'', ''/api/item-to-item/{name}/{item-id}'', EP_getItemToItem),
     (''GET'', ''/api/user-to-user/{name}/{user-id}'', EP_getUserToUser),
     (''GET'', ''/api/item/{item-id}/neighbors/'', EP_getItemNeighbors),
     (''GET'', ''/api/item/{item-id}/neighbors/{category}'', EP_getItemNeighbors),
     (''GET'', ''/api/user/{user-id}/neighbors/'', EP_getUserNeighbors)]"

definition recommend_routes :: "(string \<times> string \<times> endpoint) list" where
  "recommend_routes = [
     (''GET'', ''/api/recommend/{user-id}'', EP_getRecommend),
     (''GET'', ''/api/recommend/{user-id}/{category}'', EP_getRecommend),
     (''POST'', ''/api/session/recommend'', EP_sessionRecommend),
     (''POST'', ''/api/session/recommend/{category}'', EP_sessionRecommend)]"

definition routes :: "(string \<times> string \<times> endpoint) list" where
  "routes = health_routes @ user_routes @ item_routes @ feedback_routes @ ranking_routes @ recommend_routes"

lemmas routes_defs = routes_def health_routes_def user_routes_def item_routes_def feedback_routes_def ranking_routes_def recommend_routes_def

text \<open>A request that the framework has matched to a route passes the filter for the key before it reaches the handler.\<close>

definition api :: "RestServer \<Rightarrow> string \<times> string \<times> endpoint \<Rightarrow> rest_request \<Rightarrow> rest_entity \<Rightarrow> shop_world \<Rightarrow> rest_answer \<times> shop_world" where
  "api s route rq en = (case route of (_, path, ep) \<Rightarrow> serve (AuthFilter s path rq (handle s rq en ep)))"


end
