(* ===== verification/Rest_Properties.thy ===== *)
theory Rest_Properties
  imports Rest_Server
begin

text \<open>
  What the REST server promises over both stores: who gets in, which requests leave the stores as they are, what a client
  reads after it has written, what becomes of an item that is deleted or hidden, and what a ranking shows.
\<close>

section \<open>Sequenced handlers\<close>

named_theorems rest_simps "unfolding of handlers"

lemma rest_bind_Inr [rest_simps]: "rest_bind m f w = (Inr y, w') \<longleftrightarrow> (\<exists>x w1. m w = (Inr x, w1) \<and> f x w1 = (Inr y, w'))"
  by (auto simp: rest_bind_def split: prod.splits sum.splits)

lemma rest_bind_Inl [rest_simps]:
  "rest_bind m f w = (Inl a, w') \<longleftrightarrow> m w = (Inl a, w') \<or> (\<exists>x w1. m w = (Inr x, w1) \<and> f x w1 = (Inl a, w'))"
  by (auto simp: rest_bind_def split: prod.splits sum.splits)

lemma rest_bind_run: "m w = (Inr x, w1) \<Longrightarrow> rest_bind m f w = f x w1"
  by (simp add: rest_bind_def)

lemma rest_reply_eq [simp]: "rest_reply a w = (r, w') \<longleftrightarrow> r = Inl a \<and> w' = w"
  by (auto simp: rest_reply_def)

lemma rest_return_eq [simp]: "rest_return x w = (r, w') \<longleftrightarrow> r = Inr x \<and> w' = w"
  by (auto simp: rest_return_def)

lemma attempt_Inr [rest_simps]: "attempt e m w = (Inr x, w') \<longleftrightarrow> m w = (Inr x, w')"
  by (auto simp: attempt_def split: prod.splits sum.splits go_fail.splits)

lemma attempt_Inl [rest_simps]: "attempt e m w = (Inl a, w') \<longleftrightarrow>
    (\<exists>p. m w = (Inl (Panic p), w') \<and> a = RPanic p) \<or> (\<exists>t. m w = (Inl (Error t), w') \<and> a = e (Error t))"
  by (auto simp: attempt_def split: prod.splits sum.splits go_fail.splits)

lemma serve_eq [rest_simps]: "serve h w = (a, w') \<longleftrightarrow> h w = (Inl a, w') \<or> h w = (Inr (), w') \<and> a = RSilent"
  by (auto simp: serve_def split: prod.splits sum.splits)

lemmas status_defs = BadRequest_def InternalServerError_def PageNotFound_def rest_Ok_def rest_Text_def rest_Error_def

text \<open>A call never answers with success itself: when the handler answers so, the calls before have returned.\<close>

definition quiet :: "(go_fail \<Rightarrow> rest_answer) \<Rightarrow> bool" where
  "quiet e \<longleftrightarrow> (\<forall>g b. e g \<noteq> ROk b)"

lemma quiet_statuses [simp]: "quiet BadRequest" "quiet InternalServerError" "quiet PageNotFound" "quiet (\<lambda>_. RSilent)" "quiet (not_found_or_500 m)"
  by (simp_all add: quiet_def status_defs not_found_or_500_def)

lemma attempt_ok: "quiet e \<Longrightarrow> rest_bind (attempt e m) f w = (Inl (ROk b), w') \<longleftrightarrow> (\<exists>x w1. m w = (Inr x, w1) \<and> f x w1 = (Inl (ROk b), w'))"
  by (auto simp: rest_simps quiet_def; metis rest_answer.distinct)

section \<open>Access\<close>

text \<open>C22. Who gets in. On every route but the two of the health check, a request without the configured key is answered
  with status 401 before it reaches the handler, and the stores stay as they are; with the key, or when none is configured, the
  answer is that of the handler. No two routes have one method and path.\<close>

theorem api_key_required:
  assumes "route \<in> set routes"
  shows "api s route rq en w =
      (if APIKey s \<noteq> [] \<and> rq_header rq ''X-API-Key'' \<noteq> APIKey s \<and> snd (snd route) \<notin> {EP_checkLive, EP_checkReady}
       then (RError 401 (Error ''unauthorized''), w)
       else serve (handle s rq en (snd (snd route))) w) \<and>
    distinct (map (\<lambda>(m, p, _). (m, p)) routes)"
proof -
  have "list_all (\<lambda>(_, path, ep). has_prefix path ''/api/health/'' \<longleftrightarrow> ep \<in> {EP_checkLive, EP_checkReady}) routes"
    by code_simp
  then have "has_prefix (fst (snd route)) ''/api/health/'' \<longleftrightarrow> snd (snd route) \<in> {EP_checkLive, EP_checkReady}"
    using assms by (auto simp: list_all_iff)
  moreover have "distinct (map (\<lambda>(m, p, _). (m, p)) routes)" by code_simp
  ultimately show ?thesis by (auto simp: api_def AuthFilter_def serve_def rest_reply_def split: prod.splits)
qed

definition sample_server :: RestServer where
  "sample_server = \<lparr>s_env = store_env, s_Recommend = sample_config, APIKey = ''key'', DefaultN = 10, ClockError = 0,
     AutoInsertUser = True, AutoInsertItem = True, ParseAny = (\<lambda>_. Inr 5), time_ParseDuration = (\<lambda>_. Inr 0),
     s_time_string = FormatInt, s_parse_time = (\<lambda>t. case atoi t of Some n \<Rightarrow> Inr n | None \<Rightarrow> Inl (Error t)),
     s_marshal_key = (\<lambda>_. []), s_unmarshal_key = (\<lambda>t. Inl (Error t)), data_Ping = (\<lambda>_. None), cache_Ping = (\<lambda>_. None),
     health_Marshal = (\<lambda>_. Inr [])\<rparr>"

definition sample_request :: rest_request where
  "sample_request = \<lparr>rq_path = (\<lambda>p. if p = ''item-id'' then ''shoe'' else if p = ''user-id'' then ''ann'' else
       if p = ''feedback-type'' then ''like'' else []), rq_query = (\<lambda>_. []), rq_header = (\<lambda>_. [])\<rparr>"

definition no_entity :: rest_entity where
  "no_entity = \<lparr>en_User = Inl (Error ''EOF''), en_Users = Inl (Error ''EOF''), en_UserPatch = Inl (Error ''EOF''), en_Item = Inl (Error ''EOF''),
     en_Items = Inl (Error ''EOF''), en_ItemPatch = Inl (Error ''EOF''), en_Feedbacks = Inl (Error ''EOF'')\<rparr>"

theorem api_key_required_witness:
  "api sample_server (''DELETE'', ''/api/item/{item-id}'', EP_deleteItem) sample_request no_entity first_world =
     (RError 401 (Error ''unauthorized''), first_world)"
proof -
  have r: "(''DELETE'', ''/api/item/{item-id}'', EP_deleteItem) \<in> set routes" by (simp add: routes_defs)
  show ?thesis using api_key_required[OF r, of sample_server sample_request no_entity first_world]
    by (simp add: sample_server_def sample_request_def)
qed

lemma serve_ok: "serve h w = (ROk b, w') \<longleftrightarrow> h w = (Inl (ROk b), w')"
  by (simp add: serve_eq)

text \<open>Steps of a handler that do not answer with success themselves.\<close>

definition proceeds :: "'a rest \<Rightarrow> bool" where
  "proceeds m \<longleftrightarrow> (\<forall>w b w'. m w \<noteq> (Inl (ROk b), w'))"

lemma bind_ok: "proceeds m \<Longrightarrow> rest_bind m f w = (Inl (ROk b), w') \<longleftrightarrow> (\<exists>x w1. m w = (Inr x, w1) \<and> f x w1 = (Inl (ROk b), w'))"
  by (auto simp: rest_bind_Inl proceeds_def)

lemma proceeds_attempt [simp]: "quiet e \<Longrightarrow> proceeds (attempt e m)"
  by (auto simp: proceeds_def quiet_def attempt_Inl) (metis rest_answer.distinct)+

lemma proceeds_return [simp]: "proceeds (rest_return x)"
  by (simp add: proceeds_def)

lemma proceeds_bind: "proceeds m \<Longrightarrow> (\<And>x. proceeds (f x)) \<Longrightarrow> proceeds (rest_bind m f)"
  unfolding proceeds_def by (metis rest_bind_Inl)

lemma proceeds_world: "(\<And>w. proceeds (m w)) \<Longrightarrow> proceeds (\<lambda>w. m w w)"
  by (simp add: proceeds_def)

lemma proceeds_fold: "(\<And>x acc. proceeds (f x acc)) \<Longrightarrow> proceeds (rest_fold f xs acc)"
  by (induction xs arbitrary: acc) (auto intro: proceeds_bind)

lemma proceeds_queries [simp]: "proceeds (ReadEntity entity)" "proceeds (query_int rq n k)" "proceeds (set_or_silent v)"
  by (simp_all add: ReadEntity_def query_int_def set_or_silent_def)

section \<open>Calls of the stores\<close>

lemma on_data_parts:
  assumes "keeps data_ok m" and "on_data m w = (x, w')"
  shows "data_of w' = snd (m (data_of w))" "cache_of w' = cache_of w" "time_of w' = time_of w"
proof -
  obtain y db' where m: "m (data_of w) = (y, db')" by (cases "m (data_of w)") auto
  then have "data_ok db'" using keepsD[OF assms(1) world_ok(1), of w] by simp
  then show "data_of w' = snd (m (data_of w))" "cache_of w' = cache_of w" "time_of w' = time_of w"
    using assms(2) m by (auto simp: on_data_def)
qed

lemma on_cache_parts:
  assumes "keeps cache_ok m" and "on_cache m w = (x, w')"
  shows "cache_of w' = snd (m (cache_of w))" "data_of w' = data_of w" "time_of w' = time_of w"
proof -
  obtain y c' where m: "m (cache_of w) = (y, c')" by (cases "m (cache_of w)") auto
  then have "cache_ok c'" using keepsD[OF assms(1) world_ok(2), of w] by simp
  then show "cache_of w' = snd (m (cache_of w))" "data_of w' = data_of w" "time_of w' = time_of w"
    using assms(2) m by (auto simp: on_cache_def)
qed

lemma keeps_cache_calls [keeps_intro]: "keeps cache_ok (Set vs)" "keeps cache_ok (UpdateScores cs b i p)" "keeps cache_ok (DeleteScores cs c)"
  using cache_ok_exec[of _ "CallSet vs"] cache_ok_exec[of _ "CallUpdateScores cs b i p"] cache_ok_exec[of _ "CallDeleteScores cs c"]
  by (auto simp: keeps_def)

lemma on_cache_call:
  assumes "keeps cache_ok m" and "on_cache m w = (x, w')"
  shows "m (cache_of w) = (x, cache_of w')"
  using on_cache_parts(1)[OF assms] assms(2) by (cases "m (cache_of w)") (auto simp: on_cache_def)

lemma on_data_call:
  assumes "keeps data_ok m" and "on_data m w = (x, w')"
  shows "m (data_of w) = (x, data_of w')"
  using on_data_parts(1)[OF assms] assms(2) by (cases "m (data_of w)") (auto simp: on_data_def)

lemma Set_documents: "Set vs c = (Inr u, c') \<Longrightarrow> db_documents c' = db_documents c"
  by (auto simp: Set_def dest!: sql_Inr split: if_splits)

lemma DeleteItem_Inr:
  assumes "DeleteItem i db = (Inr u, db')"
  shows "i \<noteq> [] \<and> tb_items db' = filter (\<lambda>r. row_ItemId r \<noteq> i) (tb_items db) \<and>
    tb_feedback db' = filter (\<lambda>f. key_ItemId f \<noteq> i) (tb_feedback db) \<and> tb_users db' = tb_users db"
  using assms by (auto simp: DeleteItem_def io_bind_Inr io_fail_def split: if_splits dest!: sql_Inr)

lemma update_documents_Inr:
  "update_documents hit f db = (Inr u, db') \<Longrightarrow> db_documents db' = map (\<lambda>d. if hit d then f d else d) (db_documents db) \<and> db_values db' = db_values db"
  by (auto simp: update_documents_def dest!: sql_Inr)

text \<open>Where a later search in a collection cannot find an item.\<close>

lemma SearchScores_ids:
  assumes "SearchScores col b q lo hi c = (Inr xs, c')"
  shows "sc_Id ` set xs \<subseteq> doc_Id ` {d \<in> set (db_documents c). doc_Collection d = col \<and> doc_Subset d = b \<and> \<not> doc_IsHidden d}"
proof -
  let ?hit = "\<lambda>d. doc_Collection d = col \<and> doc_Subset d = b \<and> \<not> doc_IsHidden d \<and> set q \<subseteq> set (doc_Categories d)"
  have "xs = map from_document (limited lo (if hi \<noteq> - 1 then hi - lo else 2 ^ 63 - 1) (sort_slice doc_greater (filter ?hit (db_documents c))))"
    using assms by (auto simp: SearchScores_def dest!: sql_Inr)
  then have "set xs \<subseteq> from_document ` set (filter ?hit (db_documents c))"
    using limited_subset[of lo "if hi \<noteq> - 1 then hi - lo else 2 ^ 63 - 1" "sort_slice doc_greater (filter ?hit (db_documents c))"] by auto
  then show ?thesis by (fastforce simp: from_document_def)
qed

definition unlisted :: "string \<Rightarrow> shop_world \<Rightarrow> bool" where
  "unlisted i w \<longleftrightarrow> (\<forall>col\<in>set ItemCache. \<forall>b q lo hi xs c'.
     SearchScores col b q lo hi (cache_of w) = (Inr xs, c') \<longrightarrow> i \<notin> sc_Id ` set xs)"

lemma unlistedI:
  assumes "\<And>d. d \<in> set (db_documents (cache_of w)) \<Longrightarrow> doc_Collection d \<in> set ItemCache \<Longrightarrow> doc_Id d = i \<Longrightarrow> doc_IsHidden d"
  shows "unlisted i w"
proof (unfold unlisted_def, intro ballI allI impI notI)
  fix col b q lo hi xs c'
  assume col: "col \<in> set ItemCache" and run: "SearchScores col b q lo hi (cache_of w) = (Inr xs, c')" and i: "i \<in> sc_Id ` set xs"
  obtain d where "d \<in> set (db_documents (cache_of w))" "doc_Collection d = col" "\<not> doc_IsHidden d" "doc_Id d = i"
    using subsetD[OF SearchScores_ids[OF run] i] by blast
  then show False using assms[of d] col by simp
qed

section \<open>Items that go\<close>

text \<open>C3. A deleted item is gone. When the deletion of an item is answered with success, the data store has neither the item nor
  feedback on it, and keeps everything else; the item is in none of the rankings that are cached for items, so that no search
  in them finds it, and a request for the item is answered with status 404. The scores of the other collections, those of collaborative filtering
  included, are left as they were.\<close>

theorem deleted_item_gone:
  assumes "serve (rest_deleteItem s rq) w = (ROk b, w')"
  defines "i \<equiv> rq_path rq ''item-id''"
  shows "tb_items (data_of w') = filter (\<lambda>r. row_ItemId r \<noteq> i) (tb_items (data_of w)) \<and>
    tb_feedback (data_of w') = filter (\<lambda>f. key_ItemId f \<noteq> i) (tb_feedback (data_of w)) \<and> tb_users (data_of w') = tb_users (data_of w) \<and>
    unlisted i w' \<and>
    filter (\<lambda>d. doc_Collection d \<notin> set ItemCache \<or> doc_Id d \<noteq> i) (db_documents (cache_of w)) = db_documents (cache_of w') \<and>
    (db_faults (data_of w') = [] \<longrightarrow> serve (rest_getItem s rq) w' = (RError 404 (not_found ''item'' i), w'))"
proof -
  let ?c = "\<lparr>cond_Subset = None, cond_Id = Some i, cond_Before = None\<rparr>"
  obtain w1 where del: "on_data (DeleteItem i) w = (Inr (), w1)" and cache: "on_cache (DeleteScores ItemCache ?c) w1 = (Inr (), w')"
    using assms(1) by (auto simp: serve_ok rest_deleteItem_def Let_def attempt_ok i_def[symmetric])
  note d = on_data_parts[OF keeps_delete(1) del] and c = on_cache_parts[OF keeps_cache_calls(3) cache]
  obtain db' where db': "DeleteItem i (data_of w) = (Inr (), db')" "data_of w1 = db'"
    using del d(1) by (auto simp: on_data_Inr)
  obtain c' where c': "DeleteScores ItemCache ?c (cache_of w1) = (Inr (), c')" "cache_of w' = c'"
    using cache c(1) by (auto simp: on_cache_Inr)
  have docs: "db_documents (cache_of w') = filter (\<lambda>x. doc_Collection x \<notin> set ItemCache \<or> doc_Id x \<noteq> i) (db_documents (cache_of w))"
    using DeleteScores_Inr[OF c'(1)] c'(2) d(2) by (auto simp: matches_def intro!: filter_cong)
  have "unlisted i w'" by (rule unlistedI) (use docs in auto)
  moreover have "serve (rest_getItem s rq) w' = (RError 404 (not_found ''item'' i), w')" if "db_faults (data_of w') = []"
  proof -
    have "find (\<lambda>r. row_ItemId r = i) (tb_items (data_of w')) = None"
      using DeleteItem_Inr[OF db'(1)] db'(2) c(2) by (simp add: find_None_iff)
    then have "on_data (data_GetItem i) w' = (Inl (not_found ''item'' i), w')"
      using data_GetItem_run[OF world_ok(1) that, of i] by (simp add: on_data_def)
    then show ?thesis
      by (simp add: rest_getItem_def Let_def i_def[symmetric] serve_def rest_bind_def attempt_def not_found_def not_found_or_500_def status_defs)
  qed
  ultimately show ?thesis using DeleteItem_Inr[OF db'(1)] db'(2) c(2) docs by simp
qed

lemma first_world_quiet: "db_faults (data_of first_world) = []" "db_faults (cache_of first_world) = []"
  unfolding first_world_def using two_rows_ok by (simp_all add: cache_ok_def empty_cache_def)

lemma on_data_run:
  assumes "m (data_of w) = (x, db')"
  shows "on_data m w = (x, mk_world db' (cache_of w) (time_of w))"
  using assms by (simp add: on_data_def)

lemma on_cache_run:
  assumes "m (cache_of w) = (x, c')"
  shows "on_cache m w = (x, mk_world (data_of w) c' (time_of w))"
  using assms by (simp add: on_cache_def)

lemma DeleteItem_run: "db_faults db = [] \<Longrightarrow> i \<noteq> [] \<Longrightarrow> \<exists>db'. DeleteItem i db = (Inr (), db')"
  by (simp add: DeleteItem_def io_bind_def sql_no_fault)

theorem deleted_item_gone_witness:
  "\<exists>w'. serve (rest_deleteItem sample_server sample_request) first_world = (ROk (BSuccess 1), w') \<and>
     ''shoe'' \<notin> row_ItemId ` set (tb_items (data_of w')) \<and> unlisted ''shoe'' w'"
proof -
  let ?c = "\<lparr>cond_Subset = None, cond_Id = Some ''shoe'', cond_Before = None\<rparr>"
  have p: "rq_path sample_request ''item-id'' = ''shoe''" by (simp add: sample_request_def)
  obtain w1 where w1: "on_data (DeleteItem ''shoe'') first_world = (Inr (), w1)"
    using DeleteItem_run[OF first_world_quiet(1), of "''shoe''"] on_data_run by fastforce
  have "db_faults (cache_of w1) = []" using on_data_parts(2)[OF keeps_delete(1) w1] first_world_quiet(2) by simp
  then obtain c' where "DeleteScores ItemCache ?c (cache_of w1) = (Inr (), c')"
    by (simp add: DeleteScores_def io_bind_def cond_Check_def io_lift_def sql_no_fault)
  then obtain w' where w': "on_cache (DeleteScores ItemCache ?c) w1 = (Inr (), w')" using on_cache_run by blast
  have run: "serve (rest_deleteItem sample_server sample_request) first_world = (ROk (BSuccess 1), w')"
    using w1 w' by (simp add: serve_ok rest_deleteItem_def Let_def p attempt_ok rest_Ok_def)
  show ?thesis using run deleted_item_gone[OF run] p by (intro exI[of _ w']) auto
qed

definition patched :: "ScorePatch \<Rightarrow> SQLDocument \<Rightarrow> SQLDocument" where
  "patched p d = d\<lparr>doc_Score := (case sp_Score p of None \<Rightarrow> doc_Score d | Some v \<Rightarrow> v),
     doc_IsHidden := (case sp_IsHidden p of None \<Rightarrow> doc_IsHidden d | Some b \<Rightarrow> b),
     doc_Categories := (case sp_Categories p of None \<Rightarrow> doc_Categories d | Some cs \<Rightarrow> cs)\<rparr>"

lemma UpdateScores_Inr:
  assumes "UpdateScores cs None i p db = (Inr u, db')"
  shows "db_documents db' = map (\<lambda>d. if doc_Collection d \<in> set cs \<and> doc_Id d = i then patched p d else d) (db_documents db) \<and>
    db_values db' = db_values db"
  using assms
  by (cases "sp_Score p"; cases "sp_IsHidden p"; cases "sp_Categories p"; cases "cs = []")
    (auto simp: UpdateScores_def Let_def io_bind_Inr patched_def dest!: update_documents_Inr intro!: map_idI[symmetric])

lemma ModifyItem_Inr:
  assumes "ModifyItem i patch db = (Inr u, db')" and "ip_IsHidden patch \<noteq> None"
  shows "\<exists>db0. tb_items db' = map (\<lambda>r. if row_ItemId r = i then patch_item db0 patch r else r) (tb_items db)"
proof -
  let ?f = "\<lambda>db. (Inr (), db\<lparr>tb_items := map (\<lambda>r. if row_ItemId r = i then patch_item db patch r else r) (tb_items db)\<rparr>)"
  have "sql ?f db = (Inr u, db')" using assms by (cases "i = []") (auto simp: ModifyItem_def io_fail_def)
  from sql_Inr[OF this] show ?thesis by auto
qed

lemma modify_item_steps:
  assumes "serve (modifyItem s rq (Inr patch)) w = (ROk b, w')"
  defines "i \<equiv> rq_path rq ''item-id''"
  shows "\<exists>w1 w2 w3. (case ip_IsHidden patch of None \<Rightarrow> rest_return ()
      | Some h \<Rightarrow> attempt InternalServerError (on_cache (UpdateScores ItemCache None i \<lparr>sp_IsHidden = Some h, sp_Categories = None, sp_Score = None\<rparr>))) w = (Inr (), w1) \<and>
    (case ip_Categories patch of None \<Rightarrow> rest_return ()
      | Some cs \<Rightarrow> attempt InternalServerError (on_cache (UpdateScores ItemCache None i
          \<lparr>sp_IsHidden = None, sp_Categories = Some (withWildCard cs), sp_Score = None\<rparr>))) w1 = (Inr (), w2) \<and>
    on_data (ModifyItem i patch) w2 = (Inr (), w3) \<and> on_cache (Set [modify_time s LastModifyItemTime i w3]) w3 = (Inr (), w')"
proof -
  have p: "proceeds (case x of None \<Rightarrow> rest_return () | Some y \<Rightarrow> attempt InternalServerError (f y))" for x :: "'x option" and f
    by (cases x) simp_all
  have q: "proceeds (\<lambda>w. set_or_silent (modify_time s LastModifyItemTime i w) w)" by (rule proceeds_world) simp
  have read: "ReadEntity (Inr x) w = (Inr y, w') \<longleftrightarrow> y = x \<and> w' = w" for x y :: 'e and w w'
    by (auto simp: ReadEntity_def attempt_Inr)
  have ex_unit: "(\<exists>x. P x) \<longleftrightarrow> P ()" for P by auto
  have set: "set_or_silent v w = (Inr u, w') \<longleftrightarrow> on_cache (Set [v]) w = (Inr u, w')" for v w w' u
    by (simp add: set_or_silent_def attempt_Inr)
  show ?thesis using assms(1) unfolding serve_ok modifyItem_def Let_def i_def[symmetric]
    by (simp only: bind_ok p q proceeds_queries proceeds_attempt quiet_statuses attempt_Inr set rest_reply_eq read io_lift_eq ex_unit)
      (elim exE conjE, hypsubst, intro exI conjI, assumption+)
qed

text \<open>The latest items are not hidden.\<close>

lemma latest_not_hidden:
  assumes "\<forall>r\<in>set (tb_items (data_of w)). row_ItemId r = i \<longrightarrow> row_IsHidden r" and "GetLatestItems n cats (data_of w) = (Inr items, db')"
  shows "i \<notin> ItemId ` set items"
proof -
  have f: "filter_rows (latest_match cats) (tb_items (data_of w)) = Inr (filter (latest_hit cats) (tb_items (data_of w)))"
    by (rule filter_rows_ok) (use world_ok(1)[of w] in \<open>auto simp: data_ok_def latest_match_typed\<close>)
  let ?rows = "limited 0 n (sort_slice newer_row (filter (latest_hit cats) (tb_items (data_of w))))"
  have "scan_rows scan_item ?rows = Inr items" using assms(2) f by (auto simp: GetLatestItems_def dest!: sql_Inr)
  then have "set (map ItemId items) = set (map row_ItemId ?rows)" using scan_rows_ids by metis
  moreover have "set ?rows \<subseteq> set (filter (latest_hit cats) (tb_items (data_of w)))" using limited_subset by fastforce
  ultimately show ?thesis using assms(1) by (auto simp: latest_hit_def image_iff)
qed

text \<open>C4. A hidden item is withdrawn. When the patch that hides an item is answered with success, no search in the rankings cached for items
  finds it, it is hidden in the data store, and it is not among the latest items, whatever their number and categories. Only those rankings are
  updated: the scores cached for collaborative filtering keep showing the item.\<close>

theorem hidden_item_withdrawn:
  assumes "serve (modifyItem s rq (Inr patch)) w = (ROk b, w')" and "ip_IsHidden patch = Some True"
  defines "i \<equiv> rq_path rq ''item-id''"
  shows "unlisted i w' \<and> (\<forall>r\<in>set (tb_items (data_of w')). row_ItemId r = i \<longrightarrow> row_IsHidden r) \<and>
    (\<forall>n cats items db'. GetLatestItems n cats (data_of w') = (Inr items, db') \<longrightarrow> i \<notin> ItemId ` set items) \<and>
    filter (\<lambda>d. doc_Collection d \<notin> set ItemCache) (db_documents (cache_of w')) =
    filter (\<lambda>d. doc_Collection d \<notin> set ItemCache) (db_documents (cache_of w))"
proof -
  let ?hide = "\<lparr>sp_IsHidden = Some True, sp_Categories = None, sp_Score = None\<rparr>"
  let ?upd = "\<lambda>p. map (\<lambda>d. if doc_Collection d \<in> set ItemCache \<and> doc_Id d = i then patched p d else d)"
  let ?hidden = "\<lambda>docs. \<forall>d\<in>set docs. doc_Collection d \<in> set ItemCache \<longrightarrow> doc_Id d = i \<longrightarrow> doc_IsHidden d"
  let ?rest = "filter (\<lambda>d. doc_Collection d \<notin> set ItemCache)"
  have rest: "?rest (?upd p docs) = ?rest docs" for p docs by (induction docs) (auto simp: patched_def)
  obtain w1 w2 w3 where 1: "on_cache (UpdateScores ItemCache None i ?hide) w = (Inr (), w1)"
    and 2: "(case ip_Categories patch of None \<Rightarrow> rest_return ()
      | Some cs \<Rightarrow> attempt InternalServerError (on_cache (UpdateScores ItemCache None i
          \<lparr>sp_IsHidden = None, sp_Categories = Some (withWildCard cs), sp_Score = None\<rparr>))) w1 = (Inr (), w2)"
    and 3: "on_data (ModifyItem i patch) w2 = (Inr (), w3)" and 4: "on_cache (Set [modify_time s LastModifyItemTime i w3]) w3 = (Inr (), w')"
    using modify_item_steps[OF assms(1), folded i_def] unfolding assms(2) option.case attempt_Inr by blast
  note c1 = on_cache_parts[OF keeps_cache_calls(2) 1] and d3 = on_data_parts[OF keeps_modify_item 3] and c4 = on_cache_parts[OF keeps_cache_calls(1) 4]
  have docs1: "db_documents (cache_of w1) = ?upd ?hide (db_documents (cache_of w))"
    using UpdateScores_Inr[OF on_cache_call[OF keeps_cache_calls(2) 1]] by blast
  obtain p where p: "sp_IsHidden p = None" "db_documents (cache_of w2) = ?upd p (db_documents (cache_of w1))"
  proof (cases "ip_Categories patch")
    case None
    then have "w2 = w1" using 2 by simp
    then show ?thesis by (intro that[of "\<lparr>sp_IsHidden = None, sp_Categories = None, sp_Score = None\<rparr>"]) (auto simp: patched_def intro!: map_idI[symmetric])
  next
    case (Some cs)
    then have u: "on_cache (UpdateScores ItemCache None i \<lparr>sp_IsHidden = None, sp_Categories = Some (withWildCard cs), sp_Score = None\<rparr>) w1 = (Inr (), w2)"
      using 2 by (simp add: attempt_Inr)
    show ?thesis by (rule that[OF _ conjunct1[OF UpdateScores_Inr[OF on_cache_call[OF keeps_cache_calls(2) u]]]]) simp
  qed
  have docs4: "db_documents (cache_of w') = db_documents (cache_of w2)"
    using Set_documents[OF on_cache_call[OF keeps_cache_calls(1) 4]] d3(2) by simp
  have h1: "?hidden (?upd ?hide docs)" for docs by (simp only: set_map ball_simps) (simp add: patched_def)
  have "doc_IsHidden (if doc_Collection d \<in> set ItemCache \<and> doc_Id d = i then patched p d else d) = doc_IsHidden d" for d using p(1) by (simp add: patched_def)
  moreover have "doc_Collection (if doc_Collection d \<in> set ItemCache \<and> doc_Id d = i then patched p d else d) = doc_Collection d" for d by (simp add: patched_def)
  moreover have "doc_Id (if doc_Collection d \<in> set ItemCache \<and> doc_Id d = i then patched p d else d) = doc_Id d" for d by (simp add: patched_def)
  ultimately have h2: "?hidden (?upd p docs) = ?hidden docs" for docs by (simp only: set_map ball_simps)
  have hid: "?hidden (db_documents (cache_of w'))" unfolding docs4 p(2) h2 docs1 by (rule h1)
  obtain db0 where items: "tb_items (data_of w') = map (\<lambda>r. if row_ItemId r = i then patch_item db0 patch r else r) (tb_items (data_of w2))"
    using ModifyItem_Inr[OF on_data_call[OF keeps_modify_item 3]] assms(2) c4(2) by auto
  have "\<forall>r\<in>set (tb_items (data_of w')). row_ItemId r = i \<longrightarrow> row_IsHidden r" unfolding items set_map ball_simps using assms(2) by (simp add: patch_item_def)
  moreover have "unlisted i w'" by (rule unlistedI) (use hid in blast)
  moreover have "?rest (db_documents (cache_of w')) = ?rest (db_documents (cache_of w))" by (simp only: docs1 p(2) docs4 rest)
  ultimately show ?thesis using latest_not_hidden[of w' i] by blast
qed

definition hide_patch :: ItemPatch where
  "hide_patch = \<lparr>ip_IsHidden = Some True, ip_Categories = None, ip_Timestamp = None, ip_Labels = JNull, ip_Comment = None\<rparr>"

lemma update_run:
  "db_faults c = [] \<Longrightarrow> \<exists>c'. UpdateScores ItemCache None i \<lparr>sp_IsHidden = Some h, sp_Categories = None, sp_Score = None\<rparr> c = (Inr (), c') \<and> db_faults c' = []"
  by (simp add: UpdateScores_def update_documents_def sql_no_fault Let_def io_bind_def io_return_def ItemCache_def)

lemma modify_item_run:
  assumes p: "ip_IsHidden p = Some h" "ip_Categories p = None" "ip_Labels p = JNull" and i: "rq_path rq ''item-id'' = i" "i \<noteq> []"
    and quiet: "db_faults (data_of w) = []" "db_faults (cache_of w) = []"
  shows "\<exists>w'. serve (modifyItem s rq (Inr p)) w = (ROk (BSuccess 1), w')"
proof -
  let ?hide = "\<lparr>sp_IsHidden = Some h, sp_Categories = None, sp_Score = None\<rparr>"
  obtain c1 where c1: "UpdateScores ItemCache None i ?hide (cache_of w) = (Inr (), c1)" "db_faults c1 = []" using update_run[OF quiet(2)] by blast
  obtain w1 where 1: "on_cache (UpdateScores ItemCache None i ?hide) w = (Inr (), w1)" using on_cache_run[where m = "UpdateScores ItemCache None i ?hide", OF c1(1)] by blast
  have q1: "cache_of w1 = c1" using on_cache_call[OF keeps_cache_calls(2) 1] c1(1) by simp
  have "db_faults (data_of w1) = []" using on_cache_parts(2)[OF keeps_cache_calls(2) 1] quiet(1) by simp
  then obtain d where "ModifyItem i p (data_of w1) = (Inr (), d)" using p i by (simp add: ModifyItem_def sql_no_fault)
  then obtain w2 where 2: "on_data (ModifyItem i p) w1 = (Inr (), w2)" using on_data_run by blast
  let ?v = "[modify_time s LastModifyItemTime i w2]"
  have "db_faults (cache_of w2) = []" using on_data_parts(2)[OF keeps_modify_item 2] q1 c1(2) by simp
  then obtain c3 where "Set ?v (cache_of w2) = (Inr (), c3)" by (simp add: Set_def sql_no_fault)
  then obtain w3 where 3: "on_cache (Set ?v) w2 = (Inr (), w3)" using on_cache_run by blast
  have "serve (modifyItem s rq (Inr p)) w = (ROk (BSuccess 1), w3)" unfolding serve_ok
    using 1 2 3 by (simp add: modifyItem_def i(1) p rest_bind_def ReadEntity_def attempt_def io_lift_def set_or_silent_def rest_reply_def rest_Ok_def rest_return_def)
  then show ?thesis by blast
qed

theorem hidden_item_withdrawn_witness:
  "\<exists>w'. serve (modifyItem sample_server sample_request (Inr hide_patch)) first_world = (ROk (BSuccess 1), w') \<and> unlisted ''shoe'' w'"
proof -
  have i: "rq_path sample_request ''item-id'' = ''shoe''" by (simp add: sample_request_def)
  obtain w' where run: "serve (modifyItem sample_server sample_request (Inr hide_patch)) first_world = (ROk (BSuccess 1), w')"
    using modify_item_run[OF _ _ _ i _ first_world_quiet, of hide_patch True sample_server] by (auto simp: hide_patch_def)
  show ?thesis using run hidden_item_withdrawn[OF run] i by (intro exI[of _ w']) (simp add: hide_patch_def)
qed


section \<open>One feedback of a type\<close>

text \<open>C36. One feedback of a type. Asked for the feedback of a type that a user gave on an item, the server answers with the
  row the store has under that key, its value as the driver reads it back. When there is none the handler does not answer that there is none: it reads past the end of an empty
  result and panics. The stores stay as they are.\<close>

theorem typed_feedback_answer:
  assumes "db_faults (data_of w) = []" and "rq_path rq ''feedback-type'' \<noteq> []"
  shows "serve (getTypedUserItemFeedback s rq) w =
    (case find (\<lambda>f. key_UserId f = rq_path rq ''user-id'' \<and> key_ItemId f = rq_path rq ''item-id'' \<and> key_FeedbackType f = rq_path rq ''feedback-type'')
        (tb_feedback (data_of w)) of
       None \<Rightarrow> RPanic ''index out of range'' | Some f \<Rightarrow> ROk (BOneFeedback (read_back (data_of w) f)), w)"
proof -
  let ?hit = "\<lambda>f. key_UserId f = rq_path rq ''user-id'' \<and> key_ItemId f = rq_path rq ''item-id'' \<and> key_FeedbackType f = rq_path rq ''feedback-type''"
  have "on_data (GetUserItemFeedback (rq_path rq ''user-id'') (rq_path rq ''item-id'') [rq_path rq ''feedback-type'']) w =
      (Inr (map (read_back (data_of w)) (filter ?hit (tb_feedback (data_of w)))), w)"
    using assms(1) by (simp add: on_data_def GetUserItemFeedback_def sql_no_fault scan_feedbacks)
  moreover have "find ?hit xs = (case filter ?hit xs of [] \<Rightarrow> None | f # _ \<Rightarrow> Some f)" for xs :: "Feedback list" by (induction xs) auto
  ultimately show ?thesis using assms(2)
    by (auto simp: serve_def getTypedUserItemFeedback_def rest_bind_def attempt_def rest_reply_def rest_Ok_def split: list.splits)
qed

theorem typed_feedback_answer_witness:
  "serve (getTypedUserItemFeedback sample_server (sample_request\<lparr>rq_path := (\<lambda>_. ''unknown'')\<rparr>)) first_world = (RPanic ''index out of range'', first_world)"
proof -
  have none: "find (\<lambda>f. key_UserId f = ''unknown'' \<and> key_ItemId f = ''unknown'' \<and> key_FeedbackType f = ''unknown'') (tb_feedback two_rows) = None"
    by (simp add: two_rows_def find_None_iff)
  show ?thesis using typed_feedback_answer[OF first_world_quiet(1), of "sample_request\<lparr>rq_path := (\<lambda>_. ''unknown'')\<rparr>" sample_server] none
    by (simp add: first_world_parts)
qed

section \<open>A page of a ranking\<close>

lemma take_unread:
  assumes "distinct (map f xs)" and "finite R"
  shows "take n (filter (\<lambda>x. f x \<notin> R) (take (n + card R) xs)) = take n (filter (\<lambda>x. f x \<notin> R) xs)"
proof -
  let ?m = "n + card R" and ?P = "\<lambda>x. f x \<notin> R"
  have "n \<le> length (filter ?P (take ?m xs))" if "?m < length xs"
  proof -
    have "distinct (map f (filter (\<lambda>x. f x \<in> R) (take ?m xs)))" using assms(1) by (simp add: distinct_map_filter take_map[symmetric])
    then have "length (filter (\<lambda>x. f x \<in> R) (take ?m xs)) = card (f ` set (filter (\<lambda>x. f x \<in> R) (take ?m xs)))"
      using distinct_card by fastforce
    also have "\<dots> \<le> card R" by (rule card_mono[OF assms(2)]) auto
    finally show ?thesis using sum_length_filter_compl[of ?P "take ?m xs"] that by simp
  qed
  then have short: "take n (filter ?P (take ?m xs) @ ys) = take n (filter ?P (take ?m xs))" if "?m < length xs" for ys using that by simp
  show ?thesis
  proof (cases "?m < length xs")
    case True
    have "filter ?P xs = filter ?P (take ?m xs) @ filter ?P (drop ?m xs)" by (metis append_take_drop_id filter_append)
    then show ?thesis using short[OF True, of "filter ?P (drop ?m xs)"] by metis
  qed simp
qed

definition ranking :: "string \<Rightarrow> string \<Rightarrow> string list \<Rightarrow> shop_world \<Rightarrow> Score list" where
  "ranking col sset cats w = map from_document (sort_slice doc_greater (filter (\<lambda>d. doc_Collection d = col \<and> doc_Subset d = sset \<and>
     \<not> doc_IsHidden d \<and> set cats \<subseteq> set (doc_Categories d)) (db_documents (cache_of w))))"

definition already_read :: "RestServer \<Rightarrow> string \<Rightarrow> shop_world \<Rightarrow> string set" where
  "already_read s user w = (if user = [] then {} else
     key_ItemId ` {f \<in> set (tb_feedback (data_of w)). key_UserId f = user \<and> fb_Timestamp f \<le> config_Now s w})"

lemma read_items_run:
  assumes "db_faults (data_of w) = []"
  shows "read_items s user w = (Inr (already_read s user w), w)"
  using assms GetUserFeedback_run[OF assms, of user "Some (config_Now s w)" "[]"]
  by (auto simp: image_image read_items_def already_read_def rest_return_def rest_bind_def attempt_def on_data_def types_match_def opt_ge_def)

lemma ranking_slice:
  assumes "db_faults (cache_of w) = []" and "0 \<le> offset" and "offset < fin"
  shows "on_cache (SearchScores col sset cats offset fin) w = (Inr (take (nat (fin - offset)) (drop (nat offset) (ranking col sset cats w))), w)"
  using assms by (simp add: on_cache_def SearchScores_def sql_no_fault limited_def ranking_def take_map drop_map)

lemma ranking_distinct: "distinct (map sc_Id (ranking col sset cats w))"
proof -
  let ?hits = "filter (\<lambda>d. doc_Collection d = col \<and> doc_Subset d = sset \<and> \<not> doc_IsHidden d \<and> set cats \<subseteq> set (doc_Categories d)) (db_documents (cache_of w))"
  have "distinct (map doc_key ?hits)" using world_ok(2)[of w] by (simp add: cache_ok_def distinct_map_filter)
  then have "distinct (map doc_Id ?hits)" by (auto simp: distinct_map doc_key_def inj_on_def)
  moreover have "mset (map doc_Id (sort_slice doc_greater ?hits)) = mset (map doc_Id ?hits)" by simp
  ultimately have "distinct (map doc_Id (sort_slice doc_greater ?hits))" using mset_eq_imp_distinct_iff by blast
  then show ?thesis by (simp add: ranking_def comp_def from_document_def)
qed

text \<open>C6. A page of a ranking. With a page size \<open>n\<close> and an offset that fit, a ranking is answered with its next \<open>n\<close> visible entries of the
  asked categories, best first, that the named user has no feedback on: enough entries are read that removing those never makes the
  page short while unread entries remain. The offset counts the entries that were read too, so that consecutive pages can repeat entries.\<close>

theorem ranking_page:
  assumes "ParseInt rq ''offset'' 0 = Inr offset" and "ParseInt rq ''n'' (DefaultN s) = Inr n" and "0 \<le> offset" and "0 < n"
    and "db_faults (data_of w) = []" and "db_faults (cache_of w) = []"
    and "offset + n + int (card (already_read s (QueryParameter rq ''user-id'') w)) < 2 ^ 63"
  shows "serve (SearchDocuments s col sset cats None rq) w =
    (ROk (BScores (take (nat n) (filter (\<lambda>d. sc_Id d \<notin> already_read s (QueryParameter rq ''user-id'') w)
       (drop (nat offset) (ranking col sset cats w))))), w)"
proof -
  let ?u = "QueryParameter rq ''user-id''"
  let ?R = "already_read s ?u w" and ?D = "drop (nat offset) (ranking col sset cats w)"
  have fin: "finite ?R" by (simp add: already_read_def)
  have i1: "int64 (offset + n) = offset + n" and i2: "int64 (offset + n + int (card ?R)) = offset + n + int (card ?R)"
    using assms(3,4,7) by (auto intro!: int64_id)
  have k: "nat (n + int (card ?R)) = nat n + card ?R" using assms(4) by simp
  have search: "on_cache (SearchScores col sset cats offset (offset + n + int (card ?R))) w = (Inr (take (nat n + card ?R) ?D), w)"
    using ranking_slice[OF assms(6,3), of "offset + n + int (card ?R)"] assms(4) k by (simp add: add.assoc)
  have upto: "(if 0 < offset + n \<and> ?R \<noteq> {} then int64 (offset + n + int (card ?R)) else offset + n) = offset + n + int (card ?R)"
    using i2 assms(3,4) by auto
  have "distinct (map sc_Id ?D)" using ranking_distinct by (simp add: drop_map[symmetric] distinct_drop)
  note page = take_unread[OF this fin, of "nat n"]
  have shorten: "(if 0 < n \<and> n < int (length xs) then take (nat n) xs else xs) = take (nat n) xs" for xs :: "Score list"
    using assms(4) by auto
  have unread: "(if ?u \<noteq> [] then filter (\<lambda>d. sc_Id d \<notin> ?R) xs else xs) = filter (\<lambda>d. sc_Id d \<notin> ?R) xs" for xs by (cases "?u = []") (simp_all add: already_read_def)
  show ?thesis
    by (simp only: serve_ok SearchDocuments_def rest_bind_def query_int_def attempt_def io_lift_def assms(1,2) read_items_run[OF assms(5)]
        i1 upto search unread page shorten Let_def prod.case sum.case option.case rest_reply_def rest_Ok_def)
qed

definition popular :: "string \<Rightarrow> fl \<Rightarrow> SQLDocument" where
  "popular i v = to_document (\<lambda>t. t) NonPersonalized ''trending'' (zero_Score\<lparr>sc_Id := i, sc_Score := v, sc_Categories := ['''']\<rparr>)"

definition trending_world :: shop_world where
  "trending_world = mk_world two_rows ((empty_cache SQLite (\<lambda>t. t) None [])\<lparr>db_documents := [popular ''hat'' (Fin 1), popular ''shoe'' (Fin 2)]\<rparr>) 10"

lemma trending_world_parts:
  "data_of trending_world = two_rows" "db_documents (cache_of trending_world) = [popular ''hat'' (Fin 1), popular ''shoe'' (Fin 2)]"
  "db_faults (cache_of trending_world) = []"
  unfolding trending_world_def using two_rows_ok(1) by (simp_all add: cache_ok_def empty_cache_def popular_def to_document_def doc_key_def)

lemma atoi_empty: "atoi [] = None"
  by code_simp

theorem ranking_page_witness:
  "\<exists>page. serve (SearchDocuments sample_server NonPersonalized ''trending'' [''''] None sample_request) trending_world =
     (ROk (BScores page), trending_world) \<and> map sc_Id page = [''shoe'', ''hat'']"
proof -
  have ids: "map sc_Id (ranking NonPersonalized ''trending'' [''''] trending_world) = [''shoe'', ''hat'']"
    unfolding ranking_def trending_world_parts by code_simp
  have q: "ParseInt sample_request n k = Inr k" for n k
    by (simp add: ParseInt_def sample_request_def QueryParameter_def atoi_empty)
  have r: "already_read sample_server (QueryParameter sample_request ''user-id'') trending_world = {}"
    by (simp add: already_read_def sample_request_def QueryParameter_def)
  have n: "DefaultN sample_server = 10" by (simp add: sample_server_def)
  have f: "db_faults (data_of trending_world) = []" using two_rows_ok(2) trending_world_parts(1) by simp
  show ?thesis using ranking_page[OF q q _ _ f trending_world_parts(3), of sample_server NonPersonalized "''trending''" "['''']"] ids
    by (simp add: r n take_map[symmetric])
qed

section \<open>Feedback wakes the worker\<close>

lemma keeps_Set [simp]: "keeps cache_ok (Set vs)"
  by (rule keeps_cache_calls)

lemma store_Get:
  assumes "db_faults (cache_of w) = []"
  shows "cc_Get store_cache_client name w = (case map_of (db_values (cache_of w)) name of
    Some x \<Rightarrow> \<lparr>rv_value = x, rv_err = None, rv_exists = True\<rparr> | None \<Rightarrow> \<lparr>rv_value = [], rv_err = None, rv_exists = False\<rparr>, w)"
  using Get_no_fault[OF assms, of name] by (simp add: store_cache_client_def)

lemma store_get_time:
  assumes "over_stores (p_env p)" and "db_faults (cache_of w) = []"
  shows "get_time p n w = (case map_of (db_values (cache_of w)) n of None \<Rightarrow> Inr zero_time | Some t \<Rightarrow> parse_time p t, w)"
  using assms store_Get[OF assms(2), of n] by (auto simp: get_time_def over_stores_def rv_Time_def split: option.splits)

lemma store_get_string:
  assumes "over_stores env" and "db_faults (cache_of w) = []"
  shows "get_string env n w = (Inr (case map_of (db_values (cache_of w)) n of None \<Rightarrow> [] | Some t \<Rightarrow> t), w)"
  using assms store_Get[OF assms(2), of n] by (auto simp: get_string_def over_stores_def rv_String_def split: option.splits)

text \<open>A user who was modified after the recommendation was cached.\<close>

lemma modified_out_of_date:
  assumes "over_stores (p_env p)" and "db_faults (cache_of w) = []" and "\<forall>v m. parse_time p v \<noteq> Inl (Panic m)"
    and "map_of (db_values (cache_of w)) (Key [LastModifyUserTime, user]) = Some v" and "parse_time p v = Inr a"
    and "\<forall>t w'. get_time p (Key [RecommendUpdateTime, user]) w = (Inr t, w') \<longrightarrow> t \<le> a"
  shows "checkRecommendCacheOutOfDate p user w = (Inr True, w)"
proof -
  have search: "\<exists>items. io_try (cc_SearchScores (env_cache (p_env p)) RecommendCache user [] 0 (- 1)) w = (Inr items, w)"
    using assms(1,2) by (simp add: over_stores_def store_cache_client_def on_cache_def SearchScores_def sql_no_fault io_try_def)
  have str: "io_try (get_string (p_env p) (Key [RecommendDigest, user])) w = (Inr (Some d), w)"
    if "d = (case map_of (db_values (cache_of w)) (Key [RecommendDigest, user]) of None \<Rightarrow> [] | Some t \<Rightarrow> t)" for d
    using that store_get_string[OF assms(1,2)] by (simp add: io_try_def)
  have active: "io_try (get_time p (Key [LastModifyUserTime, user])) w = (Inr (Some a), w)"
    using store_get_time[OF assms(1,2)] assms(4,5) by (simp add: io_try_def)
  obtain r where r: "get_time p (Key [RecommendUpdateTime, user]) w = (r, w)" and np: "\<forall>m. r \<noteq> Inl (Panic m)"
    using store_get_time[OF assms(1,2), of "Key [RecommendUpdateTime, user]"] assms(3) by (auto split: option.splits)
  obtain u where upd: "io_try (get_time p (Key [RecommendUpdateTime, user])) w = (Inr u, w)" and u: "\<forall>t. u = Some t \<longrightarrow> t \<le> a"
  proof (cases r)
    case (Inl e)
    then have "io_try (get_time p (Key [RecommendUpdateTime, user])) w = (Inr None, w)" using r np by (cases e) (simp_all add: io_try_def)
    then show ?thesis using that by simp
  next
    case (Inr t)
    then show ?thesis using r assms(6) that[of "Some t"] by (simp add: io_try_def)
  qed
  have clk: "clock p w = (Inr (time_of w), w)" using assms(1) by (simp add: clock_def over_stores_def)
  have due: "\<not> a < t" if "u = Some t" for t using u that by auto
  show ?thesis using search
    by (auto simp: checkRecommendCacheOutOfDate_def io_bind_def str[OF refl] active upd clk io_return_def Let_def due split: option.splits)
qed

lemma Set_quiet: "Set vs c = (r, c') \<Longrightarrow> db_faults c = [] \<Longrightarrow> db_faults c' = []"
  by (auto simp: Set_def sql_no_fault io_return_def split: if_splits)

lemma find_same: "x \<in> set xs \<Longrightarrow> P x \<Longrightarrow> (\<And>y. y \<in> set xs \<Longrightarrow> g y = c) \<Longrightarrow> \<exists>y. find P xs = Some y \<and> g y = c"
  by (induction xs) auto

text \<open>C5. Feedback wakes the worker. When a request that posts feedback is answered with success, every user of the batch is due: the
  worker's next look at the user finds the cached recommendation out of date, whatever is cached and however long it could still
  live, as long as the recommendation was computed no later than the feedback arrived.\<close>

theorem feedback_makes_due:
  assumes "serve (insertFeedback s overwrite (Inr fs)) w = (ROk b, w')" and "f \<in> set fs" and "set_order (env_slice (s_env s))"
    and "over_stores (p_env p)" and "\<forall>v m. parse_time p v \<noteq> Inl (Panic m)" and "parse_time p (s_time_string s (time_of w)) = Inr (time_of w)"
    and "\<forall>t w''. get_time p (Key [RecommendUpdateTime, key_UserId f]) w = (Inr t, w'') \<longrightarrow> t \<le> time_of w"
    and "db_faults (cache_of w) = []"
  shows "checkRecommendCacheOutOfDate p (key_UserId f) w' = (Inr True, w')"
proof -
  let ?slice = "env_slice (s_env s)"
  let ?vs = "\<lambda>w. map (\<lambda>u. modify_time s LastModifyUserTime u w) (?slice (remdups (map key_UserId fs))) @
      map (\<lambda>i. modify_time s LastModifyItemTime i w) (?slice (remdups (map key_ItemId fs)))"
  have pf: "proceeds (to_data_feedbacks s fs)" unfolding to_data_feedbacks_def
    by (intro proceeds_fold proceeds_bind proceeds_attempt proceeds_return quiet_statuses)
  have ps: "proceeds (\<lambda>w. attempt InternalServerError (on_cache (Set (?vs w))) w)" by (rule proceeds_world) simp
  obtain feedback w0 w1 where conv: "to_data_feedbacks s fs w = (Inr feedback, w0)"
    and ins: "on_data (BatchInsertFeedback ?slice feedback (AutoInsertUser s) (AutoInsertItem s) overwrite) w0 = (Inr (), w1)"
    and set: "on_cache (Set (?vs w1)) w1 = (Inr (), w')"
    using assms(1) unfolding serve_ok insertFeedback_def Let_def
    by (auto simp: bind_ok pf ps ReadEntity_def attempt_Inr attempt_ok)
  have w0: "w0 = w"
  proof -
    have "rest_fold (\<lambda>f acc. rest_bind (attempt BadRequest (io_lift (ToDataFeedback s f))) (\<lambda>d. rest_return (acc @ [d]))) fs acc w = (Inr feedback, w0) \<Longrightarrow> w0 = w" for acc
      by (induction fs arbitrary: acc) (auto simp: rest_bind_Inr attempt_Inr)
    then show ?thesis using conv by (simp add: to_data_feedbacks_def)
  qed
  note d = on_data_parts[OF keeps_insert_feedback ins] and c = on_cache_parts[OF keeps_Set set]
  have time: "time_of w1 = time_of w" using d(3) w0 by simp
  have vals: "cv_value v = s_time_string s (time_of w)" if "v \<in> set (?vs w1)" for v
    using that time by (auto simp: modify_time_def cache_Time_def)
  have "key_UserId f \<in> set (?slice (remdups (map key_UserId fs)))" using assms(2,3) by (simp add: set_order_def)
  then have mem: "modify_time s LastModifyUserTime (key_UserId f) w1 \<in> set (?vs w1)" by simp
  have key: "cv_name (modify_time s LastModifyUserTime (key_UserId f) w1) = Key [LastModifyUserTime, key_UserId f]"
    by (simp add: modify_time_def cache_Time_def)
  obtain v where v: "find (\<lambda>v. cv_name v = Key [LastModifyUserTime, key_UserId f]) (?vs w1) = Some v" "cv_value v = s_time_string s (time_of w)"
    using find_same[of _ "?vs w1" "\<lambda>v. cv_name v = Key [LastModifyUserTime, key_UserId f]" cv_value, OF mem key vals] by blast
  have none: "find (\<lambda>v. cv_name v = Key [RecommendUpdateTime, key_UserId f]) (?vs w1) = None"
    by (auto simp: find_None_iff modify_time_def cache_Time_def Key_two split: if_splits)
  note call = on_cache_call[OF keeps_Set set]
  have nf: "db_faults (cache_of w') = []"
    using Set_quiet[OF call] d(2) w0 assms(8) by simp
  have stored: "map_of (db_values (cache_of w')) (Key [LastModifyUserTime, key_UserId f]) = Some (s_time_string s (time_of w))"
    using db_values_Set[OF call] v by simp
  have "map_of (db_values (cache_of w')) (Key [RecommendUpdateTime, key_UserId f]) = map_of (db_values (cache_of w)) (Key [RecommendUpdateTime, key_UserId f])"
    using db_values_Set[OF call] none d(2) w0 by simp
  then have "\<forall>t w''. get_time p (Key [RecommendUpdateTime, key_UserId f]) w' = (Inr t, w'') \<longrightarrow> t \<le> time_of w"
    using assms(7) unfolding store_get_time[OF assms(4) nf] store_get_time[OF assms(4,8)] by simp
  then show ?thesis by (rule modified_out_of_date[OF assms(4) nf assms(5) stored assms(6)])
qed

definition due_worker :: "(shop_world, unit) Pipeline" where
  "due_worker = \<lparr>p_env = store_env, p_Config = sample_config, ChatCompletionModel = [], time_string = FormatInt,
     parse_time = (\<lambda>t. case atoi t of Some n \<Rightarrow> Inr n | None \<Rightarrow> Inl (Error t)),
     MatrixFactorizationItems = None, MatrixFactorizationUsers = None, ClickThroughRateModel = None,
     p_rerank = mock_lib, dontskipColdStartUsers = False\<rparr>"

definition posted_like :: rest_Feedback where
  "posted_like = \<lparr>key_FeedbackType = ''like'', key_UserId = ''ann'', key_ItemId = ''shoe'', rf_Value = Fin 1, rf_Timestamp = [], rf_Comment = []\<rparr>"

lemma posted_like_data: "ToDataFeedback s posted_like = Inr \<lparr>key_FeedbackType = ''like'', key_UserId = ''ann'', key_ItemId = ''shoe'',
    fb_Value = Fin 1, fb_Timestamp = zero_time, fb_Updated = zero_time, fb_Comment = []\<rparr>"
  by (simp add: ToDataFeedback_def posted_like_def)

theorem feedback_makes_due_witness:
  "\<exists>w'. serve (insertFeedback sample_server False (Inr [posted_like])) first_world = (ROk (BSuccess 1), w') \<and>
     checkRecommendCacheOutOfDate due_worker ''ann'' w' = (Inr True, w')"
proof -
  let ?f = "\<lparr>key_FeedbackType = ''like'', key_UserId = ''ann'', key_ItemId = ''shoe'', fb_Value = Fin 1, fb_Timestamp = zero_time,
    fb_Updated = zero_time, fb_Comment = []\<rparr>"
  let ?vs = "\<lambda>w. [modify_time sample_server LastModifyUserTime ''ann'' w, modify_time sample_server LastModifyItemTime ''shoe'' w]"
  have slice: "env_slice (s_env sample_server) = (\<lambda>xs. xs)" "AutoInsertUser sample_server" "AutoInsertItem sample_server"
    by (simp_all add: sample_server_def store_env_def)
  have order: "set_order (\<lambda>xs. xs)" by (simp add: set_order_def)
  obtain db where "BatchInsertFeedback (\<lambda>xs. xs) [?f] True True False (data_of first_world) = (Inr (), db)"
    using BatchInsertFeedback_run[OF first_world_quiet(1) order, of "[?f]" True True False] by (auto simp: Let_def)
  then obtain w1 where ins: "on_data (BatchInsertFeedback (\<lambda>xs. xs) [?f] True True False) first_world = (Inr (), w1)" using on_data_run by blast
  have "db_faults (cache_of w1) = []" using on_data_parts(2)[OF keeps_insert_feedback ins] first_world_quiet(2) by simp
  then obtain c where "Set (?vs w1) (cache_of w1) = (Inr (), c)" by (simp add: Set_def sql_no_fault)
  then obtain w' where set: "on_cache (Set (?vs w1)) w1 = (Inr (), w')" using on_cache_run by blast
  have ids: "key_UserId posted_like = ''ann''" "key_ItemId posted_like = ''shoe''" by (simp_all add: posted_like_def)
  have run: "serve (insertFeedback sample_server False (Inr [posted_like])) first_world = (ROk (BSuccess 1), w')" unfolding serve_ok
    by (simp add: insertFeedback_def Let_def rest_bind_def ReadEntity_def attempt_def io_lift_def to_data_feedbacks_def posted_like_data
        rest_return_def slice ids ins set rest_reply_def rest_Ok_def)
  have env: "p_env due_worker = store_env" by (simp add: due_worker_def)
  have np: "\<forall>v m. parse_time due_worker v \<noteq> Inl (Panic m)" by (auto simp: due_worker_def split: option.splits)
  have "atoi (FormatInt 10) = Some 10" by code_simp
  then have parse: "parse_time due_worker (s_time_string sample_server (time_of first_world)) = Inr (time_of first_world)"
    by (simp add: due_worker_def sample_server_def first_world_parts)
  have vals: "db_values (cache_of first_world) = []" unfolding first_world_def using two_rows_ok(1) by (simp add: cache_ok_def empty_cache_def)
  have old: "\<forall>t w''. get_time due_worker n first_world = (Inr t, w'') \<longrightarrow> t \<le> time_of first_world" for n
    using store_get_time[of due_worker first_world n] store_env_ok(1) first_world_quiet(2) vals by (simp add: env first_world_parts zero_time_def)
  have "checkRecommendCacheOutOfDate due_worker (key_UserId posted_like) w' = (Inr True, w')"
    by (rule feedback_makes_due[OF run, of posted_like]) (use old np parse first_world_quiet order env store_env_ok slice in simp_all)
  then show ?thesis using run ids by auto
qed


section \<open>Requests that only read\<close>

text \<open>A statement that reads may use up a fault; the tables stay.\<close>

definition unchanged :: "('z sql_conn_scheme \<Rightarrow> 'r \<times> 'z sql_conn_scheme) \<Rightarrow> bool" where
  "unchanged m \<longleftrightarrow> (\<forall>db. (snd (m db))\<lparr>db_faults := []\<rparr> = db\<lparr>db_faults := []\<rparr>)"

definition same_stores :: "shop_world \<Rightarrow> shop_world \<Rightarrow> bool" where
  "same_stores w w' \<longleftrightarrow> (data_of w')\<lparr>db_faults := []\<rparr> = (data_of w)\<lparr>db_faults := []\<rparr> \<and>
     (cache_of w')\<lparr>db_faults := []\<rparr> = (cache_of w)\<lparr>db_faults := []\<rparr> \<and> time_of w' = time_of w"

definition reads :: "(shop_world \<Rightarrow> 'r \<times> shop_world) \<Rightarrow> bool" where
  "reads m \<longleftrightarrow> (\<forall>w. same_stores w (snd (m w)))"

named_theorems reads_intro "handlers that only read"

lemma unchanged_sql: "unchanged (sql (\<lambda>db. (f db, db)))"
  by (simp add: unchanged_def sql_def split: list.splits option.splits)

lemma unchanged_basic: "unchanged (io_return x)" "unchanged (io_lift r)"
  by (simp_all add: unchanged_def io_return_def io_lift_def)

lemma unchanged_bind: "unchanged m \<Longrightarrow> (\<And>x. unchanged (f x)) \<Longrightarrow> unchanged (io_bind m f)"
  unfolding unchanged_def io_bind_def by (auto split: prod.splits sum.splits) (metis snd_conv)+

lemma unchanged_if: "unchanged m \<Longrightarrow> unchanged m' \<Longrightarrow> unchanged (if c then m else m')"
  by simp

lemmas unchanged_intros = unchanged_sql unchanged_basic unchanged_bind unchanged_if

lemma unchanged_reads:
  "unchanged (GetUserFeedback u t es)" "unchanged (GetLatestItems n cats)" "unchanged (data_GetItem i)" "unchanged (data_GetUser i)"
  "unchanged (GetItems c n t)" "unchanged (GetUsers c n)" "unchanged (GetFeedback mk uk c n b e ts)" "unchanged (GetItemFeedback now i ts)"
  "unchanged (GetUserItemFeedback u i ts)" "unchanged (SearchScores col ss q lo hi)"
  unfolding GetUserFeedback_def GetLatestItems_def data_GetItem_def data_GetUser_def GetItems_def GetUsers_def GetFeedback_def
    GetItemFeedback_def GetUserItemFeedback_def SearchScores_def
  by (intro unchanged_intros)+

lemma unchanged_ok:
  assumes "unchanged m" and "data_ok db"
  shows "data_ok (snd (m db))"
proof -
  have "data_ok ((snd (m db))\<lparr>db_faults := []\<rparr>)" using data_ok_faults[OF assms(2)] assms(1) by (simp add: unchanged_def)
  from data_ok_faults[OF this, of "db_faults (snd (m db))"] show ?thesis by simp
qed

lemma unchanged_cache_ok:
  assumes "unchanged m" and "cache_ok db"
  shows "cache_ok (snd (m db))"
proof -
  have "cache_ok ((snd (m db))\<lparr>db_faults := []\<rparr>) = cache_ok (db\<lparr>db_faults := []\<rparr>)" using assms(1) by (simp only: unchanged_def)
  then show ?thesis using assms(2) by simp
qed

lemma reads_on_data [reads_intro]:
  assumes "unchanged m"
  shows "reads (on_data m)"
  unfolding reads_def
proof
  fix w
  obtain r db' where m: "m (data_of w) = (r, db')" by force
  then have "data_ok db'" "db'\<lparr>db_faults := []\<rparr> = (data_of w)\<lparr>db_faults := []\<rparr>"
    using unchanged_ok[OF assms, of "data_of w"] assms[unfolded unchanged_def, rule_format, of "data_of w"] by simp_all
  then show "same_stores w (snd (on_data m w))" using m by (simp add: on_data_def same_stores_def)
qed

lemma reads_on_cache [reads_intro]:
  assumes "unchanged m"
  shows "reads (on_cache m)"
  unfolding reads_def
proof
  fix w
  obtain r db' where m: "m (cache_of w) = (r, db')" by force
  then have "cache_ok db'" "db'\<lparr>db_faults := []\<rparr> = (cache_of w)\<lparr>db_faults := []\<rparr>"
    using unchanged_cache_ok[OF assms, of "cache_of w"] assms[unfolded unchanged_def, rule_format, of "cache_of w"] by simp_all
  then show "same_stores w (snd (on_cache m w))" using m by (simp add: on_cache_def same_stores_def)
qed

lemma same_stores_trans: "same_stores w w1 \<Longrightarrow> same_stores w1 w2 \<Longrightarrow> same_stores w w2"
  by (simp add: same_stores_def)

lemma same_stores_refl [simp]: "same_stores w w"
  by (simp add: same_stores_def)

lemma reads_basic [reads_intro]: "reads (rest_return x)" "reads (rest_reply a)" "reads (io_lift r)"
  by (simp_all add: reads_def rest_return_def rest_reply_def io_lift_def)

lemma reads_bind [reads_intro]:
  assumes "reads m" and "\<And>x. reads (f x)"
  shows "reads (rest_bind m f)"
  unfolding reads_def
proof
  fix w
  obtain r w1 where m: "m w = (r, w1)" by force
  then have 1: "same_stores w w1" using assms(1) by (metis reads_def snd_conv)
  show "same_stores w (snd (rest_bind m f w))"
  proof (cases r)
    case (Inr x)
    have "same_stores w1 (snd (f x w1))" using assms(2) by (simp add: reads_def)
    then show ?thesis using same_stores_trans[OF 1] m Inr by (simp add: rest_bind_def)
  qed (use 1 m in \<open>simp add: rest_bind_def\<close>)
qed

lemma reads_attempt [reads_intro]: "reads m \<Longrightarrow> reads (attempt e m)"
  unfolding reads_def attempt_def by (auto split: prod.splits sum.splits go_fail.splits) (metis snd_conv)+

lemma reads_if [reads_intro]: "reads m \<Longrightarrow> reads m' \<Longrightarrow> reads (if c then m else m')"
  by simp

lemma reads_cases [reads_intro]: "(\<And>a b. reads (f a b)) \<Longrightarrow> reads (case p of (a, b) \<Rightarrow> f a b)"
  "reads m \<Longrightarrow> (\<And>x xs. reads (g x xs)) \<Longrightarrow> reads (case l of [] \<Rightarrow> m | x # xs \<Rightarrow> g x xs)"
  by (auto split: prod.splits list.splits)

lemma reads_serve: "reads h \<Longrightarrow> reads (serve h)"
  unfolding reads_def serve_def by (auto split: prod.splits sum.splits) (metis snd_conv)+

lemma reads_Get: "reads (cc_Get store_cache_client name)"
  unfolding reads_def
proof
  fix w
  let ?m = "sql (\<lambda>db. (Inr (map_of (db_values db) name), db))"
  obtain r c where m: "?m (cache_of w) = (r, c)" by force
  then have "cache_ok c" "c\<lparr>db_faults := []\<rparr> = (cache_of w)\<lparr>db_faults := []\<rparr>"
    using unchanged_cache_ok[OF unchanged_sql, of "cache_of w" "\<lambda>db. Inr (map_of (db_values db) name)"]
      unchanged_sql[of "\<lambda>db. Inr (map_of (db_values db) name)", unfolded unchanged_def, rule_format, of "cache_of w"] by simp_all
  then show "same_stores w (snd (cc_Get store_cache_client name w))"
    using m by (auto simp: store_cache_client_def Get_def same_stores_def split: sum.splits option.splits)
qed

lemma reads_last_modified [reads_intro]:
  assumes "reads h"
  shows "reads (SetLastModified s key h)"
  unfolding reads_def
proof
  fix w
  obtain v w1 where g: "cc_Get store_cache_client key w = (v, w1)" by force
  then have 1: "same_stores w w1" using reads_Get[of key] by (metis reads_def snd_conv)
  have "same_stores w1 (snd (h w1))" using assms by (simp add: reads_def)
  then show "same_stores w (snd (SetLastModified s key h w))" using same_stores_trans[OF 1] g
    by (auto simp: SetLastModified_def split: sum.splits prod.splits)
qed

lemma reads_parts [reads_intro]: "reads (query_int rq n k)" "reads (read_items s u)" "reads (slice_from i xs)"
proof -
  show "reads (query_int rq n k)" unfolding query_int_def by (intro reads_intro)
  have "reads (rest_bind (attempt InternalServerError (on_data (GetUserFeedback u (Some t) []))) (\<lambda>feedback. rest_return (set (map key_ItemId feedback))))" for t
    by (intro reads_intro unchanged_reads)
  then show "reads (read_items s u)" by (simp add: reads_def read_items_def rest_return_def)
  show "reads (slice_from i xs)" unfolding slice_from_def by (intro reads_intro)
qed

lemma reads_answer [reads_intro]: "unchanged m \<Longrightarrow> reads (answer_feedback m)"
  unfolding answer_feedback_def by (intro reads_intro)

lemma reads_search [reads_intro]: "reads (SearchDocuments s col ss cats None rq)"
  unfolding SearchDocuments_def Let_def option.case by (intro reads_intro unchanged_reads)

lemma reads_latest: "reads (getLatest s rq)"
  unfolding getLatest_def Let_def by (intro reads_intro unchanged_reads)

lemma reads_rankings: "reads (getNonPersonalized s rq)" "reads (getItemToItem s rq)" "reads (getUserToUser s rq)" "reads (getItemNeighbors s rq)"
  "reads (getUserNeighbors s rq)" "reads (getCollaborativeFiltering s rq)"
  unfolding getNonPersonalized_def getItemToItem_def getUserToUser_def getItemNeighbors_def getUserNeighbors_def getCollaborativeFiltering_def Let_def
  by (intro reads_intro)+

lemma reads_rows: "reads (rest_getUser s rq)" "reads (rest_getUsers s rq)" "reads (rest_getItem s rq)" "reads (rest_getItems s rq)"
  unfolding rest_getUser_def rest_getUsers_def rest_getItem_def rest_getItems_def Let_def
  by (intro reads_intro unchanged_reads)+

lemma reads_feedback: "reads (getFeedback s rq)" "reads (getTypedFeedback s rq)" "reads (getTypedFeedbackByUser s rq)" "reads (getFeedbackByUser s rq)"
  "reads (getTypedFeedbackByItem s rq)" "reads (getFeedbackByItem s rq)" "reads (rest_getUserItemFeedback s rq)" "reads (getTypedUserItemFeedback s rq)"
proof -
  have "reads (rest_bind (attempt InternalServerError (on_data (GetFeedback mk uk c n b e ts))) (\<lambda>(cursor, feedback). rest_reply (rest_Ok (BFeedbackIterator cursor feedback))))"
    for mk uk c n b e ts by (intro reads_intro unchanged_reads)
  note page_read = this[unfolded reads_def, rule_format]
  have page: "reads (feedback_page s rq ts)" for ts unfolding feedback_page_def
    by (intro reads_bind reads_parts(1)) (unfold reads_def, intro allI, rule page_read)
  show "reads (getFeedback s rq)" "reads (getTypedFeedback s rq)" unfolding getFeedback_def getTypedFeedback_def by (rule page)+
  have answers: "reads (answer_feedback (GetUserFeedback u t es))" "reads (answer_feedback (GetItemFeedback now i ts))" for u t es now i ts
    by (intro reads_intro unchanged_reads)+
  show "reads (getFeedbackByUser s rq)" "reads (getTypedFeedbackByItem s rq)" "reads (getFeedbackByItem s rq)"
    using answers by (simp_all add: reads_def getFeedbackByUser_def getTypedFeedbackByItem_def getFeedbackByItem_def)
  show "reads (getTypedFeedbackByUser s rq)"
    using answers(1) by (simp add: reads_def getTypedFeedbackByUser_def rest_reply_def split: prod.splits option.splits)
  show "reads (rest_getUserItemFeedback s rq)" unfolding rest_getUserItemFeedback_def by (intro reads_intro unchanged_reads)
  show "reads (getTypedUserItemFeedback s rq)" unfolding getTypedUserItemFeedback_def Let_def by (intro reads_intro unchanged_reads)
qed

lemma reads_health: "reads (checkLive s)" "reads (checkReady s)"
  unfolding checkLive_def[abs_def] checkReady_def[abs_def] Let_def by (auto simp: reads_def rest_reply_def split: sum.splits)

text \<open>C7. Reading changes nothing. Whatever a \<^verbatim>\<open>GET\<close> request asks for and whichever statements fail, the data store, the cache and
  the clock are afterwards as they were, except on the routes of recommendations, which record what they show as feedback when
  the client asks for it.\<close>

theorem get_requests_read_only:
  assumes "(''GET'', path, ep) \<in> set routes" and "ep \<noteq> EP_getRecommend" and "api s (''GET'', path, ep) rq en w = (a, w')"
  shows "same_stores w w'"
proof -
  have "ep \<in> {EP_checkLive, EP_checkReady, EP_getUser, EP_getUsers, EP_getItems, EP_getItem, EP_getFeedback, EP_getUserItemFeedback, EP_getTypedFeedback,
      EP_getTypedUserItemFeedback, EP_getTypedFeedbackByUser, EP_getFeedbackByUser, EP_getTypedFeedbackByItem, EP_getFeedbackByItem,
      EP_getCollaborativeFiltering, EP_getLatest, EP_getNonPersonalized, EP_getItemToItem, EP_getUserToUser, EP_getItemNeighbors, EP_getUserNeighbors}"
    using assms(1,2) by (auto simp: routes_defs)
  then have "reads (handle s rq en ep)"
    by (elim insertE emptyE) (simp_all add: reads_health reads_rows reads_feedback reads_rankings reads_latest)
  then have "reads (AuthFilter s path rq (handle s rq en ep))" unfolding AuthFilter_def by (intro reads_intro)
  from reads_serve[OF this] show ?thesis using assms(3) by (simp add: reads_def api_def) (metis snd_conv)
qed

theorem get_requests_read_only_witness:
  "same_stores first_world (snd (api sample_server (''GET'', ''/api/users'', EP_getUsers) sample_request no_entity first_world))"
  by (rule get_requests_read_only[OF _ _ prod.collapse[symmetric], of "''/api/users''" EP_getUsers]) (simp_all add: routes_defs)

end
