(* ===== verification/Spec2Isabelle.thy ===== *)
theory Spec2Isabelle
  imports Bruteforce Unified_Index Fashion_Auth Traits_Properties Fashion_Api Shop_Stores Non_Personalized Dataset_Split Job_Scheduler Rest_Properties
begin

text \<open>
  A verification development of the AI fashion recommender: the recommender engine Gorse (Go) and the fashion front end that is
  built on it. File names below are those of the repository under \<^verbatim>\<open>src/\<close>.

  \<^bold>\<open>The program.\<close> A data store keeps items, users and feedback (\<^verbatim>\<open>storage/data\<close>); a cache keeps ranked scores, values, queues and
  time series (\<^verbatim>\<open>storage/cache\<close>). Workers run a pipeline (\<^verbatim>\<open>worker/pipeline.go\<close>) that computes a recommendation for every user whose
  cached one is out of date and writes it to the cache; it and the server share the recommender of \<^verbatim>\<open>logics/recommend.go\<close>.
  The REST server (\<^verbatim>\<open>server/rest.go\<close>) takes items, users and feedback and answers with rankings and recommendations. The data set the models are
  trained on is built and split in \<^verbatim>\<open>dataset\<close>; \<^verbatim>\<open>common\<close> holds heaps, exact search, byte streams, expressions and
  parallel execution. The fashion front end (\<^verbatim>\<open>fashion-recommend\<close>) adds accounts, likes, comments, an AI chat and traits extracted from its
  conversations, and calls Gorse over HTTP.

  \<^bold>\<open>Conventions.\<close> A call that can fail returns \<open>go_fail + 'a\<close>, where \<open>go_fail\<close> is an error or a panic; a stateful call is a function from the
  state to the result and the next state, also after a failure. \<^verbatim>\<open>int\<close> is \<open>int\<close> with the wrap-around of \<open>int64\<close> (or \<open>int32\<close>) written where it can
  occur. A floating-point number is the rational number it denotes, an infinity or NaN, and every operation rounds (\<open>rnd64\<close>, \<open>rnd32\<close>; the
  compiler does not fuse operations, as on amd64). Times are nanoseconds. A Go map is an association list whose order of iteration is a parameter.
  A statement of a database can fail: the state carries a list of faults, one taken per statement, so that
  theorems range over every pattern of failures.

  \<^bold>\<open>The theories\<close>, in the order of their imports:
  \<^item> \<^verbatim>\<open>Go_Prelude\<close>: failures, slices, fixed-width integers, the automation the others share. \<^verbatim>\<open>Go_Float\<close>, \<^verbatim>\<open>Go_Format\<close>: rounding,
    comparison and decimal text of floats. \<^verbatim>\<open>Go_Sort\<close>: \<^verbatim>\<open>sort.Slice\<close> as insertion sort (the permutation Go yields for equal keys is
    one of those its documentation allows). \<^verbatim>\<open>Go_Json\<close>, \<^verbatim>\<open>Go_Base64\<close>: JSON documents, the encoding of cursors.
  \<^item> \<^verbatim>\<open>Go_Encoding\<close>: the byte streams of \<^verbatim>\<open>common/encoding\<close> with readers that deliver in pieces; locale \<open>codec\<close>, the contract of an encoder with
    its decoder, interpreted for strings here and for the indices below.
  \<^item> \<^verbatim>\<open>Go_Heap\<close>: \<^verbatim>\<open>common/heap\<close>, with the locale \<open>min_queue\<close> as its contract; the k best elements a \<^verbatim>\<open>TopKFilter\<close> keeps. \<^verbatim>\<open>Bruteforce\<close>: exact search of
    \<^verbatim>\<open>common/ann/bruteforce.go\<close>.
  \<^item> \<^verbatim>\<open>Dict_Index\<close>, \<^verbatim>\<open>Unified_Index\<close>: the dictionaries of \<^verbatim>\<open>dataset\<close> (locale \<open>string_index\<close>, interpreted for both) and the encoding space of
    factorization machines, with the round trips through their files.
  \<^item> \<^verbatim>\<open>Go_Random\<close>, \<^verbatim>\<open>Recommend_Dataset\<close>, \<^verbatim>\<open>Dataset_Split\<close>: sampling without replacement (\<^verbatim>\<open>common/util/random.go\<close>) and \<^verbatim>\<open>dataset/dataset.go\<close>. The rows and
    dictionaries agree after any additions; the leave-one-out split puts one feedback of every chosen user into the test set and all others into the
    training set; the split by time never trains on what is later than what it tests; sampled negatives are distinct and not positive.
  \<^item> \<^verbatim>\<open>Job_Scheduler\<close>: \<^verbatim>\<open>common/parallel/parallel.go\<close> as step relations of workers and detachable jobs; every job runs exactly once in every interleaving,
    the bound on detached jobs holds and a run returns.
  \<^item> \<^verbatim>\<open>Feedback_Expression\<close>, \<^verbatim>\<open>Gorse_Data\<close>, \<^verbatim>\<open>Gorse_Config\<close>: expressions over feedback types and their text, the records of
    \<^verbatim>\<open>storage/data/database.go\<close>, \<^verbatim>\<open>storage/cache/database.go\<close> and \<^verbatim>\<open>config/config.go\<close>, the digests that make a configuration change visible.
  \<^item> \<^verbatim>\<open>Sql_Base\<close>, \<^verbatim>\<open>Cache_Store\<close>, \<^verbatim>\<open>Data_Store\<close>, \<^verbatim>\<open>Data_Properties\<close>: the SQL stores as tables of rows. Locales \<open>keyed_table\<close>, \<open>fifo\<close>, \<open>score_store\<close> and \<open>cursor_pages\<close> are what clients
    rely on, each interpreted on the store's own operations: queues deliver in order, new scores replace old ones, paging by cursor visits every row once and ends,
    tables stay keyed and typed through any calls and faults, inserted feedback merges with what is stored.
  \<^item> \<^verbatim>\<open>Recommender\<close>, \<^verbatim>\<open>Non_Personalized\<close>, \<^verbatim>\<open>Pipeline\<close>: the recommenders and the worker, over stores and scripts given as an environment. Recommendations hold
    no item twice and none the user has seen or that is hidden; similar items are the best by the definition; the scripts' scores are ranked as configured.
  \<^item> \<^verbatim>\<open>Serving\<close>, \<^verbatim>\<open>Shop_Stores\<close>: the environment filled with the SQL stores, so that theorems cross the components: what the worker caches the server serves; the cache
    is renewed exactly when it has expired; feedback that was inserted hides the item from the next recommendation.
  \<^item> \<^verbatim>\<open>Rest_Server\<close>, \<^verbatim>\<open>Rest_Properties\<close>: every handler, the routes and the key filter of \<^verbatim>\<open>server/rest.go\<close> over both stores. Only a request with the key reaches a handler;
    \<^verbatim>\<open>GET\<close> requests change nothing; deleted and hidden items leave the rankings; posted feedback makes the worker recompute; a page of a ranking is the best unread entries.
  \<^item> \<^verbatim>\<open>Fashion_Auth\<close>, \<^verbatim>\<open>Fashion_DB\<close>, \<^verbatim>\<open>Fashion_Client\<close>, \<^verbatim>\<open>Fashion_Traits\<close>, \<^verbatim>\<open>Traits_Properties\<close>, \<^verbatim>\<open>Fashion_Api\<close>: the front end. Accounts and sessions under every interleaving of
    requests; likes and comments whose counters equal the rows they count (locale \<open>like_counter\<close>, interpreted for products and for comments); trait extraction, its
    thresholds and JSON; the handlers.

  \<^bold>\<open>Parameters.\<close> Third-party and external code is an argument: bcrypt, MD5, the logarithm, the random generator, the JSON text of a value, the parser and the text of dates and durations,
  \<^verbatim>\<open>strings.ToLower\<close> beyond ASCII, the compiled expressions and scripts of operators, rerankers, the language model, the HTTP transport and the order of map iteration.
  Hypotheses about them are named (such as \<open>map_iteration\<close>, \<open>set_order\<close>, \<open>over_stores\<close>) and satisfied by the concrete instances of the witnesses.

  \<^bold>\<open>Termination.\<close> Loops are structural recursion or have a measure. Where Go's loop may not end the model is partial: \<open>sample_loop\<close> draws until enough
  numbers are found and is \<open>None\<close> if the generator never yields them, and its theorem shows that it returns under a hypothesis on the generator; readers of pages take as
  fuel the number of rows, which is enough because every page but the last shortens what is left.

  \<^bold>\<open>Bounds.\<close> Tables have fewer than \<open>2 ^ 63\<close> rows and files fewer than \<open>2 ^ 31\<close> names where a theorem says so. Conditional updates and limits are those of
  the SQL mapper the module file names (a limit or offset that is not positive is left out). Within one request the clock stands still.

  \<^bold>\<open>Not modelled.\<close> The master (\<^verbatim>\<open>master\<close>: scheduling of training, dashboard, gRPC), the node (\<^verbatim>\<open>server/server.go\<close>) and the commands are I/O and
  orchestration. The stores over MongoDB, Redis, ClickHouse and the wire implement the same interfaces over third-party servers; blob, metadata and vector stores are adapters.
  Model training (\<^verbatim>\<open>model/cf\<close>, \<^verbatim>\<open>model/ctr\<close>, \<^verbatim>\<open>common/nn\<close>, \<^verbatim>\<open>common/floats\<close>, \<^verbatim>\<open>common/blas\<close>) and the HNSW index are correct only
  statistically. Generated protocol code, configuration loading, logging, metrics and the parts of the system in other languages (the Python agent, the retrieval service, the web pages)
  are left out, with the handlers that only forward to them. The worker's users are processed one after the other in \<open>Pipeline\<close>; that running
  them in parallel runs each once is \<open>Job_Scheduler\<close>'s theorem.
\<close>

end
